(* ===== verification/Rds_Prelude.thy ===== *)
theory Rds_Prelude
  imports Main "HOL-Library.Word"
begin

text \<open>
  The shared vocabulary of the development: the machine types of the C sources, the return
  codes of \<^verbatim>\<open>include/rdma/fi_errno.h\<close>, byte memory with its read and write laws, the
  little-endian layout of struct fields, and the list facts used by the queue components.
  A \<^verbatim>\<open>size_t\<close> or a virtual address is a \<^typ>\<open>nat\<close>, and every sum the code
  forms in a \<^verbatim>\<open>size_t\<close> that may wrap is written with the wrap-around.
\<close>

unbundle bit_operations_syntax

named_theorems mem_simps \<open>reading and writing byte memory\<close>
named_theorems layout_simps \<open>lengths and field positions of encoded structs\<close>
named_theorems frame_simps \<open>parts of a state an operation leaves alone\<close>

section \<open>Machine types\<close>

type_synonym u8 = "8 word"
type_synonym u16 = "16 word"
type_synonym u32 = "32 word"
type_synonym u64 = "64 word"
type_synonym byte = "8 word"
type_synonym addr = nat
type_synonym memory = "addr \<Rightarrow> byte"

text \<open>The modulus of \<^verbatim>\<open>size_t\<close> arithmetic.\<close>

abbreviation (input) size_max :: nat where
  "size_max \<equiv> 18446744073709551616"

lemma unat_bounds [simp]:
  "unat (w :: u64) < 18446744073709551616" "unat (x :: u32) < 4294967296"
  "unat (y :: u16) < 65536" "unat (z :: u8) < 256"
  by (rule order_less_le_trans [OF unsigned_less], simp)+

section \<open>Return codes\<close>

text \<open>Functions of the provider return \<open>0\<close> or a negated code of \<^verbatim>\<open>fi_errno.h\<close>.\<close>

abbreviation (input) FI_ENOENT :: int where "FI_ENOENT \<equiv> 2"
abbreviation (input) FI_EAGAIN :: int where "FI_EAGAIN \<equiv> 11"
abbreviation (input) FI_ENOMEM :: int where "FI_ENOMEM \<equiv> 12"
abbreviation (input) FI_EBUSY :: int where "FI_EBUSY \<equiv> 16"
abbreviation (input) FI_EINVAL :: int where "FI_EINVAL \<equiv> 22"
abbreviation (input) FI_ENOSPC :: int where "FI_ENOSPC \<equiv> 28"
abbreviation (input) FI_ENOSYS :: int where "FI_ENOSYS \<equiv> 38"
abbreviation (input) FI_ENODATA :: int where "FI_ENODATA \<equiv> 61"
abbreviation (input) FI_EMSGSIZE :: int where "FI_EMSGSIZE \<equiv> 90"
abbreviation (input) FI_ENOPROTOOPT :: int where "FI_ENOPROTOOPT \<equiv> 92"
abbreviation (input) FI_EADDRNOTAVAIL :: int where "FI_EADDRNOTAVAIL \<equiv> 99"
abbreviation (input) FI_ENOBUFS :: int where "FI_ENOBUFS \<equiv> 105"
abbreviation (input) FI_EALREADY :: int where "FI_EALREADY \<equiv> 114"
abbreviation (input) FI_ECANCELED :: int where "FI_ECANCELED \<equiv> 125"
abbreviation (input) FI_ETOOSMALL :: int where "FI_ETOOSMALL \<equiv> 257"
abbreviation (input) FI_EOPBADSTATE :: int where "FI_EOPBADSTATE \<equiv> 258"
abbreviation (input) FI_EBADFLAGS :: int where "FI_EBADFLAGS \<equiv> 260"
abbreviation (input) FI_ENOCQ :: int where "FI_ENOCQ \<equiv> 263"
abbreviation (input) FI_ETRUNC :: int where "FI_ETRUNC \<equiv> 265"
abbreviation (input) FI_ENOAV :: int where "FI_ENOAV \<equiv> 267"

section \<open>Byte memory\<close>

definition mem_read :: "memory \<Rightarrow> addr \<Rightarrow> nat \<Rightarrow> byte list" where
  "mem_read m a n = map (\<lambda>i. m (a + i)) [0..<n]"

definition mem_write :: "memory \<Rightarrow> addr \<Rightarrow> byte list \<Rightarrow> memory" where
  "mem_write m a bs = (\<lambda>x. if a \<le> x \<and> x < a + length bs then bs ! (x - a) else m x)"

lemma length_mem_read [simp, mem_simps]: "length (mem_read m a n) = n"
  by (simp add: mem_read_def)

lemma mem_read_0 [simp, mem_simps]: "mem_read m a 0 = []"
  by (simp add: mem_read_def)

lemma mem_write_Nil [simp, mem_simps]: "mem_write m a [] = m"
  by (rule ext) (auto simp: mem_write_def)

lemma nth_mem_read [mem_simps]: "i < n \<Longrightarrow> mem_read m a n ! i = m (a + i)"
  by (simp add: mem_read_def)

lemma mem_read_write_same [simp, mem_simps]: "mem_read (mem_write m a bs) a (length bs) = bs"
  by (rule nth_equalityI) (simp_all add: mem_read_def mem_write_def)

lemma mem_read_cong: "(\<And>x. a \<le> x \<Longrightarrow> x < a + n \<Longrightarrow> m x = m' x) \<Longrightarrow> mem_read m a n = mem_read m' a n"
  by (simp add: mem_read_def)

lemma mem_read_write_disjoint [mem_simps]:
  "b + length bs \<le> a \<or> a + n \<le> b \<Longrightarrow> mem_read (mem_write m b bs) a n = mem_read m a n"
  by (rule mem_read_cong) (auto simp: mem_write_def)

lemma mem_read_add: "mem_read m a (k + n) = mem_read m a k @ mem_read m (a + k) n"
  by (rule nth_equalityI) (auto simp: mem_read_def nth_append)

lemma take_mem_read [mem_simps]: "take k (mem_read m a n) = mem_read m a (min k n)"
  by (rule nth_equalityI) (auto simp: mem_read_def)

lemma drop_mem_read [mem_simps]: "drop k (mem_read m a n) = mem_read m (a + k) (n - k)"
  by (rule nth_equalityI) (auto simp: mem_read_def add.assoc)

lemma mem_write_outside: "x < a \<or> a + length bs \<le> x \<Longrightarrow> mem_write m a bs x = m x"
  by (auto simp: mem_write_def)

section \<open>Little-endian fields\<close>

fun le_enc :: "nat \<Rightarrow> nat \<Rightarrow> byte list" where
  "le_enc 0 v = []"
| "le_enc (Suc k) v = of_nat v # le_enc k (v div 256)"

fun le_dec :: "byte list \<Rightarrow> nat" where
  "le_dec [] = 0"
| "le_dec (b # bs) = unat b + 256 * le_dec bs"

lemma length_le_enc [simp, layout_simps]: "length (le_enc k v) = k"
  by (induction k arbitrary: v) auto

lemma le_dec_enc: "le_dec (le_enc k v) = v mod 256 ^ k"
proof (induction k arbitrary: v)
  case 0
  then show ?case by simp
next
  case (Suc k)
  have "v mod (256 * 256 ^ k) = 256 * (v div 256 mod 256 ^ k) + v mod 256"
    by (rule mod_mult2_eq)
  then show ?case
    by (simp add: Suc unat_of_nat add.commute)
qed

lemma le_dec_bound: "le_dec bs < 256 ^ length bs"
proof (induction bs)
  case Nil
  then show ?case by simp
next
  case (Cons b bs)
  have "unat b < 256" by simp
  with Cons show ?case unfolding le_dec.simps length_Cons power_Suc by linarith
qed

text \<open>Structs are read field by field: \<open>field off len bs\<close> is the integer stored there.\<close>

definition field :: "nat \<Rightarrow> nat \<Rightarrow> byte list \<Rightarrow> nat" where
  "field off n bs = le_dec (take n (drop off bs))"

lemma field_append1: "off + n \<le> length xs \<Longrightarrow> field off n (xs @ ys) = field off n xs"
  by (simp add: field_def)

lemma field_append2: "length xs \<le> off \<Longrightarrow> field off n (xs @ ys) = field (off - length xs) n ys"
  by (simp add: field_def)

lemma field_le_enc: "field 0 n (le_enc n v @ ys) = v mod 256 ^ n"
  by (simp add: field_def le_dec_enc)

section \<open>Queues\<close>

text \<open>
  A \<^verbatim>\<open>dlist\<close> is the list of its entries in \<^verbatim>\<open>next\<close> order.  The provider looks for
  the first entry that satisfies a test and unlinks it.
\<close>

fun take_first :: "('a \<Rightarrow> bool) \<Rightarrow> 'a list \<Rightarrow> ('a \<times> 'a list) option" where
  "take_first P [] = None"
| "take_first P (x # xs) =
     (if P x then Some (x, xs)
      else (case take_first P xs of None \<Rightarrow> None | Some (y, ys) \<Rightarrow> Some (y, x # ys)))"

fun upd_first :: "('a \<Rightarrow> bool) \<Rightarrow> ('a \<Rightarrow> 'a) \<Rightarrow> 'a list \<Rightarrow> 'a list" where
  "upd_first P f [] = []"
| "upd_first P f (x # xs) = (if P x then f x # xs else x # upd_first P f xs)"

fun remove_first :: "('a \<Rightarrow> bool) \<Rightarrow> 'a list \<Rightarrow> 'a list" where
  "remove_first P [] = []"
| "remove_first P (x # xs) = (if P x then xs else x # remove_first P xs)"

lemma take_first_None_iff: "take_first P xs = None \<longleftrightarrow> (\<forall>x \<in> set xs. \<not> P x)"
  by (induction xs) (auto split: option.splits)

lemma take_first_Some:
  "take_first P xs = Some (y, ys) \<Longrightarrow>
     \<exists>as bs. xs = as @ y # bs \<and> ys = as @ bs \<and> P y \<and> (\<forall>x \<in> set as. \<not> P x)"
proof (induction xs arbitrary: ys)
  case Nil
  then show ?case by simp
next
  case (Cons x xs)
  show ?case
  proof (cases "P x")
    case True
    with Cons.prems show ?thesis by (intro exI [of _ "[]"] exI [of _ xs]) auto
  next
    case False
    with Cons.prems obtain zs where zs: "take_first P xs = Some (y, zs)" "ys = x # zs"
      by (auto split: option.splits)
    from Cons.IH [OF zs(1)] obtain as bs where
      "xs = as @ y # bs" "zs = as @ bs" "P y" "\<forall>x \<in> set as. \<not> P x" by blast
    with False zs(2) show ?thesis by (intro exI [of _ "x # as"] exI [of _ bs]) auto
  qed
qed

lemma take_first_split:
  "P y \<Longrightarrow> (\<forall>x \<in> set as. \<not> P x) \<Longrightarrow> take_first P (as @ y # bs) = Some (y, as @ bs)"
  by (induction as) auto

lemma take_first_find: "map_option fst (take_first P xs) = find P xs"
  by (induction xs) (auto split: option.splits)

lemma length_upd_first [simp]: "length (upd_first P f xs) = length xs"
  by (induction xs) auto

lemma upd_first_split:
  "P y \<Longrightarrow> (\<forall>x \<in> set as. \<not> P x) \<Longrightarrow> upd_first P f (as @ y # bs) = as @ f y # bs"
  by (induction as) auto

lemma remove_first_split:
  "P y \<Longrightarrow> (\<forall>x \<in> set as. \<not> P x) \<Longrightarrow> remove_first P (as @ y # bs) = as @ bs"
  by (induction as) auto

lemma upd_first_None: "(\<forall>x \<in> set xs. \<not> P x) \<Longrightarrow> upd_first P f xs = xs"
  by (induction xs) auto

lemma remove_first_None: "(\<forall>x \<in> set xs. \<not> P x) \<Longrightarrow> remove_first P xs = xs"
  by (induction xs) auto

lemma find_Some_split:
  "find P xs = Some y \<Longrightarrow> \<exists>as bs. xs = as @ y # bs \<and> P y \<and> (\<forall>x \<in> set as. \<not> P x)"
proof (induction xs)
  case Nil
  then show ?case by simp
next
  case (Cons x xs)
  show ?case
  proof (cases "P x")
    case True
    with Cons.prems show ?thesis by (intro exI [of _ "[]"] exI [of _ xs]) auto
  next
    case False
    with Cons obtain as bs where "xs = as @ y # bs" "P y" "\<forall>x \<in> set as. \<not> P x" by auto
    with False show ?thesis by (intro exI [of _ "x # as"] exI [of _ bs]) auto
  qed
qed

end
