(* ===== verification/Ofi_Iov.thy ===== *)
theory Ofi_Iov
  imports Rds_Prelude
begin

text \<open>
  Scatter lists: \<^verbatim>\<open>struct iovec\<close>, the copy helpers of \<^verbatim>\<open>include/ofi_iov.h\<close> and
  \<^verbatim>\<open>src/iov.c\<close>, the interval tests the registration cache compares regions with, and
  \<^verbatim>\<open>rds_iov_slice\<close> of the provider.  The reference definition is \<open>gather\<close>, the bytes
  an iovec array denotes: copying out of an array is \<open>take\<close>/\<open>drop\<close> of it, copying in replaces
  a window of it, and a slice denotes the window it was cut from.
\<close>

section \<open>Definitions\<close>

record iovec =
  iov_base :: addr
  iov_len :: nat

abbreviation iov :: "addr \<Rightarrow> nat \<Rightarrow> iovec" where
  "iov b n \<equiv> \<lparr>iov_base = b, iov_len = n\<rparr>"

definition gather :: "memory \<Rightarrow> iovec list \<Rightarrow> byte list" where
  "gather m vs = concat (map (\<lambda>v. mem_read m (iov_base v) (iov_len v)) vs)"

definition iov_sum :: "iovec list \<Rightarrow> nat" where
  "iov_sum vs = sum_list (map iov_len vs)"

definition ofi_total_iov_len :: "iovec list \<Rightarrow> nat" where
  "ofi_total_iov_len vs = foldl (\<lambda>len v. (len + iov_len v) mod size_max) 0 vs"

text \<open>\<open>None\<close> stands for a \<^verbatim>\<open>copy_buf\<close> the early return leaves unset.\<close>

definition ofi_iov_bytes_to_copy :: "iovec \<Rightarrow> nat \<Rightarrow> nat \<Rightarrow> nat \<times> nat \<times> nat \<times> addr option" where
  "ofi_iov_bytes_to_copy v sz offset =
     (if offset > iov_len v then (0, sz, offset - iov_len v, None)
      else let len = min (iov_len v - offset) sz
           in (len, sz - len, 0, Some (iov_base v + offset)))"

datatype copy_dir = OFI_COPY_IOV_TO_BUF | OFI_COPY_BUF_TO_IOV

text \<open>
  One run of the loop of \<^verbatim>\<open>ofi_copy_iov_buf\<close>.  The buffer is an object of its own,
  apart from the memory the array points into, so it is a byte list.
\<close>

fun copy_iov_loop ::
  "copy_dir \<Rightarrow> iovec list \<Rightarrow> nat \<Rightarrow> nat \<Rightarrow> nat \<Rightarrow> memory \<Rightarrow> byte list \<Rightarrow> nat \<times> memory \<times> byte list" where
  "copy_iov_loop dir [] bufsize offset dn m buf = (dn, m, buf)"
| "copy_iov_loop dir (v # vs) bufsize offset dn m buf =
     (if bufsize = 0 then (dn, m, buf)
      else (case ofi_iov_bytes_to_copy v bufsize offset of
        (len, bufsize', offset', p) \<Rightarrow>
          (if len = 0 then copy_iov_loop dir vs bufsize' offset' dn m buf
           else (case dir of
             OFI_COPY_BUF_TO_IOV \<Rightarrow>
               copy_iov_loop dir vs bufsize' offset' (dn + len)
                 (mem_write m (the p) (take len (drop dn buf))) buf
           | OFI_COPY_IOV_TO_BUF \<Rightarrow>
               copy_iov_loop dir vs bufsize' offset' (dn + len) m
                 (take dn buf @ mem_read m (the p) len @ drop (dn + len) buf)))))"

definition ofi_copy_iov_buf ::
  "iovec list \<Rightarrow> nat \<Rightarrow> memory \<Rightarrow> byte list \<Rightarrow> nat \<Rightarrow> copy_dir \<Rightarrow> nat \<times> memory \<times> byte list" where
  "ofi_copy_iov_buf vs iov_offset m buf bufsize dir = copy_iov_loop dir vs bufsize iov_offset 0 m buf"

definition ofi_copy_to_iov :: "iovec list \<Rightarrow> nat \<Rightarrow> byte list \<Rightarrow> nat \<Rightarrow> memory \<Rightarrow> nat \<times> memory" where
  "ofi_copy_to_iov vs iov_offset buf bufsize m =
     (case vs of
        [v] \<Rightarrow> let sz = (if iov_offset > iov_len v then 0 else min bufsize (iov_len v - iov_offset))
               in (sz, mem_write m (iov_base v + iov_offset) (take sz buf))
      | _ \<Rightarrow> (case ofi_copy_iov_buf vs iov_offset m buf bufsize OFI_COPY_BUF_TO_IOV of
               (n, m', _) \<Rightarrow> (n, m')))"

definition ofi_copy_from_iov :: "byte list \<Rightarrow> nat \<Rightarrow> iovec list \<Rightarrow> nat \<Rightarrow> memory \<Rightarrow> nat \<times> byte list" where
  "ofi_copy_from_iov buf bufsize vs iov_offset m =
     (case vs of
        [v] \<Rightarrow> let sz = (if iov_offset > iov_len v then 0 else min bufsize (iov_len v - iov_offset))
               in (sz, mem_read m (iov_base v + iov_offset) sz @ drop sz buf)
      | _ \<Rightarrow> (case ofi_copy_iov_buf vs iov_offset m buf bufsize OFI_COPY_IOV_TO_BUF of
               (n, _, buf') \<Rightarrow> (n, buf')))"

text \<open>
  The interval tests.  \<^verbatim>\<open>ofi_iov_end\<close> is the address of the last byte, formed in the
  pointer type: for an empty region at address 0 it wraps.
\<close>

definition ofi_iov_end :: "iovec \<Rightarrow> addr" where
  "ofi_iov_end v = (iov_base v + iov_len v + (size_max - 1)) mod size_max"

definition ofi_iov_left :: "iovec \<Rightarrow> iovec \<Rightarrow> bool" where
  "ofi_iov_left v w \<longleftrightarrow> ofi_iov_end v < iov_base w"

definition ofi_iov_right :: "iovec \<Rightarrow> iovec \<Rightarrow> bool" where
  "ofi_iov_right v w \<longleftrightarrow> iov_base v > ofi_iov_end w"

definition ofi_iov_shifted_left :: "iovec \<Rightarrow> iovec \<Rightarrow> bool" where
  "ofi_iov_shifted_left v w \<longleftrightarrow> iov_base v < iov_base w \<and> ofi_iov_end v < ofi_iov_end w"

definition ofi_iov_shifted_right :: "iovec \<Rightarrow> iovec \<Rightarrow> bool" where
  "ofi_iov_shifted_right v w \<longleftrightarrow> iov_base v > iov_base w \<and> ofi_iov_end v > ofi_iov_end w"

definition ofi_iov_within :: "iovec \<Rightarrow> iovec \<Rightarrow> bool" where
  "ofi_iov_within v w \<longleftrightarrow> iov_base v \<ge> iov_base w \<and> ofi_iov_end v \<le> ofi_iov_end w"

abbreviation (input) RDS_IOV_LIMIT :: nat where
  "RDS_IOV_LIMIT \<equiv> 8"

fun iov_slice_loop ::
  "iovec list \<Rightarrow> nat \<Rightarrow> nat \<Rightarrow> nat \<Rightarrow> iovec list \<Rightarrow> nat \<Rightarrow> iovec list \<times> nat" where
  "iov_slice_loop [] pos off len dst got = (dst, got)"
| "iov_slice_loop (v # vs) pos off len dst got =
     (if len = 0 \<or> \<not> length dst < RDS_IOV_LIMIT then (dst, got)
      else if (pos + iov_len v) mod size_max \<le> off
           then iov_slice_loop vs ((pos + iov_len v) mod size_max) off len dst got
      else let s = (if off > pos then off - pos else 0);
               n = min (iov_len v - s) len
           in iov_slice_loop vs ((pos + iov_len v) mod size_max) off (len - n)
                (dst @ [iov (iov_base v + s) n]) (got + n))"

definition rds_iov_slice :: "iovec list \<Rightarrow> nat \<Rightarrow> nat \<Rightarrow> iovec list \<times> nat" where
  "rds_iov_slice src off len = iov_slice_loop src 0 off len [] 0"

text \<open>Whether the regions of an array are pairwise disjoint.\<close>

definition iov_apart :: "iovec \<Rightarrow> iovec \<Rightarrow> bool" where
  "iov_apart v w \<longleftrightarrow> iov_base v + iov_len v \<le> iov_base w \<or> iov_base w + iov_len w \<le> iov_base v"

fun iov_disjoint :: "iovec list \<Rightarrow> bool" where
  "iov_disjoint [] = True"
| "iov_disjoint (v # vs) = (list_all (iov_apart v) vs \<and> iov_disjoint vs)"

definition in_iov :: "addr \<Rightarrow> iovec list \<Rightarrow> bool" where
  "in_iov x vs \<longleftrightarrow> list_ex (\<lambda>v. iov_base v \<le> x \<and> x < iov_base v + iov_len v) vs"

section \<open>The bytes an array denotes\<close>

lemma gather_simps [simp, mem_simps]:
  "gather m [] = []"
  "gather m (v # vs) = mem_read m (iov_base v) (iov_len v) @ gather m vs"
  "gather m (vs @ ws) = gather m vs @ gather m ws"
  by (simp_all add: gather_def)

lemma iov_sum_simps [simp, mem_simps]:
  "iov_sum [] = 0"
  "iov_sum (v # vs) = iov_len v + iov_sum vs"
  "iov_sum (vs @ ws) = iov_sum vs + iov_sum ws"
  by (simp_all add: iov_sum_def)

lemma length_gather [simp, mem_simps]: "length (gather m vs) = iov_sum vs"
  by (induction vs) auto

lemma ofi_total_iov_len_acc:
  "foldl (\<lambda>len v. (len + iov_len v) mod size_max) a vs mod size_max = (a + iov_sum vs) mod size_max"
  by (induction vs arbitrary: a) (auto simp: mod_add_left_eq add.assoc)

lemma ofi_total_iov_len_mod: "ofi_total_iov_len vs = iov_sum vs mod size_max"
proof -
  have "foldl (\<lambda>len v. (len + iov_len v) mod size_max) a vs < size_max" if "a < size_max" for a
    using that by (induction vs arbitrary: a) auto
  then have "ofi_total_iov_len vs < size_max" by (simp add: ofi_total_iov_len_def)
  then show ?thesis
    using ofi_total_iov_len_acc [of 0 vs] by (simp add: ofi_total_iov_len_def)
qed

lemma ofi_total_iov_len_eq [simp]: "iov_sum vs < size_max \<Longrightarrow> ofi_total_iov_len vs = iov_sum vs"
  by (simp add: ofi_total_iov_len_mod)

lemma gather_cong: "(\<And>x. in_iov x vs \<Longrightarrow> m x = m' x) \<Longrightarrow> gather m vs = gather m' vs"
proof (induction vs)
  case Nil
  then show ?case by simp
next
  case (Cons v vs)
  have "mem_read m (iov_base v) (iov_len v) = mem_read m' (iov_base v) (iov_len v)"
    by (rule mem_read_cong) (auto intro: Cons.prems simp: in_iov_def)
  moreover have "gather m vs = gather m' vs"
    by (rule Cons.IH) (auto intro: Cons.prems simp: in_iov_def)
  ultimately show ?case by simp
qed

lemma in_iov_apart: "list_all (iov_apart v) vs \<Longrightarrow> in_iov x vs \<Longrightarrow> x < iov_base v \<or> iov_base v + iov_len v \<le> x"
  by (fastforce simp: in_iov_def list_all_iff list_ex_iff iov_apart_def)

section \<open>Copying out of an array\<close>

lemma copy_iov_loop_from:
  assumes "dn + bufsize \<le> length buf"
  shows "copy_iov_loop OFI_COPY_IOV_TO_BUF vs bufsize off dn m buf =
    (let n = min bufsize (iov_sum vs - off)
     in (dn + n, m, take dn buf @ take n (drop off (gather m vs)) @ drop (dn + n) buf))"
  using assms
proof (induction vs arbitrary: bufsize off dn buf)
  case Nil
  then show ?case by simp
next
  case (Cons v vs)
  show ?case
  proof (cases "bufsize = 0 \<or> iov_len v < off")
    case True
    moreover have "iov_sum (v # vs) - off = iov_sum vs - (off - iov_len v)" if "iov_len v < off"
      using that by simp
    ultimately show ?thesis using Cons by (auto simp: ofi_iov_bytes_to_copy_def Let_def simp del: iov_sum_simps(2))
  next
    case False
    define len where "len = min (iov_len v - off) bufsize"
    define buf' where "buf' = take dn buf @ mem_read m (iov_base v + off) len @ drop (dn + len) buf"
    have len: "len \<le> bufsize" "len \<le> iov_len v - off" by (auto simp: len_def)
    have step: "copy_iov_loop OFI_COPY_IOV_TO_BUF (v # vs) bufsize off dn m buf =
        copy_iov_loop OFI_COPY_IOV_TO_BUF vs (bufsize - len) 0 (dn + len) m buf'"
      using False Cons.prems
      by (auto simp: ofi_iov_bytes_to_copy_def Let_def buf'_def len_def [symmetric])
    have "length buf' = length buf" using len Cons.prems by (simp add: buf'_def)
    with len Cons.prems have "dn + len + (bufsize - len) \<le> length buf'" by simp
    note IH = Cons.IH [OF this, of 0]
    have G: "drop off (gather m (v # vs)) = mem_read m (iov_base v + off) (iov_len v - off) @ gather m vs"
      using False by (simp add: drop_mem_read)
    have n: "min bufsize (iov_sum (v # vs) - off) = len + min (bufsize - len) (iov_sum vs)"
      using False len by (auto simp: len_def)
    define k where "k = min (bufsize - len) (iov_sum vs)"
    have hd: "take (dn + len) buf' = take dn buf @ mem_read m (iov_base v + off) len"
      using len Cons.prems by (simp add: buf'_def)
    have tl: "drop (dn + len + k) buf' = drop (dn + (len + k)) buf"
      using len Cons.prems by (simp add: buf'_def ac_simps)
    have "k = 0 \<or> len = iov_len v - off" by (auto simp: k_def len_def)
    then have md: "take (len + k) (mem_read m (iov_base v + off) (iov_len v - off) @ gather m vs) =
        mem_read m (iov_base v + off) len @ take k (gather m vs)"
      using len by (elim disjE) (simp_all add: take_mem_read)
    show ?thesis
      unfolding step IH Let_def n G k_def [symmetric]
      using md tl by (simp only: hd drop_0 minus_nat.diff_0 k_def [symmetric] append_assoc add.assoc)
  qed
qed

lemma ofi_copy_from_iov_eq:
  assumes "bufsize \<le> length buf"
  shows "ofi_copy_from_iov buf bufsize vs off m =
    (let n = min bufsize (iov_sum vs - off) in (n, take n (drop off (gather m vs)) @ drop n buf))"
proof (cases "\<exists>v. vs = [v]")
  case True
  then obtain v where "vs = [v]" by blast
  then show ?thesis
    by (auto simp: ofi_copy_from_iov_def Let_def drop_mem_read take_mem_read)
next
  case False
  then have "ofi_copy_from_iov buf bufsize vs off m =
      (case copy_iov_loop OFI_COPY_IOV_TO_BUF vs bufsize off 0 m buf of (n, _, b) \<Rightarrow> (n, b))"
    by (auto simp: ofi_copy_from_iov_def ofi_copy_iov_buf_def split: list.splits)
  with assms show ?thesis by (simp add: copy_iov_loop_from Let_def)
qed

section \<open>Copying into an array\<close>

lemma copy_iov_loop_to:
  assumes "dn + bufsize \<le> length buf" and "iov_disjoint vs"
  shows "\<exists>m'. copy_iov_loop OFI_COPY_BUF_TO_IOV vs bufsize off dn m buf =
      (dn + min bufsize (iov_sum vs - off), m', buf) \<and>
    gather m' vs = take off (gather m vs) @ take (min bufsize (iov_sum vs - off)) (drop dn buf) @
      drop (off + min bufsize (iov_sum vs - off)) (gather m vs) \<and>
    (\<forall>x. \<not> in_iov x vs \<longrightarrow> m' x = m x)"
  using assms
proof (induction vs arbitrary: bufsize off dn m)
  case Nil
  then show ?case by simp
next
  case (Cons v vs)
  from Cons.prems have ap: "list_all (iov_apart v) vs" and dj: "iov_disjoint vs" by auto
  show ?case
  proof (cases "bufsize = 0")
    case True
    then show ?thesis by (simp del: gather_simps(2))
  next
    case False
    define len where "len = (if iov_len v < off then 0 else min (iov_len v - off) bufsize)"
    define m1 where "m1 = (if len = 0 then m else mem_write m (iov_base v + off) (take len (drop dn buf)))"
    have len: "len \<le> bufsize" "len \<le> iov_len v - off" by (auto simp: len_def)
    have step: "copy_iov_loop OFI_COPY_BUF_TO_IOV (v # vs) bufsize off dn m buf =
        copy_iov_loop OFI_COPY_BUF_TO_IOV vs (bufsize - len) (off - iov_len v) (dn + len) m1 buf"
      using False by (auto simp: ofi_iov_bytes_to_copy_def Let_def len_def m1_def)
    have "dn + len + (bufsize - len) \<le> length buf" using len Cons.prems by simp
    from Cons.IH [OF this dj, of "off - iov_len v" m1] obtain m' where
      run: "copy_iov_loop OFI_COPY_BUF_TO_IOV vs (bufsize - len) (off - iov_len v) (dn + len) m1 buf =
        (dn + len + min (bufsize - len) (iov_sum vs - (off - iov_len v)), m', buf)" and
      G: "gather m' vs = take (off - iov_len v) (gather m1 vs) @
        take (min (bufsize - len) (iov_sum vs - (off - iov_len v))) (drop (dn + len) buf) @
        drop (off - iov_len v + min (bufsize - len) (iov_sum vs - (off - iov_len v))) (gather m1 vs)" and
      fr: "\<forall>x. \<not> in_iov x vs \<longrightarrow> m' x = m1 x" by blast
    have wr: "m1 x = m x" if "x < iov_base v \<or> iov_base v + iov_len v \<le> x" for x
      using that len by (auto simp: m1_def mem_write_def len_def)
    then have g1: "gather m1 vs = gather m vs"
      by (intro gather_cong) (auto dest: in_iov_apart [OF ap])
    have "\<not> in_iov x vs" if "iov_base v \<le> x" "x < iov_base v + iov_len v" for x
      using in_iov_apart [OF ap] that by fastforce
    then have hd1: "mem_read m' (iov_base v) (iov_len v) = mem_read m1 (iov_base v) (iov_len v)"
      using fr by (intro mem_read_cong) auto
    have hd: "mem_read m1 (iov_base v) (iov_len v) =
        take off (mem_read m (iov_base v) (iov_len v)) @ take len (drop dn buf) @
        drop (off + len) (mem_read m (iov_base v) (iov_len v))"
    proof (cases "len = 0")
      case True
      then show ?thesis by (simp add: m1_def)
    next
      case nz: False
      have lb: "length (take len (drop dn buf)) = len" using len Cons.prems by simp
      have sp: "iov_len v = off + (len + (iov_len v - (off + len)))" using nz len by (simp add: len_def)
      have "mem_read m1 (iov_base v) (iov_len v) = mem_read m1 (iov_base v) off @
          mem_read m1 (iov_base v + off) len @ mem_read m1 (iov_base v + off + len) (iov_len v - (off + len))"
        by (subst sp) (simp only: mem_read_add)
      also have "\<dots> = mem_read m (iov_base v) off @ take len (drop dn buf) @
          mem_read m (iov_base v + off + len) (iov_len v - (off + len))"
        using nz lb mem_read_write_same [of m "iov_base v + off" "take len (drop dn buf)"]
        by (simp add: m1_def mem_read_write_disjoint)
      finally show ?thesis using nz len
        by (simp add: take_mem_read drop_mem_read min_def len_def add.assoc split: if_splits)
    qed
    have n: "min bufsize (iov_sum (v # vs) - off) = len + min (bufsize - len) (iov_sum vs - (off - iov_len v))"
      by (auto simp: len_def)
    have "gather m' (v # vs) = take off (gather m (v # vs)) @
        take (min bufsize (iov_sum (v # vs) - off)) (drop dn buf) @
        drop (off + min bufsize (iov_sum (v # vs) - off)) (gather m (v # vs))"
    proof (cases "bufsize = len")
      case True
      with False have "off \<le> iov_len v" by (auto simp: len_def split: if_splits)
      with True len show ?thesis
        unfolding n by (simp add: hd1 hd G g1)
    next
      case False
      then have "iov_len v < off \<or> off + len = iov_len v" using len by (auto simp: len_def)
      then show ?thesis
      proof
        assume "iov_len v < off"
        then show ?thesis unfolding n by (simp add: hd1 hd G g1 len_def)
      next
        assume e: "off + len = iov_len v"
        have "take (len + k) (drop dn buf) = take len (drop dn buf) @ take k (drop (dn + len) buf)" for k
          by (simp only: take_add drop_drop add.commute [of dn len])
        moreover have "off + (len + k) - iov_len v = k" for k using e by simp
        ultimately show ?thesis unfolding n using e by (simp add: hd1 hd G g1)
      qed
    qed
    moreover have "\<forall>x. \<not> in_iov x (v # vs) \<longrightarrow> m' x = m x"
      using fr wr by (auto simp: in_iov_def)
    ultimately show ?thesis
      unfolding step run n by (intro exI [of _ m']) (simp add: n [symmetric])
  qed
qed

text \<open>Whatever the array looks like, a copy into it writes nowhere else.\<close>

lemma copy_iov_loop_outside:
  "\<not> in_iov x vs \<Longrightarrow> fst (snd (copy_iov_loop dir vs n off dn m buf)) x = m x"
proof (induction dir vs n off dn m buf rule: copy_iov_loop.induct)
  case (1 dir n off dn m buf)
  then show ?case by simp
next
  case (2 dir v vs n off dn m buf)
  obtain len n' off' p where b: "ofi_iov_bytes_to_copy v n off = (len, n', off', p)" by (metis prod_cases4)
  have x: "\<not> in_iov x vs" "x < iov_base v \<or> iov_base v + iov_len v \<le> x" using "2.prems" by (auto simp: in_iov_def)
  have "x < the p \<or> the p + len \<le> x" if "len \<noteq> 0" using b that x(2) by (auto simp: ofi_iov_bytes_to_copy_def Let_def split: if_splits)
  then have w: "mem_write m (the p) (take len (drop dn buf)) x = m x" if "len \<noteq> 0" using that by (intro mem_write_outside) auto
  show ?case
  proof (cases "n = 0 \<or> len = 0")
    case True
    then show ?thesis using "2.IH"(1) [OF _ b [symmetric] refl refl _ x(1)] b by auto
  next
    case False
    then show ?thesis using "2.IH"(2,3) [OF _ b [symmetric] refl refl _ _ x(1)] b w by (cases dir) auto
  qed
qed

lemma ofi_copy_to_iov_outside: "\<not> in_iov x vs \<Longrightarrow> snd (ofi_copy_to_iov vs off buf n m) x = m x"
proof (cases "\<exists>v. vs = [v]")
  case True
  assume "\<not> in_iov x vs"
  with True show ?thesis by (auto simp: ofi_copy_to_iov_def in_iov_def Let_def intro!: mem_write_outside)
next
  case False
  assume "\<not> in_iov x vs"
  from copy_iov_loop_outside [OF this, of OFI_COPY_BUF_TO_IOV n off 0 m buf] False show ?thesis
    by (auto simp: ofi_copy_to_iov_def ofi_copy_iov_buf_def split: list.splits prod.splits)
qed

lemma ofi_copy_to_iov_eq:
  assumes "bufsize \<le> length buf" and "iov_disjoint vs"
  shows "\<exists>m'. ofi_copy_to_iov vs 0 buf bufsize m = (min bufsize (iov_sum vs), m') \<and>
    gather m' vs = take (min bufsize (iov_sum vs)) buf @ drop (min bufsize (iov_sum vs)) (gather m vs) \<and>
    (\<forall>x. \<not> in_iov x vs \<longrightarrow> m' x = m x)"
proof (cases "\<exists>v. vs = [v]")
  case True
  then obtain v where v: "vs = [v]" by blast
  define n where "n = min bufsize (iov_len v)"
  define m' where "m' = mem_write m (iov_base v) (take n buf)"
  have ln: "length (take n buf) = n" using assms(1) by (simp add: n_def)
  have "mem_read m' (iov_base v) (n + (iov_len v - n)) = take n buf @ mem_read m (iov_base v + n) (iov_len v - n)"
    using ln mem_read_write_same [of m "iov_base v" "take n buf"]
    by (simp only: mem_read_add) (simp add: m'_def mem_read_write_disjoint)
  then have "gather m' vs = take n buf @ drop n (gather m vs)"
    by (simp add: v n_def drop_mem_read)
  moreover have "\<forall>x. \<not> in_iov x vs \<longrightarrow> m' x = m x"
    using ln by (auto simp: v in_iov_def m'_def mem_write_def n_def)
  moreover have "ofi_copy_to_iov vs 0 buf bufsize m = (n, m')"
    by (simp add: v ofi_copy_to_iov_def Let_def n_def m'_def)
  ultimately show ?thesis by (auto simp: v n_def)
next
  case False
  then have "ofi_copy_to_iov vs 0 buf bufsize m =
      (case copy_iov_loop OFI_COPY_BUF_TO_IOV vs bufsize 0 0 m buf of (n, m', _) \<Rightarrow> (n, m'))"
    by (auto simp: ofi_copy_to_iov_def ofi_copy_iov_buf_def split: list.splits)
  with copy_iov_loop_to [of 0 bufsize buf vs 0 m] assms show ?thesis by auto
qed

section \<open>Slices\<close>

lemma iov_slice_loop_gather:
  assumes "iov_slice_loop vs pos off len dst got = (dst', got')" and "pos + iov_sum vs < size_max"
  shows "\<exists>n. got' = got + n \<and> n \<le> min len (iov_sum vs - (off - pos)) \<and>
    gather m dst' = gather m dst @ take n (drop (off - pos) (gather m vs)) \<and>
    iov_sum dst' = iov_sum dst + n \<and>
    (length dst + length vs \<le> RDS_IOV_LIMIT \<longrightarrow> n = min len (iov_sum vs - (off - pos))) \<and>
    (pos \<le> off \<and> length dst < RDS_IOV_LIMIT \<and> 0 < len \<and> off - pos < iov_sum vs \<longrightarrow> 0 < n)"
  using assms
proof (induction vs arbitrary: pos len dst got)
  case Nil
  then show ?case by auto
next
  case (Cons v vs)
  have md: "(pos + iov_len v) mod size_max = pos + iov_len v" using Cons.prems(2) by simp
  show ?case
  proof (cases "len = 0 \<or> \<not> length dst < RDS_IOV_LIMIT")
    case True
    with Cons.prems show ?thesis by (intro exI [of _ 0]) auto
  next
    case False
    show ?thesis
    proof (cases "pos + iov_len v \<le> off")
      case True
      with False Cons.prems md
      have "iov_slice_loop vs (pos + iov_len v) off len dst got = (dst', got')" by simp
      moreover have "pos + iov_len v + iov_sum vs < size_max" using Cons.prems(2) by simp
      ultimately have "\<exists>n. got' = got + n \<and> n \<le> min len (iov_sum vs - (off - (pos + iov_len v))) \<and>
        gather m dst' = gather m dst @ take n (drop (off - (pos + iov_len v)) (gather m vs)) \<and>
        iov_sum dst' = iov_sum dst + n \<and>
        (length dst + length vs \<le> RDS_IOV_LIMIT \<longrightarrow> n = min len (iov_sum vs - (off - (pos + iov_len v)))) \<and>
        (pos + iov_len v \<le> off \<and> length dst < RDS_IOV_LIMIT \<and> 0 < len \<and>
          off - (pos + iov_len v) < iov_sum vs \<longrightarrow> 0 < n)"
        by (rule Cons.IH)
      moreover have "iov_sum (v # vs) - (off - pos) = iov_sum vs - (off - (pos + iov_len v))"
        and "drop (off - pos) (gather m (v # vs)) = drop (off - (pos + iov_len v)) (gather m vs)"
        and "off - pos < iov_sum (v # vs) \<longleftrightarrow> off - (pos + iov_len v) < iov_sum vs"
        using True by auto
      ultimately show ?thesis using True by (auto simp del: iov_sum_simps gather_simps)
    next
      case ov: False
      define s where "s = off - pos"
      define n where "n = min (iov_len v - s) len"
      have s: "s \<le> iov_len v" and n: "pos \<le> off \<longrightarrow> 0 < n" "n \<le> len" "n \<le> iov_len v - s"
        using ov False by (auto simp: s_def n_def)
      have "iov_slice_loop vs (pos + iov_len v) off (len - n) (dst @ [iov (iov_base v + s) n]) (got + n) = (dst', got')"
        using Cons.prems(1) False ov md by (simp add: s_def n_def Let_def split: if_splits)
      moreover have "pos + iov_len v + iov_sum vs < size_max" using Cons.prems(2) by simp
      ultimately have "\<exists>k. got' = got + n + k \<and> k \<le> min (len - n) (iov_sum vs - (off - (pos + iov_len v))) \<and>
        gather m dst' = gather m (dst @ [iov (iov_base v + s) n]) @ take k (drop (off - (pos + iov_len v)) (gather m vs)) \<and>
        iov_sum dst' = iov_sum (dst @ [iov (iov_base v + s) n]) + k \<and>
        (length (dst @ [iov (iov_base v + s) n]) + length vs \<le> RDS_IOV_LIMIT \<longrightarrow>
          k = min (len - n) (iov_sum vs - (off - (pos + iov_len v)))) \<and>
        (pos + iov_len v \<le> off \<and> length (dst @ [iov (iov_base v + s) n]) < RDS_IOV_LIMIT \<and> 0 < len - n \<and>
          off - (pos + iov_len v) < iov_sum vs \<longrightarrow> 0 < k)"
        by (rule Cons.IH)
      then obtain k where k: "got' = got + n + k" "k \<le> min (len - n) (iov_sum vs)"
        "gather m dst' = gather m dst @ mem_read m (iov_base v + s) n @ take k (gather m vs)"
        "iov_sum dst' = iov_sum dst + n + k"
        "length dst + length (v # vs) \<le> RDS_IOV_LIMIT \<longrightarrow> k = min (len - n) (iov_sum vs)"
        using ov by auto
      have "k = 0 \<or> n = iov_len v - s" using k(2) by (auto simp: n_def)
      then have "take (n + k) (drop s (gather m (v # vs))) = mem_read m (iov_base v + s) n @ take k (gather m vs)"
        using s n by (elim disjE) (simp_all add: drop_mem_read take_mem_read)
      moreover have "n + k \<le> min len (iov_sum (v # vs) - s)"
        using k(2) n(2,3) s unfolding iov_sum_simps by linarith
      moreover have "n = len \<or> n = iov_len v - s" by (auto simp: n_def)
      then have "n + min (len - n) (iov_sum vs) = min len (iov_sum (v # vs) - s)"
        using s n(2,3) unfolding iov_sum_simps by (elim disjE) linarith+
      ultimately show ?thesis
        using k(1,4) n(1) unfolding s_def [symmetric]
        by (intro exI [of _ "n + k"]) (simp add: k(3,5) del: gather_simps(2) iov_sum_simps(2))
    qed
  qed
qed

lemma length_iov_slice_loop:
  "length dst \<le> RDS_IOV_LIMIT \<Longrightarrow> length (fst (iov_slice_loop vs pos off len dst got)) \<le> RDS_IOV_LIMIT"
  by (induction vs pos off len dst got rule: iov_slice_loop.induct) (auto simp: Let_def)

lemma length_rds_iov_slice: "length (fst (rds_iov_slice src off len)) \<le> RDS_IOV_LIMIT"
  by (simp add: rds_iov_slice_def length_iov_slice_loop)

lemma rds_iov_slice_window:
  assumes "length src \<le> RDS_IOV_LIMIT" and "iov_sum src < size_max"
  shows "gather m (fst (rds_iov_slice src off len)) = take len (drop off (gather m src)) \<and>
    snd (rds_iov_slice src off len) = min len (iov_sum src - off) \<and>
    iov_sum (fst (rds_iov_slice src off len)) = min len (iov_sum src - off)"
proof -
  obtain dst got where run: "rds_iov_slice src off len = (dst, got)" by fastforce
  from iov_slice_loop_gather [where m = m, OF run [unfolded rds_iov_slice_def]] assms
  have g: "got = min len (iov_sum src - off)" "iov_sum dst = got"
    "gather m dst = take got (drop off (gather m src))" by auto
  moreover have "take got (drop off (gather m src)) = take len (drop off (gather m src))"
    using g(1) by (simp add: min_def)
  ultimately show ?thesis using run by simp
qed

lemma rds_iov_slice_prefix:
  assumes "iov_sum src < size_max"
  shows "\<exists>n. snd (rds_iov_slice src off len) = n \<and> n \<le> min len (iov_sum src - off) \<and>
    gather m (fst (rds_iov_slice src off len)) = take n (drop off (gather m src)) \<and>
    iov_sum (fst (rds_iov_slice src off len)) = n \<and>
    (0 < len \<and> off < iov_sum src \<longrightarrow> 0 < n)"
proof -
  obtain dst got where run: "rds_iov_slice src off len = (dst, got)" by fastforce
  from iov_slice_loop_gather [where m = m, OF run [unfolded rds_iov_slice_def]] assms
  show ?thesis by (auto simp: run)
qed

section \<open>Properties\<close>

text \<open>
  Cutting the window \<open>[off, off + len)\<close> out of an array of at most \<^verbatim>\<open>RDS_IOV_LIMIT\<close>
  regions gives an array that denotes exactly those bytes of the source, and reports their
  number.
\<close>

theorem slice_denotes_window:
  assumes "length src \<le> RDS_IOV_LIMIT" and "iov_sum src < size_max"
  shows "gather m (fst (rds_iov_slice src off len)) = take len (drop off (gather m src)) \<and>
    snd (rds_iov_slice src off len) = min len (iov_sum src - off)"
  using rds_iov_slice_window [OF assms] by blast

theorem slice_denotes_window_witness:
  "fst (rds_iov_slice [iov 100 4, iov 200 6] 2 5) = [iov 102 2, iov 200 3] \<and>
   gather of_nat [iov 102 2, iov 200 3] = take 5 (drop 2 (gather of_nat [iov 100 4, iov 200 6]))"
  using slice_denotes_window [of "[iov 100 4, iov 200 6]" of_nat 2 5] by (simp add: rds_iov_slice_def)

text \<open>
  A buffer copied into an array of pairwise disjoint regions that has room for it, and
  then copied out again, comes back unchanged; the copies report its length and nothing
  outside the array is touched.
\<close>

theorem copy_to_from_iov:
  assumes "iov_disjoint vs" and "length buf \<le> iov_sum vs" and "length out = length buf"
  shows "fst (ofi_copy_to_iov vs 0 buf (length buf) m) = length buf \<and>
    ofi_copy_from_iov out (length buf) vs 0 (snd (ofi_copy_to_iov vs 0 buf (length buf) m)) = (length buf, buf) \<and>
    (\<forall>x. \<not> in_iov x vs \<longrightarrow> snd (ofi_copy_to_iov vs 0 buf (length buf) m) x = m x)"
proof -
  from ofi_copy_to_iov_eq [of "length buf" buf vs m] assms obtain m' where
    m': "ofi_copy_to_iov vs 0 buf (length buf) m = (length buf, m')"
    "gather m' vs = buf @ drop (length buf) (gather m vs)" "\<forall>x. \<not> in_iov x vs \<longrightarrow> m' x = m x"
    by (auto simp: min_def)
  with assms show ?thesis by (simp add: ofi_copy_from_iov_eq Let_def)
qed

theorem copy_to_from_iov_witness:
  "ofi_copy_from_iov [0, 0, 0] 3 [iov 100 2, iov 50 4] 0
     (snd (ofi_copy_to_iov [iov 100 2, iov 50 4] 0 [1, 2, 3] 3 (\<lambda>_. 0))) = (3, [1, 2, 3])"
  using copy_to_from_iov [of "[iov 100 2, iov 50 4]" "[1, 2, 3]" "[0, 0, 0]" "\<lambda>_. 0"]
  by (simp add: iov_apart_def numeral_3_eq_3)

end
