(* ===== verification/Rds_Wire.thy ===== *)
theory Rds_Wire
  imports Rds_Prelude
begin

text \<open>
  The wire formats of \<^verbatim>\<open>prov/rds/src/rds.h\<close>: the datagram header, the rendezvous segment
  descriptors, the eager-ring handshake payload, the eager-ring slot, and the packing of RDS
  cookies.  Each struct has its C layout (little-endian fields at their offsets), and the
  lemmas are the round trips between the struct and its bytes.
\<close>

section \<open>Tunables and enumerations\<close>

abbreviation (input) RDS_KERNEL_SEG_MAX :: nat where "RDS_KERNEL_SEG_MAX \<equiv> 1048576"
abbreviation (input) RDS_DEF_EAGER_SIZE :: nat where "RDS_DEF_EAGER_SIZE \<equiv> 65536"
abbreviation (input) RDS_DEF_INJECT_SIZE :: nat where "RDS_DEF_INJECT_SIZE \<equiv> 8192"
abbreviation (input) RDS_DEF_RING_SLOTS :: nat where "RDS_DEF_RING_SLOTS \<equiv> 16"
abbreviation (input) RDS_DEF_RING_SLOT_SIZE :: nat where "RDS_DEF_RING_SLOT_SIZE \<equiv> 1024"
abbreviation (input) RDS_DEF_RING_MAX_PEERS :: nat where "RDS_DEF_RING_MAX_PEERS \<equiv> 256"
abbreviation (input) RDS_RING_CONNECT_TIMEOUT_MS :: u64 where "RDS_RING_CONNECT_TIMEOUT_MS \<equiv> 100"
abbreviation (input) RDS_MAX_MSG_SIZE :: nat where "RDS_MAX_MSG_SIZE \<equiv> 268435456"
abbreviation (input) RDS_HDR_MAGIC :: u32 where "RDS_HDR_MAGIC \<equiv> 0x53445231"

text \<open>\<^verbatim>\<open>enum rds_op\<close>, as the byte on the wire.\<close>

abbreviation (input) RDS_OP_EAGER :: u8 where "RDS_OP_EAGER \<equiv> 1"
abbreviation (input) RDS_OP_RTS :: u8 where "RDS_OP_RTS \<equiv> 2"
abbreviation (input) RDS_OP_FIN :: u8 where "RDS_OP_FIN \<equiv> 3"
abbreviation (input) RDS_OP_RING_REQ :: u8 where "RDS_OP_RING_REQ \<equiv> 4"
abbreviation (input) RDS_OP_RING_ACK :: u8 where "RDS_OP_RING_ACK \<equiv> 5"

abbreviation (input) RDS_HF_TAGGED :: u8 where "RDS_HF_TAGGED \<equiv> 1"
abbreviation (input) RDS_HF_CQ_DATA :: u8 where "RDS_HF_CQ_DATA \<equiv> 2"

section \<open>Structs and their layout\<close>

record rds_hdr =
  hdr_magic :: u32
  hdr_op :: u8
  hdr_flags :: u8
  hdr_seg_cnt :: u16
  hdr_tag :: u64
  hdr_data :: u64
  hdr_size :: u64
  hdr_id :: u64

definition hdr_zero :: rds_hdr where
  "hdr_zero = \<lparr>hdr_magic = 0, hdr_op = 0, hdr_flags = 0, hdr_seg_cnt = 0, hdr_tag = 0,
     hdr_data = 0, hdr_size = 0, hdr_id = 0\<rparr>"

abbreviation (input) sizeof_rds_hdr :: nat where "sizeof_rds_hdr \<equiv> 40"

abbreviation (input) RDS_MAX_EAGER_SIZE :: nat where
  "RDS_MAX_EAGER_SIZE \<equiv> RDS_KERNEL_SEG_MAX - sizeof_rds_hdr"

definition enc_hdr :: "rds_hdr \<Rightarrow> byte list" where
  "enc_hdr h = le_enc 4 (unat (hdr_magic h)) @ le_enc 1 (unat (hdr_op h)) @
     le_enc 1 (unat (hdr_flags h)) @ le_enc 2 (unat (hdr_seg_cnt h)) @
     le_enc 8 (unat (hdr_tag h)) @ le_enc 8 (unat (hdr_data h)) @
     le_enc 8 (unat (hdr_size h)) @ le_enc 8 (unat (hdr_id h))"

definition dec_hdr :: "byte list \<Rightarrow> rds_hdr" where
  "dec_hdr bs = \<lparr>hdr_magic = of_nat (field 0 4 bs), hdr_op = of_nat (field 4 1 bs),
     hdr_flags = of_nat (field 5 1 bs), hdr_seg_cnt = of_nat (field 6 2 bs),
     hdr_tag = of_nat (field 8 8 bs), hdr_data = of_nat (field 16 8 bs),
     hdr_size = of_nat (field 24 8 bs), hdr_id = of_nat (field 32 8 bs)\<rparr>"

record rds_rndzv_seg =
  seg_cookie :: u64
  seg_off :: u64
  seg_len :: u64

abbreviation (input) sizeof_rds_rndzv_seg :: nat where "sizeof_rds_rndzv_seg \<equiv> 24"

definition enc_seg :: "rds_rndzv_seg \<Rightarrow> byte list" where
  "enc_seg s = le_enc 8 (unat (seg_cookie s)) @ le_enc 8 (unat (seg_off s)) @
     le_enc 8 (unat (seg_len s))"

definition dec_seg :: "byte list \<Rightarrow> rds_rndzv_seg" where
  "dec_seg bs = \<lparr>seg_cookie = of_nat (field 0 8 bs), seg_off = of_nat (field 8 8 bs),
     seg_len = of_nat (field 16 8 bs)\<rparr>"

definition enc_segs :: "rds_rndzv_seg list \<Rightarrow> byte list" where
  "enc_segs ss = concat (map enc_seg ss)"

text \<open>
  The segment array of a received descriptor is the payload itself, indexed as an array.
  Asking for an element that the payload does not hold is an out-of-bounds read: \<open>None\<close>.
\<close>

fun dec_segs :: "nat \<Rightarrow> byte list \<Rightarrow> rds_rndzv_seg list option" where
  "dec_segs 0 bs = Some []"
| "dec_segs (Suc n) bs =
     (if length bs < sizeof_rds_rndzv_seg then None
      else map_option (Cons (dec_seg (take sizeof_rds_rndzv_seg bs)))
             (dec_segs n (drop sizeof_rds_rndzv_seg bs)))"

record rds_ring_info =
  info_ring_cookie :: u64
  info_credit_cookie :: u64
  info_slots :: u32
  info_slot_size :: u32

abbreviation (input) sizeof_rds_ring_info :: nat where "sizeof_rds_ring_info \<equiv> 24"

definition enc_ring_info :: "rds_ring_info \<Rightarrow> byte list" where
  "enc_ring_info i = le_enc 8 (unat (info_ring_cookie i)) @ le_enc 8 (unat (info_credit_cookie i)) @
     le_enc 4 (unat (info_slots i)) @ le_enc 4 (unat (info_slot_size i))"

definition dec_ring_info :: "byte list \<Rightarrow> rds_ring_info" where
  "dec_ring_info bs = \<lparr>info_ring_cookie = of_nat (field 0 8 bs), info_credit_cookie = of_nat (field 8 8 bs),
     info_slots = of_nat (field 16 4 bs), info_slot_size = of_nat (field 20 4 bs)\<rparr>"

text \<open>
  The header of an eager-ring slot.  Two reserved bytes follow \<^verbatim>\<open>op\<close>; the payload starts at
  \<^verbatim>\<open>RDS_RING_HDR_SIZE\<close> and the last four bytes of the slot are the generation stamp.
\<close>

record rds_ring_slot =
  slot_len :: u32
  slot_flags :: u8
  slot_op :: u8
  slot_tag :: u64
  slot_data :: u64
  slot_ack :: u64

abbreviation (input) RDS_RING_HDR_SIZE :: nat where "RDS_RING_HDR_SIZE \<equiv> 32"
abbreviation (input) RDS_RING_GEN_SIZE :: nat where "RDS_RING_GEN_SIZE \<equiv> 4"

definition rds_slot_payload :: "addr \<Rightarrow> addr" where
  "rds_slot_payload slot = slot + RDS_RING_HDR_SIZE"

definition rds_slot_gen :: "addr \<Rightarrow> u32 \<Rightarrow> addr" where
  "rds_slot_gen slot slot_size = slot + unat slot_size - RDS_RING_GEN_SIZE"

definition rds_ring_payload_max :: "u32 \<Rightarrow> u32" where
  "rds_ring_payload_max slot_size = slot_size - of_nat RDS_RING_HDR_SIZE - of_nat RDS_RING_GEN_SIZE"

text \<open>Storing the header fields one by one, as the sender does, and loading them.\<close>

definition mem_put_slot :: "memory \<Rightarrow> addr \<Rightarrow> rds_ring_slot \<Rightarrow> memory" where
  "mem_put_slot m a s =
     (let m = mem_write m a (le_enc 4 (unat (slot_len s)));
          m = mem_write m (a + 5) (le_enc 1 (unat (slot_op s)));
          m = mem_write m (a + 4) (le_enc 1 (unat (slot_flags s)));
          m = mem_write m (a + 8) (le_enc 8 (unat (slot_tag s)));
          m = mem_write m (a + 16) (le_enc 8 (unat (slot_data s)))
      in mem_write m (a + 24) (le_enc 8 (unat (slot_ack s))))"

definition mem_get :: "memory \<Rightarrow> addr \<Rightarrow> nat \<Rightarrow> nat" where
  "mem_get m a n = le_dec (mem_read m a n)"

definition mem_get_slot :: "memory \<Rightarrow> addr \<Rightarrow> rds_ring_slot" where
  "mem_get_slot m a = \<lparr>slot_len = of_nat (mem_get m a 4), slot_flags = of_nat (mem_get m (a + 4) 1),
     slot_op = of_nat (mem_get m (a + 5) 1), slot_tag = of_nat (mem_get m (a + 8) 8),
     slot_data = of_nat (mem_get m (a + 16) 8), slot_ack = of_nat (mem_get m (a + 24) 8)\<rparr>"

section \<open>Cookies\<close>

definition rds_make_cookie :: "u32 \<Rightarrow> u32 \<Rightarrow> u64" where
  "rds_make_cookie r_key off = push_bit 32 (ucast r_key) OR ucast off"

definition rds_cookie_key :: "u64 \<Rightarrow> u32" where
  "rds_cookie_key c = ucast (drop_bit 32 c)"

definition rds_cookie_off :: "u64 \<Rightarrow> u32" where
  "rds_cookie_off c = ucast (c AND 0xffffffff)"

section \<open>Lengths and round trips\<close>

lemma length_enc [simp, layout_simps]:
  "length (enc_hdr h) = sizeof_rds_hdr"
  "length (enc_seg s) = sizeof_rds_rndzv_seg"
  "length (enc_ring_info i) = sizeof_rds_ring_info"
  by (simp_all add: enc_hdr_def enc_seg_def enc_ring_info_def)

lemma length_enc_segs [simp, layout_simps]: "length (enc_segs ss) = sizeof_rds_rndzv_seg * length ss"
  by (induction ss) (simp_all add: enc_segs_def)

lemma of_nat_unat_mod [layout_simps]:
  "(of_nat (unat (w :: u64) mod 18446744073709551616) :: u64) = w"
  "(of_nat (unat (x :: u32) mod 4294967296) :: u32) = x"
  "(of_nat (unat (y :: u16) mod 65536) :: u16) = y"
  "(of_nat (unat (z :: u8) mod 256) :: u8) = z"
  by simp_all

lemma dec_enc_hdr: "dec_hdr (enc_hdr h @ p) = h"
  by (simp add: dec_hdr_def enc_hdr_def field_def le_dec_enc of_nat_unat_mod)

lemma dec_enc_seg [simp]: "dec_seg (enc_seg s) = s"
  by (simp add: dec_seg_def enc_seg_def field_def le_dec_enc of_nat_unat_mod)

lemma dec_enc_segs: "dec_segs (length ss) (enc_segs ss @ p) = Some ss"
proof (induction ss)
  case Nil
  then show ?case by simp
next
  case (Cons s ss)
  have "enc_segs (s # ss) @ p = enc_seg s @ enc_segs ss @ p" by (simp add: enc_segs_def)
  then show ?case by (simp add: Cons)
qed

lemma dec_segs_None_iff: "dec_segs n bs = None \<longleftrightarrow> length bs < sizeof_rds_rndzv_seg * n"
  by (induction n bs rule: dec_segs.induct) auto

lemma dec_segs_length: "dec_segs n bs = Some ss \<Longrightarrow> length ss = n"
  by (induction n bs arbitrary: ss rule: dec_segs.induct) (auto split: if_splits)

lemma dec_enc_ring_info: "dec_ring_info (enc_ring_info i @ p) = i"
  by (simp add: dec_ring_info_def enc_ring_info_def field_def le_dec_enc of_nat_unat_mod)

lemma mem_get_put_slot: "mem_get_slot (mem_put_slot m a s) a = s"
proof -
  have r: "mem_read (mem_write m' b (le_enc k v)) b k = le_enc k v" for m' b k v
    using mem_read_write_same [of m' b "le_enc k v"] by simp
  have r1: "mem_read (mem_write m' b [x]) b (Suc 0) = [x]" for m' b x
    using mem_read_write_same [of m' b "[x]"] by simp
  show ?thesis
    by (simp add: mem_get_slot_def mem_put_slot_def mem_get_def Let_def r r1 mem_read_write_disjoint
        le_dec_enc of_nat_unat_mod)
qed

lemma cookie_key_make: "rds_cookie_key (rds_make_cookie k off) = k"
  by (rule bit_word_eqI) (auto simp: rds_cookie_key_def rds_make_cookie_def bit_simps dest: bit_imp_le_length)

lemma cookie_off_take_bit: "rds_cookie_off c = ucast (take_bit 32 c)"
proof -
  have "c AND 0xffffffff = take_bit 32 c" by (simp add: take_bit_eq_mask mask_eq_exp_minus_1)
  then show ?thesis by (simp add: rds_cookie_off_def)
qed

lemma cookie_off_make: "rds_cookie_off (rds_make_cookie k off) = off"
  by (rule bit_word_eqI) (auto simp: cookie_off_take_bit rds_make_cookie_def bit_simps dest: bit_imp_le_length)

lemma make_cookie_key_off: "rds_make_cookie (rds_cookie_key c) (rds_cookie_off c) = c"
proof (rule bit_word_eqI)
  fix n assume "n < LENGTH(64)"
  then show "bit (rds_make_cookie (rds_cookie_key c) (rds_cookie_off c)) n = bit c n"
    by (cases "n < 32") (auto simp: rds_cookie_key_def cookie_off_take_bit rds_make_cookie_def bit_simps)
qed

section \<open>Properties\<close>


text \<open>
  An RDS cookie is its key and its offset: packing two 32-bit halves and taking them
  apart gives them back, and any cookie is the packing of its halves.
\<close>

theorem cookie_roundtrip:
  "rds_cookie_key (rds_make_cookie k off) = k \<and> rds_cookie_off (rds_make_cookie k off) = off \<and>
   rds_make_cookie (rds_cookie_key c) (rds_cookie_off c) = c"
  by (simp add: cookie_key_make cookie_off_make make_cookie_key_off)

end
