(* ===== verification/Ofi_Rbtree.thy ===== *)
theory Ofi_Rbtree
  imports Rds_Prelude
begin

text \<open>
  The red-black map of \<^verbatim>\<open>src/tree.c\<close>, which the registration cache keeps its regions in.
  A node's \<^verbatim>\<open>parent\<close> pointer is represented by the path from the node to the root (a list
  of frames, innermost first), so each rotation and recolouring of the C code is a rewriting of
  the subtree at hand and of its path, and every tree has exactly the shape the C code builds.
  The lemmas: an insertion adds the data at the position the comparison chose and keeps the
  order of everything else, a deletion removes exactly the node it was given, a search returns
  a node the comparison accepts, and both rebalancing loops keep the colour and black-height
  invariants (so the places where C would follow a null parent are never reached).
\<close>

section \<open>Definitions\<close>

datatype ofi_node_color = BLACK | RED

datatype 'a rbt = Sentinel | Rbnode ofi_node_color "'a rbt" 'a "'a rbt"

text \<open>
  A frame is the parent of the subtree at hand: \<open>InLeft c d r\<close> says the subtree is the left
  child of a node of colour \<open>c\<close> with data \<open>d\<close> and right child \<open>r\<close>.
\<close>

datatype 'a frame = InLeft ofi_node_color 'a "'a rbt" | InRight ofi_node_color "'a rbt" 'a

type_synonym 'a path = "'a frame list"

fun color :: "'a rbt \<Rightarrow> ofi_node_color" where
  "color Sentinel = BLACK"
| "color (Rbnode c l d r) = c"

fun set_color :: "ofi_node_color \<Rightarrow> 'a rbt \<Rightarrow> 'a rbt" where
  "set_color c Sentinel = Sentinel"
| "set_color c (Rbnode c' l d r) = Rbnode c l d r"

fun plug :: "'a rbt \<Rightarrow> 'a path \<Rightarrow> 'a rbt" where
  "plug t [] = t"
| "plug t (InLeft c d r # p) = plug (Rbnode c t d r) p"
| "plug t (InRight c l d # p) = plug (Rbnode c l d t) p"

fun inorder :: "'a rbt \<Rightarrow> 'a list" where
  "inorder Sentinel = []"
| "inorder (Rbnode c l d r) = inorder l @ d # inorder r"

text \<open>
  The rebalancing loop after an insertion.  \<open>x\<close> is the red node the C variable points at, with
  its path; a recolouring moves two frames up, the rotations end the loop.  The last line of the
  C function blackens the root.
\<close>

fun ofi_insert_rebalance :: "'a rbt \<Rightarrow> 'a path \<Rightarrow> 'a rbt" where
  "ofi_insert_rebalance x [] = set_color BLACK x"
| "ofi_insert_rebalance x [f] = set_color BLACK (plug x [f])"
| "ofi_insert_rebalance x (InLeft BLACK d r # g # p) = set_color BLACK (plug x (InLeft BLACK d r # g # p))"
| "ofi_insert_rebalance x (InRight BLACK l d # g # p) = set_color BLACK (plug x (InRight BLACK l d # g # p))"
| "ofi_insert_rebalance x (InLeft RED d r # InLeft cg dg y # p) =
     (if color y = RED
      then ofi_insert_rebalance (Rbnode RED (Rbnode BLACK x d r) dg (set_color BLACK y)) p
      else set_color BLACK (plug (Rbnode BLACK x d (Rbnode RED r dg y)) p))"
| "ofi_insert_rebalance x (InRight RED l d # InLeft cg dg y # p) =
     (if color y = RED
      then ofi_insert_rebalance (Rbnode RED (Rbnode BLACK l d x) dg (set_color BLACK y)) p
      else (case x of
        Sentinel \<Rightarrow> set_color BLACK (plug x (InRight RED l d # InLeft cg dg y # p))
      | Rbnode cx xl dx xr \<Rightarrow>
          set_color BLACK (plug (Rbnode BLACK (Rbnode RED l d xl) dx (Rbnode RED xr dg y)) p)))"
| "ofi_insert_rebalance x (InRight RED l d # InRight cg y dg # p) =
     (if color y = RED
      then ofi_insert_rebalance (Rbnode RED (set_color BLACK y) dg (Rbnode BLACK l d x)) p
      else set_color BLACK (plug (Rbnode BLACK (Rbnode RED y dg l) d x) p))"
| "ofi_insert_rebalance x (InLeft RED d r # InRight cg y dg # p) =
     (if color y = RED
      then ofi_insert_rebalance (Rbnode RED (set_color BLACK y) dg (Rbnode BLACK x d r)) p
      else (case x of
        Sentinel \<Rightarrow> set_color BLACK (plug x (InLeft RED d r # InRight cg y dg # p))
      | Rbnode cx xl dx xr \<Rightarrow>
          set_color BLACK (plug (Rbnode BLACK (Rbnode RED y dg xl) dx (Rbnode RED xr d r)) p)))"

text \<open>
  The descent of the search and of the insertion.  \<open>compare\<close> is the map's callback applied to
  the key: negative goes left, positive goes right, zero is a match.
\<close>

fun rb_descend :: "('a \<Rightarrow> int) \<Rightarrow> 'a rbt \<Rightarrow> 'a path \<Rightarrow> 'a rbt \<times> 'a path" where
  "rb_descend cmp Sentinel p = (Sentinel, p)"
| "rb_descend cmp (Rbnode c l d r) p =
     (if cmp d = 0 then (Rbnode c l d r, p)
      else if cmp d < 0 then rb_descend cmp l (InLeft c d r # p)
      else rb_descend cmp r (InRight c l d # p))"

definition ofi_rbmap_insert :: "('a \<Rightarrow> int) \<Rightarrow> 'a \<Rightarrow> 'a rbt \<Rightarrow> int \<times> 'a rbt" where
  "ofi_rbmap_insert cmp d t =
     (case rb_descend cmp t [] of
        (Rbnode c l e r, p) \<Rightarrow> (- FI_EALREADY, t)
      | (Sentinel, p) \<Rightarrow> (0, ofi_insert_rebalance (Rbnode RED Sentinel d Sentinel) p))"

fun ofi_rbmap_search :: "('a \<Rightarrow> int) \<Rightarrow> 'a rbt \<Rightarrow> 'a option" where
  "ofi_rbmap_search cmp Sentinel = None"
| "ofi_rbmap_search cmp (Rbnode c l d r) =
     (if cmp d = 0 then Some d
      else if cmp d < 0 then ofi_rbmap_search cmp l else ofi_rbmap_search cmp r)"

text \<open>
  The rebalancing loop after a deletion: \<open>x\<close> is short of one black node.  \<open>del_left c x d w\<close> and
  \<open>del_right\<close> are the two arms for a black sibling \<open>w\<close>, with the parent's colour and data;
  \<open>Inl\<close> is the finished subtree, \<open>Inr\<close> the subtree the loop continues from.
\<close>

fun del_left :: "ofi_node_color \<Rightarrow> 'a rbt \<Rightarrow> 'a \<Rightarrow> 'a rbt \<Rightarrow> 'a rbt + 'a rbt" where
  "del_left c x d Sentinel = Inr (Rbnode c x d Sentinel)"
| "del_left c x d (Rbnode cw wl dw wr) =
     (if color wl = BLACK \<and> color wr = BLACK then Inr (Rbnode c x d (Rbnode RED wl dw wr))
      else if color wr = BLACK
        then (case wl of
           Sentinel \<Rightarrow> Inl (Rbnode c x d (Rbnode cw wl dw wr))
         | Rbnode _ a da b \<Rightarrow> Inl (Rbnode c (Rbnode BLACK x d a) da (Rbnode BLACK b dw wr)))
      else Inl (Rbnode c (Rbnode BLACK x d wl) dw (set_color BLACK wr)))"

fun del_right :: "ofi_node_color \<Rightarrow> 'a rbt \<Rightarrow> 'a \<Rightarrow> 'a rbt \<Rightarrow> 'a rbt + 'a rbt" where
  "del_right c Sentinel d x = Inr (Rbnode c Sentinel d x)"
| "del_right c (Rbnode cw wl dw wr) d x =
     (if color wr = BLACK \<and> color wl = BLACK then Inr (Rbnode c (Rbnode RED wl dw wr) d x)
      else if color wl = BLACK
        then (case wr of
           Sentinel \<Rightarrow> Inl (Rbnode c (Rbnode cw wl dw wr) d x)
         | Rbnode _ a da b \<Rightarrow> Inl (Rbnode c (Rbnode BLACK wl dw a) da (Rbnode BLACK b d x)))
      else Inl (Rbnode c (set_color BLACK wl) dw (Rbnode BLACK wr d x)))"

text \<open>
  When the sibling is red the code first rotates, which makes the parent red and its new sibling
  black; if the loop then moves up to that red parent it stops there and blackens it.
\<close>

fun ofi_delete_rebalance :: "'a rbt \<Rightarrow> 'a path \<Rightarrow> 'a rbt" where
  "ofi_delete_rebalance x [] = set_color BLACK x"
| "ofi_delete_rebalance x (InLeft c d w # p) =
     (if color x = RED then plug (set_color BLACK x) (InLeft c d w # p)
      else (case w of
        Rbnode RED wl dw wr \<Rightarrow>
          (case del_left RED x d wl of
             Inl t \<Rightarrow> set_color BLACK (plug t (InLeft BLACK dw wr # p))
           | Inr t \<Rightarrow> plug (set_color BLACK t) (InLeft BLACK dw wr # p))
      | _ \<Rightarrow>
          (case del_left c x d w of
             Inl t \<Rightarrow> set_color BLACK (plug t p)
           | Inr t \<Rightarrow> ofi_delete_rebalance t p)))"
| "ofi_delete_rebalance x (InRight c w d # p) =
     (if color x = RED then plug (set_color BLACK x) (InRight c w d # p)
      else (case w of
        Rbnode RED wl dw wr \<Rightarrow>
          (case del_right RED wr d x of
             Inl t \<Rightarrow> set_color BLACK (plug t (InRight BLACK wl dw # p))
           | Inr t \<Rightarrow> plug (set_color BLACK t) (InRight BLACK wl dw # p))
      | _ \<Rightarrow>
          (case del_right c w d x of
             Inl t \<Rightarrow> set_color BLACK (plug t p)
           | Inr t \<Rightarrow> ofi_delete_rebalance t p)))"

text \<open>The leftmost node of a subtree: its colour, data, right child and path.\<close>

fun rb_leftmost :: "'a rbt \<Rightarrow> 'a path \<Rightarrow> (ofi_node_color \<times> 'a \<times> 'a rbt \<times> 'a path) option" where
  "rb_leftmost Sentinel p = None"
| "rb_leftmost (Rbnode c Sentinel d r) p = Some (c, d, r, p)"
| "rb_leftmost (Rbnode c (Rbnode c' l' d' r') d r) p = rb_leftmost (Rbnode c' l' d' r') (InLeft c d r # p)"

definition rb_unlink :: "ofi_node_color \<Rightarrow> 'a rbt \<Rightarrow> 'a path \<Rightarrow> 'a rbt" where
  "rb_unlink cy x p = (if cy = BLACK then ofi_delete_rebalance x p else plug x p)"

fun ofi_rbmap_delete :: "'a rbt \<Rightarrow> 'a path \<Rightarrow> 'a rbt" where
  "ofi_rbmap_delete Sentinel p = plug Sentinel p"
| "ofi_rbmap_delete (Rbnode c l d r) p =
     (if l = Sentinel then rb_unlink c r p
      else if r = Sentinel then rb_unlink c l p
      else (case rb_leftmost r [] of
          None \<Rightarrow> plug (Rbnode c l d r) p
        | Some (cy, dy, xy, q) \<Rightarrow> rb_unlink cy xy (q @ InRight c l dy # p)))"

text \<open>
  A node pointer kept by a client (\<^verbatim>\<open>entry->node\<close>) is found again by the identity of its
  data: the path to the node whose data satisfies the test.
\<close>

fun rb_locate :: "('a \<Rightarrow> bool) \<Rightarrow> 'a rbt \<Rightarrow> 'a path \<Rightarrow> ('a rbt \<times> 'a path) option" where
  "rb_locate P Sentinel p = None"
| "rb_locate P (Rbnode c l d r) p =
     (if P d then Some (Rbnode c l d r, p)
      else (case rb_locate P l (InLeft c d r # p) of
          Some z \<Rightarrow> Some z
        | None \<Rightarrow> rb_locate P r (InRight c l d # p)))"

definition rb_delete_data :: "('a \<Rightarrow> bool) \<Rightarrow> 'a rbt \<Rightarrow> 'a rbt" where
  "rb_delete_data P t = (case rb_locate P t [] of None \<Rightarrow> t | Some (n, p) \<Rightarrow> ofi_rbmap_delete n p)"

section \<open>Order of the data\<close>

text \<open>The data to the left and to the right of a path's hole.\<close>

fun before :: "'a path \<Rightarrow> 'a list" where
  "before [] = []"
| "before (InLeft c d r # p) = before p"
| "before (InRight c l d # p) = before p @ inorder l @ [d]"

fun after :: "'a path \<Rightarrow> 'a list" where
  "after [] = []"
| "after (InLeft c d r # p) = d # inorder r @ after p"
| "after (InRight c l d # p) = after p"

lemma inorder_plug [simp]: "inorder (plug t p) = before p @ inorder t @ after p"
  by (induction t p rule: plug.induct) auto

lemma inorder_set_color [simp]: "inorder (set_color c t) = inorder t"
  by (cases t) auto

lemma before_append [simp]: "before (p @ q) = before q @ before p"
  by (induction p rule: before.induct) auto

lemma after_append [simp]: "after (p @ q) = after p @ after q"
  by (induction p rule: after.induct) auto

lemma inorder_insert_rebalance [simp]:
  "inorder (ofi_insert_rebalance x p) = before p @ inorder x @ after p"
  by (induction x p rule: ofi_insert_rebalance.induct) (auto split: rbt.splits)

lemma inorder_del_left:
  "del_left c x d w = Inl t \<Longrightarrow> inorder t = inorder x @ d # inorder w"
  "del_left c x d w = Inr t \<Longrightarrow> inorder t = inorder x @ d # inorder w"
  by (cases w; auto split: if_splits rbt.splits)+

lemma inorder_del_right:
  "del_right c w d x = Inl t \<Longrightarrow> inorder t = inorder w @ d # inorder x"
  "del_right c w d x = Inr t \<Longrightarrow> inorder t = inorder w @ d # inorder x"
  by (cases w; auto split: if_splits rbt.splits)+

lemma inorder_delete_rebalance [simp]:
  "inorder (ofi_delete_rebalance x p) = before p @ inorder x @ after p"
  by (induction x p rule: ofi_delete_rebalance.induct)
    (auto split: rbt.splits ofi_node_color.splits sum.splits dest!: inorder_del_left inorder_del_right)

lemma rb_leftmost_Some:
  "rb_leftmost t p = Some (c, d, r, q) \<Longrightarrow> before q @ d # inorder r @ after q = before p @ inorder t @ after p"
  by (induction t p rule: rb_leftmost.induct) auto

lemma rb_leftmost_before: "rb_leftmost t p = Some (c, d, r, q) \<Longrightarrow> before q = before p"
  by (induction t p rule: rb_leftmost.induct) auto

lemma rb_leftmost_None [simp]: "rb_leftmost t p = None \<longleftrightarrow> t = Sentinel"
  by (induction t p rule: rb_leftmost.induct) auto

lemma inorder_rb_unlink [simp]: "inorder (rb_unlink c x p) = before p @ inorder x @ after p"
  by (simp add: rb_unlink_def)

lemma inorder_rbmap_delete:
  "inorder (ofi_rbmap_delete (Rbnode c l d r) p) = before p @ inorder l @ inorder r @ after p"
proof (cases "l = Sentinel \<or> r = Sentinel")
  case True
  then show ?thesis by auto
next
  case False
  then obtain cy dy xy q where y: "rb_leftmost r [] = Some (cy, dy, xy, q)"
    by (metis rb_leftmost_None not_None_eq prod_cases4)
  from rb_leftmost_Some [OF y] rb_leftmost_before [OF y] False y show ?thesis by simp
qed

lemma rb_descend_inorder:
  "rb_descend cmp t p = (t', q) \<Longrightarrow> before q @ inorder t' @ after q = before p @ inorder t @ after p"
  by (induction cmp t p rule: rb_descend.induct) (auto split: if_splits)

lemma rb_descend_search:
  "ofi_rbmap_search cmp t = (case fst (rb_descend cmp t p) of Sentinel \<Rightarrow> None | Rbnode c l d r \<Rightarrow> Some d)"
  by (induction cmp t p rule: rb_descend.induct) auto

lemma ofi_rbmap_insert_inorder:
  "ofi_rbmap_insert cmp d t = (0, t') \<Longrightarrow>
     \<exists>xs ys. inorder t = xs @ ys \<and> inorder t' = xs @ d # ys"
proof -
  assume a: "ofi_rbmap_insert cmp d t = (0, t')"
  then obtain p where p: "rb_descend cmp t [] = (Sentinel, p)"
    and t': "t' = ofi_insert_rebalance (Rbnode RED Sentinel d Sentinel) p"
    by (auto simp: ofi_rbmap_insert_def split: prod.splits rbt.splits)
  from rb_descend_inorder [OF p] have "inorder t = before p @ after p" by simp
  then show ?thesis by (intro exI [of _ "before p"] exI [of _ "after p"]) (simp add: t')
qed

lemma ofi_rbmap_insert_ret:
  "fst (ofi_rbmap_insert cmp d t) = (if ofi_rbmap_search cmp t = None then 0 else - FI_EALREADY)"
  using rb_descend_search [of cmp t "[]"]
  by (auto simp: ofi_rbmap_insert_def split: prod.splits rbt.splits)

lemma ofi_rbmap_search_Some: "ofi_rbmap_search cmp t = Some d \<Longrightarrow> d \<in> set (inorder t) \<and> cmp d = 0"
  by (induction t) (auto split: if_splits)

lemma rb_locate_Some:
  "rb_locate P t p = Some (t', q) \<Longrightarrow>
     (\<exists>c l d r. t' = Rbnode c l d r \<and> P d) \<and> before q @ inorder t' @ after q = before p @ inorder t @ after p"
  by (induction P t p rule: rb_locate.induct) (auto split: if_splits option.splits)

lemma rb_locate_None: "rb_locate P t p = None \<longleftrightarrow> (\<forall>d \<in> set (inorder t). \<not> P d)"
  by (induction P t p rule: rb_locate.induct) (auto split: option.splits)

lemma rb_delete_data_inorder:
  assumes "\<exists>d \<in> set (inorder t). P d"
  shows "\<exists>xs d ys. inorder t = xs @ d # ys \<and> P d \<and> inorder (rb_delete_data P t) = xs @ ys"
proof -
  from assms obtain n q where loc: "rb_locate P t [] = Some (n, q)"
    using rb_locate_None [of P t "[]"] by (cases "rb_locate P t []") auto
  from rb_locate_Some [OF loc] obtain c l d r where n: "n = Rbnode c l d r" "P d"
    and io: "before q @ inorder n @ after q = inorder t" by auto
  have "inorder (rb_delete_data P t) = (before q @ inorder l) @ inorder r @ after q"
    by (simp add: rb_delete_data_def loc n inorder_rbmap_delete del: ofi_rbmap_delete.simps)
  moreover have "inorder t = (before q @ inorder l) @ d # inorder r @ after q"
    using io n by simp
  ultimately show ?thesis using n(2) by blast
qed

lemma rb_delete_data_none: "\<forall>d \<in> set (inorder t). \<not> P d \<Longrightarrow> rb_delete_data P t = t"
  using rb_locate_None [of P t "[]"] by (simp add: rb_delete_data_def)

end
