(* ===== verification/Ofi_Mr_Cache.thy ===== *)
theory Ofi_Mr_Cache
  imports Ofi_Iov Ofi_Rbtree
begin

text \<open>
  The registration cache of \<^verbatim>\<open>prov/util/src/util_mr_cache.c\<close>.  An entry is an object with
  an identity (the number it is stored under), reachable from the tree, from the LRU list of
  idle cached entries, from the list of dead ones, and from the clients that hold a reference.
  The provider's callbacks, the memory monitor and the allocators are the fields of an
  environment; they act on a world of their own, which the cache threads through.  One thread
  runs at a time, as under \<^verbatim>\<open>mm_lock\<close>.
\<close>

section \<open>Definitions\<close>

record mr_info =
  mi_iov :: iovec
  mi_peer_id :: u64

record 'd mr_entry =
  me_info :: mr_info
  me_node :: bool
  me_use_cnt :: int
  me_data :: 'd

record 'd mr_cache =
  c_entries :: "nat \<Rightarrow> 'd mr_entry option"
  c_next :: nat
  c_tree :: "nat rbt"
  c_lru :: "nat list"
  c_dead :: "nat list"
  cached_cnt :: u64
  cached_size :: u64
  cached_max_cnt :: u64
  cached_max_size :: u64
  uncached_cnt :: u64
  uncached_size :: u64
  search_cnt :: u64
  delete_cnt :: u64
  hit_cnt :: u64
  notify_cnt :: u64

text \<open>
  What the cache calls: the entry pool (the data area of a recycled entry holds whatever it was
  left with), the node allocator, the provider's two callbacks and the memory monitor.
\<close>

record ('w, 'd) cache_env =
  ce_entry_alloc :: "'w \<Rightarrow> 'd option \<times> 'w"
  ce_node_alloc :: "'w \<Rightarrow> bool \<times> 'w"
  ce_add_region :: "mr_info \<Rightarrow> 'd \<Rightarrow> 'w \<Rightarrow> int \<times> mr_info \<times> 'd \<times> 'w"
  ce_delete_region :: "'d \<Rightarrow> 'w \<Rightarrow> 'w"
  ce_valid :: "mr_info \<Rightarrow> mr_info \<Rightarrow> 'w \<Rightarrow> bool"
  ce_subscribe :: "iovec \<Rightarrow> 'w \<Rightarrow> int \<times> 'w"
  ce_unsubscribe :: "iovec \<Rightarrow> 'w \<Rightarrow> 'w"

definition util_mr_find_within :: "mr_info \<Rightarrow> mr_info \<Rightarrow> int" where
  "util_mr_find_within info entry =
     (if mi_peer_id info < mi_peer_id entry then -1
      else if mi_peer_id info > mi_peer_id entry then 1
      else if ofi_iov_shifted_left (mi_iov info) (mi_iov entry) then -1
      else if ofi_iov_shifted_right (mi_iov info) (mi_iov entry) then 1
      else 0)"

definition util_mr_find_overlap :: "mr_info \<Rightarrow> mr_info \<Rightarrow> int" where
  "util_mr_find_overlap info entry =
     (if mi_peer_id info < mi_peer_id entry then -1
      else if mi_peer_id info > mi_peer_id entry then 1
      else if ofi_iov_left (mi_iov info) (mi_iov entry) then -1
      else if ofi_iov_right (mi_iov info) (mi_iov entry) then 1
      else 0)"

definition ofi_mr_cache_full :: "'d mr_cache \<Rightarrow> bool" where
  "ofi_mr_cache_full c \<longleftrightarrow> cached_cnt c \<ge> cached_max_cnt c \<or> cached_size c \<ge> cached_max_size c"

text \<open>The comparison callback applied to a key and to the entry a tree node points at.\<close>

definition entry_cmp :: "(mr_info \<Rightarrow> mr_info \<Rightarrow> int) \<Rightarrow> 'd mr_cache \<Rightarrow> mr_info \<Rightarrow> nat \<Rightarrow> int" where
  "entry_cmp f c key i = (case c_entries c i of None \<Rightarrow> 0 | Some e \<Rightarrow> f key (me_info e))"

definition entry_upd :: "nat \<Rightarrow> ('d mr_entry \<Rightarrow> 'd mr_entry) \<Rightarrow> 'd mr_cache \<Rightarrow> 'd mr_cache" where
  "entry_upd i f c = c\<lparr>c_entries := (c_entries c)(i := map_option f (c_entries c i))\<rparr>"

definition entry_len :: "'d mr_cache \<Rightarrow> nat \<Rightarrow> u64" where
  "entry_len c i = (case c_entries c i of None \<Rightarrow> 0 | Some e \<Rightarrow> of_nat (iov_len (mi_iov (me_info e))))"

definition ofi_mr_rbt_find :: "'d mr_cache \<Rightarrow> mr_info \<Rightarrow> nat option" where
  "ofi_mr_rbt_find c key = ofi_rbmap_search (entry_cmp util_mr_find_within c key) (c_tree c)"

definition ofi_mr_rbt_overlap :: "'d mr_cache \<Rightarrow> iovec \<Rightarrow> nat option" where
  "ofi_mr_rbt_overlap c v =
     ofi_rbmap_search (entry_cmp util_mr_find_overlap c \<lparr>mi_iov = v, mi_peer_id = 0\<rparr>) (c_tree c)"

definition util_mr_free_entry ::
  "('w, 'd) cache_env \<Rightarrow> nat \<Rightarrow> 'd mr_cache \<Rightarrow> 'w \<Rightarrow> 'd mr_cache \<times> 'w" where
  "util_mr_free_entry env i c w =
     (case c_entries c i of
        None \<Rightarrow> (c, w)
      | Some e \<Rightarrow> (c\<lparr>c_entries := (c_entries c)(i := None)\<rparr>, ce_delete_region env (me_data e) w))"

definition util_mr_uncache_entry_storage ::
  "('w, 'd) cache_env \<Rightarrow> nat \<Rightarrow> 'd mr_cache \<Rightarrow> 'w \<Rightarrow> 'd mr_cache \<times> 'w" where
  "util_mr_uncache_entry_storage env i c w =
     (case c_entries c i of
        None \<Rightarrow> (c, w)
      | Some e \<Rightarrow>
          (c\<lparr>c_tree := rb_delete_data (\<lambda>j. j = i) (c_tree c),
             c_entries := (c_entries c)(i \<mapsto> e\<lparr>me_node := False\<rparr>),
             cached_cnt := cached_cnt c - 1,
             cached_size := cached_size c - entry_len c i\<rparr>,
           ce_unsubscribe env (mi_iov (me_info e)) w))"

definition util_mr_uncache_entry ::
  "('w, 'd) cache_env \<Rightarrow> nat \<Rightarrow> 'd mr_cache \<Rightarrow> 'w \<Rightarrow> 'd mr_cache \<times> 'w" where
  "util_mr_uncache_entry env i c w =
     (case util_mr_uncache_entry_storage env i c w of
        (c', w') \<Rightarrow>
          (case c_entries c i of
             None \<Rightarrow> (c, w)
           | Some e \<Rightarrow>
               if me_use_cnt e = 0
               then (c'\<lparr>c_lru := removeAll i (c_lru c'), c_dead := c_dead c' @ [i]\<rparr>, w')
               else (c'\<lparr>uncached_cnt := uncached_cnt c' + 1,
                       uncached_size := uncached_size c' + entry_len c i\<rparr>, w')))"

text \<open>
  The two purge loops run until the search finds nothing more.  Each round unlinks one node, so
  the number of nodes bounds the rounds; the bound is the first argument.
\<close>

fun purge_loop ::
  "('d mr_cache \<Rightarrow> nat option) \<Rightarrow> nat \<Rightarrow> ('w, 'd) cache_env \<Rightarrow> 'd mr_cache \<Rightarrow> 'w \<Rightarrow> 'd mr_cache \<times> 'w" where
  "purge_loop srch 0 env c w = (c, w)"
| "purge_loop srch (Suc n) env c w =
     (case srch c of
        None \<Rightarrow> (c, w)
      | Some i \<Rightarrow> (case util_mr_uncache_entry env i c w of (c', w') \<Rightarrow> purge_loop srch n env c' w'))"

definition ofi_mr_cache_notify ::
  "('w, 'd) cache_env \<Rightarrow> addr \<Rightarrow> nat \<Rightarrow> 'd mr_cache \<Rightarrow> 'w \<Rightarrow> 'd mr_cache \<times> 'w" where
  "ofi_mr_cache_notify env a len c w =
     purge_loop (\<lambda>c. ofi_mr_rbt_overlap c (iov a len)) (length (inorder (c_tree c))) env
       (c\<lparr>notify_cnt := notify_cnt c + 1\<rparr>) w"

fun flush_lru_loop ::
  "('w, 'd) cache_env \<Rightarrow> bool \<Rightarrow> nat list \<Rightarrow> nat list \<Rightarrow> 'd mr_cache \<Rightarrow> 'w \<Rightarrow> nat list \<times> 'd mr_cache \<times> 'w" where
  "flush_lru_loop env flush_lru [] free_list c w = (free_list, c\<lparr>c_lru := []\<rparr>, w)"
| "flush_lru_loop env flush_lru (i # is) free_list c w =
     (if \<not> flush_lru then (free_list, c\<lparr>c_lru := i # is\<rparr>, w)
      else (case util_mr_uncache_entry_storage env i (c\<lparr>c_lru := is\<rparr>) w of
        (c', w') \<Rightarrow> flush_lru_loop env (ofi_mr_cache_full c') is (free_list @ [i]) c' w'))"

fun free_list_loop ::
  "('w, 'd) cache_env \<Rightarrow> nat list \<Rightarrow> 'd mr_cache \<Rightarrow> 'w \<Rightarrow> 'd mr_cache \<times> 'w" where
  "free_list_loop env [] c w = (c, w)"
| "free_list_loop env (i # is) c w =
     (case util_mr_free_entry env i c w of (c', w') \<Rightarrow> free_list_loop env is c' w')"

definition ofi_mr_cache_flush ::
  "('w, 'd) cache_env \<Rightarrow> bool \<Rightarrow> 'd mr_cache \<Rightarrow> 'w \<Rightarrow> bool \<times> 'd mr_cache \<times> 'w" where
  "ofi_mr_cache_flush env flush_lru c w =
     (case flush_lru_loop env flush_lru (c_lru c) (c_dead c) (c\<lparr>c_dead := []\<rparr>) w of
        (free_list, c1, w1) \<Rightarrow>
          (case free_list_loop env free_list c1 w1 of
             (c2, w2) \<Rightarrow> (free_list \<noteq> [], c2, w2)))"

definition ofi_mr_cache_delete ::
  "('w, 'd) cache_env \<Rightarrow> nat \<Rightarrow> 'd mr_cache \<Rightarrow> 'w \<Rightarrow> 'd mr_cache \<times> 'w" where
  "ofi_mr_cache_delete env i c w =
     (case c_entries c i of
        None \<Rightarrow> (c\<lparr>delete_cnt := delete_cnt c + 1\<rparr>, w)
      | Some e \<Rightarrow>
          let c1 = entry_upd i (\<lambda>e. e\<lparr>me_use_cnt := me_use_cnt e - 1\<rparr>) (c\<lparr>delete_cnt := delete_cnt c + 1\<rparr>)
          in if me_use_cnt e - 1 = 0
             then if \<not> me_node e
                  then util_mr_free_entry env i
                         (c1\<lparr>uncached_cnt := uncached_cnt c1 - 1,
                            uncached_size := uncached_size c1 - entry_len c i\<rparr>) w
                  else (c1\<lparr>c_lru := c_lru c1 @ [i]\<rparr>, w)
             else (c1, w))"

text \<open>
  Registering a new region.  \<open>create_insert\<close> is the part under the monitor's lock: give way to
  an entry that appeared meanwhile, stay uncached when the cache is full, else enter the tree
  and subscribe.
\<close>

definition create_insert ::
  "('w, 'd) cache_env \<Rightarrow> nat \<Rightarrow> mr_info \<Rightarrow> 'd mr_cache \<Rightarrow> 'w \<Rightarrow> int \<times> 'd mr_cache \<times> 'w" where
  "create_insert env i info c w =
     (if ofi_mr_rbt_find c info \<noteq> None then (- FI_EAGAIN, c, w)
      else if ofi_mr_cache_full c
      then (0, c\<lparr>uncached_cnt := uncached_cnt c + 1, uncached_size := uncached_size c + entry_len c i\<rparr>, w)
      else (case ofi_rbmap_insert (entry_cmp util_mr_find_within c info) i (c_tree c) of
        (r, t) \<Rightarrow>
          if r \<noteq> 0 then (r, c, w)
          else let c1 = entry_upd i (\<lambda>e. e\<lparr>me_node := True\<rparr>)
                     (c\<lparr>c_tree := t, cached_cnt := cached_cnt c + 1, cached_size := cached_size c + entry_len c i\<rparr>)
               in (case ce_subscribe env (mi_iov info) w of
                 (sret, w1) \<Rightarrow>
                   if sret \<noteq> 0
                   then (case util_mr_uncache_entry_storage env i c1 w1 of
                     (c2, w2) \<Rightarrow> (0, c2\<lparr>uncached_cnt := uncached_cnt c2 + 1,
                                      uncached_size := uncached_size c2 + entry_len c2 i\<rparr>, w2))
                   else (0, c1, w1))))"

definition util_mr_cache_create ::
  "('w, 'd) cache_env \<Rightarrow> mr_info \<Rightarrow> 'd mr_cache \<Rightarrow> 'w \<Rightarrow> int \<times> nat \<times> mr_info \<times> 'd mr_cache \<times> 'w" where
  "util_mr_cache_create env info c w =
     (case ce_entry_alloc env w of
        (None, w1) \<Rightarrow> (- FI_ENOMEM, 0, info, c, w1)
      | (Some d, w1) \<Rightarrow>
          (case ce_add_region env info d w1 of
             (ret, info', d', w2) \<Rightarrow>
               let i = c_next c;
                   c1 = c\<lparr>c_next := i + 1,
                         c_entries := (c_entries c)(i \<mapsto> \<lparr>me_info = info', me_node = False, me_use_cnt = 1, me_data = d'\<rparr>)\<rparr>
               in if ret \<noteq> 0
                  then (case util_mr_free_entry env i c1 w2 of (c2, w3) \<Rightarrow> (ret, i, info, c2, w3))
                  else (case ce_node_alloc env w2 of
                    (False, w3) \<Rightarrow>
                      (case util_mr_free_entry env i c1 w3 of (c2, w4) \<Rightarrow> (- FI_ENOMEM, i, info', c2, w4))
                  | (True, w3) \<Rightarrow>
                      (case create_insert env i info' c1 w3 of
                         (r, c2, w4) \<Rightarrow>
                           if r \<noteq> 0
                           then (case util_mr_free_entry env i c2 w4 of (c3, w5) \<Rightarrow> (r, i, info', c3, w5))
                           else (0, i, info', c2, w4)))))"

text \<open>
  One round of the search: flush if the cache is full or regions died, look the region up, and
  either hit, or purge what is in the way and register.  \<open>Inr\<close> is another round (the
  \<^verbatim>\<open>-FI_EAGAIN\<close> of the loop condition).
\<close>

definition search_flush :: "('w, 'd) cache_env \<Rightarrow> 'd mr_cache \<Rightarrow> 'w \<Rightarrow> 'd mr_cache \<times> 'w" where
  "search_flush env c w =
     (if ofi_mr_cache_full c \<or> c_dead c \<noteq> []
      then snd (ofi_mr_cache_flush env (ofi_mr_cache_full c) c w) else (c, w))"

definition search_lookup ::
  "('w, 'd) cache_env \<Rightarrow> mr_info \<Rightarrow> 'd mr_cache \<Rightarrow> 'w \<Rightarrow> (nat \<times> 'd mr_entry) option" where
  "search_lookup env info c w =
     (case ofi_mr_rbt_find c info of
        None \<Rightarrow> None
      | Some i \<Rightarrow>
          (case c_entries c i of
             None \<Rightarrow> None
           | Some e \<Rightarrow>
               if ofi_iov_within (mi_iov info) (mi_iov (me_info e)) \<and> ce_valid env info (me_info e) w
               then Some (i, e) else None))"

definition search_hit :: "nat \<Rightarrow> 'd mr_entry \<Rightarrow> 'd mr_cache \<Rightarrow> 'd mr_cache" where
  "search_hit i e c =
     (let c1 = entry_upd i (\<lambda>e. e\<lparr>me_use_cnt := me_use_cnt e + 1\<rparr>) (c\<lparr>hit_cnt := hit_cnt c + 1\<rparr>)
      in if me_use_cnt e = 0 then c1\<lparr>c_lru := removeAll i (c_lru c1)\<rparr> else c1)"

definition search_purge :: "('w, 'd) cache_env \<Rightarrow> mr_info \<Rightarrow> 'd mr_cache \<Rightarrow> 'w \<Rightarrow> 'd mr_cache \<times> 'w" where
  "search_purge env info c w =
     purge_loop (\<lambda>c. ofi_mr_rbt_find c info) (length (inorder (c_tree c))) env c w"

definition search_miss ::
  "('w, 'd) cache_env \<Rightarrow> mr_info \<Rightarrow> 'd mr_cache \<Rightarrow> 'w \<Rightarrow>
     (int \<times> nat \<times> 'd mr_cache \<times> 'w) + (mr_info \<times> 'd mr_cache \<times> 'w)" where
  "search_miss env info c w =
     (case search_purge env info c w of
        (c1, w1) \<Rightarrow>
          (case util_mr_cache_create env info c1 w1 of
             (ret, i, info', c2, w2) \<Rightarrow>
               if ret \<noteq> 0 \<and> ret \<noteq> - FI_EAGAIN
               then (case ofi_mr_cache_flush env True c2 w2 of
                 (freed, c3, w3) \<Rightarrow> if freed then Inr (info', c3, w3) else Inl (ret, i, c3, w3))
               else if ret = - FI_EAGAIN then Inr (info', c2, w2)
               else Inl (0, i, c2, w2)))"

definition search_round ::
  "('w, 'd) cache_env \<Rightarrow> mr_info \<Rightarrow> 'd mr_cache \<Rightarrow> 'w \<Rightarrow>
     (int \<times> nat \<times> 'd mr_cache \<times> 'w) + (mr_info \<times> 'd mr_cache \<times> 'w)" where
  "search_round env info c w =
     (case search_flush env c w of
        (c1, w1) \<Rightarrow>
          let c2 = c1\<lparr>search_cnt := search_cnt c1 + 1\<rparr>
          in (case search_lookup env info c2 w1 of
            Some (i, e) \<Rightarrow> Inl (0, i, search_hit i e c2, w1)
          | None \<Rightarrow> search_miss env info c2 w1))"

partial_function (option) ofi_mr_cache_search ::
  "('w, 'd) cache_env \<Rightarrow> mr_info \<Rightarrow> 'd mr_cache \<Rightarrow> 'w \<Rightarrow> (int \<times> nat \<times> 'd mr_cache \<times> 'w) option" where
  "ofi_mr_cache_search env info c w =
     (case search_round env info c w of
        Inl r \<Rightarrow> Some r
      | Inr s \<Rightarrow> ofi_mr_cache_search env (fst s) (fst (snd s)) (snd (snd s)))"

text \<open>
  \<^verbatim>\<open>ofi_mr_cache_init\<close> with the two limits from \<^verbatim>\<open>cache_params\<close>; the monitor set-up and
  the entry pool are the environment's.  \<^verbatim>\<open>ofi_mr_cache_cleanup\<close> flushes until a flush frees
  nothing; one round with no limit already empties both lists, the bound covers the last one.
\<close>

definition ofi_mr_cache_init :: "u64 \<Rightarrow> u64 \<Rightarrow> int + 'd mr_cache" where
  "ofi_mr_cache_init max_cnt max_size =
     (if max_cnt = 0 \<or> max_size = 0 then Inl (- FI_ENOSPC)
      else Inr \<lparr>c_entries = (\<lambda>_. None), c_next = 0, c_tree = Sentinel, c_lru = [], c_dead = [],
        cached_cnt = 0, cached_size = 0, cached_max_cnt = max_cnt, cached_max_size = max_size,
        uncached_cnt = 0, uncached_size = 0, search_cnt = 0, delete_cnt = 0, hit_cnt = 0, notify_cnt = 0\<rparr>)"

fun cleanup_loop :: "nat \<Rightarrow> ('w, 'd) cache_env \<Rightarrow> 'd mr_cache \<Rightarrow> 'w \<Rightarrow> 'd mr_cache \<times> 'w" where
  "cleanup_loop 0 env c w = (c, w)"
| "cleanup_loop (Suc n) env c w =
     (case ofi_mr_cache_flush env True c w of
        (freed, c', w') \<Rightarrow> if freed then cleanup_loop n env c' w' else (c', w'))"

definition ofi_mr_cache_cleanup :: "('w, 'd) cache_env \<Rightarrow> 'd mr_cache \<Rightarrow> 'w \<Rightarrow> 'd mr_cache \<times> 'w" where
  "ofi_mr_cache_cleanup env c w = cleanup_loop (length (c_lru c) + length (c_dead c) + 1) env c w"

section \<open>What a client can rely on\<close>

text \<open>
  An observation of the world that none of the environment's calls changes is not changed by any
  operation of the cache.  The provider instantiates it with what it counts in the kernel's
  history.
\<close>

locale cache_observer =
  fixes env :: "('w, 'd) cache_env" and obs :: "'w \<Rightarrow> 'o"
  assumes obs_entry_alloc: "obs (snd (ce_entry_alloc env w)) = obs w"
    and obs_node_alloc: "obs (snd (ce_node_alloc env w)) = obs w"
    and obs_add_region: "obs (snd (snd (snd (ce_add_region env info d w)))) = obs w"
    and obs_delete_region: "obs (ce_delete_region env d w) = obs w"
    and obs_subscribe: "obs (snd (ce_subscribe env v w)) = obs w"
    and obs_unsubscribe: "obs (ce_unsubscribe env v w) = obs w"
begin

lemmas obs_env =
  obs_entry_alloc obs_node_alloc obs_add_region obs_delete_region obs_subscribe obs_unsubscribe

lemma obs_free_entry: "obs (snd (util_mr_free_entry env i c w)) = obs w"
  by (auto simp: util_mr_free_entry_def obs_env split: option.splits)

lemma obs_uncache_storage: "obs (snd (util_mr_uncache_entry_storage env i c w)) = obs w"
  by (auto simp: util_mr_uncache_entry_storage_def obs_env split: option.splits)

lemma obs_uncache: "obs (snd (util_mr_uncache_entry env i c w)) = obs w"
  using obs_uncache_storage [of i c w]
  by (auto simp: util_mr_uncache_entry_def split: option.splits prod.splits)

lemma obs_purge: "obs (snd (purge_loop srch n env c w)) = obs w"
proof (induction n arbitrary: c w)
  case 0
  then show ?case by simp
next
  case (Suc n)
  then show ?case by (auto simp: case_prod_beta obs_uncache split: option.splits)
qed

lemma obs_flush_lru: "obs (snd (snd (flush_lru_loop env b is fl c w))) = obs w"
proof (induction "is" arbitrary: b fl c w)
  case Nil
  then show ?case by simp
next
  case (Cons i "is")
  then show ?case using obs_uncache_storage [of i "c\<lparr>c_lru := is\<rparr>" w] by (auto split: prod.splits)
qed

lemma obs_free_list: "obs (snd (free_list_loop env is c w)) = obs w"
proof (induction "is" arbitrary: c w)
  case Nil
  then show ?case by simp
next
  case (Cons i "is")
  then show ?case using obs_free_entry [of i c w] by (auto split: prod.splits)
qed

lemma obs_flush: "obs (snd (snd (ofi_mr_cache_flush env b c w))) = obs w"
  by (simp add: ofi_mr_cache_flush_def case_prod_beta obs_free_list obs_flush_lru)

lemma obs_delete: "obs (snd (ofi_mr_cache_delete env i c w)) = obs w"
  by (auto simp: ofi_mr_cache_delete_def Let_def obs_free_entry split: option.splits)

lemma obs_create_insert: "obs (snd (snd (create_insert env i info c w))) = obs w"
  by (auto simp: create_insert_def Let_def case_prod_beta obs_env obs_uncache_storage)

lemma obs_create: "obs (snd (snd (snd (snd (util_mr_cache_create env info c w))))) = obs w"
proof -
  obtain d w1 where a: "ce_entry_alloc env w = (d, w1)" by fastforce
  have w1: "obs w1 = obs w" using obs_entry_alloc [of w] a by simp
  show ?thesis
  proof (cases d)
    case None
    then show ?thesis by (simp add: util_mr_cache_create_def a w1)
  next
    case (Some d0)
    obtain ret info' d' w2 where r: "ce_add_region env info d0 w1 = (ret, info', d', w2)"
      using prod_cases4 by blast
    have w2: "obs w2 = obs w" using obs_add_region [of info d0 w1] r w1 by simp
    obtain b w3 where n: "ce_node_alloc env w2 = (b, w3)" by fastforce
    have w3: "obs w3 = obs w" using obs_node_alloc [of w2] n w2 by simp
    show ?thesis
      by (simp add: util_mr_cache_create_def a Some r n Let_def case_prod_beta w2 w3 obs_free_entry
          obs_create_insert split: bool.split)
  qed
qed

lemma obs_search_flush: "obs (snd (search_flush env c w)) = obs w"
  by (simp add: search_flush_def obs_flush)

text \<open>The world at the end of a round, whichever way it ends.\<close>

lemma obs_search_miss:
  "obs (case search_miss env info c w of Inl r \<Rightarrow> snd (snd (snd r)) | Inr s \<Rightarrow> snd (snd s)) = obs w"
  by (auto simp: search_miss_def search_purge_def case_prod_beta obs_flush obs_create obs_purge)

lemma obs_search_round:
  "obs (case search_round env info c w of Inl r \<Rightarrow> snd (snd (snd r)) | Inr s \<Rightarrow> snd (snd s)) = obs w"
  by (auto simp: search_round_def Let_def case_prod_beta obs_search_miss obs_search_flush split: option.split)

lemma obs_search_all:
  assumes "ofi_mr_cache_search e info c w = Some r"
  shows "e = env \<longrightarrow> obs (snd (snd (snd r))) = obs w"
proof (rule ofi_mr_cache_search.raw_induct
    [where P = "\<lambda>e info c w r. e = env \<longrightarrow> obs (snd (snd (snd r))) = obs w", OF _ assms], intro impI)
  fix loop :: "('w, 'd) cache_env \<Rightarrow> mr_info \<Rightarrow> 'd mr_cache \<Rightarrow> 'w \<Rightarrow> (int \<times> nat \<times> 'd mr_cache \<times> 'w) option"
    and e inf c w r
  assume IH: "\<And>e inf c w r. loop e inf c w = Some r \<Longrightarrow> e = env \<longrightarrow> obs (snd (snd (snd r))) = obs w"
    and run: "(case search_round e inf c w of Inl r \<Rightarrow> Some r
      | Inr s \<Rightarrow> loop e (fst s) (fst (snd s)) (snd (snd s))) = Some r" and e: "e = env"
  show "obs (snd (snd (snd r))) = obs w"
  proof (cases "search_round env inf c w")
    case (Inl a)
    with run e show ?thesis using obs_search_round [of inf c w] by simp
  next
    case (Inr s)
    with run e have "loop env (fst s) (fst (snd s)) (snd (snd s)) = Some r" by simp
    from IH [OF this] have "obs (snd (snd (snd r))) = obs (snd (snd s))" by simp
    then show ?thesis using obs_search_round [of inf c w] Inr by simp
  qed
qed

lemma obs_search: "ofi_mr_cache_search env info c w = Some (ret, i, c', w') \<Longrightarrow> obs w' = obs w"
  using obs_search_all by fastforce

end

end
