(* ===== verification/Util_Av.thy ===== *)
theory Util_Av
  imports Rds_Prelude
begin

text \<open>
  The address vector of \<^verbatim>\<open>prov/util/src/util_av.c\<close>: entries indexed by \<^verbatim>\<open>fi_addr_t\<close>,
  with a use count, and a hash from addresses back to indices.  A socket address is an opaque
  value (the provider only copies and compares it).  The index the entry pool hands out is an
  argument of the insertion, with \<open>None\<close> for an exhausted pool; \<open>Util_Av_Pool\<close> supplies the pool.
\<close>

section \<open>Definitions\<close>

type_synonym sock_ip = nat
type_synonym fi_addr = u64

abbreviation (input) FI_ADDR_NOTAVAIL :: fi_addr where "FI_ADDR_NOTAVAIL \<equiv> - 1"
abbreviation (input) FI_ADDR_UNSPEC :: fi_addr where "FI_ADDR_UNSPEC \<equiv> - 1"

record util_av_entry =
  ave_addr :: sock_ip
  ave_use_cnt :: int

record util_av =
  av_entries :: "fi_addr \<Rightarrow> util_av_entry option"
  av_hash :: "sock_ip \<Rightarrow> fi_addr option"

definition ofi_av_get_addr :: "util_av \<Rightarrow> fi_addr \<Rightarrow> sock_ip option" where
  "ofi_av_get_addr av fi_addr = map_option ave_addr (av_entries av fi_addr)"

text \<open>
  The insertion at a given index takes the entry of that index from the pool; \<open>ibuf\<close> says whether the pool
  reaches it.  An index that is in use fails the assertion of the pool that it is free: \<open>None\<close>.
\<close>

definition ofi_av_insert_addr_at :: "bool \<Rightarrow> util_av \<Rightarrow> sock_ip \<Rightarrow> fi_addr \<Rightarrow> (int \<times> util_av) option" where
  "ofi_av_insert_addr_at ibuf av a fi_addr =
     (case av_hash av a of
        Some i \<Rightarrow> Some (if fi_addr = i then (0, av) else (- FI_EALREADY, av))
      | None \<Rightarrow>
          if av_entries av fi_addr \<noteq> None then None
          else if \<not> ibuf then Some (- FI_ENOMEM, av)
          else Some (0, av\<lparr>av_entries := (av_entries av)(fi_addr \<mapsto> \<lparr>ave_addr = a, ave_use_cnt = 1\<rparr>),
                           av_hash := (av_hash av)(a \<mapsto> fi_addr)\<rparr>))"

definition ofi_av_insert_addr :: "fi_addr option \<Rightarrow> util_av \<Rightarrow> sock_ip \<Rightarrow> int \<times> fi_addr \<times> util_av" where
  "ofi_av_insert_addr ibuf av a =
     (case av_hash av a of
        Some i \<Rightarrow> (0, i, av\<lparr>av_entries := (av_entries av)(i := map_option (\<lambda>e. e\<lparr>ave_use_cnt := ave_use_cnt e + 1\<rparr>) (av_entries av i))\<rparr>)
      | None \<Rightarrow>
          (case ibuf of
             None \<Rightarrow> (- FI_ENOMEM, FI_ADDR_NOTAVAIL, av)
           | Some i \<Rightarrow> (0, i, av\<lparr>av_entries := (av_entries av)(i \<mapsto> \<lparr>ave_addr = a, ave_use_cnt = 1\<rparr>),
                                 av_hash := (av_hash av)(a \<mapsto> i)\<rparr>)))"

definition ofi_av_remove_addr :: "util_av \<Rightarrow> fi_addr \<Rightarrow> int \<times> util_av" where
  "ofi_av_remove_addr av fi_addr =
     (case av_entries av fi_addr of
        None \<Rightarrow> (- FI_EINVAL, av)
      | Some e \<Rightarrow>
          if ave_use_cnt e - 1 \<noteq> 0
          then (0, av\<lparr>av_entries := (av_entries av)(fi_addr \<mapsto> e\<lparr>ave_use_cnt := ave_use_cnt e - 1\<rparr>)\<rparr>)
          else (0, av\<lparr>av_hash := (av_hash av)(ave_addr e := None),
                      av_entries := (av_entries av)(fi_addr := None)\<rparr>))"

definition ofi_av_lookup_fi_addr :: "util_av \<Rightarrow> sock_ip \<Rightarrow> fi_addr" where
  "ofi_av_lookup_fi_addr av a = (case av_hash av a of Some i \<Rightarrow> i | None \<Rightarrow> FI_ADDR_NOTAVAIL)"

definition av_empty :: util_av where
  "av_empty = \<lparr>av_entries = (\<lambda>_. None), av_hash = (\<lambda>_. None)\<rparr>"

text \<open>The invariant: the hash is the inverse of the table, and every entry is in use.\<close>

definition av_inv :: "util_av \<Rightarrow> bool" where
  "av_inv av \<longleftrightarrow>
     (\<forall>a i. av_hash av a = Some i \<longleftrightarrow> (\<exists>e. av_entries av i = Some e \<and> ave_addr e = a)) \<and>
     (\<forall>i e. av_entries av i = Some e \<longrightarrow> 0 < ave_use_cnt e) \<and> av_entries av FI_ADDR_NOTAVAIL = None"

section \<open>Lemmas\<close>

lemma av_inv_empty: "av_inv av_empty"
  by (simp add: av_inv_def av_empty_def)

lemma av_inv_insert_addr:
  assumes "av_inv av" and "\<And>i. ibuf = Some i \<Longrightarrow> av_entries av i = None \<and> i \<noteq> FI_ADDR_NOTAVAIL"
  shows "av_inv (snd (snd (ofi_av_insert_addr ibuf av a)))"
proof (cases "av_hash av a")
  case None
  with assms(1) have "\<forall>i e. av_entries av i = Some e \<longrightarrow> ave_addr e \<noteq> a"
    unfolding av_inv_def by (metis option.distinct(1))
  with None assms show ?thesis
    by (cases ibuf) (auto simp: ofi_av_insert_addr_def av_inv_def)
next
  case (Some i)
  with assms(1) obtain e where e: "av_entries av i = Some e" by (auto simp: av_inv_def)
  have eq: "snd (snd (ofi_av_insert_addr ibuf av a)) =
      av\<lparr>av_entries := (av_entries av)(i \<mapsto> e\<lparr>ave_use_cnt := ave_use_cnt e + 1\<rparr>)\<rparr>"
    using Some e by (simp add: ofi_av_insert_addr_def)
  have "0 < ave_use_cnt e" using assms(1) e by (auto simp: av_inv_def)
  then show ?thesis using assms(1) e unfolding eq av_inv_def by (auto intro: less_imp_le)
qed

lemma av_inv_remove_addr: "av_inv av \<Longrightarrow> av_inv (snd (ofi_av_remove_addr av i))"
proof (cases "av_entries av i")
  case None
  then show "av_inv av \<Longrightarrow> av_inv (snd (ofi_av_remove_addr av i))" by (simp add: ofi_av_remove_addr_def)
next
  case (Some e)
  assume inv: "av_inv av"
  then have "0 < ave_use_cnt e" using Some by (auto simp: av_inv_def)
  then have "ave_use_cnt e \<noteq> 1 \<longrightarrow> 1 < ave_use_cnt e" by linarith
  moreover have "ave_addr e' \<noteq> ave_addr e" if "av_entries av j = Some e'" "j \<noteq> i" for j e'
  proof
    assume "ave_addr e' = ave_addr e"
    with inv that Some have "av_hash av (ave_addr e) = Some j" "av_hash av (ave_addr e) = Some i"
      unfolding av_inv_def by blast+
    with that(2) show False by simp
  qed
  ultimately show ?thesis using inv Some by (auto simp: ofi_av_remove_addr_def av_inv_def)
qed

lemma av_inv_lookup: "av_inv av \<Longrightarrow> ofi_av_get_addr av i = Some a \<longleftrightarrow> av_hash av a = Some i"
  by (auto simp: av_inv_def ofi_av_get_addr_def)

end
