(* ===== verification/Rds_Os.thy ===== *)
theory Rds_Os
  imports Ofi_Iov Util_Av
begin

text \<open>
  The operating system as the provider sees it.  The RDS socket (\<^verbatim>\<open>sendmsg\<close> of a datagram,
  \<^verbatim>\<open>sendmsg\<close> of an RDMA request, \<^verbatim>\<open>recvmsg\<close>, the memory-registration options), the
  allocator, the clock, the cache's entry pool and the memory monitor are not part of the
  repository: they are the fields of a record \<open>os\<close>, each a function of everything that has
  happened so far.  Every call is recorded, newest first, with its result, so a run is
  deterministic given \<open>os\<close> and a statement for all \<open>os\<close> covers every behaviour of the kernel.
  The last field gives the bytes that lie in memory behind a received payload.
\<close>

section \<open>Definitions\<close>

abbreviation (input) EAGAIN :: nat where "EAGAIN \<equiv> 11"
abbreviation (input) ENOBUFS :: nat where "ENOBUFS \<equiv> 105"

abbreviation (input) RDS_RDMA_READWRITE :: u64 where "RDS_RDMA_READWRITE \<equiv> 1"
abbreviation (input) RDS_RDMA_NOTIFY_ME :: u64 where "RDS_RDMA_NOTIFY_ME \<equiv> 0x20"

record rdma_args =
  ra_cookie :: u64
  ra_remote_addr :: u64
  ra_remote_bytes :: u64
  ra_local :: "iovec list"
  ra_flags :: u64
  ra_user_token :: u64

record rdma_notify =
  nt_user_token :: u64
  nt_status :: int

text \<open>
  What one \<^verbatim>\<open>recvmsg\<close> returns: the notifications in its control buffer, whether the
  datagram was truncated, its bytes (at most the buffer's size) and its source.
\<close>

record recv_msg =
  rm_notifies :: "rdma_notify list"
  rm_trunc :: bool
  rm_data :: "byte list"
  rm_src :: sock_ip

text \<open>What an allocation is for: the objects the provider allocates, with their variable sizes.\<close>

datatype obj =
    ObjPending | ObjDeferred | ObjRx | ObjUnexp nat | ObjSegs nat | ObjMr | ObjMrArray nat
  | ObjPeer | ObjRing nat | ObjStage nat | ObjCredit | ObjBounce nat | ObjEp | ObjRxBuf nat | ObjCmsgBuf

datatype sys =
    SysSend sock_ip "byte list" nat
  | SysRdma sock_ip rdma_args nat
  | SysRecv "nat + recv_msg"
  | SysAlloc obj "addr option"
  | SysGetMr int addr nat u64 "sock_ip option" "nat + u64"
  | SysFreeMr int u64
  | SysTime u64
  | SysPool "(u64 \<times> u32) option"
  | SysNode bool
  | SysSubscribe iovec int
  | SysUnsubscribe iovec

type_synonym hist = "sys list"

record os =
  os_send :: "hist \<Rightarrow> sock_ip \<Rightarrow> byte list \<Rightarrow> nat"
  os_rdma :: "hist \<Rightarrow> sock_ip \<Rightarrow> rdma_args \<Rightarrow> nat"
  os_recv :: "hist \<Rightarrow> nat \<Rightarrow> nat + recv_msg"
  os_alloc :: "hist \<Rightarrow> obj \<Rightarrow> addr option"
  os_get_mr :: "hist \<Rightarrow> int \<Rightarrow> addr \<Rightarrow> nat \<Rightarrow> u64 \<Rightarrow> sock_ip option \<Rightarrow> nat + u64"
  os_time :: "hist \<Rightarrow> u64"
  os_pool :: "hist \<Rightarrow> (u64 \<times> u32) option"
  os_node :: "hist \<Rightarrow> bool"
  os_valid :: "hist \<Rightarrow> iovec \<Rightarrow> iovec \<Rightarrow> bool"
  os_subscribe :: "hist \<Rightarrow> iovec \<Rightarrow> int"
  os_beyond :: "hist \<Rightarrow> nat \<Rightarrow> byte"

text \<open>The value the send paths compute from a failed \<^verbatim>\<open>sendmsg\<close>.\<close>

definition sock_ret :: "nat \<Rightarrow> int" where
  "sock_ret errno =
     (if errno = 0 then 0 else if errno = EAGAIN \<or> errno = ENOBUFS then - FI_EAGAIN else - int errno)"

definition sys_send :: "os \<Rightarrow> sock_ip \<Rightarrow> byte list \<Rightarrow> hist \<Rightarrow> nat \<times> hist" where
  "sys_send os dest bs h = (let e = os_send os h dest bs in (e, SysSend dest bs e # h))"

definition sys_rdma :: "os \<Rightarrow> sock_ip \<Rightarrow> rdma_args \<Rightarrow> hist \<Rightarrow> nat \<times> hist" where
  "sys_rdma os dest ra h = (let e = os_rdma os h dest ra in (e, SysRdma dest ra e # h))"

definition sys_recv :: "os \<Rightarrow> nat \<Rightarrow> hist \<Rightarrow> (nat + recv_msg) \<times> hist" where
  "sys_recv os sz h = (let r = os_recv os h sz in (r, SysRecv r # h))"

definition sys_alloc :: "os \<Rightarrow> obj \<Rightarrow> hist \<Rightarrow> addr option \<times> hist" where
  "sys_alloc os n h = (let p = os_alloc os h n in (p, SysAlloc n p # h))"

definition sys_get_mr ::
  "os \<Rightarrow> int \<Rightarrow> addr \<Rightarrow> nat \<Rightarrow> u64 \<Rightarrow> sock_ip option \<Rightarrow> hist \<Rightarrow> (nat + u64) \<times> hist" where
  "sys_get_mr os sock buf len flags dest h =
     (let r = os_get_mr os h sock buf len flags dest in (r, SysGetMr sock buf len flags dest r # h))"

definition sys_free_mr :: "int \<Rightarrow> u64 \<Rightarrow> hist \<Rightarrow> hist" where
  "sys_free_mr sock cookie h = SysFreeMr sock cookie # h"

definition sys_time :: "os \<Rightarrow> hist \<Rightarrow> u64 \<times> hist" where
  "sys_time os h = (let t = os_time os h in (t, SysTime t # h))"

section \<open>Reading a history\<close>

text \<open>The datagrams and the RDMA requests the kernel accepted, oldest first.\<close>

fun sent_data :: "hist \<Rightarrow> (sock_ip \<times> byte list) list" where
  "sent_data [] = []"
| "sent_data (SysSend d bs e # h) = sent_data h @ (if e = 0 then [(d, bs)] else [])"
| "sent_data (_ # h) = sent_data h"

fun sent_rdma :: "hist \<Rightarrow> (sock_ip \<times> rdma_args) list" where
  "sent_rdma [] = []"
| "sent_rdma (SysRdma d ra e # h) = sent_rdma h @ (if e = 0 then [(d, ra)] else [])"
| "sent_rdma (_ # h) = sent_rdma h"

text \<open>The cookies registered and not yet freed, as a list with one element per registration.\<close>

fun live_mrs :: "hist \<Rightarrow> (int \<times> u64) list" where
  "live_mrs [] = []"
| "live_mrs (SysGetMr s b n f d r # h) = (case r of Inl _ \<Rightarrow> live_mrs h | Inr c \<Rightarrow> (s, c) # live_mrs h)"
| "live_mrs (SysFreeMr s c # h) = remove1 (s, c) (live_mrs h)"
| "live_mrs (_ # h) = live_mrs h"

lemma sock_ret_0 [simp]: "sock_ret 0 = 0"
  by (simp add: sock_ret_def)

lemma sock_ret_eq_0 [simp]: "sock_ret e = 0 \<longleftrightarrow> e = 0"
  by (simp add: sock_ret_def)

lemma sock_ret_le_0 [simp]: "sock_ret e \<le> 0"
  by (simp add: sock_ret_def)

lemma sock_ret_again: "sock_ret e = - FI_EAGAIN \<longleftrightarrow> e = EAGAIN \<or> e = ENOBUFS"
  by (auto simp: sock_ret_def)

end
