(* ===== verification/Rds_State.thy ===== *)
theory Rds_State
  imports Rds_Os Rds_Wire Ofi_Mr_Cache
begin

text \<open>
  The provider's objects, as \<^verbatim>\<open>rds.h\<close> declares them: registrations, posted and unexpected
  receives, pending operations, parked socket operations, ring peers and the endpoint.  A
  \<^verbatim>\<open>dlist\<close> is the list of its elements; a pointer into the pending list is a position in it;
  a peer object is named by its \<^verbatim>\<open>fi_addr\<close>.  The domain's fields the data path uses and the
  provider's global tunables are part of the endpoint's state.  Ring memory, staging memory and
  credit cells are in the process memory, at the addresses the peer record holds.
\<close>

section \<open>Flags\<close>

abbreviation (input) FI_MSG :: u64 where "FI_MSG \<equiv> 0x2"
abbreviation (input) FI_RMA :: u64 where "FI_RMA \<equiv> 0x4"
abbreviation (input) FI_TAGGED :: u64 where "FI_TAGGED \<equiv> 0x8"
abbreviation (input) FI_READ :: u64 where "FI_READ \<equiv> 0x100"
abbreviation (input) FI_WRITE :: u64 where "FI_WRITE \<equiv> 0x200"
abbreviation (input) FI_RECV :: u64 where "FI_RECV \<equiv> 0x400"
abbreviation (input) FI_SEND :: u64 where "FI_SEND \<equiv> 0x800"
abbreviation (input) FI_REMOTE_READ :: u64 where "FI_REMOTE_READ \<equiv> 0x1000"
abbreviation (input) FI_REMOTE_WRITE :: u64 where "FI_REMOTE_WRITE \<equiv> 0x2000"
abbreviation (input) FI_REMOTE_CQ_DATA :: u64 where "FI_REMOTE_CQ_DATA \<equiv> 0x20000"
abbreviation (input) FI_COMPLETION :: u64 where "FI_COMPLETION \<equiv> 0x1000000"
abbreviation (input) FI_SOURCE :: u64 where "FI_SOURCE \<equiv> 0x200000000000000"

definition has_flag :: "u64 \<Rightarrow> u64 \<Rightarrow> bool" where
  "has_flag w f \<longleftrightarrow> w AND f \<noteq> 0"

section \<open>Objects\<close>

record rds_mr =
  mr_sock :: int
  mr_cookie :: u64
  mr_offset :: u64
  mr_buf :: addr
  mr_len :: nat
  mr_access :: u64
  mr_ref :: int

type_synonym cached_mr = "u64 \<times> u32"

record rds_rx_entry =
  rx_context :: nat
  rx_iov :: "iovec list"
  rx_total_len :: nat
  rx_tag :: u64
  rx_ignore :: u64
  rx_addr :: fi_addr
  rx_flags :: u64

record rds_unexp =
  ux_hdr :: rds_hdr
  ux_addr :: fi_addr
  ux_src :: sock_ip
  ux_segs :: "rds_rndzv_seg list"
  ux_data :: "byte list"

datatype rds_pend_type = RDS_PEND_RNDZV_TX | RDS_PEND_RNDZV_RX | RDS_PEND_RMA

record rds_pending =
  p_id :: u64
  p_type :: rds_pend_type
  p_context :: nat
  p_flags :: u64
  p_len :: nat
  p_addr :: fi_addr
  p_data :: u64
  p_tag :: u64
  p_error :: int
  p_seg_remaining :: u32
  p_seg_deferred :: u32
  p_seg_total :: u32
  p_peer :: sock_ip
  p_mrs :: "rds_mr list option"
  p_cmrs :: "nat list option"
  p_mr_cnt :: u32
  p_peer_id :: u64
  p_bounce :: "addr option"
  p_no_comp :: bool

datatype rds_deferred_type = RDS_DEFERRED_FIN | RDS_DEFERRED_READ

record rds_deferred =
  d_type :: rds_deferred_type
  d_peer :: sock_ip
  d_id :: u64
  d_cookie :: u64
  d_remote_off :: u64
  d_liov :: "iovec list"

datatype rds_peer_state = RDS_PEER_NONE | RDS_PEER_CONNECTING | RDS_PEER_READY | RDS_PEER_DISABLED

record rds_peer =
  pr_addr :: fi_addr
  pr_sa :: sock_ip
  pr_state :: rds_peer_state
  pr_connect_start_ms :: u64
  pr_rx_ring :: addr
  pr_rx_ring_mr :: "rds_mr option"
  pr_rx_head :: u64
  pr_rx_credit_sent :: u64
  pr_credit_cell :: addr
  pr_credit_mr :: "rds_mr option"
  pr_rem_ring_cookie :: u64
  pr_rem_credit_cookie :: u64
  pr_rem_slots :: u32
  pr_rem_slot_size :: u32
  pr_tx_head :: u64
  pr_tx_tail :: u64
  pr_tx_stage :: addr
  pr_credit_tx :: addr

text \<open>
  A completion written to the transmit or receive queue: context, flags, length, data, tag,
  source (\<open>None\<close> when the entry carries none) and error code (0 for a successful one).
\<close>

record cq_entry =
  cq_context :: nat
  cq_flags :: u64
  cq_len :: nat
  cq_data :: u64
  cq_tag :: u64
  cq_src :: "fi_addr option"
  cq_err :: int

datatype cq_event = TxComp cq_entry | RxComp cq_entry

record rds_config =
  rds_eager_size :: nat
  rds_eager_rdma :: bool
  rds_ring_slots :: nat
  rds_ring_slot_size :: nat
  rds_ring_max_peers :: nat
  rds_mr_cache_enable :: bool
  rds_rndzv_max_inflight :: nat
  rds_sndbuf :: nat
  rds_rcvbuf :: nat

record rds_ep =
  hist :: hist
  mem :: memory
  cq_log :: "cq_event list"
  ep_sock :: int
  is_bound :: bool
  ep_caps :: u64
  tx_op_flags :: u64
  rx_op_flags :: u64
  tx_cq :: bool
  rx_cq :: bool
  ep_av :: "util_av option"
  rx_posted_msg :: "rds_rx_entry list"
  rx_posted_tag :: "rds_rx_entry list"
  rx_unexp_msg :: "rds_unexp list"
  rx_unexp_tag :: "rds_unexp list"
  pending :: "rds_pending list"
  deferred :: "rds_deferred list"
  rndzv_tx_inflight :: u32
  op_id :: u64
  rx_buf_size :: nat
  eager_rdma :: bool
  ring_slots :: u32
  ring_slot_size :: u32
  ring_max_peers :: u32
  ring_payload :: u32
  peer_hash :: "nat \<Rightarrow> fi_addr list"
  peer_lru :: "fi_addr list"
  peers :: "fi_addr \<Rightarrow> rds_peer option"
  peer_cnt :: u32
  reg_ep :: "int option"
  cache_enabled :: bool
  dom_cache :: "cached_mr mr_cache"
  cfg :: rds_config

section \<open>Small helpers\<close>

definition rds_next_id :: "rds_ep \<Rightarrow> u64 \<times> rds_ep" where
  "rds_next_id ep =
     (let i = op_id ep + 1; j = (if i \<noteq> 0 then i else i + 1) in (j, ep\<lparr>op_id := j\<rparr>))"

definition rds_iov_len :: "iovec list \<Rightarrow> nat" where
  "rds_iov_len vs = foldl (\<lambda>len v. (len + iov_len v) mod size_max) 0 vs"

definition rds_av_addr :: "rds_ep \<Rightarrow> fi_addr \<Rightarrow> sock_ip option" where
  "rds_av_addr ep a = (case ep_av ep of None \<Rightarrow> None | Some av \<Rightarrow> ofi_av_get_addr av a)"

definition ep_alloc :: "os \<Rightarrow> obj \<Rightarrow> rds_ep \<Rightarrow> addr option \<times> rds_ep" where
  "ep_alloc os ob ep = (case sys_alloc os ob (hist ep) of (p, h) \<Rightarrow> (p, ep\<lparr>hist := h\<rparr>))"

lemma rds_iov_len_total: "rds_iov_len vs = ofi_total_iov_len vs"
  by (simp add: rds_iov_len_def ofi_total_iov_len_def)

lemma rds_next_id_nonzero: "fst (rds_next_id ep) \<noteq> 0"
  by (simp add: rds_next_id_def Let_def)

end
