(* ===== verification/Rds_Mr.thy ===== *)
theory Rds_Mr
  imports Rds_State
begin

text \<open>
  Memory registration (\<^verbatim>\<open>rds_mr.c\<close>): the kernel calls, the reference-counted internal
  registrations, the callbacks the registration cache is opened with, cache lookup and release,
  and \<^verbatim>\<open>fi_mr_reg\<close>.  Registrations act on the history of kernel calls alone.
\<close>

section \<open>Kernel registration\<close>

definition reg_flags :: "u64 \<Rightarrow> u64" where
  "reg_flags access =
     (if has_flag access (FI_REMOTE_WRITE OR FI_REMOTE_READ OR FI_WRITE OR FI_READ)
      then RDS_RDMA_READWRITE else 0)"

definition rds_kernel_reg ::
  "os \<Rightarrow> int \<Rightarrow> addr \<Rightarrow> nat \<Rightarrow> u64 \<Rightarrow> sock_ip option \<Rightarrow> hist \<Rightarrow> (int + u64) \<times> hist" where
  "rds_kernel_reg os sock buf len access dest h =
     (if len > RDS_KERNEL_SEG_MAX then (Inl (- FI_EINVAL), h)
      else (case sys_get_mr os sock buf len (reg_flags access) dest h of
        (Inl err, h') \<Rightarrow> (Inl (- int err), h')
      | (Inr cookie, h') \<Rightarrow> (Inr cookie, h')))"

definition rds_kernel_free :: "int \<Rightarrow> u64 \<Rightarrow> hist \<Rightarrow> hist" where
  "rds_kernel_free sock cookie h = sys_free_mr sock cookie h"

definition rds_reg_internal ::
  "os \<Rightarrow> int \<Rightarrow> addr \<Rightarrow> nat \<Rightarrow> u64 \<Rightarrow> sock_ip option \<Rightarrow> hist \<Rightarrow> (int + rds_mr) \<times> hist" where
  "rds_reg_internal os sock buf len access dest h =
     (case rds_kernel_reg os sock buf len access dest h of
        (Inl ret, h1) \<Rightarrow> (Inl ret, h1)
      | (Inr cookie, h1) \<Rightarrow>
          (case sys_alloc os ObjMr h1 of
             (None, h2) \<Rightarrow> (Inl (- FI_ENOMEM), rds_kernel_free sock cookie h2)
           | (Some _, h2) \<Rightarrow>
               (Inr \<lparr>mr_sock = sock, mr_cookie = cookie, mr_offset = ucast (rds_cookie_off cookie),
                     mr_buf = buf, mr_len = len, mr_access = access, mr_ref = 1\<rparr>, h2)))"

definition rds_mr_put :: "rds_mr option \<Rightarrow> hist \<Rightarrow> hist" where
  "rds_mr_put mr h =
     (case mr of
        None \<Rightarrow> h
      | Some r \<Rightarrow> if mr_ref r - 1 \<noteq> 0 then h else rds_kernel_free (mr_sock r) (mr_cookie r) h)"

section \<open>The registration cache\<close>

text \<open>
  The callbacks read the domain: the socket of its registering endpoint and the destination
  stashed for the registration (both are arguments here).  An entry's data area is the cookie
  and its offset.
\<close>

definition rds_cache_add_region ::
  "os \<Rightarrow> int option \<Rightarrow> sock_ip option \<Rightarrow> mr_info \<Rightarrow> cached_mr \<Rightarrow> hist \<Rightarrow> int \<times> mr_info \<times> cached_mr \<times> hist" where
  "rds_cache_add_region os rsock dest info d h =
     (case rsock of
        None \<Rightarrow> (- FI_EOPBADSTATE, info, d, h)
      | Some sock \<Rightarrow>
          (case rds_kernel_reg os sock (iov_base (mi_iov info)) (iov_len (mi_iov info))
                  (FI_REMOTE_READ OR FI_REMOTE_WRITE) dest h of
             (Inl ret, h') \<Rightarrow> (ret, info, d, h')
           | (Inr cookie, h') \<Rightarrow> (0, info, (cookie, rds_cookie_off cookie), h')))"

definition rds_cache_delete_region :: "int option \<Rightarrow> cached_mr \<Rightarrow> hist \<Rightarrow> hist" where
  "rds_cache_delete_region rsock d h =
     (case rsock of None \<Rightarrow> h | Some sock \<Rightarrow> rds_kernel_free sock (fst d) h)"

definition rds_cache_env :: "os \<Rightarrow> int option \<Rightarrow> sock_ip option \<Rightarrow> (hist, cached_mr) cache_env" where
  "rds_cache_env os rsock dest =
     \<lparr>ce_entry_alloc = (\<lambda>h. let d = os_pool os h in (d, SysPool d # h)),
      ce_node_alloc = (\<lambda>h. let b = os_node os h in (b, SysNode b # h)),
      ce_add_region = rds_cache_add_region os rsock dest,
      ce_delete_region = rds_cache_delete_region rsock,
      ce_valid = (\<lambda>info e h. os_valid os h (mi_iov info) (mi_iov e)),
      ce_subscribe = (\<lambda>v h. let r = os_subscribe os h v in (r, SysSubscribe v r # h)),
      ce_unsubscribe = (\<lambda>v h. SysUnsubscribe v # h)\<rparr>"

text \<open>The cache the domain opens: its size limit is 256 MiB unless the user set one.\<close>

definition rds_mr_cache_open :: "u64 \<Rightarrow> u64 \<Rightarrow> rds_ep \<Rightarrow> int \<times> rds_ep" where
  "rds_mr_cache_open max_cnt max_size ep =
     (if \<not> rds_mr_cache_enable (cfg ep) then (0, ep\<lparr>cache_enabled := False\<rparr>)
      else (case ofi_mr_cache_init max_cnt max_size of
        Inl ret \<Rightarrow> (ret, ep\<lparr>cache_enabled := False\<rparr>)
      | Inr c \<Rightarrow>
          (0, ep\<lparr>dom_cache := (if cached_max_size c = - 1 then c\<lparr>cached_max_size := 268435456\<rparr> else c),
                cache_enabled := True\<rparr>)))"

definition rds_mr_cache_close :: "os \<Rightarrow> rds_ep \<Rightarrow> rds_ep" where
  "rds_mr_cache_close os ep =
     (if cache_enabled ep
      then (case ofi_mr_cache_cleanup (rds_cache_env os (reg_ep ep) None) (dom_cache ep) (hist ep) of
        (c, h) \<Rightarrow> ep\<lparr>dom_cache := c, hist := h, cache_enabled := False\<rparr>)
      else ep)"

text \<open>
  The outcome is \<open>None\<close> when the search of the cache never returns; otherwise the error, or the
  cookie and the entry.
\<close>

definition rds_reg_cache_get ::
  "os \<Rightarrow> addr \<Rightarrow> nat \<Rightarrow> sock_ip \<Rightarrow> rds_ep \<Rightarrow> ((int + (u64 \<times> nat)) \<times> rds_ep) option" where
  "rds_reg_cache_get os buf len dest ep =
     (if \<not> cache_enabled ep then Some (Inl (- FI_ENOSYS), ep)
      else (case ofi_mr_cache_search (rds_cache_env os (reg_ep ep) (Some dest))
                   \<lparr>mi_iov = iov buf len, mi_peer_id = 0\<rparr> (dom_cache ep) (hist ep) of
        None \<Rightarrow> None
      | Some (ret, i, c, h) \<Rightarrow>
          let ep' = ep\<lparr>dom_cache := c, hist := h\<rparr>
          in if ret \<noteq> 0 then Some (Inl ret, ep')
             else (case c_entries c i of
               None \<Rightarrow> Some (Inr (0, i), ep')
             | Some e \<Rightarrow> Some (Inr (fst (me_data e), i), ep'))))"

definition rds_reg_cache_put :: "os \<Rightarrow> nat \<Rightarrow> rds_ep \<Rightarrow> rds_ep" where
  "rds_reg_cache_put os i ep =
     (case ofi_mr_cache_delete (rds_cache_env os (reg_ep ep) None) i (dom_cache ep) (hist ep) of
        (c, h) \<Rightarrow> ep\<lparr>dom_cache := c, hist := h\<rparr>)"

section \<open>Application registrations\<close>

definition rds_mr_regattr :: "os \<Rightarrow> iovec list \<Rightarrow> u64 \<Rightarrow> rds_ep \<Rightarrow> (int + rds_mr) \<times> rds_ep" where
  "rds_mr_regattr os mr_iov access ep =
     (case mr_iov of
        [v] \<Rightarrow>
          (case reg_ep ep of
             None \<Rightarrow> (Inl (- FI_EOPBADSTATE), ep)
           | Some sock \<Rightarrow>
               (case rds_reg_internal os sock (iov_base v) (iov_len v) access None (hist ep) of
                  (Inl _, h) \<Rightarrow> (Inl (- FI_ENOMEM), ep\<lparr>hist := h\<rparr>)
                | (Inr mr, h) \<Rightarrow> (Inr mr, ep\<lparr>hist := h\<rparr>)))
      | _ \<Rightarrow> (Inl (- FI_EINVAL), ep))"

definition rds_mr_regv :: "os \<Rightarrow> iovec list \<Rightarrow> u64 \<Rightarrow> rds_ep \<Rightarrow> (int + rds_mr) \<times> rds_ep" where
  "rds_mr_regv os vs access ep = rds_mr_regattr os vs access ep"

definition rds_mr_reg :: "os \<Rightarrow> addr \<Rightarrow> nat \<Rightarrow> u64 \<Rightarrow> rds_ep \<Rightarrow> (int + rds_mr) \<times> rds_ep" where
  "rds_mr_reg os buf len access ep = rds_mr_regv os [iov buf len] access ep"

definition rds_mr_close :: "rds_mr \<Rightarrow> rds_ep \<Rightarrow> int \<times> rds_ep" where
  "rds_mr_close mr ep = (0, ep\<lparr>hist := rds_mr_put (Some mr) (hist ep)\<rparr>)"

section \<open>Lemmas\<close>

lemma rds_kernel_reg_live:
  "rds_kernel_reg os sock buf len access dest h = (r, h') \<Longrightarrow>
     live_mrs h' = (case r of Inl _ \<Rightarrow> live_mrs h | Inr c \<Rightarrow> (sock, c) # live_mrs h)"
  by (auto simp: rds_kernel_reg_def sys_get_mr_def Let_def split: if_splits sum.splits prod.splits)

lemma rds_reg_internal_live:
  "rds_reg_internal os sock buf len access dest h = (r, h') \<Longrightarrow>
     live_mrs h' = (case r of Inl _ \<Rightarrow> live_mrs h | Inr mr \<Rightarrow> (sock, mr_cookie mr) # live_mrs h)"
  by (auto simp: rds_reg_internal_def sys_alloc_def rds_kernel_free_def sys_free_mr_def Let_def
      dest!: rds_kernel_reg_live split: prod.splits sum.splits option.splits)

lemma rds_reg_internal_Inr:
  "rds_reg_internal os sock buf len access dest h = (Inr mr, h') \<Longrightarrow>
     mr_ref mr = 1 \<and> mr_sock mr = sock \<and> mr_buf mr = buf \<and> mr_len mr = len \<and> len \<le> RDS_KERNEL_SEG_MAX"
  by (auto simp: rds_reg_internal_def rds_kernel_reg_def sys_alloc_def sys_get_mr_def Let_def
      split: prod.splits sum.splits option.splits if_splits)

end
