(* ===== verification/Rds_Core.thy ===== *)
theory Rds_Core
  imports Rds_Mr
begin

text \<open>
  What every data path of the provider is built from: writing completions, the list of pending
  operations, posting an RDMA request (\<^verbatim>\<open>rds_rma.c\<close>), and sending or parking the FIN and
  READ operations the provider must complete itself (\<^verbatim>\<open>rds_msg.c\<close>).
\<close>

section \<open>Completion writers\<close>

definition cq_push :: "cq_event \<Rightarrow> rds_ep \<Rightarrow> rds_ep" where
  "cq_push e ep = ep\<lparr>cq_log := cq_log ep @ [e]\<rparr>"

definition rds_cq_write_tx :: "nat \<Rightarrow> u64 \<Rightarrow> nat \<Rightarrow> int \<Rightarrow> rds_ep \<Rightarrow> rds_ep" where
  "rds_cq_write_tx context flags len err ep =
     (if \<not> tx_cq ep then ep
      else if err \<noteq> 0
      then cq_push (TxComp \<lparr>cq_context = context, cq_flags = flags, cq_len = len, cq_data = 0, cq_tag = 0,
             cq_src = None, cq_err = (if err < 0 then - err else err)\<rparr>) ep
      else cq_push (TxComp \<lparr>cq_context = context, cq_flags = flags, cq_len = len, cq_data = 0, cq_tag = 0,
             cq_src = None, cq_err = 0\<rparr>) ep)"

definition rds_cq_write_rx ::
  "nat \<Rightarrow> u64 \<Rightarrow> nat \<Rightarrow> u64 \<Rightarrow> u64 \<Rightarrow> fi_addr \<Rightarrow> int \<Rightarrow> rds_ep \<Rightarrow> rds_ep" where
  "rds_cq_write_rx context flags len data tag src err ep =
     (if \<not> rx_cq ep then ep
      else if err \<noteq> 0
      then cq_push (RxComp \<lparr>cq_context = context, cq_flags = flags, cq_len = len, cq_data = data, cq_tag = tag,
             cq_src = None, cq_err = (if err < 0 then - err else err)\<rparr>) ep
      else if has_flag (ep_caps ep) FI_SOURCE
      then cq_push (RxComp \<lparr>cq_context = context, cq_flags = flags, cq_len = len, cq_data = data, cq_tag = tag,
             cq_src = Some src, cq_err = 0\<rparr>) ep
      else cq_push (RxComp \<lparr>cq_context = context, cq_flags = flags, cq_len = len, cq_data = data, cq_tag = tag,
             cq_src = None, cq_err = 0\<rparr>) ep)"

section \<open>Pending operations\<close>

definition pending_init :: "u64 \<Rightarrow> rds_pend_type \<Rightarrow> nat \<Rightarrow> u64 \<Rightarrow> rds_pending" where
  "pending_init i type context flags =
     \<lparr>p_id = i, p_type = type, p_context = context, p_flags = flags, p_len = 0, p_addr = 0, p_data = 0,
      p_tag = 0, p_error = 0, p_seg_remaining = 0, p_seg_deferred = 0, p_seg_total = 0, p_peer = 0,
      p_mrs = None, p_cmrs = None, p_mr_cnt = 0, p_peer_id = 0, p_bounce = None, p_no_comp = False\<rparr>"

text \<open>
  The new operation goes to the tail; the result is its position and its contents, \<open>None\<close> when
  the allocation fails.
\<close>

definition rds_pending_alloc ::
  "os \<Rightarrow> rds_pend_type \<Rightarrow> nat \<Rightarrow> u64 \<Rightarrow> rds_ep \<Rightarrow> (nat \<times> rds_pending) option \<times> rds_ep" where
  "rds_pending_alloc os type context flags ep =
     (case ep_alloc os ObjPending ep of
        (None, ep1) \<Rightarrow> (None, ep1)
      | (Some _, ep1) \<Rightarrow>
          (case rds_next_id ep1 of
             (i, ep2) \<Rightarrow>
               let p = pending_init i type context flags
               in (Some (length (pending ep2), p), ep2\<lparr>pending := pending ep2 @ [p]\<rparr>)))"

fun find_index :: "('a \<Rightarrow> bool) \<Rightarrow> 'a list \<Rightarrow> nat option" where
  "find_index P [] = None"
| "find_index P (x # xs) = (if P x then Some 0 else map_option Suc (find_index P xs))"

definition rds_pending_find :: "rds_ep \<Rightarrow> u64 \<Rightarrow> nat option" where
  "rds_pending_find ep i = find_index (\<lambda>p. p_id p = i) (pending ep)"

definition pending_put :: "nat \<Rightarrow> rds_pending \<Rightarrow> rds_ep \<Rightarrow> rds_ep" where
  "pending_put k p ep = ep\<lparr>pending := (pending ep)[k := p]\<rparr>"

definition pending_remove :: "nat \<Rightarrow> rds_ep \<Rightarrow> rds_ep" where
  "pending_remove k ep = ep\<lparr>pending := take k (pending ep) @ drop (Suc k) (pending ep)\<rparr>"

fun put_cached :: "os \<Rightarrow> nat list \<Rightarrow> rds_ep \<Rightarrow> rds_ep" where
  "put_cached os [] ep = ep"
| "put_cached os (i # is) ep = put_cached os is (rds_reg_cache_put os i ep)"

fun put_mrs :: "rds_mr list \<Rightarrow> hist \<Rightarrow> hist" where
  "put_mrs [] h = h"
| "put_mrs (mr # mrs) h = put_mrs mrs (rds_mr_put (Some mr) h)"

definition rds_pending_release_mrs :: "os \<Rightarrow> rds_pending \<Rightarrow> rds_ep \<Rightarrow> rds_ep" where
  "rds_pending_release_mrs os p ep =
     (case p_cmrs p of
        Some cmrs \<Rightarrow> put_cached os (take (unat (p_mr_cnt p)) cmrs) ep
      | None \<Rightarrow>
          (case p_mrs p of
             Some mrs \<Rightarrow> ep\<lparr>hist := put_mrs (take (unat (p_mr_cnt p)) mrs) (hist ep)\<rparr>
           | None \<Rightarrow> ep))"

definition rds_pending_complete :: "os \<Rightarrow> nat \<Rightarrow> rds_ep \<Rightarrow> rds_ep" where
  "rds_pending_complete os k ep =
     (let p = pending ep ! k;
          ep1 = (if (p_type p = RDS_PEND_RNDZV_TX \<or> p_type p = RDS_PEND_RMA) \<and> \<not> p_no_comp p
                 then rds_cq_write_tx (p_context p) (p_flags p) (p_len p) (p_error p) ep else ep);
          ep2 = (if p_type p = RDS_PEND_RNDZV_TX \<and> rndzv_tx_inflight ep1 \<noteq> 0
                 then ep1\<lparr>rndzv_tx_inflight := rndzv_tx_inflight ep1 - 1\<rparr> else ep1)
      in pending_remove k (rds_pending_release_mrs os p ep2))"

section \<open>Posting RDMA\<close>

definition rds_post_rdma ::
  "os \<Rightarrow> sock_ip \<Rightarrow> u64 \<Rightarrow> u64 \<Rightarrow> iovec list \<Rightarrow> bool \<Rightarrow> bool \<Rightarrow> u64 \<Rightarrow> rds_ep \<Rightarrow> int \<times> rds_ep" where
  "rds_post_rdma os dest cookie remote_off local_iov is_write notify token ep =
     (if length local_iov = 0 \<or> length local_iov > RDS_IOV_LIMIT then (- FI_EINVAL, ep)
      else (case sys_rdma os dest
              \<lparr>ra_cookie = cookie, ra_remote_addr = remote_off, ra_remote_bytes = of_nat (iov_sum local_iov),
               ra_local = local_iov,
               ra_flags = (if is_write then RDS_RDMA_READWRITE else 0) OR (if notify then RDS_RDMA_NOTIFY_ME else 0),
               ra_user_token = (if notify then token else 0)\<rparr> (hist ep) of
        (errno, h) \<Rightarrow> (sock_ret errno, ep\<lparr>hist := h\<rparr>)))"

section \<open>FINs and parked operations\<close>

definition fin_hdr :: "u64 \<Rightarrow> rds_hdr" where
  "fin_hdr i = hdr_zero\<lparr>hdr_magic := RDS_HDR_MAGIC, hdr_op := RDS_OP_FIN, hdr_id := i\<rparr>"

definition rds_send_fin_raw :: "os \<Rightarrow> sock_ip \<Rightarrow> u64 \<Rightarrow> rds_ep \<Rightarrow> int \<times> rds_ep" where
  "rds_send_fin_raw os peer i ep =
     (case sys_send os peer (enc_hdr (fin_hdr i)) (hist ep) of
        (errno, h) \<Rightarrow> (sock_ret errno, ep\<lparr>hist := h\<rparr>))"

definition rds_defer_enqueue :: "rds_deferred \<Rightarrow> rds_ep \<Rightarrow> int \<times> rds_ep" where
  "rds_defer_enqueue d ep = (0, ep\<lparr>deferred := deferred ep @ [d]\<rparr>)"

definition deferred_fin :: "sock_ip \<Rightarrow> u64 \<Rightarrow> rds_deferred" where
  "deferred_fin peer i = \<lparr>d_type = RDS_DEFERRED_FIN, d_peer = peer, d_id = i, d_cookie = 0, d_remote_off = 0, d_liov = []\<rparr>"

definition rds_defer_fin :: "os \<Rightarrow> sock_ip \<Rightarrow> u64 \<Rightarrow> rds_ep \<Rightarrow> rds_ep" where
  "rds_defer_fin os peer i ep =
     (case ep_alloc os ObjDeferred ep of
        (None, ep1) \<Rightarrow> ep1
      | (Some _, ep1) \<Rightarrow> snd (rds_defer_enqueue (deferred_fin peer i) ep1))"

definition rds_defer_read ::
  "os \<Rightarrow> sock_ip \<Rightarrow> u64 \<Rightarrow> u64 \<Rightarrow> iovec list \<Rightarrow> u64 \<Rightarrow> rds_ep \<Rightarrow> int \<times> rds_ep" where
  "rds_defer_read os peer cookie remote_off liov token ep =
     (case ep_alloc os ObjDeferred ep of
        (None, ep1) \<Rightarrow> (- FI_ENOMEM, ep1)
      | (Some _, ep1) \<Rightarrow>
          rds_defer_enqueue \<lparr>d_type = RDS_DEFERRED_READ, d_peer = peer, d_id = token, d_cookie = cookie,
            d_remote_off = remote_off, d_liov = liov\<rparr> ep1)"

definition rds_send_fin :: "os \<Rightarrow> sock_ip \<Rightarrow> u64 \<Rightarrow> rds_ep \<Rightarrow> rds_ep" where
  "rds_send_fin os peer i ep =
     (case rds_send_fin_raw os peer i ep of
        (ret, ep1) \<Rightarrow> if ret = - FI_EAGAIN then rds_defer_fin os peer i ep1 else ep1)"

definition rds_ep_flush_deferred :: "rds_ep \<Rightarrow> rds_ep" where
  "rds_ep_flush_deferred ep = ep\<lparr>deferred := []\<rparr>"

definition rds_rndzv_rx_finalize :: "os \<Rightarrow> nat \<Rightarrow> rds_ep \<Rightarrow> rds_ep" where
  "rds_rndzv_rx_finalize os k ep =
     (let p = pending ep ! k;
          ep1 = rds_send_fin os (p_peer p) (p_peer_id p) ep;
          ep2 = (if \<not> p_no_comp p \<or> p_error p \<noteq> 0
                 then rds_cq_write_rx (p_context p) (p_flags p) (p_len p) (p_data p) (p_tag p) (p_addr p) (p_error p) ep1
                 else ep1)
      in pending_remove k ep2)"

section \<open>Frame lemmas\<close>

text \<open>Which fields the building blocks leave alone.\<close>

lemma ep_alloc_frame:
  "ep_alloc os ob ep = (r, ep') \<Longrightarrow> ep' = ep\<lparr>hist := hist ep'\<rparr>"
  by (auto simp: ep_alloc_def split: prod.splits)

lemma hist_only_trans:
  "(e1 :: rds_ep) = e\<lparr>hist := hist e1\<rparr> \<Longrightarrow> e2 = e1\<lparr>hist := hist e2\<rparr> \<Longrightarrow> e2 = e\<lparr>hist := hist e2\<rparr>"
  by (cases e; cases e1; cases e2) simp

lemma find_index_Some: "find_index P xs = Some k \<Longrightarrow> k < length xs \<and> P (xs ! k) \<and> (\<forall>j < k. \<not> P (xs ! j))"
proof (induction xs arbitrary: k)
  case Nil
  then show ?case by simp
next
  case (Cons x xs)
  show ?case
  proof (cases "P x")
    case True
    with Cons.prems show ?thesis by simp
  next
    case False
    with Cons.prems obtain j where "find_index P xs = Some j" "k = Suc j" by auto
    with Cons.IH [of j] False show ?thesis by (auto simp: less_Suc_eq_0_disj)
  qed
qed

lemma find_index_None: "find_index P xs = None \<longleftrightarrow> (\<forall>x \<in> set xs. \<not> P x)"
  by (induction xs) auto

end
