(* ===== verification/Rds_Ring.thy ===== *)
theory Rds_Ring
  imports Rds_Core
begin

text \<open>
  The eager ring's peer table, its handshake and its send side (\<^verbatim>\<open>rds_eager.c\<close>).  A peer is
  found through a hash chain; its receive ring, staging ring and credit cell are process memory,
  and its slots are written there byte by byte before the RDMA write is posted.
\<close>

section \<open>Peer table\<close>

abbreviation (input) RDS_PEER_HASH_SIZE :: u32 where "RDS_PEER_HASH_SIZE \<equiv> 1024"

definition rds_peer_hash :: "fi_addr \<Rightarrow> nat" where
  "rds_peer_hash a = unat ((ucast (a * 2654435761) :: u32) AND (RDS_PEER_HASH_SIZE - 1))"

definition rds_peer_find :: "rds_ep \<Rightarrow> fi_addr \<Rightarrow> fi_addr option" where
  "rds_peer_find ep a =
     find (\<lambda>b. case peers ep b of None \<Rightarrow> False | Some p \<Rightarrow> pr_addr p = a) (peer_hash ep (rds_peer_hash a))"

definition peer_put :: "fi_addr \<Rightarrow> rds_peer \<Rightarrow> rds_ep \<Rightarrow> rds_ep" where
  "peer_put a p ep = ep\<lparr>peers := (peers ep)(a \<mapsto> p)\<rparr>"

definition rds_peer_free :: "fi_addr \<Rightarrow> rds_ep \<Rightarrow> rds_ep" where
  "rds_peer_free a ep =
     (case peers ep a of
        None \<Rightarrow> ep
      | Some p \<Rightarrow>
          ep\<lparr>peer_hash := (peer_hash ep)(rds_peer_hash a := removeAll a (peer_hash ep (rds_peer_hash a))),
             peer_lru := removeAll a (peer_lru ep),
             peer_cnt := peer_cnt ep - 1,
             peers := (peers ep)(a := None),
             hist := rds_mr_put (pr_credit_mr p) (rds_mr_put (pr_rx_ring_mr p) (hist ep))\<rparr>)"

definition rds_ep_ring_init :: "rds_ep \<Rightarrow> rds_ep" where
  "rds_ep_ring_init ep =
     ep\<lparr>eager_rdma := rds_eager_rdma (cfg ep), ring_slots := of_nat (rds_ring_slots (cfg ep)),
        ring_slot_size := of_nat (rds_ring_slot_size (cfg ep)),
        ring_max_peers := of_nat (rds_ring_max_peers (cfg ep)),
        ring_payload := rds_ring_payload_max (of_nat (rds_ring_slot_size (cfg ep))),
        peer_hash := (\<lambda>_. []), peer_lru := [], peers := (\<lambda>_. None), peer_cnt := 0\<rparr>"

fun free_peers :: "fi_addr list \<Rightarrow> rds_ep \<Rightarrow> rds_ep" where
  "free_peers [] ep = ep"
| "free_peers (a # as) ep = free_peers as (rds_peer_free a ep)"

definition rds_ep_ring_cleanup :: "rds_ep \<Rightarrow> rds_ep" where
  "rds_ep_ring_cleanup ep = free_peers (peer_lru ep) ep"

definition ring_bytes :: "rds_ep \<Rightarrow> nat" where
  "ring_bytes ep = unat (ring_slots ep) * unat (ring_slot_size ep)"

text \<open>
  The four allocations of a new peer.  The peer object's own address stands for the one field of
  it whose address is taken, the outgoing credit word.
\<close>

definition peer_buffers :: "os \<Rightarrow> rds_ep \<Rightarrow> (addr \<times> addr \<times> addr \<times> addr) option \<times> rds_ep" where
  "peer_buffers os ep =
     (case ep_alloc os ObjPeer ep of
        (None, ep1) \<Rightarrow> (None, ep1)
      | (Some self, ep1) \<Rightarrow>
          (case ep_alloc os (ObjRing (ring_bytes ep)) (ep1\<lparr>mem := mem_write (mem ep1) self (replicate 8 0)\<rparr>) of
             (None, ep2) \<Rightarrow> (None, ep2)
           | (Some ring, ep2) \<Rightarrow>
               (case ep_alloc os (ObjStage (ring_bytes ep))
                       (ep2\<lparr>mem := mem_write (mem ep2) ring (replicate (ring_bytes ep) 0)\<rparr>) of
                  (None, ep3) \<Rightarrow> (None, ep3)
                | (Some stage, ep3) \<Rightarrow>
                    (case ep_alloc os ObjCredit ep3 of
                       (None, ep4) \<Rightarrow> (None, ep4)
                     | (Some cell, ep4) \<Rightarrow>
                         (Some (self, ring, stage, cell),
                          ep4\<lparr>mem := mem_write (mem ep4) cell (replicate 8 0)\<rparr>)))))"

definition rds_peer_create :: "os \<Rightarrow> fi_addr \<Rightarrow> rds_ep \<Rightarrow> fi_addr option \<times> rds_ep" where
  "rds_peer_create os a ep =
     (if peer_cnt ep \<ge> ring_max_peers ep then (None, ep)
      else (case rds_av_addr ep a of
        None \<Rightarrow> (None, ep)
      | Some sa \<Rightarrow>
          (case peer_buffers os ep of
             (None, ep1) \<Rightarrow> (None, ep1)
           | (Some (self, ring, stage, cell), ep1) \<Rightarrow>
               (case rds_reg_internal os (ep_sock ep1) ring (ring_bytes ep1) FI_REMOTE_WRITE (Some sa) (hist ep1) of
                  (r1, h1) \<Rightarrow>
                    (case rds_reg_internal os (ep_sock ep1) cell 8 FI_REMOTE_WRITE (Some sa) h1 of
                       (r2, h2) \<Rightarrow>
                         let p = \<lparr>pr_addr = a, pr_sa = sa, pr_state = RDS_PEER_NONE, pr_connect_start_ms = 0,
                               pr_rx_ring = ring, pr_rx_ring_mr = None, pr_rx_head = 0, pr_rx_credit_sent = 0,
                               pr_credit_cell = cell, pr_credit_mr = None, pr_rem_ring_cookie = 0,
                               pr_rem_credit_cookie = 0, pr_rem_slots = 0, pr_rem_slot_size = 0,
                               pr_tx_head = 0, pr_tx_tail = 0, pr_tx_stage = stage, pr_credit_tx = self\<rparr>;
                             (p', h3) = (case (r1, r2) of
                                (Inr m1, Inr m2) \<Rightarrow> (p\<lparr>pr_rx_ring_mr := Some m1, pr_credit_mr := Some m2\<rparr>, h2)
                              | _ \<Rightarrow> (p\<lparr>pr_state := RDS_PEER_DISABLED\<rparr>,
                                     rds_mr_put (case r2 of Inl _ \<Rightarrow> None | Inr m \<Rightarrow> Some m)
                                       (rds_mr_put (case r1 of Inl _ \<Rightarrow> None | Inr m \<Rightarrow> Some m) h2)));
                             hb = rds_peer_hash a
                         in (Some a,
                             ep1\<lparr>hist := h3,
                                peers := (peers ep1)(a \<mapsto> p'),
                                peer_hash := (peer_hash ep1)(hb := a # peer_hash ep1 hb),
                                peer_lru := a # peer_lru ep1,
                                peer_cnt := peer_cnt ep1 + 1\<rparr>))))))"

section \<open>Handshake\<close>

definition mr_cookie_of :: "rds_mr option \<Rightarrow> u64" where
  "mr_cookie_of r = (case r of None \<Rightarrow> 0 | Some m \<Rightarrow> mr_cookie m)"

definition ring_ctrl_bytes :: "rds_ep \<Rightarrow> rds_peer \<Rightarrow> u8 \<Rightarrow> byte list" where
  "ring_ctrl_bytes ep p op =
     enc_hdr (hdr_zero\<lparr>hdr_magic := RDS_HDR_MAGIC, hdr_op := op, hdr_size := of_nat sizeof_rds_ring_info\<rparr>) @
     enc_ring_info \<lparr>info_ring_cookie = mr_cookie_of (pr_rx_ring_mr p),
       info_credit_cookie = mr_cookie_of (pr_credit_mr p),
       info_slots = ring_slots ep, info_slot_size = ring_slot_size ep\<rparr>"

definition rds_ring_send_ctrl :: "os \<Rightarrow> rds_peer \<Rightarrow> u8 \<Rightarrow> rds_ep \<Rightarrow> rds_ep" where
  "rds_ring_send_ctrl os p op ep =
     ep\<lparr>hist := snd (sys_send os (pr_sa p) (ring_ctrl_bytes ep p op) (hist ep))\<rparr>"

definition rds_ring_adopt :: "rds_ep \<Rightarrow> rds_peer \<Rightarrow> rds_ring_info \<Rightarrow> int \<times> rds_peer" where
  "rds_ring_adopt ep p info =
     (if info_slots info \<noteq> ring_slots ep \<or> info_slot_size info \<noteq> ring_slot_size ep then (- FI_EINVAL, p)
      else (0, p\<lparr>pr_rem_ring_cookie := info_ring_cookie info, pr_rem_credit_cookie := info_credit_cookie info,
                pr_rem_slots := info_slots info, pr_rem_slot_size := info_slot_size info\<rparr>))"

definition rds_ring_handle_ctrl :: "os \<Rightarrow> rds_hdr \<Rightarrow> byte list \<Rightarrow> fi_addr \<Rightarrow> rds_ep \<Rightarrow> rds_ep" where
  "rds_ring_handle_ctrl os hdr payload src_fi ep =
     (if \<not> eager_rdma ep \<or> length payload < sizeof_rds_ring_info \<or> src_fi = FI_ADDR_NOTAVAIL then ep
      else let info = dec_ring_info payload;
               (found, ep1) = (case rds_peer_find ep src_fi of
                  Some a \<Rightarrow> (Some a, ep)
                | None \<Rightarrow> rds_peer_create os src_fi ep)
           in (case found of
             None \<Rightarrow> ep1
           | Some a \<Rightarrow>
               (case peers ep1 a of
                  None \<Rightarrow> ep1
                | Some p \<Rightarrow>
                    if pr_state p = RDS_PEER_DISABLED \<or> pr_rx_ring_mr p = None \<or> pr_credit_mr p = None then ep1
                    else (case rds_ring_adopt ep1 p info of
                      (ret, p1) \<Rightarrow>
                        if ret \<noteq> 0 then peer_put a (p1\<lparr>pr_state := RDS_PEER_DISABLED\<rparr>) ep1
                        else let ep2 = (if hdr_op hdr = RDS_OP_RING_REQ
                                        then rds_ring_send_ctrl os p1 RDS_OP_RING_ACK ep1 else ep1)
                             in peer_put a (p1\<lparr>pr_state := RDS_PEER_READY\<rparr>) ep2))))"

section \<open>Send\<close>

definition rds_ring_refresh_credit :: "memory \<Rightarrow> rds_peer \<Rightarrow> rds_peer" where
  "rds_ring_refresh_credit m p =
     (let c = (of_nat (mem_get m (pr_credit_cell p) 8) :: u64)
      in if c > pr_tx_tail p then p\<lparr>pr_tx_tail := c\<rparr> else p)"

text \<open>The bytes \<^verbatim>\<open>ofi_copy_from_iov\<close> places in a slot from the sender's array.\<close>

definition iov_payload :: "iovec list \<Rightarrow> nat \<Rightarrow> memory \<Rightarrow> byte list" where
  "iov_payload vs tlen m = snd (ofi_copy_from_iov (replicate tlen 0) tlen vs 0 m)"

definition send_flags :: "bool \<Rightarrow> u64 \<Rightarrow> u8" where
  "send_flags tagged flags =
     (if tagged then RDS_HF_TAGGED else 0) OR (if has_flag flags FI_REMOTE_CQ_DATA then RDS_HF_CQ_DATA else 0)"

definition send_comp_flags :: "bool \<Rightarrow> u64" where
  "send_comp_flags tagged = FI_SEND OR (if tagged then FI_TAGGED else FI_MSG)"

text \<open>Where the next slot goes and the stamp it carries.\<close>

definition tx_idx :: "rds_peer \<Rightarrow> nat" where
  "tx_idx p = unat (pr_tx_head p) mod unat (pr_rem_slots p)"

definition tx_gen :: "rds_peer \<Rightarrow> u32" where
  "tx_gen p = of_nat (unat (pr_tx_head p) div unat (pr_rem_slots p)) + 1"

definition stage_slot ::
  "addr \<Rightarrow> u32 \<Rightarrow> rds_ring_slot \<Rightarrow> byte list \<Rightarrow> u32 \<Rightarrow> memory \<Rightarrow> memory" where
  "stage_slot stage slot_size s payload gen m =
     (let m1 = mem_put_slot m stage s;
          m2 = mem_write m1 (rds_slot_payload stage) payload
      in mem_write m2 (rds_slot_gen stage slot_size) (le_enc 4 (unat gen)))"

text \<open>
  The send itself, for a peer that is \<^verbatim>\<open>READY\<close>.  \<open>copy\<close> is the payload as a function of
  memory: the caller's array for an eager message, the descriptor bytes for a rendezvous request.
\<close>

definition ring_send_ready ::
  "os \<Rightarrow> nat \<Rightarrow> (memory \<Rightarrow> byte list) \<Rightarrow> fi_addr \<Rightarrow> rds_peer \<Rightarrow> u64 \<Rightarrow> u64 \<Rightarrow> nat \<Rightarrow> u64 \<Rightarrow> bool \<Rightarrow> bool \<Rightarrow> u8 \<Rightarrow>
     rds_ep \<Rightarrow> int \<times> rds_ep" where
  "ring_send_ready os tlen copy a p tag data context flags tagged gen_comp op ep =
     (let p1 = rds_ring_refresh_credit (mem ep) p;
          ep1 = peer_put a p1 ep
      in if pr_tx_head p1 - pr_tx_tail p1 \<ge> ucast (pr_rem_slots p1) then (- FI_EAGAIN, ep1)
         else let idx = tx_idx p1;
                  stage = pr_tx_stage p1 + idx * unat (ring_slot_size ep);
                  s = \<lparr>slot_len = of_nat tlen, slot_flags = send_flags tagged flags, slot_op = op,
                       slot_tag = tag, slot_data = data, slot_ack = pr_rx_head p1\<rparr>;
                  ep2 = ep1\<lparr>mem := stage_slot stage (ring_slot_size ep) s (copy (mem ep)) (tx_gen p1) (mem ep)\<rparr>
              in (case rds_post_rdma os (pr_sa p1) (pr_rem_ring_cookie p1)
                        (of_nat (idx * unat (pr_rem_slot_size p1))) [iov stage (unat (ring_slot_size ep))]
                        True False 0 ep2 of
                (ret, ep3) \<Rightarrow>
                  if ret \<noteq> 0 then (ret, ep3)
                  else let ep4 = peer_put a (p1\<lparr>pr_tx_head := pr_tx_head p1 + 1\<rparr>) ep3
                       in (0, if gen_comp
                              then rds_cq_write_tx context (send_comp_flags tagged) tlen 0 ep4 else ep4)))"

text \<open>The handshake branch: kick it once, give up after the deadline.\<close>

definition ring_send_handshake :: "os \<Rightarrow> fi_addr \<Rightarrow> rds_peer \<Rightarrow> rds_ep \<Rightarrow> int \<times> rds_ep" where
  "ring_send_handshake os a p ep =
     (let (p1, ep1) =
        (if pr_state p = RDS_PEER_NONE
         then let ep' = rds_ring_send_ctrl os p RDS_OP_RING_REQ ep;
                  (t, h) = sys_time os (hist ep');
                  p' = p\<lparr>pr_state := RDS_PEER_CONNECTING, pr_connect_start_ms := t\<rparr>
              in (p', peer_put a p' (ep'\<lparr>hist := h\<rparr>))
         else (p, ep));
          (now, h1) = sys_time os (hist ep1);
          ep2 = ep1\<lparr>hist := h1\<rparr>
      in if now - pr_connect_start_ms p1 > RDS_RING_CONNECT_TIMEOUT_MS
         then (- FI_ENOSYS, peer_put a (p1\<lparr>pr_state := RDS_PEER_DISABLED\<rparr>) ep2)
         else (- FI_EAGAIN, ep2))"

definition rds_ring_send ::
  "os \<Rightarrow> nat \<Rightarrow> (memory \<Rightarrow> byte list) \<Rightarrow> fi_addr \<Rightarrow> u64 \<Rightarrow> u64 \<Rightarrow> nat \<Rightarrow> u64 \<Rightarrow> bool \<Rightarrow> bool \<Rightarrow> u8 \<Rightarrow>
     rds_ep \<Rightarrow> int \<times> rds_ep" where
  "rds_ring_send os tlen copy dest tag data context flags tagged gen_comp op ep =
     (if \<not> eager_rdma ep then (- FI_ENOSYS, ep)
      else if tlen > unat (ring_payload ep) then (- FI_ENOSYS, ep)
      else let (found, ep1) = (case rds_peer_find ep dest of
                  Some a \<Rightarrow> (Some a, ep)
                | None \<Rightarrow> rds_peer_create os dest ep)
           in (case found of
             None \<Rightarrow> (- FI_ENOSYS, ep1)
           | Some a \<Rightarrow>
               let ep2 = ep1\<lparr>peer_lru := a # removeAll a (peer_lru ep1)\<rparr>
               in (case peers ep2 a of
                  None \<Rightarrow> (- FI_ENOSYS, ep2)
                | Some p \<Rightarrow>
                    if pr_state p = RDS_PEER_READY
                    then ring_send_ready os tlen copy a p tag data context flags tagged gen_comp op ep2
                    else if pr_state p = RDS_PEER_DISABLED then (- FI_ENOSYS, ep2)
                    else ring_send_handshake os a p ep2)))"

end
