(* ===== verification/Rds_Msg.thy ===== *)
theory Rds_Msg
  imports Rds_Ring
begin

text \<open>
  The matching engine and the receive side of \<^verbatim>\<open>rds_msg.c\<close>: matching posted receives with
  arrived messages, delivering eager payloads, the rendezvous receive with its RDMA reads,
  dispatch of an inbound datagram, RDMA notifications, the retry of parked operations, and
  posting a receive.
\<close>

section \<open>Matching\<close>

definition rds_tag_match :: "u64 \<Rightarrow> u64 \<Rightarrow> u64 \<Rightarrow> bool" where
  "rds_tag_match rxtag ignore msg_tag \<longleftrightarrow> (rxtag XOR msg_tag) AND (NOT ignore) = 0"

definition rds_addr_match :: "fi_addr \<Rightarrow> fi_addr \<Rightarrow> bool" where
  "rds_addr_match rxaddr src \<longleftrightarrow> rxaddr = FI_ADDR_UNSPEC \<or> rxaddr = src"

definition rx_matches :: "rds_hdr \<Rightarrow> fi_addr \<Rightarrow> bool \<Rightarrow> rds_rx_entry \<Rightarrow> bool" where
  "rx_matches hdr src tagged rx \<longleftrightarrow>
     rds_addr_match (rx_addr rx) src \<and> (tagged \<longrightarrow> rds_tag_match (rx_tag rx) (rx_ignore rx) (hdr_tag hdr))"

definition rds_match_posted :: "rds_hdr \<Rightarrow> fi_addr \<Rightarrow> bool \<Rightarrow> rds_ep \<Rightarrow> rds_rx_entry option \<times> rds_ep" where
  "rds_match_posted hdr src tagged ep =
     (case take_first (rx_matches hdr src tagged) (if tagged then rx_posted_tag ep else rx_posted_msg ep) of
        None \<Rightarrow> (None, ep)
      | Some (rx, rest) \<Rightarrow>
          (Some rx, if tagged then ep\<lparr>rx_posted_tag := rest\<rparr> else ep\<lparr>rx_posted_msg := rest\<rparr>))"

definition ux_matches :: "fi_addr \<Rightarrow> u64 \<Rightarrow> u64 \<Rightarrow> bool \<Rightarrow> rds_unexp \<Rightarrow> bool" where
  "ux_matches a tag ignore tagged ux \<longleftrightarrow>
     rds_addr_match a (ux_addr ux) \<and> (tagged \<longrightarrow> rds_tag_match tag ignore (hdr_tag (ux_hdr ux)))"

definition rds_match_unexp :: "fi_addr \<Rightarrow> u64 \<Rightarrow> u64 \<Rightarrow> bool \<Rightarrow> rds_ep \<Rightarrow> rds_unexp option \<times> rds_ep" where
  "rds_match_unexp a tag ignore tagged ep =
     (case take_first (ux_matches a tag ignore tagged) (if tagged then rx_unexp_tag ep else rx_unexp_msg ep) of
        None \<Rightarrow> (None, ep)
      | Some (ux, rest) \<Rightarrow>
          (Some ux, if tagged then ep\<lparr>rx_unexp_tag := rest\<rparr> else ep\<lparr>rx_unexp_msg := rest\<rparr>))"

section \<open>Delivery\<close>

definition hdr_tagged :: "rds_hdr \<Rightarrow> bool" where
  "hdr_tagged hdr \<longleftrightarrow> hdr_flags hdr AND RDS_HF_TAGGED \<noteq> 0"

definition rds_rx_flags :: "rds_hdr \<Rightarrow> bool \<Rightarrow> u64" where
  "rds_rx_flags hdr tagged =
     (FI_RECV OR (if tagged then FI_TAGGED else FI_MSG)) OR
     (if hdr_flags hdr AND RDS_HF_CQ_DATA \<noteq> 0 then FI_REMOTE_CQ_DATA else 0)"

definition rds_deliver_eager :: "rds_rx_entry \<Rightarrow> rds_hdr \<Rightarrow> byte list \<Rightarrow> fi_addr \<Rightarrow> rds_ep \<Rightarrow> rds_ep" where
  "rds_deliver_eager rx hdr payload src ep =
     (case ofi_copy_to_iov (rx_iov rx) 0 payload (length payload) (mem ep) of
        (copied, m) \<Rightarrow>
          let ep1 = ep\<lparr>mem := m\<rparr>;
              err = (if length payload > rx_total_len rx then FI_ETRUNC else 0);
              report = has_flag (rx_flags rx OR rx_op_flags ep) FI_COMPLETION
          in if report \<or> err \<noteq> 0
             then rds_cq_write_rx (rx_context rx) (rds_rx_flags hdr (hdr_tagged hdr)) copied
                    (hdr_data hdr) (hdr_tag hdr) src err ep1
             else ep1)"

text \<open>One READ per source segment into the matched buffer: issued, parked, or failed.\<close>

definition rndzv_read_seg ::
  "os \<Rightarrow> rds_rx_entry \<Rightarrow> sock_ip \<Rightarrow> rds_rndzv_seg \<Rightarrow> nat \<Rightarrow> nat \<Rightarrow> rds_pending \<Rightarrow> rds_ep \<Rightarrow> rds_pending \<times> rds_ep" where
  "rndzv_read_seg os rx peer s off this_len p ep =
     (let liov = fst (rds_iov_slice (rx_iov rx) off this_len)
      in (case rds_post_rdma os peer (seg_cookie s) (seg_off s) liov False True (p_id p) ep of
        (ret, ep1) \<Rightarrow>
          if ret = 0
          then (p\<lparr>p_seg_remaining := p_seg_remaining p + 1, p_seg_total := p_seg_total p + 1\<rparr>, ep1)
          else if ret = - FI_EAGAIN
          then (case rds_defer_read os peer (seg_cookie s) (seg_off s) liov (p_id p) ep1 of
            (dret, ep2) \<Rightarrow>
              if dret = 0
              then (p\<lparr>p_seg_deferred := p_seg_deferred p + 1, p_seg_total := p_seg_total p + 1\<rparr>, ep2)
              else (if p_error p = 0 then p\<lparr>p_error := FI_ENOMEM\<rparr> else p, ep2))
          else (if p_error p = 0 then p\<lparr>p_error := - ret\<rparr> else p, ep1)))"

fun rndzv_read_loop ::
  "os \<Rightarrow> rds_rx_entry \<Rightarrow> sock_ip \<Rightarrow> rds_rndzv_seg list \<Rightarrow> nat \<Rightarrow> nat \<Rightarrow> rds_pending \<Rightarrow> rds_ep \<Rightarrow>
     rds_pending \<times> rds_ep" where
  "rndzv_read_loop os rx peer [] off effective p ep = (p, ep)"
| "rndzv_read_loop os rx peer (s # ss) off effective p ep =
     (if off < effective
      then let this_len = min (unat (seg_len s)) (effective - off)
           in (case rndzv_read_seg os rx peer s off this_len p ep of
             (p1, ep1) \<Rightarrow> rndzv_read_loop os rx peer ss (off + this_len) effective p1 ep1)
      else (p, ep))"

definition rndzv_pend ::
  "rds_rx_entry \<Rightarrow> rds_hdr \<Rightarrow> sock_ip \<Rightarrow> fi_addr \<Rightarrow> rds_ep \<Rightarrow> rds_pending \<Rightarrow> rds_pending" where
  "rndzv_pend rx hdr peer src ep p =
     p\<lparr>p_len := min (unat (hdr_size hdr)) (rx_total_len rx), p_addr := src, p_data := hdr_data hdr,
       p_tag := hdr_tag hdr, p_peer := peer, p_peer_id := hdr_id hdr,
       p_error := (if unat (hdr_size hdr) > rx_total_len rx then FI_ETRUNC else 0),
       p_no_comp := \<not> has_flag (rx_flags rx OR rx_op_flags ep) FI_COMPLETION\<rparr>"

definition rds_start_rndzv_read ::
  "os \<Rightarrow> rds_rx_entry \<Rightarrow> rds_hdr \<Rightarrow> rds_rndzv_seg list \<Rightarrow> sock_ip \<Rightarrow> fi_addr \<Rightarrow> rds_ep \<Rightarrow> rds_ep" where
  "rds_start_rndzv_read os rx hdr segs peer src ep =
     (let flags = rds_rx_flags hdr (hdr_tagged hdr)
      in (case rds_pending_alloc os RDS_PEND_RNDZV_RX (rx_context rx) flags ep of
        (None, ep1) \<Rightarrow>
          rds_cq_write_rx (rx_context rx) flags 0 (hdr_data hdr) (hdr_tag hdr) src FI_ENOMEM
            (rds_send_fin os peer (hdr_id hdr) ep1)
      | (Some (k, p), ep1) \<Rightarrow>
          let effective = min (unat (hdr_size hdr)) (rx_total_len rx)
          in (case rndzv_read_loop os rx peer segs 0 effective (rndzv_pend rx hdr peer src ep p) ep1 of
            (p1, ep2) \<Rightarrow>
              let ep3 = pending_put k p1 ep2
              in if p_seg_remaining p1 = 0 \<and> p_seg_deferred p1 = 0
                 then rds_rndzv_rx_finalize os k ep3 else ep3)))"

section \<open>Inbound dispatch\<close>

text \<open>
  The descriptor's segment array is the payload read as an array.  Elements past the payload's
  end are made of whatever memory holds there.
\<close>

definition payload_segs :: "os \<Rightarrow> rds_ep \<Rightarrow> nat \<Rightarrow> byte list \<Rightarrow> rds_rndzv_seg list" where
  "payload_segs os ep n payload =
     (case dec_segs n payload of
        Some ss \<Rightarrow> ss
      | None \<Rightarrow>
          (case dec_segs n (payload @ map (os_beyond os (hist ep)) [0..<sizeof_rds_rndzv_seg * n]) of
             Some ss \<Rightarrow> ss
           | None \<Rightarrow> []))"

definition rds_enqueue_unexp ::
  "os \<Rightarrow> rds_hdr \<Rightarrow> byte list \<Rightarrow> sock_ip \<Rightarrow> fi_addr \<Rightarrow> bool \<Rightarrow> rds_ep \<Rightarrow> rds_ep" where
  "rds_enqueue_unexp os hdr payload src src_fi tagged ep =
     (let eager = (hdr_op hdr = RDS_OP_EAGER);
          put = (\<lambda>ux ep. if tagged then ep\<lparr>rx_unexp_tag := rx_unexp_tag ep @ [ux]\<rparr>
                         else ep\<lparr>rx_unexp_msg := rx_unexp_msg ep @ [ux]\<rparr>)
      in (case ep_alloc os (ObjUnexp (if eager then length payload else 0)) ep of
        (None, ep1) \<Rightarrow> if hdr_op hdr = RDS_OP_RTS then rds_send_fin os src (hdr_id hdr) ep1 else ep1
      | (Some _, ep1) \<Rightarrow>
          if eager
          then put \<lparr>ux_hdr = hdr, ux_addr = src_fi, ux_src = src, ux_segs = [], ux_data = payload\<rparr> ep1
          else (case ep_alloc os (ObjSegs (unat (hdr_seg_cnt hdr))) ep1 of
            (None, ep2) \<Rightarrow> rds_send_fin os src (hdr_id hdr) ep2
          | (Some _, ep2) \<Rightarrow>
              put \<lparr>ux_hdr = hdr, ux_addr = src_fi, ux_src = src,
                   ux_segs = payload_segs os ep2 (unat (hdr_seg_cnt hdr)) payload, ux_data = []\<rparr> ep2)))"

definition rds_handle_fin :: "os \<Rightarrow> u64 \<Rightarrow> rds_ep \<Rightarrow> rds_ep" where
  "rds_handle_fin os i ep =
     (case rds_pending_find ep i of
        None \<Rightarrow> ep
      | Some k \<Rightarrow> if p_type (pending ep ! k) = RDS_PEND_RNDZV_TX then rds_pending_complete os k ep else ep)"

definition rds_handle_message ::
  "os \<Rightarrow> rds_hdr \<Rightarrow> byte list \<Rightarrow> sock_ip \<Rightarrow> fi_addr \<Rightarrow> rds_ep \<Rightarrow> rds_ep" where
  "rds_handle_message os hdr payload src src_fi ep =
     (let tagged = hdr_tagged hdr
      in (case rds_match_posted hdr src_fi tagged ep of
        (Some rx, ep1) \<Rightarrow>
          if hdr_op hdr = RDS_OP_EAGER then rds_deliver_eager rx hdr payload src_fi ep1
          else rds_start_rndzv_read os rx hdr (payload_segs os ep1 (unat (hdr_seg_cnt hdr)) payload) src src_fi ep1
      | (None, ep1) \<Rightarrow> rds_enqueue_unexp os hdr payload src src_fi tagged ep1))"

definition rds_handle_inbound ::
  "os \<Rightarrow> rds_hdr \<Rightarrow> byte list \<Rightarrow> sock_ip \<Rightarrow> fi_addr \<Rightarrow> rds_ep \<Rightarrow> rds_ep" where
  "rds_handle_inbound os hdr payload src src_fi ep =
     (if hdr_magic hdr \<noteq> RDS_HDR_MAGIC then ep
      else if hdr_op hdr = RDS_OP_FIN then rds_handle_fin os (hdr_id hdr) ep
      else if hdr_op hdr = RDS_OP_RING_REQ \<or> hdr_op hdr = RDS_OP_RING_ACK
      then rds_ring_handle_ctrl os hdr payload src_fi ep
      else if hdr_op hdr = RDS_OP_RTS \<and> length payload < unat (hdr_seg_cnt hdr) * sizeof_rds_rndzv_seg then ep
      else rds_handle_message os hdr payload src src_fi ep)"

section \<open>Notifications and parked operations\<close>

definition abs_status :: "int \<Rightarrow> int" where
  "abs_status st = (if st < 0 then - st else st)"

definition rds_handle_rdma_notify :: "os \<Rightarrow> u64 \<Rightarrow> int \<Rightarrow> rds_ep \<Rightarrow> rds_ep" where
  "rds_handle_rdma_notify os token status ep =
     (case rds_pending_find ep token of
        None \<Rightarrow> ep
      | Some k \<Rightarrow>
          let p = pending ep ! k;
              p1 = (if status \<noteq> 0 \<and> p_error p = 0 then p\<lparr>p_error := abs_status status\<rparr> else p)
          in if p_seg_remaining p1 = 0 then pending_put k p1 ep
             else let p2 = p1\<lparr>p_seg_remaining := p_seg_remaining p1 - 1\<rparr>;
                      ep1 = pending_put k p2 ep
                  in if p_seg_remaining p2 \<noteq> 0 then ep1
                     else (case p_type p2 of
                       RDS_PEND_RMA \<Rightarrow> rds_pending_complete os k ep1
                     | RDS_PEND_RNDZV_RX \<Rightarrow>
                         if p_seg_deferred p2 = 0 then rds_rndzv_rx_finalize os k ep1 else ep1
                     | RDS_PEND_RNDZV_TX \<Rightarrow> ep1))"

text \<open>
  One parked operation, with the queue that remains if it is unlinked already in place; the
  flag says whether it stays parked.
\<close>

definition deferred_step :: "os \<Rightarrow> rds_deferred \<Rightarrow> rds_ep \<Rightarrow> bool \<times> rds_ep" where
  "deferred_step os d ep =
     (case d_type d of
        RDS_DEFERRED_FIN \<Rightarrow>
          (case rds_send_fin_raw os (d_peer d) (d_id d) ep of (ret, ep1) \<Rightarrow> (ret = - FI_EAGAIN, ep1))
      | RDS_DEFERRED_READ \<Rightarrow>
          (case rds_pending_find ep (d_id d) of
             None \<Rightarrow> (False, ep)
           | Some k \<Rightarrow>
               (case rds_post_rdma os (d_peer d) (d_cookie d) (d_remote_off d) (d_liov d) False True (d_id d) ep of
                  (ret, ep1) \<Rightarrow>
                    if ret = - FI_EAGAIN then (True, ep1)
                    else let p = pending ep1 ! k;
                             p1 = p\<lparr>p_seg_deferred := p_seg_deferred p - 1\<rparr>;
                             p2 = (if ret = 0 then p1\<lparr>p_seg_remaining := p_seg_remaining p1 + 1\<rparr>
                                   else if p_error p1 = 0 then p1\<lparr>p_error := abs_status ret\<rparr> else p1);
                             ep2 = pending_put k p2 ep1
                         in (False, if p_seg_remaining p2 = 0 \<and> p_seg_deferred p2 = 0
                                    then rds_rndzv_rx_finalize os k ep2 else ep2))))"

text \<open>
  The walk over the queue.  \<open>kept\<close> are the operations already tried that stay, \<open>d # rest\<close> the
  current one and what follows.  The successor is read before the body runs: an operation
  appended while the last one is handled is left for the next pass, one appended earlier is
  reached in this pass.
\<close>

fun weight :: "rds_deferred list \<Rightarrow> nat" where
  "weight [] = 0"
| "weight (d # ds) = (case d_type d of RDS_DEFERRED_FIN \<Rightarrow> 1 | RDS_DEFERRED_READ \<Rightarrow> 2) + weight ds"

lemma rds_send_fin_deferred:
  "deferred (rds_send_fin os peer i ep) = deferred ep \<or>
   deferred (rds_send_fin os peer i ep) = deferred ep @ [deferred_fin peer i]"
  by (auto simp: rds_send_fin_def rds_send_fin_raw_def sys_send_def rds_defer_fin_def ep_alloc_def
      sys_alloc_def rds_defer_enqueue_def Let_def split: prod.splits option.splits)

lemma rds_cq_write_deferred [simp]:
  "deferred (rds_cq_write_rx c f l d t s e ep) = deferred ep"
  "deferred (rds_cq_write_tx c f l e ep) = deferred ep"
  by (simp_all add: rds_cq_write_rx_def rds_cq_write_tx_def cq_push_def)

lemma rds_rndzv_rx_finalize_deferred:
  "\<exists>fs. deferred (rds_rndzv_rx_finalize os k ep) = deferred ep @ fs \<and> weight fs \<le> 1"
  using rds_send_fin_deferred [of os "p_peer (pending ep ! k)" "p_peer_id (pending ep ! k)" ep]
  by (auto simp: rds_rndzv_rx_finalize_def Let_def pending_remove_def deferred_fin_def)

lemma deferred_step_deferred:
  "\<exists>fs. deferred (snd (deferred_step os d ep)) = deferred ep @ fs \<and> weight fs < weight [d]"
proof (cases "d_type d")
  case RDS_DEFERRED_FIN
  then show ?thesis
    by (auto simp: deferred_step_def rds_send_fin_raw_def sys_send_def Let_def split: prod.splits)
next
  case RDS_DEFERRED_READ
  have "deferred (snd (rds_post_rdma os pe c ro l w n t ep)) = deferred ep" for pe c ro l w n t
    by (auto simp: rds_post_rdma_def sys_rdma_def Let_def)
  then have post: "rds_post_rdma os pe c ro l w n t ep = (ret, ep1) \<Longrightarrow> deferred ep1 = deferred ep"
    for pe c ro l w n t ret ep1 by (metis snd_conv)
  obtain ret ep1 where r: "rds_post_rdma os (d_peer d) (d_cookie d) (d_remote_off d) (d_liov d) False True (d_id d) ep = (ret, ep1)"
    by fastforce
  from post [OF r] have e1: "deferred ep1 = deferred ep" .
  have fin: "\<exists>fs. deferred (rds_rndzv_rx_finalize os k (pending_put k p ep1)) = deferred ep @ fs \<and> weight fs < 2" for k p
    using rds_rndzv_rx_finalize_deferred [of os k "pending_put k p ep1"] e1
    by (fastforce simp: pending_put_def)
  show ?thesis
    using RDS_DEFERRED_READ r e1 fin
    by (auto simp: deferred_step_def Let_def pending_put_def split: option.splits)
qed

function (sequential) progress_deferred_loop ::
  "os \<Rightarrow> rds_deferred list \<Rightarrow> rds_deferred list \<Rightarrow> bool \<Rightarrow> rds_ep \<Rightarrow> bool \<times> rds_ep" where
  "progress_deferred_loop os kept [] blocked ep = (blocked, ep)"
| "progress_deferred_loop os kept (d # rest) blocked ep =
     (case deferred_step os d (ep\<lparr>deferred := kept @ rest\<rparr>) of
        (True, ep1) \<Rightarrow> progress_deferred_loop os (kept @ [d]) rest True (ep1\<lparr>deferred := kept @ d # rest\<rparr>)
      | (False, ep1) \<Rightarrow>
          if rest = [] then (blocked, ep1)
          else progress_deferred_loop os kept (drop (length kept) (deferred ep1)) blocked ep1)"
  by pat_completeness auto
termination
proof (relation "measure (\<lambda>(os, kept, ds, b, ep). weight ds)", goal_cases)
  case 1
  then show ?case by simp
next
  case (2 os kept d rest blocked ep keep ep1)
  then show ?case by (cases "d_type d") simp_all
next
  case (3 os kept d rest blocked ep keep ep1)
  obtain fs where "deferred ep1 = (kept @ rest) @ fs" "weight fs < weight [d]"
    using deferred_step_deferred [of os d "ep\<lparr>deferred := kept @ rest\<rparr>"] 3 by (metis snd_conv rds_ep.select_convs(17) rds_ep.update_convs(17) rds_ep.surjective)
  moreover have "weight (rest @ fs) = weight rest + weight fs" by (induction rest) auto
  ultimately show ?case by simp
qed

definition rds_progress_deferred :: "os \<Rightarrow> rds_ep \<Rightarrow> int \<times> rds_ep" where
  "rds_progress_deferred os ep =
     (case progress_deferred_loop os [] (deferred ep) False ep of
        (blocked, ep') \<Rightarrow> (if blocked then - FI_EAGAIN else 0, ep'))"

section \<open>Posting a receive\<close>

definition rx_entry_of ::
  "iovec list \<Rightarrow> fi_addr \<Rightarrow> u64 \<Rightarrow> u64 \<Rightarrow> nat \<Rightarrow> u64 \<Rightarrow> bool \<Rightarrow> rds_rx_entry" where
  "rx_entry_of vs a tag ignore context flags tagged =
     \<lparr>rx_context = context, rx_iov = vs, rx_total_len = ofi_total_iov_len vs, rx_tag = tag,
      rx_ignore = ignore, rx_addr = a, rx_flags = flags OR (if tagged then FI_TAGGED else 0)\<rparr>"

definition rds_post_recv ::
  "os \<Rightarrow> iovec list \<Rightarrow> fi_addr \<Rightarrow> u64 \<Rightarrow> u64 \<Rightarrow> nat \<Rightarrow> u64 \<Rightarrow> bool \<Rightarrow> rds_ep \<Rightarrow> int \<times> rds_ep" where
  "rds_post_recv os vs a tag ignore context flags tagged ep =
     (if length vs > RDS_IOV_LIMIT then (- FI_EINVAL, ep)
      else let rx = rx_entry_of vs a tag ignore context flags tagged
           in (case rds_match_unexp a tag ignore tagged ep of
             (Some ux, ep1) \<Rightarrow>
               (0, if hdr_op (ux_hdr ux) = RDS_OP_EAGER
                   then rds_deliver_eager rx (ux_hdr ux) (ux_data ux) (ux_addr ux) ep1
                   else rds_start_rndzv_read os rx (ux_hdr ux) (take (unat (hdr_seg_cnt (ux_hdr ux))) (ux_segs ux))
                          (ux_src ux) (ux_addr ux) ep1)
           | (None, ep1) \<Rightarrow>
               (case ep_alloc os ObjRx ep1 of
                  (None, ep2) \<Rightarrow> (- FI_ENOMEM, ep2)
                | (Some _, ep2) \<Rightarrow>
                    (0, if tagged then ep2\<lparr>rx_posted_tag := rx_posted_tag ep2 @ [rx]\<rparr>
                        else ep2\<lparr>rx_posted_msg := rx_posted_msg ep2 @ [rx]\<rparr>))))"

end
