(* ===== verification/Rds_Progress.thy ===== *)
theory Rds_Progress
  imports Rds_Msg
begin

text \<open>
  The receive side of the eager ring (\<^verbatim>\<open>rds_eager.c\<close>) and the progress engine
  (\<^verbatim>\<open>rds_progress.c\<close>): a pass retries the parked operations, polls the rings, then drains the
  socket within its budget.
\<close>

section \<open>Ring receive\<close>

definition rds_ring_return_credit :: "os \<Rightarrow> fi_addr \<Rightarrow> rds_ep \<Rightarrow> rds_ep" where
  "rds_ring_return_credit os a ep =
     (case peers ep a of
        None \<Rightarrow> ep
      | Some p \<Rightarrow>
          let ep1 = ep\<lparr>mem := mem_write (mem ep) (pr_credit_tx p) (le_enc 8 (unat (pr_rx_head p)))\<rparr>
          in (case rds_post_rdma os (pr_sa p) (pr_rem_credit_cookie p) 0 [iov (pr_credit_tx p) 8]
                    True False 0 ep1 of
            (ret, ep2) \<Rightarrow>
              if ret = 0 then peer_put a (p\<lparr>pr_rx_credit_sent := pr_rx_head p\<rparr>) ep2 else ep2))"

definition rds_ring_deliver :: "os \<Rightarrow> rds_peer \<Rightarrow> rds_ring_slot \<Rightarrow> byte list \<Rightarrow> rds_ep \<Rightarrow> rds_ep" where
  "rds_ring_deliver os p slot payload ep =
     (if slot_op slot = RDS_OP_EAGER
      then rds_handle_inbound os
             (hdr_zero\<lparr>hdr_magic := RDS_HDR_MAGIC, hdr_op := RDS_OP_EAGER, hdr_flags := slot_flags slot,
                hdr_tag := slot_tag slot, hdr_data := slot_data slot, hdr_size := ucast (slot_len slot)\<rparr>)
             payload (pr_sa p) (pr_addr p) ep
      else if unat (slot_len slot) < sizeof_rds_hdr then ep
      else rds_handle_inbound os (dec_hdr payload) (drop sizeof_rds_hdr payload) (pr_sa p) (pr_addr p) ep)"

text \<open>Where the next slot is expected and the stamp that says it has fully arrived.\<close>

definition rx_slot_addr :: "rds_ep \<Rightarrow> rds_peer \<Rightarrow> addr" where
  "rx_slot_addr ep p =
     pr_rx_ring p + (unat (pr_rx_head p) mod unat (ring_slots ep)) * unat (ring_slot_size ep)"

definition rx_want :: "rds_ep \<Rightarrow> rds_peer \<Rightarrow> u32" where
  "rx_want ep p = of_nat (unat (pr_rx_head p) div unat (ring_slots ep)) + 1"

definition rx_slot_ready :: "rds_ep \<Rightarrow> rds_peer \<Rightarrow> bool" where
  "rx_slot_ready ep p \<longleftrightarrow>
     (of_nat (mem_get (mem ep) (rds_slot_gen (rx_slot_addr ep p) (ring_slot_size ep)) 4) :: u32) = rx_want ep p"

text \<open>One turn of the polling loop: \<open>None\<close> is the \<^verbatim>\<open>break\<close>.\<close>

definition ring_poll_step :: "os \<Rightarrow> fi_addr \<Rightarrow> rds_ep \<Rightarrow> rds_ep option" where
  "ring_poll_step os a ep =
     (case peers ep a of
        None \<Rightarrow> None
      | Some p \<Rightarrow>
          if \<not> rx_slot_ready ep p then None
          else let slotp = rx_slot_addr ep p;
                   slot = mem_get_slot (mem ep) slotp;
                   p1 = (if slot_ack slot > pr_tx_tail p then p\<lparr>pr_tx_tail := slot_ack slot\<rparr> else p);
                   payload = mem_read (mem ep) (rds_slot_payload slotp) (unat (slot_len slot));
                   ep1 = rds_ring_deliver os p1 slot payload (peer_put a p1 ep)
               in (case peers ep1 a of
                 None \<Rightarrow> None
               | Some p2 \<Rightarrow>
                   let p3 = p2\<lparr>pr_rx_head := pr_rx_head p2 + 1\<rparr>;
                       ep2 = peer_put a p3 ep1
                   in Some (if pr_rx_head p3 - pr_rx_credit_sent p3 \<ge> ucast (ring_slots ep2 div 2)
                            then rds_ring_return_credit os a ep2 else ep2)))"

text \<open>
  A turn consumes one slot and its stamp is not the one wanted a lap later, so a ring whose
  memory does not change under the loop is drained within as many turns as it has slots.
\<close>

fun ring_poll_loop :: "nat \<Rightarrow> os \<Rightarrow> fi_addr \<Rightarrow> bool \<Rightarrow> rds_ep \<Rightarrow> bool \<times> rds_ep" where
  "ring_poll_loop 0 os a drained ep = (drained, ep)"
| "ring_poll_loop (Suc n) os a drained ep =
     (case ring_poll_step os a ep of
        None \<Rightarrow> (drained, ep)
      | Some ep' \<Rightarrow> ring_poll_loop n os a True ep')"

definition rds_ring_poll_peer :: "os \<Rightarrow> fi_addr \<Rightarrow> rds_ep \<Rightarrow> rds_ep" where
  "rds_ring_poll_peer os a ep =
     (case ring_poll_loop (unat (ring_slots ep) + 1) os a False ep of
        (drained, ep1) \<Rightarrow>
          (case peers ep1 a of
             None \<Rightarrow> ep1
           | Some p \<Rightarrow>
               if drained \<and> pr_rx_head p \<noteq> pr_rx_credit_sent p then rds_ring_return_credit os a ep1 else ep1))"

fun poll_peers :: "os \<Rightarrow> fi_addr list \<Rightarrow> rds_ep \<Rightarrow> rds_ep" where
  "poll_peers os [] ep = ep"
| "poll_peers os (a # as) ep =
     poll_peers os as
       (case peers ep a of
          None \<Rightarrow> ep
        | Some p \<Rightarrow> if pr_state p = RDS_PEER_READY then rds_ring_poll_peer os a ep else ep)"

definition rds_ring_progress :: "os \<Rightarrow> rds_ep \<Rightarrow> rds_ep" where
  "rds_ring_progress os ep =
     (if \<not> eager_rdma ep \<or> peer_cnt ep = 0 then ep else poll_peers os (peer_lru ep) ep)"

section \<open>Progress\<close>

abbreviation (input) RDS_PROGRESS_BUDGET :: nat where "RDS_PROGRESS_BUDGET \<equiv> 256"

fun rds_reap_notifies :: "os \<Rightarrow> rdma_notify list \<Rightarrow> rds_ep \<Rightarrow> rds_ep" where
  "rds_reap_notifies os [] ep = ep"
| "rds_reap_notifies os (n # ns) ep =
     rds_reap_notifies os ns (rds_handle_rdma_notify os (nt_user_token n) (nt_status n) ep)"

definition ep_lookup_src :: "rds_ep \<Rightarrow> sock_ip \<Rightarrow> fi_addr" where
  "ep_lookup_src ep src = (case ep_av ep of None \<Rightarrow> FI_ADDR_NOTAVAIL | Some av \<Rightarrow> ofi_av_lookup_fi_addr av src)"

definition handle_recv_msg :: "os \<Rightarrow> recv_msg \<Rightarrow> rds_ep \<Rightarrow> rds_ep" where
  "handle_recv_msg os rm ep =
     (let ep1 = rds_reap_notifies os (rm_notifies rm) ep
      in if rm_trunc rm then ep1
         else if length (rm_data rm) < sizeof_rds_hdr then ep1
         else rds_handle_inbound os (dec_hdr (rm_data rm)) (drop sizeof_rds_hdr (rm_data rm)) (rm_src rm)
                (ep_lookup_src ep1 (rm_src rm)) ep1)"

fun progress_loop :: "nat \<Rightarrow> os \<Rightarrow> rds_ep \<Rightarrow> rds_ep" where
  "progress_loop 0 os ep = ep"
| "progress_loop (Suc budget) os ep =
     (case sys_recv os (rx_buf_size ep) (hist ep) of
        (Inl errno, h) \<Rightarrow> ep\<lparr>hist := h\<rparr>
      | (Inr rm, h) \<Rightarrow> progress_loop budget os (handle_recv_msg os rm (ep\<lparr>hist := h\<rparr>)))"

definition rds_ep_progress :: "os \<Rightarrow> rds_ep \<Rightarrow> rds_ep" where
  "rds_ep_progress os ep =
     (if ep_sock ep < 0 then ep
      else let ep1 = snd (rds_progress_deferred os ep);
               ep2 = rds_ring_progress os ep1
           in progress_loop RDS_PROGRESS_BUDGET os ep2)"

end
