(* ===== verification/Rds_Send.thy ===== *)
theory Rds_Send
  imports Rds_Msg
begin

text \<open>
  The send side of \<^verbatim>\<open>rds_msg.c\<close>: eager datagrams, the rendezvous request with its source
  registrations, the choice between ring, datagram and rendezvous, inject, and the tables of
  message and tagged operations.  A send that consults the registration cache may not return;
  its result is an option.
\<close>

section \<open>Eager\<close>

definition eager_hdr :: "nat \<Rightarrow> u64 \<Rightarrow> u64 \<Rightarrow> u64 \<Rightarrow> bool \<Rightarrow> rds_hdr" where
  "eager_hdr tlen tag data flags tagged =
     hdr_zero\<lparr>hdr_magic := RDS_HDR_MAGIC, hdr_op := RDS_OP_EAGER, hdr_flags := send_flags tagged flags,
       hdr_tag := tag, hdr_data := data, hdr_size := of_nat tlen\<rparr>"

definition rds_send_eager ::
  "os \<Rightarrow> iovec list \<Rightarrow> sock_ip \<Rightarrow> u64 \<Rightarrow> u64 \<Rightarrow> nat \<Rightarrow> u64 \<Rightarrow> bool \<Rightarrow> bool \<Rightarrow> rds_ep \<Rightarrow> int \<times> rds_ep" where
  "rds_send_eager os vs dest tag data context flags tagged gen_comp ep =
     (let tlen = ofi_total_iov_len vs
      in (case sys_send os dest (enc_hdr (eager_hdr tlen tag data flags tagged) @ gather (mem ep) vs) (hist ep) of
        (errno, h) \<Rightarrow>
          let ep1 = ep\<lparr>hist := h\<rparr>
          in if errno \<noteq> 0 then (sock_ret errno, ep1)
             else (0, if gen_comp then rds_cq_write_tx context (send_comp_flags tagged) tlen 0 ep1 else ep1)))"

section \<open>Rendezvous\<close>

definition seg_count :: "iovec list \<Rightarrow> nat" where
  "seg_count vs =
     foldl (\<lambda>n v. (n + ((iov_len v + RDS_KERNEL_SEG_MAX - 1) mod size_max) div RDS_KERNEL_SEG_MAX) mod size_max) 0 vs"

text \<open>The source chunks the two nested loops go through, as base and length.\<close>

function chunks :: "addr \<Rightarrow> nat \<Rightarrow> iovec list" where
  "chunks base left =
     (if left = 0 then []
      else iov base (min left RDS_KERNEL_SEG_MAX) #
           chunks (base + min left RDS_KERNEL_SEG_MAX) (left - min left RDS_KERNEL_SEG_MAX))"
  by pat_completeness auto
termination
  by (relation "measure snd") auto

declare chunks.simps [simp del]

definition src_chunks :: "iovec list \<Rightarrow> iovec list" where
  "src_chunks vs = concat (map (\<lambda>v. chunks (iov_base v) (iov_len v)) vs)"

datatype src_reg = RegMr rds_mr | RegCached nat

definition rndzv_register ::
  "os \<Rightarrow> bool \<Rightarrow> sock_ip \<Rightarrow> iovec \<Rightarrow> rds_ep \<Rightarrow> ((int + (u64 \<times> src_reg)) \<times> rds_ep) option" where
  "rndzv_register os cached dest ch ep =
     (if cached
      then (case rds_reg_cache_get os (iov_base ch) (iov_len ch) dest ep of
        None \<Rightarrow> None
      | Some (Inl ret, ep1) \<Rightarrow> Some (Inl ret, ep1)
      | Some (Inr (cookie, i), ep1) \<Rightarrow> Some (Inr (cookie, RegCached i), ep1))
      else (case rds_reg_internal os (ep_sock ep) (iov_base ch) (iov_len ch) FI_REMOTE_READ (Some dest) (hist ep) of
        (Inl err, h) \<Rightarrow> Some (Inl (if err \<noteq> 0 then err else - FI_ENOMEM), ep\<lparr>hist := h\<rparr>)
      | (Inr mr, h) \<Rightarrow> Some (Inr (mr_cookie mr, RegMr mr), ep\<lparr>hist := h\<rparr>)))"

text \<open>
  The registration loop: the error that stopped it (0 for none), the segments described and the
  registrations held so far.
\<close>

fun rndzv_reg_loop ::
  "os \<Rightarrow> bool \<Rightarrow> sock_ip \<Rightarrow> iovec list \<Rightarrow> rds_rndzv_seg list \<Rightarrow> src_reg list \<Rightarrow> rds_ep \<Rightarrow>
     (int \<times> rds_rndzv_seg list \<times> src_reg list \<times> rds_ep) option" where
  "rndzv_reg_loop os cached dest [] segs regs ep = Some (0, segs, regs, ep)"
| "rndzv_reg_loop os cached dest (ch # chs) segs regs ep =
     (case rndzv_register os cached dest ch ep of
        None \<Rightarrow> None
      | Some (Inl ret, ep1) \<Rightarrow> Some (ret, segs, regs, ep1)
      | Some (Inr (cookie, r), ep1) \<Rightarrow>
          rndzv_reg_loop os cached dest chs
            (segs @ [\<lparr>seg_cookie = cookie, seg_off = 0, seg_len = of_nat (iov_len ch)\<rparr>]) (regs @ [r]) ep1)"

fun unregister :: "os \<Rightarrow> src_reg list \<Rightarrow> rds_ep \<Rightarrow> rds_ep" where
  "unregister os [] ep = ep"
| "unregister os (RegMr mr # rs) ep = unregister os rs (ep\<lparr>hist := rds_mr_put (Some mr) (hist ep)\<rparr>)"
| "unregister os (RegCached i # rs) ep = unregister os rs (rds_reg_cache_put os i ep)"

definition reg_mrs :: "src_reg list \<Rightarrow> rds_mr list" where
  "reg_mrs rs = concat (map (\<lambda>r. case r of RegMr mr \<Rightarrow> [mr] | RegCached i \<Rightarrow> []) rs)"

definition reg_cmrs :: "src_reg list \<Rightarrow> nat list" where
  "reg_cmrs rs = concat (map (\<lambda>r. case r of RegMr mr \<Rightarrow> [] | RegCached i \<Rightarrow> [i]) rs)"

definition rts_hdr :: "nat \<Rightarrow> nat \<Rightarrow> u64 \<Rightarrow> u64 \<Rightarrow> u64 \<Rightarrow> bool \<Rightarrow> u64 \<Rightarrow> rds_hdr" where
  "rts_hdr nseg tlen tag data flags tagged i =
     hdr_zero\<lparr>hdr_magic := RDS_HDR_MAGIC, hdr_op := RDS_OP_RTS, hdr_flags := send_flags tagged flags,
       hdr_seg_cnt := of_nat nseg, hdr_tag := tag, hdr_data := data, hdr_size := of_nat tlen, hdr_id := i\<rparr>"

text \<open>Shipping the request once everything is registered: over the ring, else as a datagram.\<close>

definition rndzv_ship ::
  "os \<Rightarrow> nat \<Rightarrow> byte list \<Rightarrow> sock_ip \<Rightarrow> fi_addr \<Rightarrow> src_reg list \<Rightarrow> nat \<Rightarrow> rds_ep \<Rightarrow> int \<times> rds_ep" where
  "rndzv_ship os k bytes dest dest_addr regs nseg ep =
     (let (ret, ep1) = (if eager_rdma ep
            then rds_ring_send os (sizeof_rds_hdr + nseg * sizeof_rds_rndzv_seg) (\<lambda>_. bytes) dest_addr 0 0 0 0
                   False False RDS_OP_RTS ep
            else (- FI_ENOSYS, ep))
      in if ret \<noteq> - FI_ENOSYS
         then if ret < 0 then (ret, unregister os regs (pending_remove k ep1))
              else (0, ep1\<lparr>rndzv_tx_inflight := rndzv_tx_inflight ep1 + 1\<rparr>)
         else (case sys_send os dest bytes (hist ep1) of
           (errno, h) \<Rightarrow>
             let ep2 = ep1\<lparr>hist := h\<rparr>
             in if errno \<noteq> 0 then (sock_ret errno, unregister os regs (pending_remove k ep2))
                else (0, ep2\<lparr>rndzv_tx_inflight := rndzv_tx_inflight ep2 + 1\<rparr>)))"

definition rds_send_rndzv ::
  "os \<Rightarrow> iovec list \<Rightarrow> sock_ip \<Rightarrow> u64 \<Rightarrow> u64 \<Rightarrow> nat \<Rightarrow> u64 \<Rightarrow> bool \<Rightarrow> bool \<Rightarrow> fi_addr \<Rightarrow> rds_ep \<Rightarrow>
     (int \<times> rds_ep) option" where
  "rds_send_rndzv os vs dest tag data context flags tagged gen_comp dest_addr ep =
     (if unat (rndzv_tx_inflight ep) \<ge> rds_rndzv_max_inflight (cfg ep) then Some (- FI_EAGAIN, ep)
      else let cached = cache_enabled ep;
               tlen = ofi_total_iov_len vs;
               nseg = seg_count vs
           in if nseg * sizeof_rds_rndzv_seg > RDS_MAX_EAGER_SIZE then Some (- FI_EMSGSIZE, ep)
              else (case ep_alloc os (ObjMrArray nseg) ep of
                (a1, ep1) \<Rightarrow>
                  (case ep_alloc os (ObjSegs nseg) ep1 of
                    (a2, ep2) \<Rightarrow>
                      if a1 = None \<or> a2 = None then Some (- FI_ENOMEM, ep2)
                      else (case rndzv_reg_loop os cached dest (src_chunks vs) [] [] ep2 of
                        None \<Rightarrow> None
                      | Some (err, segs, regs, ep3) \<Rightarrow>
                          if err \<noteq> 0 then Some (err, unregister os regs ep3)
                          else (case rds_pending_alloc os RDS_PEND_RNDZV_TX context (send_comp_flags tagged) ep3 of
                            (None, ep4) \<Rightarrow> Some (- FI_ENOMEM, unregister os regs ep4)
                          | (Some (k, p), ep4) \<Rightarrow>
                              let p1 = p\<lparr>p_len := tlen,
                                         p_mrs := (if cached then None else Some (reg_mrs regs)),
                                         p_cmrs := (if cached then Some (reg_cmrs regs) else None),
                                         p_mr_cnt := of_nat nseg, p_no_comp := \<not> gen_comp\<rparr>;
                                  bytes = enc_hdr (rts_hdr nseg tlen tag data flags tagged (p_id p)) @ enc_segs segs
                              in Some (rndzv_ship os k bytes dest dest_addr regs nseg (pending_put k p1 ep4)))))))"

section \<open>Generic send and inject\<close>

definition rds_generic_send ::
  "os \<Rightarrow> iovec list \<Rightarrow> fi_addr \<Rightarrow> u64 \<Rightarrow> u64 \<Rightarrow> nat \<Rightarrow> u64 \<Rightarrow> bool \<Rightarrow> rds_ep \<Rightarrow> (int \<times> rds_ep) option" where
  "rds_generic_send os vs dest_addr tag data context flags tagged ep =
     (let tlen = ofi_total_iov_len vs
      in if length vs > RDS_IOV_LIMIT then Some (- FI_EINVAL, ep)
         else if tlen > RDS_MAX_MSG_SIZE then Some (- FI_EMSGSIZE, ep)
         else (case rds_av_addr ep dest_addr of
           None \<Rightarrow> Some (- FI_EINVAL, ep)
         | Some dest \<Rightarrow>
             let gen_comp = has_flag (tx_op_flags ep OR flags) FI_COMPLETION;
                 (ret, ep1) = (if eager_rdma ep \<and> tlen \<le> unat (ring_payload ep)
                   then rds_ring_send os tlen (iov_payload vs tlen) dest_addr tag data context flags tagged
                          gen_comp RDS_OP_EAGER ep
                   else (- FI_ENOSYS, ep))
             in if ret \<noteq> - FI_ENOSYS then Some (ret, ep1)
                else if tlen \<le> (if eager_rdma ep1 then unat (ring_payload ep1) else rds_eager_size (cfg ep1))
                then Some (rds_send_eager os vs dest tag data context flags tagged gen_comp ep1)
                else rds_send_rndzv os vs dest tag data context flags tagged gen_comp dest_addr ep1))"

definition rds_generic_inject ::
  "os \<Rightarrow> addr \<Rightarrow> nat \<Rightarrow> fi_addr \<Rightarrow> u64 \<Rightarrow> bool \<Rightarrow> rds_ep \<Rightarrow> int \<times> rds_ep" where
  "rds_generic_inject os buf len dest_addr tag tagged ep =
     (if len > rds_eager_size (cfg ep) then (- FI_EMSGSIZE, ep)
      else (case rds_av_addr ep dest_addr of
        None \<Rightarrow> (- FI_EINVAL, ep)
      | Some dest \<Rightarrow>
          let vs = [iov buf len];
              (ret, ep1) = (if eager_rdma ep \<and> len \<le> unat (ring_payload ep)
                then rds_ring_send os (ofi_total_iov_len vs) (iov_payload vs (ofi_total_iov_len vs)) dest_addr tag 0 0 0
                       tagged False RDS_OP_EAGER ep
                else (- FI_ENOSYS, ep))
          in if ret \<noteq> - FI_ENOSYS then (ret, ep1)
             else rds_send_eager os vs dest tag 0 0 0 tagged False ep1))"

section \<open>The operation tables\<close>

record fi_msg =
  msg_iov :: "iovec list"
  msg_addr :: fi_addr
  msg_tag :: u64
  msg_ignore :: u64
  msg_context :: nat
  msg_data :: u64

definition rds_recv :: "os \<Rightarrow> addr \<Rightarrow> nat \<Rightarrow> fi_addr \<Rightarrow> nat \<Rightarrow> rds_ep \<Rightarrow> int \<times> rds_ep" where
  "rds_recv os buf len src context = rds_post_recv os [iov buf len] src 0 0 context 0 False"

definition rds_recvv :: "os \<Rightarrow> iovec list \<Rightarrow> fi_addr \<Rightarrow> nat \<Rightarrow> rds_ep \<Rightarrow> int \<times> rds_ep" where
  "rds_recvv os vs src context = rds_post_recv os vs src 0 0 context 0 False"

definition rds_recvmsg :: "os \<Rightarrow> fi_msg \<Rightarrow> u64 \<Rightarrow> rds_ep \<Rightarrow> int \<times> rds_ep" where
  "rds_recvmsg os msg flags = rds_post_recv os (msg_iov msg) (msg_addr msg) 0 0 (msg_context msg) flags False"

definition rds_send :: "os \<Rightarrow> addr \<Rightarrow> nat \<Rightarrow> fi_addr \<Rightarrow> nat \<Rightarrow> rds_ep \<Rightarrow> (int \<times> rds_ep) option" where
  "rds_send os buf len dest context = rds_generic_send os [iov buf len] dest 0 0 context 0 False"

definition rds_sendv :: "os \<Rightarrow> iovec list \<Rightarrow> fi_addr \<Rightarrow> nat \<Rightarrow> rds_ep \<Rightarrow> (int \<times> rds_ep) option" where
  "rds_sendv os vs dest context = rds_generic_send os vs dest 0 0 context 0 False"

definition rds_sendmsg :: "os \<Rightarrow> fi_msg \<Rightarrow> u64 \<Rightarrow> rds_ep \<Rightarrow> (int \<times> rds_ep) option" where
  "rds_sendmsg os msg flags =
     rds_generic_send os (msg_iov msg) (msg_addr msg) 0 (msg_data msg) (msg_context msg) flags False"

definition rds_inject :: "os \<Rightarrow> addr \<Rightarrow> nat \<Rightarrow> fi_addr \<Rightarrow> rds_ep \<Rightarrow> int \<times> rds_ep" where
  "rds_inject os buf len dest = rds_generic_inject os buf len dest 0 False"

definition rds_senddata :: "os \<Rightarrow> addr \<Rightarrow> nat \<Rightarrow> u64 \<Rightarrow> fi_addr \<Rightarrow> nat \<Rightarrow> rds_ep \<Rightarrow> (int \<times> rds_ep) option" where
  "rds_senddata os buf len data dest context =
     rds_generic_send os [iov buf len] dest 0 data context FI_REMOTE_CQ_DATA False"

definition rds_trecv :: "os \<Rightarrow> addr \<Rightarrow> nat \<Rightarrow> fi_addr \<Rightarrow> u64 \<Rightarrow> u64 \<Rightarrow> nat \<Rightarrow> rds_ep \<Rightarrow> int \<times> rds_ep" where
  "rds_trecv os buf len src tag ignore context = rds_post_recv os [iov buf len] src tag ignore context 0 True"

definition rds_trecvv :: "os \<Rightarrow> iovec list \<Rightarrow> fi_addr \<Rightarrow> u64 \<Rightarrow> u64 \<Rightarrow> nat \<Rightarrow> rds_ep \<Rightarrow> int \<times> rds_ep" where
  "rds_trecvv os vs src tag ignore context = rds_post_recv os vs src tag ignore context 0 True"

definition rds_trecvmsg :: "os \<Rightarrow> fi_msg \<Rightarrow> u64 \<Rightarrow> rds_ep \<Rightarrow> int \<times> rds_ep" where
  "rds_trecvmsg os msg flags =
     rds_post_recv os (msg_iov msg) (msg_addr msg) (msg_tag msg) (msg_ignore msg) (msg_context msg) flags True"

definition rds_tsend :: "os \<Rightarrow> addr \<Rightarrow> nat \<Rightarrow> fi_addr \<Rightarrow> u64 \<Rightarrow> nat \<Rightarrow> rds_ep \<Rightarrow> (int \<times> rds_ep) option" where
  "rds_tsend os buf len dest tag context = rds_generic_send os [iov buf len] dest tag 0 context 0 True"

definition rds_tsendv :: "os \<Rightarrow> iovec list \<Rightarrow> fi_addr \<Rightarrow> u64 \<Rightarrow> nat \<Rightarrow> rds_ep \<Rightarrow> (int \<times> rds_ep) option" where
  "rds_tsendv os vs dest tag context = rds_generic_send os vs dest tag 0 context 0 True"

definition rds_tsendmsg :: "os \<Rightarrow> fi_msg \<Rightarrow> u64 \<Rightarrow> rds_ep \<Rightarrow> (int \<times> rds_ep) option" where
  "rds_tsendmsg os msg flags =
     rds_generic_send os (msg_iov msg) (msg_addr msg) (msg_tag msg) (msg_data msg) (msg_context msg) flags True"

definition rds_tinject :: "os \<Rightarrow> addr \<Rightarrow> nat \<Rightarrow> fi_addr \<Rightarrow> u64 \<Rightarrow> rds_ep \<Rightarrow> int \<times> rds_ep" where
  "rds_tinject os buf len dest tag = rds_generic_inject os buf len dest tag True"

definition rds_tsenddata ::
  "os \<Rightarrow> addr \<Rightarrow> nat \<Rightarrow> u64 \<Rightarrow> fi_addr \<Rightarrow> u64 \<Rightarrow> nat \<Rightarrow> rds_ep \<Rightarrow> (int \<times> rds_ep) option" where
  "rds_tsenddata os buf len data dest tag context =
     rds_generic_send os [iov buf len] dest tag data context FI_REMOTE_CQ_DATA True"

end
