(* ===== verification/Rds_Rma.thy ===== *)
theory Rds_Rma
  imports Rds_Msg
begin

text \<open>
  One-sided operations (\<^verbatim>\<open>rds_rma.c\<close>).  A transfer is cut into RDMA requests of at most one
  kernel segment, all under one pending operation, which completes when the last of their
  notifications arrives.
\<close>

section \<open>Definitions\<close>

text \<open>The issuing loop: the error that stopped it (0 for none) and the operation's record.\<close>

function rma_loop ::
  "os \<Rightarrow> iovec list \<Rightarrow> sock_ip \<Rightarrow> u64 \<Rightarrow> u64 \<Rightarrow> bool \<Rightarrow> nat \<Rightarrow> nat \<Rightarrow> rds_pending \<Rightarrow> rds_ep \<Rightarrow>
     int \<times> rds_pending \<times> rds_ep" where
  "rma_loop os vs dest key remote_off is_write tlen off p ep =
     (if off < tlen
      then (case rds_iov_slice vs off (min (tlen - off) RDS_KERNEL_SEG_MAX) of
        (liov, got) \<Rightarrow>
          if got = 0 then (- FI_EINVAL, p, ep)
          else (case rds_post_rdma os dest key (remote_off + of_nat off) liov is_write True (p_id p) ep of
            (ret, ep1) \<Rightarrow>
              if ret \<noteq> 0 then (ret, p, ep1)
              else rma_loop os vs dest key remote_off is_write tlen (off + got)
                     (p\<lparr>p_seg_remaining := p_seg_remaining p + 1\<rparr>) ep1))
      else (0, p, ep))"
  by pat_completeness auto
termination
  by (relation "measure (\<lambda>(os, vs, dest, key, ro, w, tlen, off, p, ep). tlen - off)") auto

declare rma_loop.simps [simp del]

definition rds_rma_common ::
  "os \<Rightarrow> iovec list \<Rightarrow> fi_addr \<Rightarrow> u64 \<Rightarrow> u64 \<Rightarrow> bool \<Rightarrow> nat \<Rightarrow> u64 \<Rightarrow> rds_ep \<Rightarrow> int \<times> rds_ep" where
  "rds_rma_common os vs remote_fi remote_off key is_write context flags ep =
     (let tlen = rds_iov_len vs
      in if tlen > RDS_MAX_MSG_SIZE then (- FI_EMSGSIZE, ep)
         else (case rds_av_addr ep remote_fi of
           None \<Rightarrow> (- FI_EINVAL, ep)
         | Some dest \<Rightarrow>
             (case rds_pending_alloc os RDS_PEND_RMA context (FI_RMA OR (if is_write then FI_WRITE else FI_READ)) ep of
                (None, ep1) \<Rightarrow> (- FI_ENOMEM, ep1)
              | (Some (k, p), ep1) \<Rightarrow>
                  let p1 = p\<lparr>p_len := tlen, p_addr := remote_fi,
                             p_no_comp := \<not> has_flag (tx_op_flags ep OR flags) FI_COMPLETION\<rparr>
                  in (case rma_loop os vs dest key remote_off is_write tlen 0 p1 ep1 of
                    (ret, p2, ep2) \<Rightarrow>
                      if p_seg_remaining p2 = 0 then (ret, pending_remove k ep2)
                      else (0, pending_put k (if ret \<noteq> 0 then p2\<lparr>p_error := - ret\<rparr> else p2) ep2)))))"

record fi_msg_rma =
  rma_msg_iov :: "iovec list"
  rma_addr :: fi_addr
  rma_iov :: "(u64 \<times> nat \<times> u64) list"
  rma_context :: nat

definition rds_write :: "os \<Rightarrow> addr \<Rightarrow> nat \<Rightarrow> fi_addr \<Rightarrow> u64 \<Rightarrow> u64 \<Rightarrow> nat \<Rightarrow> rds_ep \<Rightarrow> int \<times> rds_ep" where
  "rds_write os buf len dest a key context = rds_rma_common os [iov buf len] dest a key True context 0"

definition rds_writev :: "os \<Rightarrow> iovec list \<Rightarrow> fi_addr \<Rightarrow> u64 \<Rightarrow> u64 \<Rightarrow> nat \<Rightarrow> rds_ep \<Rightarrow> int \<times> rds_ep" where
  "rds_writev os vs dest a key context = rds_rma_common os vs dest a key True context 0"

definition rds_writemsg :: "os \<Rightarrow> fi_msg_rma \<Rightarrow> u64 \<Rightarrow> rds_ep \<Rightarrow> int \<times> rds_ep" where
  "rds_writemsg os msg flags ep =
     (case rma_iov msg of
        [(a, _, key)] \<Rightarrow>
          rds_rma_common os (rma_msg_iov msg) (rma_addr msg) a key True (rma_context msg) flags ep
      | _ \<Rightarrow> (- FI_EINVAL, ep))"

definition rds_read :: "os \<Rightarrow> addr \<Rightarrow> nat \<Rightarrow> fi_addr \<Rightarrow> u64 \<Rightarrow> u64 \<Rightarrow> nat \<Rightarrow> rds_ep \<Rightarrow> int \<times> rds_ep" where
  "rds_read os buf len src a key context = rds_rma_common os [iov buf len] src a key False context 0"

definition rds_readv :: "os \<Rightarrow> iovec list \<Rightarrow> fi_addr \<Rightarrow> u64 \<Rightarrow> u64 \<Rightarrow> nat \<Rightarrow> rds_ep \<Rightarrow> int \<times> rds_ep" where
  "rds_readv os vs src a key context = rds_rma_common os vs src a key False context 0"

definition rds_readmsg :: "os \<Rightarrow> fi_msg_rma \<Rightarrow> u64 \<Rightarrow> rds_ep \<Rightarrow> int \<times> rds_ep" where
  "rds_readmsg os msg flags ep =
     (case rma_iov msg of
        [(a, _, key)] \<Rightarrow>
          rds_rma_common os (rma_msg_iov msg) (rma_addr msg) a key False (rma_context msg) flags ep
      | _ \<Rightarrow> (- FI_EINVAL, ep))"

definition rds_inject_write :: "os \<Rightarrow> addr \<Rightarrow> nat \<Rightarrow> fi_addr \<Rightarrow> u64 \<Rightarrow> u64 \<Rightarrow> rds_ep \<Rightarrow> int \<times> rds_ep" where
  "rds_inject_write os buf len dest_addr a key ep =
     (if len > rds_eager_size (cfg ep) then (- FI_EMSGSIZE, ep)
      else (case ep_alloc os (ObjBounce len) ep of
        (None, ep1) \<Rightarrow> (- FI_ENOMEM, ep1)
      | (Some bounce, ep1) \<Rightarrow>
          let ep2 = ep1\<lparr>mem := mem_write (mem ep1) bounce (mem_read (mem ep1) buf len)\<rparr>
          in (case rds_av_addr ep2 dest_addr of
            None \<Rightarrow> (- FI_EINVAL, ep2)
          | Some dest \<Rightarrow>
              (case rds_pending_alloc os RDS_PEND_RMA 0 (FI_RMA OR FI_WRITE) ep2 of
                 (None, ep3) \<Rightarrow> (- FI_ENOMEM, ep3)
               | (Some (k, p), ep3) \<Rightarrow>
                   let p1 = p\<lparr>p_no_comp := True, p_bounce := Some bounce, p_seg_remaining := 1\<rparr>
                   in (case rds_post_rdma os dest key a [iov bounce len] True True (p_id p)
                             (pending_put k p1 ep3) of
                     (ret, ep4) \<Rightarrow> if ret \<noteq> 0 then (ret, pending_remove k ep4) else (0, ep4))))))"

end
