(* ===== verification/Rds_Ep.thy ===== *)
theory Rds_Ep
  imports Rds_Progress Rds_Send Rds_Rma
begin

text \<open>
  The endpoint object (\<^verbatim>\<open>rds_ep.c\<close>): enabling it, cancelling a receive, tearing it down and
  creating it, and the provider's tunables (\<^verbatim>\<open>rds_init.c\<close>).
\<close>

section \<open>Tunables\<close>

definition rds_config_default :: rds_config where
  "rds_config_default = \<lparr>rds_eager_size = RDS_DEF_EAGER_SIZE, rds_eager_rdma = False,
     rds_ring_slots = RDS_DEF_RING_SLOTS, rds_ring_slot_size = RDS_DEF_RING_SLOT_SIZE,
     rds_ring_max_peers = RDS_DEF_RING_MAX_PEERS, rds_mr_cache_enable = True,
     rds_rndzv_max_inflight = 256, rds_sndbuf = 0, rds_rcvbuf = 0\<rparr>"

text \<open>A negative \<^verbatim>\<open>int\<close> becomes a huge \<^verbatim>\<open>size_t\<close>.\<close>

definition size_of_int :: "int \<Rightarrow> nat" where
  "size_of_int v = nat (v mod int size_max)"

definition rds_pow2 :: "nat \<Rightarrow> bool" where
  "rds_pow2 v \<longleftrightarrow> v \<noteq> 0 \<and> (of_nat v :: u64) AND (of_nat v - 1) = 0"

text \<open>The parameters the user set, each absent when unset.\<close>

record rds_params =
  par_eager_size :: "int option"
  par_eager_rdma :: "bool option"
  par_ring_slots :: "int option"
  par_ring_slot_size :: "int option"
  par_ring_max_peers :: "int option"
  par_mr_cache :: "bool option"
  par_rndzv_inflight :: "int option"
  par_sndbuf :: "int option"
  par_rcvbuf :: "int option"

definition rds_ini :: "rds_params \<Rightarrow> rds_config" where
  "rds_ini par =
     (let d = rds_config_default
      in \<lparr>rds_eager_size = (case par_eager_size par of None \<Rightarrow> rds_eager_size d
            | Some v \<Rightarrow> nat (if v < 0 then 0 else if v > int RDS_MAX_EAGER_SIZE then int RDS_MAX_EAGER_SIZE else v)),
          rds_eager_rdma = (case par_eager_rdma par of None \<Rightarrow> rds_eager_rdma d | Some b \<Rightarrow> b),
          rds_ring_slots = (case par_ring_slots par of None \<Rightarrow> rds_ring_slots d
            | Some v \<Rightarrow> if rds_pow2 (size_of_int v) then size_of_int v else rds_ring_slots d),
          rds_ring_slot_size = (case par_ring_slot_size par of None \<Rightarrow> rds_ring_slot_size d
            | Some v \<Rightarrow> if v \<ge> int (RDS_RING_HDR_SIZE + RDS_RING_GEN_SIZE + 8) then size_of_int v
                       else rds_ring_slot_size d),
          rds_ring_max_peers = (case par_ring_max_peers par of None \<Rightarrow> rds_ring_max_peers d
            | Some v \<Rightarrow> if v > 0 then size_of_int v else rds_ring_max_peers d),
          rds_mr_cache_enable = (case par_mr_cache par of None \<Rightarrow> rds_mr_cache_enable d | Some b \<Rightarrow> b),
          rds_rndzv_max_inflight = (case par_rndzv_inflight par of None \<Rightarrow> rds_rndzv_max_inflight d
            | Some v \<Rightarrow> if v > 0 then size_of_int v else rds_rndzv_max_inflight d),
          rds_sndbuf = (case par_sndbuf par of None \<Rightarrow> rds_sndbuf d | Some v \<Rightarrow> if v > 0 then size_of_int v else rds_sndbuf d),
          rds_rcvbuf = (case par_rcvbuf par of None \<Rightarrow> rds_rcvbuf d | Some v \<Rightarrow> if v > 0 then size_of_int v else rds_rcvbuf d)\<rparr>)"

section \<open>Endpoint operations\<close>

definition rds_setname :: "nat \<Rightarrow> rds_ep \<Rightarrow> int \<times> rds_ep" where
  "rds_setname bind_errno ep = (if bind_errno \<noteq> 0 then (- int bind_errno, ep) else (0, ep\<lparr>is_bound := True\<rparr>))"

definition rds_ep_getopt :: int where
  "rds_ep_getopt = - FI_ENOPROTOOPT"

definition rds_ep_setopt :: int where
  "rds_ep_setopt = 0"

definition cancel_entry :: "nat \<Rightarrow> rds_rx_entry \<Rightarrow> rds_ep \<Rightarrow> rds_ep" where
  "cancel_entry context rx ep =
     (if rx_cq ep
      then cq_push (RxComp \<lparr>cq_context = context,
             cq_flags = FI_RECV OR (if has_flag (rx_flags rx) FI_TAGGED then FI_TAGGED else FI_MSG),
             cq_len = 0, cq_data = 0, cq_tag = rx_tag rx, cq_src = None, cq_err = FI_ECANCELED\<rparr>) ep
      else ep)"

definition rds_ep_cancel :: "nat \<Rightarrow> rds_ep \<Rightarrow> int \<times> rds_ep" where
  "rds_ep_cancel context ep =
     (case take_first (\<lambda>rx. rx_context rx = context) (rx_posted_msg ep) of
        Some (rx, rest) \<Rightarrow> (0, cancel_entry context rx (ep\<lparr>rx_posted_msg := rest\<rparr>))
      | None \<Rightarrow>
          (case take_first (\<lambda>rx. rx_context rx = context) (rx_posted_tag ep) of
             Some (rx, rest) \<Rightarrow> (0, cancel_entry context rx (ep\<lparr>rx_posted_tag := rest\<rparr>))
           | None \<Rightarrow> (- FI_ENOENT, ep)))"

text \<open>\<^verbatim>\<open>FI_ENABLE\<close>, with the capability tests of \<^verbatim>\<open>src/common.c\<close>.\<close>

abbreviation (input) FI_ATOMICS :: u64 where "FI_ATOMICS \<equiv> 0x10"

definition ofi_send_allowed :: "u64 \<Rightarrow> bool" where
  "ofi_send_allowed caps =
     (if has_flag caps FI_MSG \<or> has_flag caps FI_TAGGED
      then if has_flag caps FI_SEND then True else if has_flag caps FI_RECV then False else True
      else False)"

definition ofi_recv_allowed :: "u64 \<Rightarrow> bool" where
  "ofi_recv_allowed caps =
     (if has_flag caps FI_MSG \<or> has_flag caps FI_TAGGED
      then if has_flag caps FI_RECV then True else if has_flag caps FI_SEND then False else True
      else False)"

definition ofi_rma_initiate_allowed :: "u64 \<Rightarrow> bool" where
  "ofi_rma_initiate_allowed caps =
     (if has_flag caps FI_RMA \<or> has_flag caps FI_ATOMICS
      then if has_flag caps FI_WRITE \<or> has_flag caps FI_READ then True
           else if has_flag caps FI_REMOTE_WRITE \<or> has_flag caps FI_REMOTE_READ then False else True
      else False)"

definition ofi_needs_tx :: "u64 \<Rightarrow> bool" where
  "ofi_needs_tx caps \<longleftrightarrow> ofi_send_allowed caps \<or> ofi_rma_initiate_allowed caps"

definition ofi_needs_rx :: "u64 \<Rightarrow> bool" where
  "ofi_needs_rx caps = ofi_recv_allowed caps"

definition rds_ep_ctrl :: "bool \<Rightarrow> rds_ep \<Rightarrow> int \<times> rds_ep" where
  "rds_ep_ctrl enable ep =
     (if \<not> enable then (- FI_ENOSYS, ep)
      else if (ofi_needs_rx (ep_caps ep) \<and> \<not> rx_cq ep) \<or> (ofi_needs_tx (ep_caps ep) \<and> \<not> tx_cq ep)
      then (- FI_ENOCQ, ep)
      else if ep_av ep = None then (- FI_ENOAV, ep)
      else if \<not> is_bound ep then (- FI_EOPBADSTATE, ep)
      else (0, if reg_ep ep = None then ep\<lparr>reg_ep := Some (ep_sock ep)\<rparr> else ep))"

fun release_all :: "os \<Rightarrow> rds_pending list \<Rightarrow> rds_ep \<Rightarrow> rds_ep" where
  "release_all os [] ep = ep"
| "release_all os (p # ps) ep = release_all os ps (rds_pending_release_mrs os p ep)"

definition rds_ep_flush_lists :: "os \<Rightarrow> rds_ep \<Rightarrow> rds_ep" where
  "rds_ep_flush_lists os ep =
     release_all os (pending ep)
       (ep\<lparr>rx_posted_msg := [], rx_posted_tag := [], rx_unexp_msg := [], rx_unexp_tag := [], pending := []\<rparr>)"

text \<open>
  Closing: the domain forgets the socket, then rings, parked operations, lists and
  registrations go; the endpoint's socket is closed last.
\<close>

definition rds_ep_close :: "os \<Rightarrow> int \<Rightarrow> rds_ep \<Rightarrow> int \<times> rds_ep" where
  "rds_ep_close os ref ep =
     (if ref \<noteq> 0 then (- FI_EBUSY, ep)
      else let ep1 = (if reg_ep ep = Some (ep_sock ep) then ep\<lparr>reg_ep := None\<rparr> else ep)
           in (0, (rds_ep_flush_lists os (rds_ep_flush_deferred (rds_ep_ring_cleanup ep1)))\<lparr>ep_sock := - 1\<rparr>))"

abbreviation (input) RDS_RTS_MAX_PAYLOAD :: nat where
  "RDS_RTS_MAX_PAYLOAD \<equiv> (RDS_MAX_MSG_SIZE div RDS_KERNEL_SEG_MAX + 1) * sizeof_rds_rndzv_seg"

definition rx_buf_bytes :: "rds_config \<Rightarrow> nat" where
  "rx_buf_bytes c =
     sizeof_rds_hdr + (if rds_eager_size c > RDS_RTS_MAX_PAYLOAD then rds_eager_size c else RDS_RTS_MAX_PAYLOAD)"

text \<open>
  The system calls of the endpoint's creation: the socket or its error, then the results of
  forcing the transport, binding (when a source address is given) and making it non-blocking.
  The two optional buffer-size options are best effort and change nothing here.
\<close>

record sock_env =
  so_socket :: "nat + int"
  so_transport :: nat
  so_bind :: nat
  so_nonblock :: int

definition rds_ep_init_socket :: "sock_env \<Rightarrow> bool \<Rightarrow> rds_ep \<Rightarrow> int \<times> rds_ep" where
  "rds_ep_init_socket so has_src ep =
     (case so_socket so of
        Inl errno \<Rightarrow> (- int errno, ep\<lparr>ep_sock := - 1\<rparr>)
      | Inr fd \<Rightarrow>
          if so_transport so \<noteq> 0 then (- int (so_transport so), ep\<lparr>ep_sock := - 1\<rparr>)
          else (case (if has_src then rds_setname (so_bind so) (ep\<lparr>ep_sock := fd\<rparr>) else (0, ep\<lparr>ep_sock := fd\<rparr>)) of
            (ret, ep1) \<Rightarrow>
              if ret \<noteq> 0 then (ret, ep1\<lparr>ep_sock := - 1\<rparr>)
              else if so_nonblock so \<noteq> 0 then (so_nonblock so, ep1\<lparr>ep_sock := - 1\<rparr>)
              else (0, ep1)))"

text \<open>
  Creating an endpoint over a domain: \<open>d0\<close> carries what exists before (history, memory, the
  domain's cache and registering socket, the tunables, the completion and address-vector
  bindings the utility layer sets up) and \<open>util_ret\<close> is the utility layer's result.
\<close>

definition rds_endpoint :: "os \<Rightarrow> sock_env \<Rightarrow> bool \<Rightarrow> int \<Rightarrow> rds_ep \<Rightarrow> int \<times> rds_ep" where
  "rds_endpoint os so has_src util_ret d0 =
     (case ep_alloc os ObjEp d0 of
        (None, d1) \<Rightarrow> (- FI_ENOMEM, d1)
      | (Some _, d1) \<Rightarrow>
          let ep = rds_ep_ring_init (d1\<lparr>ep_sock := - 1, is_bound := False, rx_posted_msg := [], rx_posted_tag := [],
                     rx_unexp_msg := [], rx_unexp_tag := [], pending := [], deferred := [],
                     rndzv_tx_inflight := 0, op_id := 0, cq_log := []\<rparr>)
          in if util_ret \<noteq> 0 then (util_ret, ep)
             else let sz = rx_buf_bytes (cfg ep)
                  in (case ep_alloc os (ObjRxBuf sz) ep of
                    (None, ep1) \<Rightarrow> (- FI_ENOMEM, ep1)
                  | (Some _, ep1) \<Rightarrow>
                      (case ep_alloc os ObjCmsgBuf (ep1\<lparr>rx_buf_size := sz\<rparr>) of
                         (None, ep2) \<Rightarrow> (- FI_ENOMEM, ep2)
                       | (Some _, ep2) \<Rightarrow> rds_ep_init_socket so has_src ep2)))"

end
