(* ===== verification/Rds_Account.thy ===== *)
theory Rds_Account
  imports Rds_Ep
begin

text \<open>
  The accounting that makes the provider free of hangs: every pending operation is waiting for
  something that will happen.  A receive waits for notifications the kernel owes or for reads
  that are parked and will be retried, a one-sided operation waits for notifications, a
  rendezvous send waits for its FIN and holds one unit of the flow-control budget.  The
  invariant relates the pending list, the parked queue, the budget counter and the kernel's
  history, and every operation of the endpoint keeps it.
\<close>

section \<open>What the history owes\<close>

text \<open>Requests the kernel accepted with a notification due, and notifications received, by token.\<close>

fun posted :: "hist \<Rightarrow> u64 \<Rightarrow> nat" where
  "posted [] t = 0"
| "posted (SysRdma d ra e # h) t =
     posted h t + (if e = 0 \<and> has_flag (ra_flags ra) RDS_RDMA_NOTIFY_ME \<and> ra_user_token ra = t then 1 else 0)"
| "posted (_ # h) t = posted h t"

definition notify_cnt_of :: "rdma_notify list \<Rightarrow> u64 \<Rightarrow> nat" where
  "notify_cnt_of ns t = length (filter (\<lambda>n. nt_user_token n = t) ns)"

fun notified :: "hist \<Rightarrow> u64 \<Rightarrow> nat" where
  "notified [] t = 0"
| "notified (SysRecv (Inr rm) # h) t = notified h t + notify_cnt_of (rm_notifies rm) t"
| "notified (_ # h) t = notified h t"

definition tally :: "hist \<Rightarrow> (u64 \<Rightarrow> nat) \<times> (u64 \<Rightarrow> nat)" where
  "tally h = (posted h, notified h)"

text \<open>The part of the endpoint the accounting is about.\<close>

definition acct ::
  "rds_ep \<Rightarrow> rds_pending list \<times> rds_deferred list \<times> u32 \<times> u64 \<times> ((u64 \<Rightarrow> nat) \<times> (u64 \<Rightarrow> nat)) \<times> nat" where
  "acct ep = (pending ep, deferred ep, rndzv_tx_inflight ep, op_id ep, tally (hist ep),
     rds_rndzv_max_inflight (cfg ep))"

definition parked :: "rds_deferred list \<Rightarrow> u64 \<Rightarrow> nat" where
  "parked ds t = length (filter (\<lambda>d. d_type d = RDS_DEFERRED_READ \<and> d_id d = t) ds)"

definition is_tx :: "rds_pending \<Rightarrow> bool" where
  "is_tx p \<longleftrightarrow> p_type p = RDS_PEND_RNDZV_TX"

text \<open>
  What one pending operation waits for.  \<open>ack t\<close> is the number of notifications for token \<open>t\<close>
  the endpoint has dealt with.
\<close>

definition pend_ok :: "(u64 \<Rightarrow> nat) \<Rightarrow> (u64 \<Rightarrow> nat) \<Rightarrow> rds_deferred list \<Rightarrow> rds_pending \<Rightarrow> bool" where
  "pend_ok pst ack ds p \<longleftrightarrow>
     unat (p_seg_remaining p) + ack (p_id p) = pst (p_id p) \<and>
     unat (p_seg_deferred p) = parked ds (p_id p) \<and>
     (case p_type p of
        RDS_PEND_RNDZV_TX \<Rightarrow> p_seg_remaining p = 0 \<and> p_seg_deferred p = 0
      | RDS_PEND_RNDZV_RX \<Rightarrow>
          (p_seg_remaining p \<noteq> 0 \<or> p_seg_deferred p \<noteq> 0) \<and>
          unat (p_seg_remaining p) + unat (p_seg_deferred p) \<le> 65535
      | RDS_PEND_RMA \<Rightarrow> p_seg_remaining p \<noteq> 0 \<and> p_seg_deferred p = 0)"

definition ainv ::
  "(u64 \<Rightarrow> nat) \<Rightarrow> rds_pending list \<times> rds_deferred list \<times> u32 \<times> u64 \<times> ((u64 \<Rightarrow> nat) \<times> (u64 \<Rightarrow> nat)) \<times> nat \<Rightarrow> bool" where
  "ainv ack a =
     (case a of (ps, ds, infl, oid, (pst, ntf), cap) \<Rightarrow>
        distinct (map p_id ps) \<and>
        (\<forall>p \<in> set ps. p_id p \<noteq> 0 \<and> p_id p \<le> oid \<and> pend_ok pst ack ds p) \<and>
        (\<forall>d \<in> set ds. d_type d = RDS_DEFERRED_READ \<longrightarrow>
           (\<exists>p \<in> set ps. p_id p = d_id d \<and> p_type p = RDS_PEND_RNDZV_RX)) \<and>
        (\<forall>t. t \<notin> p_id ` set ps \<longrightarrow> pst t = ack t) \<and>
        unat infl = length (filter is_tx ps) \<and> length (filter is_tx ps) \<le> cap \<and> cap < 4294967296)"

definition acct_inv :: "(u64 \<Rightarrow> nat) \<Rightarrow> rds_ep \<Rightarrow> bool" where
  "acct_inv ack ep = ainv ack (acct ep)"

text \<open>Room for \<open>n\<close> more operation identifiers before the 64-bit counter wraps.\<close>

definition id_room :: "nat \<Rightarrow> rds_ep \<Rightarrow> bool" where
  "id_room n ep \<longleftrightarrow> unat (op_id ep) + n < 18446744073709551615"

section \<open>Operations that leave the accounting alone\<close>

lemma tally_simps [simp]:
  "tally (SysSend d bs e # h) = tally h"
  "tally (SysAlloc ob a # h) = tally h"
  "tally (SysGetMr s b n f de r # h) = tally h"
  "tally (SysFreeMr s c # h) = tally h"
  "tally (SysTime ti # h) = tally h"
  "tally (SysPool pd # h) = tally h"
  "tally (SysNode nb # h) = tally h"
  "tally (SysSubscribe v sr # h) = tally h"
  "tally (SysUnsubscribe v # h) = tally h"
  "tally (SysRecv (Inl re) # h) = tally h"
  by (auto simp: tally_def fun_eq_iff)

lemma tally_rdma:
  "tally (SysRdma d ra e # h) =
     (if e = 0 \<and> has_flag (ra_flags ra) RDS_RDMA_NOTIFY_ME
      then ((posted h)(ra_user_token ra := posted h (ra_user_token ra) + 1), notified h) else tally h)"
  by (auto simp: tally_def fun_eq_iff)

lemma has_notify_flag:
  "has_flag ((if w then RDS_RDMA_READWRITE else 0) OR (if n then RDS_RDMA_NOTIFY_ME else 0)) RDS_RDMA_NOTIFY_ME \<longleftrightarrow> n"
  by (auto simp: has_flag_def)

lemma tally_sys [simp]:
  "tally (snd (sys_send os d bs h)) = tally h"
  "tally (snd (sys_alloc os ob h)) = tally h"
  "tally (snd (sys_get_mr os s b n f de h)) = tally h"
  "tally (sys_free_mr s c h) = tally h"
  "tally (snd (sys_time os h)) = tally h"
  by (simp_all add: sys_send_def sys_alloc_def sys_get_mr_def sys_free_mr_def sys_time_def Let_def)

lemma tally_kernel_reg [simp]: "tally (snd (rds_kernel_reg os s b n acc de h)) = tally h"
  by (auto simp: rds_kernel_reg_def case_prod_beta sys_get_mr_def Let_def split: sum.splits)

lemma tally_kernel_free [simp]: "tally (rds_kernel_free s c h) = tally h"
  by (simp add: rds_kernel_free_def)

lemma tally_reg_internal [simp]: "tally (snd (rds_reg_internal os s b n acc de h)) = tally h"
proof -
  obtain r h1 where k: "rds_kernel_reg os s b n acc de h = (r, h1)" by fastforce
  moreover have "tally h1 = tally h" using tally_kernel_reg [of os s b n acc de h] k by simp
  ultimately show ?thesis
    by (auto simp: rds_reg_internal_def sys_alloc_def Let_def split: sum.splits option.splits prod.splits)
qed

lemma tally_mr_put [simp]: "tally (rds_mr_put mr h) = tally h"
  by (auto simp: rds_mr_put_def split: option.splits)

lemma tally_put_mrs [simp]: "tally (put_mrs mrs h) = tally h"
  by (induction mrs h rule: put_mrs.induct) auto

interpretation rds_cache: cache_observer "rds_cache_env os rsock dest" tally for os rsock dest
  by unfold_locales
    (auto simp: rds_cache_env_def Let_def rds_cache_add_region_def rds_cache_delete_region_def case_prod_beta
      split: option.splits sum.splits dest!: arg_cong [where f = snd])

text \<open>Updates of other fields, and the building blocks of the data path.\<close>

lemma acct_upd [simp]:
  "acct (ep\<lparr>mem := m\<rparr>) = acct ep"
  "acct (ep\<lparr>cq_log := l\<rparr>) = acct ep"
  "acct (ep\<lparr>rx_posted_msg := rs\<rparr>) = acct ep"
  "acct (ep\<lparr>rx_posted_tag := rs\<rparr>) = acct ep"
  "acct (ep\<lparr>rx_unexp_msg := us\<rparr>) = acct ep"
  "acct (ep\<lparr>rx_unexp_tag := us\<rparr>) = acct ep"
  "acct (ep\<lparr>peers := ps\<rparr>) = acct ep"
  "acct (ep\<lparr>peer_lru := as\<rparr>) = acct ep"
  "acct (ep\<lparr>dom_cache := c\<rparr>) = acct ep"
  by (simp_all add: acct_def)

lemma acct_hist: "tally h = tally (hist ep) \<Longrightarrow> acct (ep\<lparr>hist := h\<rparr>) = acct ep"
  by (simp add: acct_def)

lemma acct_cq [simp]:
  "acct (rds_cq_write_tx c f l e ep) = acct ep"
  "acct (rds_cq_write_rx c f l d t s e ep) = acct ep"
  by (simp_all add: rds_cq_write_tx_def rds_cq_write_rx_def cq_push_def)

lemma acct_peer_put [simp]: "acct (peer_put a p ep) = acct ep"
  by (simp add: peer_put_def)

lemma acct_ep_alloc [simp]: "acct (snd (ep_alloc os ob ep)) = acct ep"
  by (simp add: ep_alloc_def case_prod_beta acct_hist)

lemma acct_post_rdma_silent [simp]:
  "acct (snd (rds_post_rdma os d c ro vs w False t ep)) = acct ep"
  by (simp add: rds_post_rdma_def case_prod_beta sys_rdma_def Let_def acct_def tally_rdma has_notify_flag
      has_notify_flag [where n = False, simplified])

lemma acct_reg_cache_put [simp]: "acct (rds_reg_cache_put os i ep) = acct ep"
  by (simp add: rds_reg_cache_put_def case_prod_beta acct_def rds_cache.obs_delete)

lemma acct_put_cached [simp]: "acct (put_cached os is ep) = acct ep"
  by (induction os "is" ep rule: put_cached.induct) auto

lemma acct_release_mrs [simp]: "acct (rds_pending_release_mrs os p ep) = acct ep"
  by (auto simp: rds_pending_release_mrs_def acct_hist split: option.splits)

lemma acct_unregister [simp]: "acct (unregister os rs ep) = acct ep"
  by (induction os rs ep rule: unregister.induct) (auto simp: acct_hist)

lemma acct_reg_cache_get: "rds_reg_cache_get os b n d ep = Some (r, ep') \<Longrightarrow> acct ep' = acct ep"
  by (auto simp: rds_reg_cache_get_def Let_def acct_def
      split: if_splits option.splits prod.splits dest!: rds_cache.obs_search)

lemma acct_rndzv_register: "rndzv_register os cached d ch ep = Some (r, ep') \<Longrightarrow> acct ep' = acct ep"
proof (cases cached)
  case True
  assume "rndzv_register os cached d ch ep = Some (r, ep')"
  with True show ?thesis
    by (auto simp: rndzv_register_def split: option.splits sum.splits prod.splits dest!: acct_reg_cache_get)
next
  case False
  obtain q h where "rds_reg_internal os (ep_sock ep) (iov_base ch) (iov_len ch) FI_REMOTE_READ (Some d) (hist ep) = (q, h)"
    by fastforce
  moreover from this have "tally h = tally (hist ep)" by (metis snd_conv tally_reg_internal)
  moreover assume "rndzv_register os cached d ch ep = Some (r, ep')"
  ultimately show ?thesis using False by (auto simp: rndzv_register_def acct_hist split: sum.splits)
qed

lemma acct_rndzv_reg_loop:
  "rndzv_reg_loop os cached d chs segs regs ep = Some (e, segs', regs', ep') \<Longrightarrow> acct ep' = acct ep"
proof (induction chs arbitrary: segs regs ep)
  case Nil
  then show ?case by simp
next
  case (Cons ch chs)
  then show ?case
    by (auto split: option.splits sum.splits prod.splits dest!: acct_rndzv_register)
qed

lemma acct_match_posted [simp]: "acct (snd (rds_match_posted hdr src tg ep)) = acct ep"
  by (auto simp: rds_match_posted_def split: option.splits)

lemma acct_match_unexp [simp]: "acct (snd (rds_match_unexp a t ig tg ep)) = acct ep"
  by (auto simp: rds_match_unexp_def split: option.splits)

lemma acct_deliver_eager [simp]: "acct (rds_deliver_eager rx hdr pl src ep) = acct ep"
  by (simp add: rds_deliver_eager_def case_prod_beta Let_def)

lemma acct_peer_buffers [simp]: "acct (snd (peer_buffers os ep)) = acct ep"
proof -
  have al: "ep_alloc os ob e = (r, e') \<Longrightarrow> acct e' = acct e" for ob e r e'
    using acct_ep_alloc [of os ob e] by simp
  show ?thesis by (auto simp: peer_buffers_def split: option.splits prod.splits dest!: al)
qed

lemma acct_peer_create [simp]: "acct (snd (rds_peer_create os a ep)) = acct ep"
proof -
  obtain b ep1 where b: "peer_buffers os ep = (b, ep1)" by fastforce
  have ep1: "acct ep1 = acct ep" using acct_peer_buffers [of os ep] b by simp
  have reg: "rds_reg_internal os s bu n acc de h = (r, h') \<Longrightarrow> tally h' = tally h" for s bu n acc de h r h'
    using tally_reg_internal [of os s bu n acc de h] by simp
  show ?thesis
    using ep1 by (auto simp: rds_peer_create_def b Let_def acct_def
        split: option.splits prod.splits sum.splits dest!: reg)
qed

lemma acct_ring_send_ctrl [simp]: "acct (rds_ring_send_ctrl os p op ep) = acct ep"
  by (simp add: rds_ring_send_ctrl_def acct_hist)

lemma acct_ring_handle_ctrl [simp]: "acct (rds_ring_handle_ctrl os hdr pl src ep) = acct ep"
proof -
  define q where "q = (case rds_peer_find ep src of Some a \<Rightarrow> (Some a, ep) | None \<Rightarrow> rds_peer_create os src ep)"
  have q: "acct (snd q) = acct ep" by (auto simp: q_def split: option.splits)
  show ?thesis
    unfolding rds_ring_handle_ctrl_def Let_def q_def [symmetric]
    using q by (auto split: option.splits prod.splits)
qed

lemma acct_ring_send_ready [simp]:
  "acct (snd (ring_send_ready os n cp a p tg da cx fl ta gc op ep)) = acct ep"
  by (simp add: ring_send_ready_def Let_def case_prod_beta)

lemma acct_ring_send_handshake [simp]: "acct (snd (ring_send_handshake os a p ep)) = acct ep"
  by (auto simp: ring_send_handshake_def Let_def case_prod_beta acct_hist)

lemma acct_ring_send [simp]: "acct (snd (rds_ring_send os n cp de tg da cx fl ta gc op ep)) = acct ep"
proof -
  define q where "q = (case rds_peer_find ep de of Some a \<Rightarrow> (Some a, ep) | None \<Rightarrow> rds_peer_create os de ep)"
  have q: "acct (snd q) = acct ep" by (auto simp: q_def split: option.splits)
  show ?thesis
    unfolding rds_ring_send_def Let_def q_def [symmetric]
    using q by (auto split: option.splits prod.splits)
qed

lemma acct_send_eager [simp]: "acct (snd (rds_send_eager os vs d tg da cx fl ta gc ep)) = acct ep"
  by (simp add: rds_send_eager_def Let_def case_prod_beta acct_hist)

lemma acct_generic_inject [simp]: "acct (snd (rds_generic_inject os b n de tg ta ep)) = acct ep"
  by (auto simp: rds_generic_inject_def Let_def case_prod_beta split: option.splits)

lemma acct_return_credit [simp]: "acct (rds_ring_return_credit os a ep) = acct ep"
  by (auto simp: rds_ring_return_credit_def Let_def case_prod_beta split: option.splits)

lemma acct_cancel [simp]: "acct (snd (rds_ep_cancel cx ep)) = acct ep"
  by (auto simp: rds_ep_cancel_def cancel_entry_def cq_push_def split: option.splits)

text \<open>The invariant depends on the accounting alone.\<close>

lemma acct_inv_cong: "acct ep = acct ep' \<Longrightarrow> acct_inv ack ep = acct_inv ack ep'"
  by (simp add: acct_inv_def)

lemma id_room_cong: "acct ep = acct ep' \<Longrightarrow> id_room n ep = id_room n ep'"
  by (simp add: id_room_def acct_def)

section \<open>Steps of the accounting\<close>

lemma unat_u32_inc: "unat (x :: u32) + 1 < 4294967296 \<Longrightarrow> unat (x + 1) = unat x + 1"
  by (simp add: unat_word_ariths)

lemma unat_u32_dec: "(x :: u32) \<noteq> 0 \<Longrightarrow> unat (x - 1) = unat x - 1 \<and> 0 < unat x"
  by (simp add: unat_minus_one unat_gt_0)

lemma parked_simps [simp]:
  "parked [] t = 0"
  "parked (d # ds) t = (if d_type d = RDS_DEFERRED_READ \<and> d_id d = t then 1 else 0) + parked ds t"
  "parked (ds @ es) t = parked ds t + parked es t"
  by (simp_all add: parked_def)

lemma parked_deferred_fin [simp]: "parked [deferred_fin pe i] t = 0"
  by (simp add: deferred_fin_def)

lemma d_type_deferred_fin [simp]: "d_type (deferred_fin pe i) = RDS_DEFERRED_FIN"
  by (simp add: deferred_fin_def)

lemma ainvI:
  assumes "distinct (map p_id ps)"
    and "\<And>p. p \<in> set ps \<Longrightarrow> p_id p \<noteq> 0 \<and> p_id p \<le> oid" and "\<And>p. p \<in> set ps \<Longrightarrow> pend_ok pst ack ds p"
    and "\<And>d. d \<in> set ds \<Longrightarrow> d_type d = RDS_DEFERRED_READ \<Longrightarrow>
      \<exists>p \<in> set ps. p_id p = d_id d \<and> p_type p = RDS_PEND_RNDZV_RX"
    and "\<And>t. t \<notin> p_id ` set ps \<Longrightarrow> pst t = ack t"
    and "unat infl = length (filter is_tx ps)" and "length (filter is_tx ps) \<le> cap" and "cap < 4294967296"
  shows "ainv ack (ps, ds, infl, oid, (pst, ntf), cap)"
  using assms by (simp add: ainv_def)

lemma ainvD:
  assumes "ainv ack (ps, ds, infl, oid, (pst, ntf), cap)"
  shows "distinct (map p_id ps)"
    and "p \<in> set ps \<Longrightarrow> p_id p \<noteq> 0 \<and> p_id p \<le> oid" and "p \<in> set ps \<Longrightarrow> pend_ok pst ack ds p"
    and "d \<in> set ds \<Longrightarrow> d_type d = RDS_DEFERRED_READ \<Longrightarrow>
      \<exists>p \<in> set ps. p_id p = d_id d \<and> p_type p = RDS_PEND_RNDZV_RX"
    and "t \<notin> p_id ` set ps \<Longrightarrow> pst t = ack t"
    and "unat infl = length (filter is_tx ps)" and "length (filter is_tx ps) \<le> cap" and "cap < 4294967296"
  using assms by (simp_all add: ainv_def)

lemma distinct_mid:
  assumes "distinct (map f (xs @ p # ys))" and "r \<in> set xs \<union> set ys"
  shows "f r \<noteq> f p"
proof -
  from assms(1) have "f p \<notin> f ` (set xs \<union> set ys)" by auto
  with assms(2) show ?thesis by (metis image_eqI)
qed

text \<open>Whether an operation is in order depends on the counts for its own token only.\<close>

lemma pend_ok_cong:
  assumes "pend_ok pst ack ds p" and "pst' (p_id p) = pst (p_id p)" and "ack' (p_id p) = ack (p_id p)"
    and "parked ds' (p_id p) = parked ds (p_id p)"
  shows "pend_ok pst' ack' ds' p"
  using assms by (simp add: pend_ok_def)

text \<open>The queue may change by FINs: only reads are counted.\<close>

lemma ainv_deferred:
  assumes inv: "ainv ack (ps, ds, infl, oid, (pst, ntf), cap)" and "\<And>t. parked ds' t = parked ds t"
    and "\<forall>d \<in> set ds'. d_type d = RDS_DEFERRED_READ \<longrightarrow> d \<in> set ds"
  shows "ainv ack (ps, ds', infl, oid, (pst, ntf'), cap)"
proof (rule ainvI)
  show "pend_ok pst ack ds' p" if "p \<in> set ps" for p
    using ainvD(3) [OF inv that] by (rule pend_ok_cong) (simp_all add: assms(2))
  show "\<exists>p \<in> set ps. p_id p = d_id d \<and> p_type p = RDS_PEND_RNDZV_RX"
    if "d \<in> set ds'" "d_type d = RDS_DEFERRED_READ" for d
    using ainvD(4) [OF inv _ that(2)] that assms(3) by blast
qed (erule ainvD(2) [OF inv] ainvD(5) [OF inv] | rule ainvD(1,6,7,8) [OF inv])+

text \<open>An operation leaves the list; nothing is parked for it and all its notifications are in.\<close>

lemma ainv_remove:
  assumes inv: "ainv ack (xs @ p # ys, ds, infl, oid, (pst, ntf), cap)"
    and none: "parked ds' (p_id p) = 0" and all: "pst' (p_id p) = ack' (p_id p)"
    and pst: "\<And>t. t \<noteq> p_id p \<Longrightarrow> pst' t = pst t" and ack: "\<And>t. t \<noteq> p_id p \<Longrightarrow> ack' t = ack t"
    and pk: "\<And>t. t \<noteq> p_id p \<Longrightarrow> parked ds' t = parked ds t"
    and ds: "\<forall>d \<in> set ds'. d_type d = RDS_DEFERRED_READ \<longrightarrow> d \<in> set ds"
  shows "ainv ack' (xs @ ys, ds', if is_tx p then infl - 1 else infl, oid, (pst', ntf), cap)"
proof (rule ainvI)
  show "distinct (map p_id (xs @ ys))" using ainvD(1) [OF inv] by simp
  have own: "\<forall>d \<in> set ds'. d_type d = RDS_DEFERRED_READ \<longrightarrow> d_id d \<noteq> p_id p"
    using none by (auto simp: parked_def filter_empty_conv)
  show "\<exists>q \<in> set (xs @ ys). p_id q = d_id d \<and> p_type q = RDS_PEND_RNDZV_RX"
    if d: "d \<in> set ds'" "d_type d = RDS_DEFERRED_READ" for d
  proof -
    from ds d have "d \<in> set ds" by blast
    from ainvD(4) [OF inv this d(2)] obtain q where
      "q \<in> set (xs @ p # ys)" "p_id q = d_id d" "p_type q = RDS_PEND_RNDZV_RX" by blast
    with own d show ?thesis by (intro bexI [of _ q]) auto
  qed
  show "pst' t = ack' t" if "t \<notin> p_id ` set (xs @ ys)" for t
    using ainvD(5) [OF inv, of t] all pst [of t] ack [of t] that by (cases "t = p_id p") auto
  have n: "unat infl = length (filter is_tx (xs @ p # ys))" by (rule ainvD(6) [OF inv])
  then have "infl \<noteq> 0" if "is_tx p" using that by auto
  with n show "unat (if is_tx p then infl - 1 else infl) = length (filter is_tx (xs @ ys))"
    by (simp add: unat_minus_one)
  show "length (filter is_tx (xs @ ys)) \<le> cap" using ainvD(7) [OF inv] by (simp split: if_splits)
  fix q assume q: "q \<in> set (xs @ ys)"
  then have m: "q \<in> set (xs @ p # ys)" and "q \<in> set xs \<union> set ys" by auto
  from distinct_mid [OF ainvD(1) [OF inv] this(2)] have "p_id q \<noteq> p_id p" .
  then show "pend_ok pst' ack' ds' q"
    by (intro pend_ok_cong [OF ainvD(3) [OF inv m]]) (simp_all add: pst ack pk)
  show "p_id q \<noteq> 0 \<and> p_id q \<le> oid" by (rule ainvD(2) [OF inv m])
qed (rule ainvD(8) [OF inv])

text \<open>
  An operation in the list changes, with the counts for its token; nothing else is touched.
\<close>

lemma ainv_update:
  assumes inv: "ainv ack (xs @ p # ys, ds, infl, oid, (pst, ntf), cap)"
    and same: "p_id q = p_id p" "p_type q = p_type p"
    and ok: "pend_ok pst' ack' ds' q"
    and pst: "\<And>t. t \<noteq> p_id p \<Longrightarrow> pst' t = pst t" and ack: "\<And>t. t \<noteq> p_id p \<Longrightarrow> ack' t = ack t"
    and pk: "\<And>t. t \<noteq> p_id p \<Longrightarrow> parked ds' t = parked ds t"
    and ds: "\<forall>d \<in> set ds'. d_type d = RDS_DEFERRED_READ \<longrightarrow> d \<in> set ds"
  shows "ainv ack' (xs @ q # ys, ds', infl, oid, (pst', ntf), cap)"
proof (rule ainvI)
  have ids: "map p_id (xs @ q # ys) = map p_id (xs @ p # ys)" using same by simp
  have tx: "filter is_tx (xs @ q # ys) = filter is_tx xs @ (if is_tx p then [q] else []) @ filter is_tx ys"
    using same by (simp add: is_tx_def)
  show "distinct (map p_id (xs @ q # ys))" using ainvD(1) [OF inv] ids by simp
  show "p_id r \<noteq> 0 \<and> p_id r \<le> oid" if "r \<in> set (xs @ q # ys)" for r
    using ainvD(2) [OF inv, of r] ainvD(2) [OF inv, of p] that same by (cases "r = q") auto
  show "pend_ok pst' ack' ds' r" if r: "r \<in> set (xs @ q # ys)" for r
  proof (cases "r = q")
    case False
    with r have m: "r \<in> set (xs @ p # ys)" and "r \<in> set xs \<union> set ys" by auto
    from distinct_mid [OF ainvD(1) [OF inv] this(2)] have "p_id r \<noteq> p_id p" .
    then show ?thesis by (intro pend_ok_cong [OF ainvD(3) [OF inv m]]) (simp_all add: pst ack pk)
  qed (simp add: ok)
  show "\<exists>r \<in> set (xs @ q # ys). p_id r = d_id d \<and> p_type r = RDS_PEND_RNDZV_RX"
    if d: "d \<in> set ds'" "d_type d = RDS_DEFERRED_READ" for d
  proof -
    from ds d have "d \<in> set ds" by blast
    from ainvD(4) [OF inv this d(2)] obtain r where
      "r \<in> set (xs @ p # ys)" "p_id r = d_id d" "p_type r = RDS_PEND_RNDZV_RX" by blast
    with same show ?thesis by (cases "r = p") auto
  qed
  show "pst' t = ack' t" if "t \<notin> p_id ` set (xs @ q # ys)" for t
    using ainvD(5) [OF inv, of t] that same pst [of t] ack [of t] by auto
  show "unat infl = length (filter is_tx (xs @ q # ys))" "length (filter is_tx (xs @ q # ys)) \<le> cap"
    using ainvD(6,7) [OF inv] unfolding tx by (simp_all split: if_splits)
qed (rule ainvD(8) [OF inv])

text \<open>A new operation under a fresh identifier, with what it has issued and parked.\<close>

lemma ainv_insert:
  assumes inv: "ainv ack (ps, ds, infl, oid, (pst, ntf), cap)"
    and id: "oid < p_id p" and ok: "pend_ok pst' ack (ds @ rs) p"
    and pst: "\<And>t. t \<noteq> p_id p \<Longrightarrow> pst' t = pst t"
    and rs: "\<forall>d \<in> set rs. d_type d = RDS_DEFERRED_READ \<and> d_id d = p_id p" "rs \<noteq> [] \<longrightarrow> p_type p = RDS_PEND_RNDZV_RX"
    and tx: "is_tx p \<longrightarrow> unat infl < cap"
  shows "ainv ack (ps @ [p], ds @ rs, if is_tx p then infl + 1 else infl, p_id p, (pst', ntf), cap)"
proof (rule ainvI)
  have lt: "p_id q < p_id p" if "q \<in> set ps" for q using ainvD(2) [OF inv that] id by auto
  have pr: "parked rs t = 0" if "t \<noteq> p_id p" for t using rs that by (auto simp: parked_def filter_empty_conv)
  show "distinct (map p_id (ps @ [p]))" using ainvD(1) [OF inv] by (auto dest: lt)
  show "p_id q \<noteq> 0 \<and> p_id q \<le> p_id p" if "q \<in> set (ps @ [p])" for q
    using that id ainvD(2) [OF inv, of q] lt [of q] by (auto intro: less_imp_le)
  show "pend_ok pst' ack (ds @ rs) q" if "q \<in> set (ps @ [p])" for q
  proof (cases "q = p")
    case False
    with that have q: "q \<in> set ps" by simp
    from lt [OF q] have "p_id q \<noteq> p_id p" by auto
    then show ?thesis by (intro pend_ok_cong [OF ainvD(3) [OF inv q]]) (simp_all add: pst pr)
  qed (simp add: ok)
  show "\<exists>r \<in> set (ps @ [p]). p_id r = d_id d \<and> p_type r = RDS_PEND_RNDZV_RX"
    if "d \<in> set (ds @ rs)" "d_type d = RDS_DEFERRED_READ" for d
    using that ainvD(4) [OF inv, of d] rs by auto
  show "pst' t = ack t" if "t \<notin> p_id ` set (ps @ [p])" for t
    using ainvD(5) [OF inv, of t] that pst [of t] by auto
  have "unat (infl + 1) = unat infl + 1" if "is_tx p"
    using tx that ainvD(8) [OF inv] by (intro unat_u32_inc) simp
  then show "unat (if is_tx p then infl + 1 else infl) = length (filter is_tx (ps @ [p]))"
    using ainvD(6) [OF inv] by simp
  show "length (filter is_tx (ps @ [p])) \<le> cap" using ainvD(6,7) [OF inv] tx by auto
qed (rule ainvD(8) [OF inv])

lemma ainv_op_id:
  "ainv ack (ps, ds, infl, oid, (pst, ntf), cap) \<Longrightarrow> oid \<le> oid' \<Longrightarrow> ainv ack (ps, ds, infl, oid', (pst, ntf), cap)"
proof (rule ainvI)
  assume inv: "ainv ack (ps, ds, infl, oid, (pst, ntf), cap)" and le: "oid \<le> oid'"
  show "p_id p \<noteq> 0 \<and> p_id p \<le> oid'" if "p \<in> set ps" for p
    using ainvD(2) [OF inv that] le by auto
  show "pend_ok pst ack ds p" if "p \<in> set ps" for p by (rule ainvD(3) [OF inv that])
  show "\<exists>p \<in> set ps. p_id p = d_id d \<and> p_type p = RDS_PEND_RNDZV_RX"
    if "d \<in> set ds" "d_type d = RDS_DEFERRED_READ" for d by (rule ainvD(4) [OF inv that])
  show "pst t = ack t" if "t \<notin> p_id ` set ps" for t by (rule ainvD(5) [OF inv that])
  show "distinct (map p_id ps)" "unat infl = length (filter is_tx ps)" "length (filter is_tx ps) \<le> cap"
    "cap < 4294967296" by (rule ainvD(1,6,7,8) [OF inv])+
qed

end
