(* ===== verification/Rds_Nohang.thy ===== *)
theory Rds_Nohang
  imports Rds_Account
begin

text \<open>
  Every operation of the endpoint keeps the accounting invariant, and what follows from it: no
  operation waits for something that will not happen, and the flow-control budget is respected.
\<close>

section \<open>Effect of the building blocks on the accounting\<close>

definition good :: "(u64 \<Rightarrow> nat) \<Rightarrow> nat \<Rightarrow> rds_ep \<Rightarrow> bool" where
  "good ack n ep \<longleftrightarrow> acct_inv ack ep \<and> id_room n ep"

lemma good_cong: "acct ep' = acct ep \<Longrightarrow> good ack n ep' = good ack n ep"
  using acct_inv_cong [of ep' ep] id_room_cong [of ep' ep] by (simp add: good_def)

lemma good_less: "good ack (Suc n) ep \<Longrightarrow> good ack n ep"
  by (simp add: good_def id_room_def)

definition fins :: "rds_deferred list \<Rightarrow> bool" where
  "fins ds \<longleftrightarrow> (\<forall>d \<in> set ds. d_type d = RDS_DEFERRED_FIN)"

lemma fins_parked: "fins fs \<Longrightarrow> parked (ds @ fs) t = parked ds t"
  by (auto simp: fins_def parked_def filter_empty_conv)

lemma ainv_fins:
  "ainv ack (ps, ds, infl, oid, (pst, ntf), cap) \<Longrightarrow> fins fs \<Longrightarrow> ainv ack (ps, ds @ fs, infl, oid, (pst, ntf), cap)"
  by (erule ainv_deferred) (simp_all only: fins_parked, auto simp: fins_def)

lemma send_fin_acct:
  assumes "acct ep = (ps, ds, infl, oid, tly, cap)"
  shows "\<exists>fs. acct (rds_send_fin os pe i ep) = (ps, ds @ fs, infl, oid, tly, cap) \<and> fins fs"
  using assms
  by (auto simp: rds_send_fin_def rds_send_fin_raw_def sys_send_def rds_defer_fin_def ep_alloc_def sys_alloc_def
      rds_defer_enqueue_def Let_def acct_def fins_def split: option.splits)

lemma pending_put_acct:
  "acct ep = (ps, ds, infl, oid, tly, cap) \<Longrightarrow> acct (pending_put k q ep) = (ps[k := q], ds, infl, oid, tly, cap)"
  by (simp add: pending_put_def acct_def)

lemma pending_remove_acct:
  "acct ep = (xs @ p # ys, ds, infl, oid, tly, cap) \<Longrightarrow>
     acct (pending_remove (length xs) ep) = (xs @ ys, ds, infl, oid, tly, cap)"
  by (simp add: pending_remove_def acct_def)

lemma finalize_acct:
  assumes a: "acct ep = (xs @ p # ys, ds, infl, oid, tly, cap)"
  shows "\<exists>fs. acct (rds_rndzv_rx_finalize os (length xs) ep) = (xs @ ys, ds @ fs, infl, oid, tly, cap) \<and> fins fs"
proof -
  let ?p = "pending ep ! length xs"
  obtain fs where fs: "acct (rds_send_fin os (p_peer ?p) (p_peer_id ?p) ep) = (xs @ p # ys, ds @ fs, infl, oid, tly, cap)" "fins fs"
    using send_fin_acct [OF a] by blast
  then show ?thesis
    unfolding rds_rndzv_rx_finalize_def Let_def
    by (intro exI [of _ fs] conjI pending_remove_acct [where p = p]) simp_all
qed

lemma complete_acct:
  assumes a: "acct ep = (xs @ p # ys, ds, infl, oid, tly, cap)" and "is_tx p \<longrightarrow> infl \<noteq> 0"
  shows "acct (rds_pending_complete os (length xs) ep) =
    (xs @ ys, ds, if is_tx p then infl - 1 else infl, oid, tly, cap)"
proof -
  have p: "pending ep ! length xs = p" using a by (simp add: acct_def)
  define ep1 where "ep1 = (if (p_type p = RDS_PEND_RNDZV_TX \<or> p_type p = RDS_PEND_RMA) \<and> \<not> p_no_comp p
    then rds_cq_write_tx (p_context p) (p_flags p) (p_len p) (p_error p) ep else ep)"
  have e1: "acct ep1 = (xs @ p # ys, ds, infl, oid, tly, cap)" using a by (simp add: ep1_def)
  then have "rndzv_tx_inflight ep1 = infl" by (simp add: acct_def)
  then have "acct (if p_type p = RDS_PEND_RNDZV_TX \<and> rndzv_tx_inflight ep1 \<noteq> 0
      then ep1\<lparr>rndzv_tx_inflight := rndzv_tx_inflight ep1 - 1\<rparr> else ep1) =
    (xs @ p # ys, ds, if is_tx p then infl - 1 else infl, oid, tly, cap)"
    using e1 assms(2) by (auto simp: acct_def is_tx_def)
  then show ?thesis
    unfolding rds_pending_complete_def Let_def p ep1_def [symmetric]
    by (intro pending_remove_acct [where p = p]) simp
qed

lemma post_rdma_acct:
  assumes "acct ep = (ps, ds, infl, oid, (pst, ntf), cap)"
    and "rds_post_rdma os d c ro vs w True t ep = (ret, ep1)"
  shows "acct ep1 = (ps, ds, infl, oid, (if ret = 0 then pst(t := pst t + 1) else pst, ntf), cap)"
  using assms
  by (auto simp: rds_post_rdma_def sys_rdma_def Let_def acct_def tally_rdma has_notify_flag
      has_flag_def tally_def fun_eq_iff split: if_splits)

lemma defer_read_acct:
  assumes "acct ep = (ps, ds, infl, oid, tly, cap)"
    and "rds_defer_read os pe c ro vs t ep = (ret, ep1)"
  shows "(ret = 0 \<and> (\<exists>d. acct ep1 = (ps, ds @ [d], infl, oid, tly, cap) \<and> d_type d = RDS_DEFERRED_READ \<and> d_id d = t)) \<or>
    (ret \<noteq> 0 \<and> acct ep1 = (ps, ds, infl, oid, tly, cap))"
  using assms
  by (auto simp: rds_defer_read_def ep_alloc_def sys_alloc_def rds_defer_enqueue_def Let_def acct_def
      split: option.splits)

lemma pending_alloc_None:
  "rds_pending_alloc os ty cx fl ep = (None, ep1) \<Longrightarrow> acct ep1 = acct ep"
  using acct_ep_alloc [of os ObjPending ep]
  by (cases "ep_alloc os ObjPending ep") (auto simp: rds_pending_alloc_def Let_def split: option.splits prod.splits)

lemma op_id_room: "id_room (Suc n) ep \<Longrightarrow> op_id ep < op_id ep + 1 \<and> unat (op_id ep + 1) = unat (op_id ep) + 1"
  by (simp add: id_room_def word_less_nat_alt unat_word_ariths)

lemma pending_alloc_Some:
  assumes "acct ep = (ps, ds, infl, oid, tly, cap)" and "id_room (Suc n) ep"
    and "rds_pending_alloc os ty cx fl ep = (Some (k, p), ep1)"
  shows "k = length ps \<and> p = pending_init (oid + 1) ty cx fl \<and> oid < oid + 1 \<and>
    acct ep1 = (ps @ [p], ds, infl, oid + 1, tly, cap) \<and> id_room n ep1"
proof -
  obtain r ep0 where al: "ep_alloc os ObjPending ep = (r, ep0)" by fastforce
  with acct_ep_alloc [of os ObjPending ep] assms(1) have e0: "acct ep0 = (ps, ds, infl, oid, tly, cap)" by simp
  have rm: "oid < oid + 1 \<and> unat (oid + 1) = unat oid + 1"
    using op_id_room [OF assms(2)] assms(1) by (simp add: acct_def)
  then have "oid + 1 \<noteq> 0" by auto
  with assms(2,3) al e0 assms(1) rm show ?thesis
    by (auto simp: rds_pending_alloc_def rds_next_id_def Let_def acct_def id_room_def split: option.splits)
qed

section \<open>The rendezvous receive\<close>

definition reads :: "u64 \<Rightarrow> rds_deferred list \<Rightarrow> bool" where
  "reads t ds \<longleftrightarrow> (\<forall>d \<in> set ds. d_type d = RDS_DEFERRED_READ \<and> d_id d = t)"

lemma reads_parked: "reads t rs \<Longrightarrow> parked rs t = length rs"
  by (induction rs) (auto simp: reads_def)

text \<open>
  Issuing reads adds as many notifications due as reads accepted, and as many parked reads as
  the operation counts.
\<close>

definition issued ::
  "rds_pending \<Rightarrow> rds_ep \<Rightarrow> rds_pending \<Rightarrow> rds_ep \<Rightarrow> nat \<Rightarrow> bool" where
  "issued p ep p1 ep1 n \<longleftrightarrow>
     (\<exists>ps ds infl oid pst ntf cap a rs.
        acct ep = (ps, ds, infl, oid, (pst, ntf), cap) \<and>
        acct ep1 = (ps, ds @ rs, infl, oid, (pst(p_id p := pst (p_id p) + a), ntf), cap) \<and>
        p_id p1 = p_id p \<and> p_type p1 = p_type p \<and>
        unat (p_seg_remaining p1) = unat (p_seg_remaining p) + a \<and>
        unat (p_seg_deferred p1) = unat (p_seg_deferred p) + length rs \<and>
        reads (p_id p) rs \<and> a + length rs \<le> n)"

lemma issuedI:
  assumes "acct ep = (ps, ds, infl, oid, (pst, ntf), cap)"
    and "acct ep1 = (ps, ds @ rs, infl, oid, (pst(p_id p := pst (p_id p) + a), ntf), cap)"
    and "p_id p1 = p_id p" "p_type p1 = p_type p"
    and "unat (p_seg_remaining p1) = unat (p_seg_remaining p) + a"
    and "unat (p_seg_deferred p1) = unat (p_seg_deferred p) + length rs"
    and "reads (p_id p) rs" and "a + length rs \<le> n"
  shows "issued p ep p1 ep1 n"
  unfolding issued_def by (intro exI conjI) (rule assms)+

lemma issuedE:
  assumes "issued p ep p1 ep1 n" and "acct ep = (ps, ds, infl, oid, (pst, ntf), cap)"
  obtains a rs where "acct ep1 = (ps, ds @ rs, infl, oid, (pst(p_id p := pst (p_id p) + a), ntf), cap)"
    and "p_id p1 = p_id p" "p_type p1 = p_type p"
    and "unat (p_seg_remaining p1) = unat (p_seg_remaining p) + a"
    and "unat (p_seg_deferred p1) = unat (p_seg_deferred p) + length rs"
    and "reads (p_id p) rs" and "a + length rs \<le> n"
  using assms unfolding issued_def by (elim exE conjE) simp

lemma acct_cases:
  obtains ps ds infl oid pst ntf cap where "acct ep = (ps, ds, infl, oid, (pst, ntf), cap)"
  by (metis surj_pair)

lemma issued_refl: "issued p ep p ep n"
proof -
  obtain ps ds infl oid pst ntf cap where a: "acct ep = (ps, ds, infl, oid, (pst, ntf), cap)" by (rule acct_cases)
  show ?thesis by (rule issuedI [OF a, where rs = "[]" and a = 0]) (simp_all add: reads_def a)
qed

lemma issued_trans:
  assumes 1: "issued p ep p1 ep1 n" and 2: "issued p1 ep1 p2 ep2 m"
  shows "issued p ep p2 ep2 (n + m)"
proof -
  obtain ps ds infl oid pst ntf cap where a: "acct ep = (ps, ds, infl, oid, (pst, ntf), cap)" by (rule acct_cases)
  from 1 a show ?thesis
  proof (rule issuedE)
    fix c rs
    assume e1: "acct ep1 = (ps, ds @ rs, infl, oid, (pst(p_id p := pst (p_id p) + c), ntf), cap)"
      and p1: "p_id p1 = p_id p" "p_type p1 = p_type p"
        "unat (p_seg_remaining p1) = unat (p_seg_remaining p) + c"
        "unat (p_seg_deferred p1) = unat (p_seg_deferred p) + length rs" "reads (p_id p) rs" "c + length rs \<le> n"
    from 2 e1 show ?thesis
    proof (rule issuedE)
      fix b qs
      assume e2: "acct ep2 = (ps, (ds @ rs) @ qs, infl, oid, ((pst(p_id p := pst (p_id p) + c))
            (p_id p1 := (pst(p_id p := pst (p_id p) + c)) (p_id p1) + b), ntf), cap)"
        and p2: "p_id p2 = p_id p1" "p_type p2 = p_type p1"
          "unat (p_seg_remaining p2) = unat (p_seg_remaining p1) + b"
          "unat (p_seg_deferred p2) = unat (p_seg_deferred p1) + length qs" "reads (p_id p1) qs" "b + length qs \<le> m"
      from a show ?thesis
        by (rule issuedI [where rs = "rs @ qs" and a = "c + b"])
          (use e2 p1 p2 in \<open>auto simp: reads_def add.assoc\<close>)
    qed
  qed
qed

lemma issued_read_seg:
  assumes run: "rndzv_read_seg os rx pe s off n p ep = (p1, ep1)"
    and small: "unat (p_seg_remaining p) + unat (p_seg_deferred p) < 65535"
  shows "issued p ep p1 ep1 1"
proof -
  obtain ps ds infl oid pst ntf cap where a: "acct ep = (ps, ds, infl, oid, (pst, ntf), cap)" by (rule acct_cases)
  let ?liov = "fst (rds_iov_slice (rx_iov rx) off n)"
  obtain ret epa where po: "rds_post_rdma os pe (seg_cookie s) (seg_off s) ?liov False True (p_id p) ep = (ret, epa)"
    by fastforce
  note acct_a = post_rdma_acct [OF a po]
  note iss = issuedI [OF a]
  have inc: "unat (p_seg_remaining p + 1) = unat (p_seg_remaining p) + 1"
    "unat (p_seg_deferred p + 1) = unat (p_seg_deferred p) + 1"
    by (rule unat_u32_inc, use small in linarith)+
  consider (sent) "ret = 0" | (parked) "ret = - FI_EAGAIN" | (failed) "ret \<noteq> 0" "ret \<noteq> - FI_EAGAIN" by blast
  then show ?thesis
  proof cases
    case sent
    with run po have "p1 = p\<lparr>p_seg_remaining := p_seg_remaining p + 1, p_seg_total := p_seg_total p + 1\<rparr>" "ep1 = epa"
      by (auto simp: rndzv_read_seg_def Let_def)
    with acct_a sent inc show ?thesis by (intro iss [where rs = "[]" and a = 1]) (auto simp: reads_def)
  next
    case parked
    obtain dret epb where df: "rds_defer_read os pe (seg_cookie s) (seg_off s) ?liov (p_id p) epa = (dret, epb)"
      by fastforce
    from parked acct_a have "acct epa = (ps, ds, infl, oid, (pst, ntf), cap)" by simp
    from defer_read_acct [OF this df] show ?thesis
    proof (elim disjE conjE exE)
      fix d assume "dret = 0" "acct epb = (ps, ds @ [d], infl, oid, (pst, ntf), cap)"
        "d_type d = RDS_DEFERRED_READ" "d_id d = p_id p"
      with run po df parked inc show ?thesis
        by (intro iss [where rs = "[d]" and a = 0]) (auto simp: rndzv_read_seg_def Let_def reads_def)
    next
      assume "dret \<noteq> 0" "acct epb = (ps, ds, infl, oid, (pst, ntf), cap)"
      with run po df parked show ?thesis
        by (intro iss [where rs = "[]" and a = 0]) (auto simp: rndzv_read_seg_def Let_def reads_def)
    qed
  next
    case failed
    with run po acct_a show ?thesis
      by (intro iss [where rs = "[]" and a = 0]) (auto simp: rndzv_read_seg_def Let_def reads_def)
  qed
qed

lemma issued_bound:
  "issued p ep p1 ep1 n \<Longrightarrow>
     unat (p_seg_remaining p1) + unat (p_seg_deferred p1) \<le> unat (p_seg_remaining p) + unat (p_seg_deferred p) + n"
  by (auto simp: issued_def)

lemma issued_read_loop:
  assumes "rndzv_read_loop os rx pe segs off eff p ep = (p1, ep1)"
    and "unat (p_seg_remaining p) + unat (p_seg_deferred p) + length segs \<le> 65535"
  shows "issued p ep p1 ep1 (length segs)"
  using assms
proof (induction segs arbitrary: off p ep)
  case Nil
  then show ?case using issued_refl by simp
next
  case (Cons s segs)
  show ?case
  proof (cases "off < eff")
    case False
    with Cons.prems show ?thesis using issued_refl by simp
  next
    case True
    let ?n = "min (unat (seg_len s)) (eff - off)"
    obtain pa epa where st: "rndzv_read_seg os rx pe s off ?n p ep = (pa, epa)" by fastforce
    have i1: "issued p ep pa epa 1" using issued_read_seg [OF st] Cons.prems(2) by simp
    have "rndzv_read_loop os rx pe segs (off + ?n) eff pa epa = (p1, ep1)"
      using Cons.prems(1) True st by (simp add: Let_def)
    moreover have "unat (p_seg_remaining pa) + unat (p_seg_deferred pa) + length segs \<le> 65535"
      using issued_bound [OF i1] Cons.prems(2) by simp
    ultimately have "issued pa epa p1 ep1 (length segs)" by (rule Cons.IH)
    from issued_trans [OF i1 this] show ?thesis by simp
  qed
qed

lemma good_send_fin: "good ack n ep \<Longrightarrow> good ack n (rds_send_fin os pe i ep)"
proof -
  assume g: "good ack n ep"
  obtain ps ds infl oid pst ntf cap where a: "acct ep = (ps, ds, infl, oid, (pst, ntf), cap)" by (rule acct_cases)
  obtain fs where fs: "acct (rds_send_fin os pe i ep) = (ps, ds @ fs, infl, oid, (pst, ntf), cap)" "fins fs"
    using send_fin_acct [OF a] by blast
  from g a have "ainv ack (ps, ds, infl, oid, (pst, ntf), cap)" by (simp add: good_def acct_inv_def)
  from ainv_fins [OF this fs(2)] fs(1) g a show ?thesis by (simp add: good_def acct_inv_def id_room_def acct_def)
qed

lemma good_start_rndzv_read:
  assumes g: "good ack (Suc n) ep" and segs: "length segs \<le> 65535"
  shows "good ack n (rds_start_rndzv_read os rx hdr segs pe src ep)"
proof -
  let ?fl = "rds_rx_flags hdr (hdr_tagged hdr)"
  obtain ps ds infl oid pst ntf cap where a: "acct ep = (ps, ds, infl, oid, (pst, ntf), cap)" by (rule acct_cases)
  from g a have inv: "ainv ack (ps, ds, infl, oid, (pst, ntf), cap)" and room: "id_room (Suc n) ep"
    by (simp_all add: good_def acct_inv_def)
  obtain r ep1 where al: "rds_pending_alloc os RDS_PEND_RNDZV_RX (rx_context rx) ?fl ep = (r, ep1)" by fastforce
  show ?thesis
  proof (cases r)
    case None
    with al have "acct ep1 = acct ep" using pending_alloc_None by blast
    with g have "good ack n ep1" using good_less [OF g] good_cong by blast
    from good_send_fin [OF this] None al show ?thesis
      by (simp add: rds_start_rndzv_read_def Let_def good_cong [OF acct_cq(2)])
  next
    case (Some kp)
    then obtain k p where kp: "r = Some (k, p)" by (metis surj_pair)
    from pending_alloc_Some [OF a room al [unfolded kp]]
    have k: "k = length ps" and p: "p = pending_init (oid + 1) RDS_PEND_RNDZV_RX (rx_context rx) ?fl"
      and fresh: "oid < oid + 1" and e1: "acct ep1 = (ps @ [p], ds, infl, oid + 1, (pst, ntf), cap)"
      and r1: "id_room n ep1" by auto
    define q where "q = rndzv_pend rx hdr pe src ep p"
    have q: "p_id q = oid + 1" "p_type q = RDS_PEND_RNDZV_RX" "p_seg_remaining q = 0" "p_seg_deferred q = 0"
      by (simp_all add: q_def rndzv_pend_def p pending_init_def)
    let ?eff = "min (unat (hdr_size hdr)) (rx_total_len rx)"
    obtain p1 ep2 where lp: "rndzv_read_loop os rx pe segs 0 ?eff q ep1 = (p1, ep2)" by fastforce
    have "issued q ep1 p1 ep2 (length segs)" using issued_read_loop [OF lp] segs q by simp
    from this e1 obtain c rs where e2: "acct ep2 = (ps @ [p], ds @ rs, infl, oid + 1, (pst(oid + 1 := pst (oid + 1) + c), ntf), cap)"
      and p1: "p_id p1 = oid + 1" "p_type p1 = RDS_PEND_RNDZV_RX" "unat (p_seg_remaining p1) = c"
        "unat (p_seg_deferred p1) = length rs" "reads (oid + 1) rs" "c + length rs \<le> 65535"
      by (rule issuedE) (use q segs in simp)
    have e3: "acct (pending_put k p1 ep2) =
        (ps @ [p1], ds @ rs, infl, oid + 1, (pst(oid + 1 := pst (oid + 1) + c), ntf), cap)"
      using pending_put_acct [OF e2, of k p1] by (simp add: k)
    have new: "oid + 1 \<notin> p_id ` set ps" using ainvD(2) [OF inv] fresh by (metis imageE leD)
    have res: "rds_start_rndzv_read os rx hdr segs pe src ep =
        (if p_seg_remaining p1 = 0 \<and> p_seg_deferred p1 = 0
         then rds_rndzv_rx_finalize os k (pending_put k p1 ep2) else pending_put k p1 ep2)"
      by (simp add: rds_start_rndzv_read_def Let_def al kp q_def [symmetric] lp)
    show ?thesis
    proof (cases "p_seg_remaining p1 = 0 \<and> p_seg_deferred p1 = 0")
      case True
      with p1 have z: "c = 0" "rs = []" by auto
      from e3 z have "acct (pending_put k p1 ep2) = (ps @ p1 # [], ds, infl, oid + 1, (pst, ntf), cap)" by simp
      from finalize_acct [OF this, of os] obtain fs where
        "acct (rds_rndzv_rx_finalize os k (pending_put k p1 ep2)) = (ps, ds @ fs, infl, oid + 1, (pst, ntf), cap)"
        and "fins fs" by (auto simp: k)
      moreover have "ainv ack (ps, ds @ fs, infl, oid + 1, (pst, ntf), cap)"
        using ainv_fins [OF ainv_op_id [OF inv]] fresh \<open>fins fs\<close> by simp
      ultimately show ?thesis
        using True r1 e1 by (simp add: res good_def acct_inv_def id_room_def acct_def)
    next
      case False
      have "parked ds (oid + 1) = 0"
        using ainvD(4) [OF inv] new by (force simp: parked_def filter_empty_conv)
      then have ok: "pend_ok (pst(oid + 1 := pst (oid + 1) + c)) ack (ds @ rs) p1"
        using p1 False ainvD(5) [OF inv new] reads_parked [OF p1(5)] by (simp add: pend_ok_def)
      have "ainv ack (ps @ [p1], ds @ rs, if is_tx p1 then infl + 1 else infl, p_id p1,
          (pst(oid + 1 := pst (oid + 1) + c), ntf), cap)"
        by (rule ainv_insert [OF inv _ ok]) (use fresh p1 in \<open>auto simp: is_tx_def reads_def\<close>)
      with p1 have "ainv ack (ps @ [p1], ds @ rs, infl, oid + 1, (pst(oid + 1 := pst (oid + 1) + c), ntf), cap)"
        by (simp add: is_tx_def)
      with False e3 r1 e1 show ?thesis by (auto simp: res good_def acct_inv_def id_room_def acct_def)
    qed
  qed
qed

section \<open>Inbound messages and notifications\<close>

lemma goodI:
  "acct ep = (ps, ds, infl, oid, (pst, ntf), cap) \<Longrightarrow> ainv ack (ps, ds, infl, oid, (pst, ntf), cap) \<Longrightarrow>
     unat oid + n < 18446744073709551615 \<Longrightarrow> good ack n ep"
  by (simp add: good_def acct_inv_def id_room_def acct_def)

lemma goodD:
  assumes "good ack n ep" and "acct ep = (ps, ds, infl, oid, (pst, ntf), cap)"
  shows "ainv ack (ps, ds, infl, oid, (pst, ntf), cap)" and "unat oid + n < 18446744073709551615"
  using assms by (simp_all add: good_def acct_inv_def id_room_def acct_def)

lemma pending_find_split:
  assumes "rds_pending_find ep t = Some k" and "acct ep = (ps, ds, infl, oid, tly, cap)"
  obtains xs p ys where "ps = xs @ p # ys" "k = length xs" "p_id p = t" "pending ep ! k = p"
proof -
  from find_index_Some [of "\<lambda>p. p_id p = t" "pending ep" k] assms(1)
  have k: "k < length (pending ep)" "p_id (pending ep ! k) = t" by (simp_all add: rds_pending_find_def)
  moreover have "pending ep = ps" using assms(2) by (simp add: acct_def)
  ultimately show ?thesis
    by (intro that [of "take k ps" "ps ! k" "drop (Suc k) ps"]) (simp_all add: id_take_nth_drop [symmetric])
qed

lemma pending_find_None:
  "rds_pending_find ep t = None \<Longrightarrow> acct ep = (ps, ds, infl, oid, tly, cap) \<Longrightarrow> t \<notin> p_id ` set ps"
  by (auto simp: rds_pending_find_def find_index_None acct_def)

lemma length_payload_segs: "length (payload_segs os ep n pl) \<le> n"
  using dec_segs_length by (auto simp: payload_segs_def split: option.splits)

lemma unat_u16_le: "unat (w :: u16) \<le> 65535"
proof -
  have "unat w < 65536" by simp
  then show ?thesis by linarith
qed

lemma good_enqueue_unexp: "good ack n ep \<Longrightarrow> good ack n (rds_enqueue_unexp os hdr pl src fi tg ep)"
proof -
  assume g: "good ack n ep"
  obtain r1 e1 where a1: "ep_alloc os (ObjUnexp (if hdr_op hdr = RDS_OP_EAGER then length pl else 0)) ep = (r1, e1)"
    by fastforce
  obtain r2 e2 where a2: "ep_alloc os (ObjSegs (unat (hdr_seg_cnt hdr))) e1 = (r2, e2)" by fastforce
  have c1: "acct e1 = acct ep" using acct_ep_alloc a1 by (metis snd_conv)
  have c2: "acct e2 = acct ep" using acct_ep_alloc a2 c1 by (metis snd_conv)
  have g1: "good ack n e1" using g good_cong [OF c1] by blast
  have g2: "good ack n e2" using g good_cong [OF c2] by blast
  have up: "good ack n (e\<lparr>rx_unexp_tag := x\<rparr>)" "good ack n (e\<lparr>rx_unexp_msg := x\<rparr>)" if "good ack n e" for e x
    using that by (simp_all only: good_cong [OF acct_upd(6)] good_cong [OF acct_upd(5)])
  note sf = good_send_fin [OF g1] good_send_fin [OF g2]
  show ?thesis
    by (cases r1; cases r2) (simp_all add: rds_enqueue_unexp_def Let_def a1 a2 up g1 g2 sf)
qed

lemma good_handle_fin: "good ack n ep \<Longrightarrow> good ack n (rds_handle_fin os t ep)"
proof -
  assume g: "good ack n ep"
  obtain ps ds infl oid pst ntf cap where a: "acct ep = (ps, ds, infl, oid, (pst, ntf), cap)" by (rule acct_cases)
  note inv = goodD [OF g a]
  show ?thesis
  proof (cases "rds_pending_find ep t")
    case None
    with g show ?thesis by (simp add: rds_handle_fin_def)
  next
    case (Some k)
    from Some a obtain xs p ys where s: "ps = xs @ p # ys" "k = length xs" "p_id p = t" "pending ep ! k = p"
      by (rule pending_find_split)
    show ?thesis
    proof (cases "is_tx p")
      case False
      with g Some s show ?thesis by (simp add: rds_handle_fin_def is_tx_def)
    next
      case True
      have ok: "pend_ok pst ack ds p" using ainvD(3) [OF inv(1), of p] s by simp
      then have z: "parked ds (p_id p) = 0" "pst (p_id p) = ack (p_id p)"
        using True by (auto simp: pend_ok_def is_tx_def)
      have "unat infl \<noteq> 0" using ainvD(6) [OF inv(1)] s True by simp
      then have "infl \<noteq> 0" by auto
      with complete_acct [of ep xs p ys, OF a [unfolded s(1)], of os] True
      have "acct (rds_pending_complete os k ep) = (xs @ ys, ds, infl - 1, oid, (pst, ntf), cap)" by (simp add: s(2))
      moreover have "ainv ack (xs @ ys, ds, infl - 1, oid, (pst, ntf), cap)"
        using ainv_remove [OF inv(1) [unfolded s(1)], of ds pst ack] z True by simp
      ultimately have "good ack n (rds_pending_complete os k ep)" using inv(2) by (rule goodI)
      then show ?thesis using Some s True by (simp add: rds_handle_fin_def is_tx_def)
    qed
  qed
qed

lemma good_handle_message:
  assumes "good ack (Suc n) ep"
  shows "good ack n (rds_handle_message os hdr pl src fi ep)"
proof -
  obtain r ep1 where m: "rds_match_posted hdr fi (hdr_tagged hdr) ep = (r, ep1)" by fastforce
  with acct_match_posted [of hdr fi "hdr_tagged hdr" ep] have "acct ep1 = acct ep" by simp
  with assms have g: "good ack (Suc n) ep1" using good_cong by blast
  have "length (payload_segs os ep1 (unat (hdr_seg_cnt hdr)) pl) \<le> 65535"
    using length_payload_segs unat_u16_le order_trans by blast
  from good_start_rndzv_read [OF g this] good_enqueue_unexp [OF good_less [OF g]] good_less [OF g]
  show ?thesis
    by (cases r) (simp_all add: rds_handle_message_def Let_def m good_cong [OF acct_deliver_eager])
qed

lemma good_handle_inbound:
  assumes "good ack (Suc n) ep"
  shows "good ack n (rds_handle_inbound os hdr pl src fi ep)"
  using assms good_less [OF assms]
  by (simp add: rds_handle_inbound_def good_handle_fin good_handle_message good_cong [OF acct_ring_handle_ctrl])

lemma good_handle_rdma_notify:
  assumes g: "good ack n ep" and owed: "ack t < posted (hist ep) t"
  shows "good (ack(t := ack t + 1)) n (rds_handle_rdma_notify os t st ep)"
proof -
  let ?ack = "ack(t := ack t + 1)"
  obtain ps ds infl oid pst ntf cap where a: "acct ep = (ps, ds, infl, oid, (pst, ntf), cap)" by (rule acct_cases)
  note inv = goodD [OF g a]
  from a have pst: "posted (hist ep) = pst" by (simp add: acct_def tally_def)
  obtain k where f: "rds_pending_find ep t = Some k"
    using pending_find_None [OF _ a] ainvD(5) [OF inv(1), of t] owed pst by (cases "rds_pending_find ep t") auto
  from f a obtain xs p ys where s: "ps = xs @ p # ys" "k = length xs" "p_id p = t" "pending ep ! k = p"
    by (rule pending_find_split)
  define p1 where "p1 = (if st \<noteq> 0 \<and> p_error p = 0 then p\<lparr>p_error := abs_status st\<rparr> else p)"
  have p1: "p_id p1 = t" "p_type p1 = p_type p" "p_seg_remaining p1 = p_seg_remaining p"
    "p_seg_deferred p1 = p_seg_deferred p" by (simp_all add: p1_def s)
  have ok: "pend_ok pst ack ds p" using ainvD(3) [OF inv(1), of p] s by simp
  then have nz: "p_seg_remaining p \<noteq> 0" using owed pst s by (auto simp: pend_ok_def)
  define p2 where "p2 = p1\<lparr>p_seg_remaining := p_seg_remaining p1 - 1\<rparr>"
  have p2: "p_id p2 = t" "p_type p2 = p_type p" "unat (p_seg_remaining p2) + 1 = unat (p_seg_remaining p)"
    "p_seg_deferred p2 = p_seg_deferred p"
    using p1 unat_u32_dec [OF nz] by (simp_all add: p2_def)
  have e1: "acct (pending_put k p2 ep) = (xs @ p2 # ys, ds, infl, oid, (pst, ntf), cap)"
    using pending_put_acct [OF a, of k p2] by (simp add: s)
  have cnt: "unat (p_seg_remaining p2) + ?ack t = pst t" "unat (p_seg_deferred p2) = parked ds t"
    using ok p2 s by (auto simp: pend_ok_def)
  have upd: "ainv ?ack (xs @ p2 # ys, ds, infl, oid, (pst, ntf), cap)" if "pend_ok pst ?ack ds p2"
    by (rule ainv_update [OF inv(1) [unfolded s(1)] _ _ that]) (use p2 s in auto)
  have rem: "ainv ?ack (xs @ ys, ds, infl, oid, (pst, ntf), cap)"
    if "p_seg_remaining p2 = 0" "p_seg_deferred p2 = 0" "\<not> is_tx p"
    using ainv_remove [OF inv(1) [unfolded s(1)], of ds pst ?ack] cnt s that by simp
  have run: "rds_handle_rdma_notify os t st ep =
      (if p_seg_remaining p2 \<noteq> 0 then pending_put k p2 ep
       else (case p_type p2 of
           RDS_PEND_RMA \<Rightarrow> rds_pending_complete os k (pending_put k p2 ep)
         | RDS_PEND_RNDZV_RX \<Rightarrow>
             if p_seg_deferred p2 = 0 then rds_rndzv_rx_finalize os k (pending_put k p2 ep) else pending_put k p2 ep
         | RDS_PEND_RNDZV_TX \<Rightarrow> pending_put k p2 ep))"
    unfolding rds_handle_rdma_notify_def f option.case s(4) Let_def p1_def [symmetric] p2_def [symmetric]
    using nz p1(3) by simp
  have stay: "good ?ack n (pending_put k p2 ep)" if "pend_ok pst ?ack ds p2"
    by (rule goodI [OF e1 upd [OF that] inv(2)])
  show ?thesis
  proof (cases "p_type p")
    case RDS_PEND_RNDZV_TX
    with ok nz show ?thesis by (simp add: pend_ok_def)
  next
    case RDS_PEND_RMA
    then have z: "p_seg_deferred p2 = 0" "\<not> is_tx p" "\<not> is_tx p2" using ok p2 by (auto simp: pend_ok_def is_tx_def)
    show ?thesis
    proof (cases "p_seg_remaining p2 = 0")
      case True
      from complete_acct [OF e1, of os] z
      have "acct (rds_pending_complete os k (pending_put k p2 ep)) = (xs @ ys, ds, infl, oid, (pst, ntf), cap)"
        by (simp add: s(2))
      from goodI [OF this rem [OF True z(1,2)] inv(2)] True RDS_PEND_RMA p2(2) show ?thesis by (simp add: run)
    next
      case False
      with cnt z RDS_PEND_RMA p2 have "pend_ok pst ?ack ds p2" by (auto simp: pend_ok_def)
      from stay [OF this] False show ?thesis by (simp add: run)
    qed
  next
    case RDS_PEND_RNDZV_RX
    then have z: "\<not> is_tx p" "unat (p_seg_remaining p) + unat (p_seg_deferred p) \<le> 65535"
      using ok by (auto simp: pend_ok_def is_tx_def)
    show ?thesis
    proof (cases "p_seg_remaining p2 = 0 \<and> p_seg_deferred p2 = 0")
      case True
      from finalize_acct [OF e1, of os] obtain fs where
        fs: "acct (rds_rndzv_rx_finalize os k (pending_put k p2 ep)) = (xs @ ys, ds @ fs, infl, oid, (pst, ntf), cap)" "fins fs"
        by (auto simp: s(2))
      from goodI [OF fs(1) ainv_fins [OF rem fs(2)] inv(2)] True z RDS_PEND_RNDZV_RX p2(2) show ?thesis by (simp add: run)
    next
      case False
      with cnt z RDS_PEND_RNDZV_RX p2 have "pend_ok pst ?ack ds p2" by (auto simp: pend_ok_def)
      from stay [OF this] False RDS_PEND_RNDZV_RX p2(2) show ?thesis by (simp add: run)
    qed
  qed
qed

end
