(* ===== verification/Rds_Live.thy ===== *)
theory Rds_Live
  imports Rds_Nohang
begin

text \<open>
  The remaining operations keep the accounting invariant: the retry of parked operations, posting
  receives, sends, one-sided operations, ring polling and the progress engine.  The properties at
  the end say what the invariant means for a caller.
\<close>

section \<open>Parked operations\<close>

lemma deferred_fin_step:
  assumes "d_type d = RDS_DEFERRED_FIN" and "acct ep = (ps, ds, infl, oid, tly, cap)"
  shows "acct (snd (deferred_step os d ep)) = (ps, ds, infl, oid, tly, cap)"
  using assms by (simp add: deferred_step_def rds_send_fin_raw_def sys_send_def Let_def acct_def)

text \<open>
  A parked read that is tried again: it stays parked with nothing changed, or it leaves the queue
  and its operation is updated (and finalized when nothing is left to wait for).
\<close>

lemma ainv_deferred_step:
  assumes inv: "ainv ack (ps, kept @ d # rest, infl, oid, (pst, ntf), cap)"
    and a: "acct ep = (ps, kept @ rest, infl, oid, (pst, ntf), cap)"
    and run: "deferred_step os d ep = (keep, ep1)"
  shows "if keep then acct ep1 = acct ep
    else \<exists>qs fs pst'. acct ep1 = (qs, (kept @ rest) @ fs, infl, oid, (pst', ntf), cap) \<and> fins fs \<and>
      ainv ack (qs, (kept @ rest) @ fs, infl, oid, (pst', ntf), cap)"
proof (cases "d_type d")
  case RDS_DEFERRED_FIN
  have "acct ep1 = acct ep" using deferred_fin_step [OF RDS_DEFERRED_FIN a, of os] a run by simp
  moreover have "ainv ack (ps, kept @ rest, infl, oid, (pst, ntf), cap)"
    by (rule ainv_deferred [OF inv]) (use RDS_DEFERRED_FIN in auto)
  ultimately show ?thesis using a by (auto intro!: exI [of _ "[]"] simp: fins_def)
next
  case RDS_DEFERRED_READ
  obtain p0 where p0: "p0 \<in> set ps" "p_id p0 = d_id d" "p_type p0 = RDS_PEND_RNDZV_RX"
    using ainvD(4) [OF inv, of d] RDS_DEFERRED_READ by auto
  obtain k where f: "rds_pending_find ep (d_id d) = Some k"
    using pending_find_None [OF _ a] p0 by (cases "rds_pending_find ep (d_id d)") force+
  from f a obtain xs p ys where s: "ps = xs @ p # ys" "k = length xs" "p_id p = d_id d" "pending ep ! k = p"
    by (rule pending_find_split)
  have rx: "p_type p = RDS_PEND_RNDZV_RX"
    using p0 s ainvD(1) [OF inv] distinct_mid [of p_id xs p ys p0] by auto
  have ok: "pend_ok pst ack (kept @ d # rest) p" using ainvD(3) [OF inv, of p] s by simp
  then have nz: "p_seg_deferred p \<noteq> 0" and pk: "unat (p_seg_deferred p) = parked (kept @ rest) (p_id p) + 1"
    and le: "unat (p_seg_remaining p) + unat (p_seg_deferred p) \<le> 65535"
    and cnt: "unat (p_seg_remaining p) + ack (p_id p) = pst (p_id p)"
    using s rx RDS_DEFERRED_READ by (auto simp: pend_ok_def)
  obtain ret ep2 where po: "rds_post_rdma os (d_peer d) (d_cookie d) (d_remote_off d) (d_liov d) False True (d_id d) ep = (ret, ep2)"
    by fastforce
  note e2 = post_rdma_acct [OF a po]
  show ?thesis
  proof (cases "ret = - FI_EAGAIN")
    case True
    with run RDS_DEFERRED_READ f po e2 a show ?thesis by (simp add: deferred_step_def)
  next
    case False
    define pst' where "pst' = (if ret = 0 then pst(d_id d := pst (d_id d) + 1) else pst)"
    define p1 where "p1 = p\<lparr>p_seg_deferred := p_seg_deferred p - 1\<rparr>"
    define p2 where "p2 = (if ret = 0 then p1\<lparr>p_seg_remaining := p_seg_remaining p1 + 1\<rparr>
      else if p_error p1 = 0 then p1\<lparr>p_error := abs_status ret\<rparr> else p1)"
    have p2: "p_id p2 = p_id p" "p_type p2 = p_type p" "unat (p_seg_deferred p2) + 1 = unat (p_seg_deferred p)"
      "unat (p_seg_remaining p2) = unat (p_seg_remaining p) + (if ret = 0 then 1 else 0)"
      using unat_u32_dec [OF nz] unat_u32_inc [of "p_seg_remaining p"] le by (auto simp: p2_def p1_def)
    have e2': "acct ep2 = (xs @ p # ys, kept @ rest, infl, oid, (pst', ntf), cap)" using e2 s by (simp add: pst'_def)
    have "pending ep2 ! k = p" using e2' s by (simp add: acct_def)
    then have res: "keep = False" "ep1 = (if p_seg_remaining p2 = 0 \<and> p_seg_deferred p2 = 0
        then rds_rndzv_rx_finalize os k (pending_put k p2 ep2) else pending_put k p2 ep2)"
      using run RDS_DEFERRED_READ f po False
      unfolding deferred_step_def Let_def p1_def p2_def by (auto split: if_splits)
    have e3: "acct (pending_put k p2 ep2) = (xs @ p2 # ys, kept @ rest, infl, oid, (pst', ntf), cap)"
      using pending_put_acct [OF e2', of k p2] s by simp
    have cnt2: "unat (p_seg_remaining p2) + ack (p_id p) = pst' (p_id p)"
      "unat (p_seg_deferred p2) = parked (kept @ rest) (p_id p)"
      using cnt p2 pk s by (auto simp: pst'_def)
    have oth: "pst' t = pst t" "parked (kept @ rest) t = parked (kept @ d # rest) t" if "t \<noteq> p_id p" for t
      using that s by (auto simp: pst'_def)
    show ?thesis
    proof (cases "p_seg_remaining p2 = 0 \<and> p_seg_deferred p2 = 0")
      case True
      from finalize_acct [OF e3, of os] obtain fs where
        fs: "acct ep1 = (xs @ ys, (kept @ rest) @ fs, infl, oid, (pst', ntf), cap)" "fins fs"
        using True res s by auto
      have "ainv ack (xs @ ys, kept @ rest, if is_tx p then infl - 1 else infl, oid, (pst', ntf), cap)"
        by (rule ainv_remove [OF inv [unfolded s(1)]]) (use True cnt2 oth in auto)
      then have "ainv ack (xs @ ys, kept @ rest, infl, oid, (pst', ntf), cap)" using rx by (simp add: is_tx_def)
      from ainv_fins [OF this fs(2)] fs res(1) show ?thesis by auto
    next
      case False
      have "pend_ok pst' ack (kept @ rest) p2" using cnt2 p2 rx le False by (auto simp: pend_ok_def)
      from ainv_update [OF inv [unfolded s(1)] p2(1,2) this] oth
      have "ainv ack (xs @ p2 # ys, kept @ rest, infl, oid, (pst', ntf), cap)" by auto
      with False e3 res show ?thesis by (auto intro!: exI [of _ "[]"] simp: fins_def)
    qed
  qed
qed

lemma progress_deferred_loop_inv:
  assumes "acct_inv ack ep" and "deferred ep = kept @ ds" and "progress_deferred_loop os kept ds b ep = (b', ep')"
  shows "acct_inv ack ep' \<and> op_id ep' = op_id ep"
  using assms
proof (induction os kept ds b ep rule: progress_deferred_loop.induct)
  case (1 os kept blocked ep)
  then show ?case by simp
next
  case (2 os kept d rest blocked ep)
  obtain ps ds infl oid pst ntf cap where a: "acct ep = (ps, ds, infl, oid, (pst, ntf), cap)" by (rule acct_cases)
  have ds: "ds = kept @ d # rest" using a 2(4) by (simp add: acct_def)
  have inv: "ainv ack (ps, kept @ d # rest, infl, oid, (pst, ntf), cap)" using 2(3) a ds by (simp add: acct_inv_def)
  let ?e0 = "ep\<lparr>deferred := kept @ rest\<rparr>"
  have a0: "acct ?e0 = (ps, kept @ rest, infl, oid, (pst, ntf), cap)" using a by (simp add: acct_def)
  obtain keep ep1 where st: "deferred_step os d ?e0 = (keep, ep1)" by fastforce
  note step = ainv_deferred_step [OF inv a0 st]
  show ?case
  proof (cases keep)
    case True
    let ?e1 = "ep1\<lparr>deferred := kept @ d # rest\<rparr>"
    have "acct ep1 = acct ?e0" using step True by simp
    then have e1: "acct ?e1 = acct ep" using a a0 ds by (simp add: acct_def)
    then have "acct_inv ack ?e1" "op_id ?e1 = op_id ep" using 2(3) acct_inv_cong [OF e1] by (simp_all add: acct_def)
    with 2(1) [OF st [symmetric]] True 2(5) st show ?thesis by simp
  next
    case False
    with step obtain qs fs pst' where e1: "acct ep1 = (qs, (kept @ rest) @ fs, infl, oid, (pst', ntf), cap)"
      and inv1: "ainv ack (qs, (kept @ rest) @ fs, infl, oid, (pst', ntf), cap)" by auto
    then have i1: "acct_inv ack ep1" "op_id ep1 = op_id ep" "deferred ep1 = kept @ rest @ fs"
      using a by (simp_all add: acct_inv_def acct_def)
    show ?thesis
    proof (cases "rest = []")
      case True
      with 2(5) st False i1 show ?thesis by simp
    next
      case nonempty: False
      with 2(2) [OF st [symmetric]] False 2(5) st i1 show ?thesis by simp
    qed
  qed
qed

lemma good_progress_deferred: "good ack n ep \<Longrightarrow> good ack n (snd (rds_progress_deferred os ep))"
  using progress_deferred_loop_inv [of ack ep "[]" "deferred ep" os False]
  by (cases "progress_deferred_loop os [] (deferred ep) False ep")
    (simp add: good_def id_room_def rds_progress_deferred_def)

section \<open>Receives and sends\<close>

lemma good_post_recv:
  assumes "good ack (Suc n) ep"
  shows "good ack n (snd (rds_post_recv os vs a tag ig cx fl tg ep))"
proof -
  obtain r ep1 where m: "rds_match_unexp a tag ig tg ep = (r, ep1)" by fastforce
  with acct_match_unexp [of a tag ig tg ep] have c1: "acct ep1 = acct ep" by simp
  with assms have g1: "good ack (Suc n) ep1" using good_cong by blast
  obtain x ep2 where al: "ep_alloc os ObjRx ep1 = (x, ep2)" by fastforce
  with acct_ep_alloc [of os ObjRx ep1] have "acct ep2 = acct ep1" by simp
  with good_less [OF g1] have g2: "good ack n ep2" using good_cong by blast
  have "length (take (unat (hdr_seg_cnt h)) xs) \<le> 65535" for h :: rds_hdr and xs :: "rds_rndzv_seg list"
    using unat_u16_le [of "hdr_seg_cnt h"] by simp
  note st = good_start_rndzv_read [OF g1 this]
  show ?thesis
    using good_less [OF assms] good_less [OF g1] st g2
    by (cases r; cases x) (simp_all add: rds_post_recv_def Let_def m al good_cong [OF acct_deliver_eager]
        good_cong [OF acct_upd(3)] good_cong [OF acct_upd(4)])
qed

lemma ainv_parked_none:
  assumes inv: "ainv ack (ps, ds, infl, oid, (pst, ntf), cap)" and "t \<notin> p_id ` set ps"
  shows "parked ds t = 0"
proof -
  have "\<not> (d_type d = RDS_DEFERRED_READ \<and> d_id d = t)" if m: "d \<in> set ds" for d
  proof
    assume d: "d_type d = RDS_DEFERRED_READ \<and> d_id d = t"
    then obtain p where "p \<in> set ps" "p_id p = t" using ainvD(4) [OF inv m] by blast
    with assms(2) show False by blast
  qed
  then show ?thesis by (simp add: parked_def filter_empty_conv)
qed

text \<open>The request goes out and the send becomes pending, or nothing is left of it.\<close>

lemma ainv_rndzv_ship:
  assumes inv: "ainv ack (ps, ds, infl, oid, (pst, ntf), cap)"
    and a: "acct ep = (ps @ [p], ds, infl, p_id p, (pst, ntf), cap)"
    and p: "oid < p_id p" "is_tx p" "p_seg_remaining p = 0" "p_seg_deferred p = 0" and tx: "unat infl < cap"
    and run: "rndzv_ship os (length ps) bs de da regs ns ep = (ret, ep')"
  shows "\<exists>qs infl'. acct ep' = (qs, ds, infl', p_id p, (pst, ntf), cap) \<and>
    ainv ack (qs, ds, infl', p_id p, (pst, ntf), cap)"
proof -
  have new: "p_id p \<notin> p_id ` set ps" using ainvD(2) [OF inv] p(1) by (metis imageE leD)
  then have "parked ds (p_id p) = 0" by (rule ainv_parked_none [OF inv])
  then have ok: "pend_ok pst ack (ds @ []) p"
    using p ainvD(5) [OF inv new] by (simp add: pend_ok_def is_tx_def)
  have sent: "ainv ack (ps @ [p], ds, infl + 1, p_id p, (pst, ntf), cap)"
    using ainv_insert [OF inv p(1) ok] p tx by simp
  have kept: "ainv ack (ps, ds, infl, p_id p, (pst, ntf), cap)" using ainv_op_id [OF inv] p(1) by simp
  define q where "q = (if eager_rdma ep
      then rds_ring_send os (sizeof_rds_hdr + ns * sizeof_rds_rndzv_seg) (\<lambda>_. bs) da 0 0 0 0 False False RDS_OP_RTS ep
      else (- FI_ENOSYS, ep))"
  have c1: "acct (snd q) = acct ep" by (simp add: q_def)
  define e2 where "e2 = (snd q)\<lparr>hist := snd (sys_send os de bs (hist (snd q)))\<rparr>"
  have c2: "acct e2 = acct ep" using c1 by (simp add: e2_def acct_hist)
  have inc: "acct (e\<lparr>rndzv_tx_inflight := rndzv_tx_inflight e + 1\<rparr>) = (ps @ [p], ds, infl + 1, p_id p, (pst, ntf), cap)"
    if "acct e = acct ep" for e using that a by (simp add: acct_def)
  have rem: "acct (unregister os regs (pending_remove (length ps) e)) = (ps, ds, infl, p_id p, (pst, ntf), cap)"
    if "acct e = acct ep" for e
    using pending_remove_acct [of e ps p "[]"] that a by simp
  have "acct ep' = (ps @ [p], ds, infl + 1, p_id p, (pst, ntf), cap) \<or> acct ep' = (ps, ds, infl, p_id p, (pst, ntf), cap)"
    using run inc [OF c1] inc [OF c2] rem [OF c1] rem [OF c2]
    unfolding rndzv_ship_def Let_def q_def [symmetric]
    by (auto simp: case_prod_beta e2_def split: if_splits)
  with sent kept show ?thesis by blast
qed

lemma good_send_rndzv:
  assumes g: "good ack (Suc n) ep" and run: "rds_send_rndzv os vs de tag da cx fl tg gc dai ep = Some (ret, ep')"
  shows "good ack n ep'"
proof -
  let ?ns = "seg_count vs"
  obtain a1 ep1 where al1: "ep_alloc os (ObjMrArray ?ns) ep = (a1, ep1)" by fastforce
  obtain a2 ep2 where al2: "ep_alloc os (ObjSegs ?ns) ep1 = (a2, ep2)" by fastforce
  have c2: "acct ep2 = acct ep" using acct_ep_alloc al1 al2 by (metis snd_conv)
  have less: "good ack n e" if "acct e = acct ep" for e using good_cong [OF that] good_less [OF g] by blast
  consider (early) "ep' = ep \<or> ep' = ep2"
    | (loop) err segs regs ep3 where "\<not> unat (rndzv_tx_inflight ep) \<ge> rds_rndzv_max_inflight (cfg ep)"
        "rndzv_reg_loop os (cache_enabled ep) de (src_chunks vs) [] [] ep2 = Some (err, segs, regs, ep3)"
    using run by (auto simp: rds_send_rndzv_def Let_def al1 al2 split: if_splits option.splits prod.splits)
  then show ?thesis
  proof cases
    case early
    then show ?thesis using less c2 by auto
  next
    case loop
    note c3 = acct_rndzv_reg_loop [OF loop(2)]
    obtain r ep4 where al: "rds_pending_alloc os RDS_PEND_RNDZV_TX cx (send_comp_flags tg) ep3 = (r, ep4)" by fastforce
    obtain ps ds infl oid pst ntf cap where a: "acct ep3 = (ps, ds, infl, oid, (pst, ntf), cap)" by (rule acct_cases)
    have g3: "good ack (Suc n) ep3" using g good_cong c2 c3 by metis
    have tx: "unat infl < cap" using loop(1) c2 c3 a by (simp add: acct_def)
    show ?thesis
    proof (cases r)
      case None
      from pending_alloc_None [OF al [unfolded None]] c2 c3 have "acct ep4 = acct ep" by simp
      then show ?thesis
        using run less c2 c3 acct_unregister
        by (auto simp: rds_send_rndzv_def Let_def al1 al2 loop(2) al None split: if_splits)
    next
      case (Some kp)
      then obtain k p where kp: "r = Some (k, p)" by (metis surj_pair)
      from g3 have room: "id_room (Suc n) ep3" by (simp add: good_def)
      from pending_alloc_Some [OF a room al [unfolded kp]]
      have k: "k = length ps" and p: "p = pending_init (oid + 1) RDS_PEND_RNDZV_TX cx (send_comp_flags tg)"
        and fresh: "oid < oid + 1" and e4: "acct ep4 = (ps @ [p], ds, infl, oid + 1, (pst, ntf), cap)"
        and r4: "id_room n ep4" by auto
      define p1 where "p1 = p\<lparr>p_len := ofi_total_iov_len vs,
          p_mrs := (if cache_enabled ep then None else Some (reg_mrs regs)),
          p_cmrs := (if cache_enabled ep then Some (reg_cmrs regs) else None),
          p_mr_cnt := of_nat ?ns, p_no_comp := \<not> gc\<rparr>"
      have p1: "p_id p1 = oid + 1" "is_tx p1" "p_seg_remaining p1 = 0" "p_seg_deferred p1 = 0"
        by (simp_all add: p1_def p pending_init_def is_tx_def)
      have e5: "acct (pending_put k p1 ep4) = (ps @ [p1], ds, infl, p_id p1, (pst, ntf), cap)"
        using pending_put_acct [OF e4, of k p1] k p1 by simp
      let ?bs = "enc_hdr (rts_hdr ?ns (ofi_total_iov_len vs) tag da fl tg (p_id p)) @ enc_segs segs"
      have "(err \<noteq> 0 \<and> ep' = unregister os regs ep3) \<or> ep' = ep \<or> ep' = ep2 \<or>
          rndzv_ship os k ?bs de dai regs ?ns (pending_put k p1 ep4) = (ret, ep')"
        using run unfolding rds_send_rndzv_def Let_def p1_def
        by (auto simp: al1 al2 loop(2) al kp split: if_splits)
      then show ?thesis
      proof (elim disjE conjE)
        assume "ep' = unregister os regs ep3"
        then show ?thesis using less [of ep'] c2 c3 by simp
      next
        assume "rndzv_ship os k ?bs de dai regs ?ns (pending_put k p1 ep4) = (ret, ep')"
        from ainv_rndzv_ship [OF goodD(1) [OF g3 a] e5 [unfolded k] _ p1(2-4) tx this [unfolded k]] p1(1) fresh
        obtain qs infl' where "acct ep' = (qs, ds, infl', oid + 1, (pst, ntf), cap)"
          "ainv ack (qs, ds, infl', oid + 1, (pst, ntf), cap)" by auto
        then show ?thesis using r4 e4 by (intro goodI) (auto simp: id_room_def acct_def)
      qed (use less c2 in auto)
    qed
  qed
qed

lemma good_generic_send:
  assumes g: "good ack (Suc n) ep" and run: "rds_generic_send os vs de tag da cx fl tg ep = Some (ret, ep')"
  shows "good ack n ep'"
proof -
  let ?n = "ofi_total_iov_len vs"
  define q where "q = (if eager_rdma ep \<and> ?n \<le> unat (ring_payload ep)
      then rds_ring_send os ?n (iov_payload vs ?n) de tag da cx fl tg
             (has_flag (tx_op_flags ep OR fl) FI_COMPLETION) RDS_OP_EAGER ep
      else (- FI_ENOSYS, ep))"
  have "acct (snd q) = acct ep" by (simp add: q_def)
  then have gq: "good ack (Suc n) (snd q)" using g good_cong by blast
  have eg: "good ack n (snd (rds_send_eager os vs d tag da cx fl tg gc (snd q)))" for d gc
    using good_less [OF gq] by (simp add: good_cong [OF acct_send_eager])
  show ?thesis
    using run gq good_less [OF gq] good_less [OF g] good_send_rndzv [OF gq] eg
    unfolding rds_generic_send_def Let_def q_def [symmetric]
    by (auto simp: case_prod_beta split: if_splits option.splits) (metis snd_conv)+
qed

lemma good_generic_inject: "good ack n ep \<Longrightarrow> good ack n (snd (rds_generic_inject os b l de tag tg ep))"
  by (simp add: good_cong [OF acct_generic_inject])

section \<open>One-sided operations\<close>

lemma rma_loop_acct:
  assumes "rma_loop os vs de key ro w tlen off p ep = (ret, p', ep')"
    and "acct ep = (ps, ds, infl, oid, (pst, ntf), cap)"
    and "unat (p_seg_remaining p) + (tlen - off) < 4294967296"
  shows "\<exists>a. acct ep' = (ps, ds, infl, oid, (pst(p_id p := pst (p_id p) + a), ntf), cap) \<and> p_id p' = p_id p \<and>
    p_type p' = p_type p \<and> p_seg_deferred p' = p_seg_deferred p \<and>
    unat (p_seg_remaining p') = unat (p_seg_remaining p) + a"
  using assms
proof (induction os vs de key ro w tlen off p ep arbitrary: pst rule: rma_loop.induct)
  case (1 os vs de key ro w tlen off p ep)
  have none: ?case if "p' = p" "acct ep' = acct ep" using that 1(3) by (intro exI [of _ 0]) simp
  show ?case
  proof (cases "off < tlen")
    case False
    then have "p' = p" "ep' = ep" using 1(2) by (simp_all add: rma_loop.simps [of os vs de key ro w tlen off p ep])
    then show ?thesis by (intro none) simp_all
  next
    case True
    obtain liov got where sl: "rds_iov_slice vs off (min (tlen - off) RDS_KERNEL_SEG_MAX) = (liov, got)" by fastforce
    show ?thesis
    proof (cases "got = 0")
      case z: True
      then have "p' = p" "ep' = ep"
        using 1(2) True sl by (simp_all add: rma_loop.simps [of os vs de key ro w tlen off p ep])
      then show ?thesis by (intro none) simp_all
    next
      case nz: False
      obtain r ep1 where po: "rds_post_rdma os de key (ro + of_nat off) liov w True (p_id p) ep = (r, ep1)" by fastforce
      note e1 = post_rdma_acct [OF 1(3) po]
      let ?p1 = "p\<lparr>p_seg_remaining := p_seg_remaining p + 1\<rparr>"
      show ?thesis
      proof (cases "r = 0")
        case False
        then have "p' = p" "ep' = ep1"
          using 1(2) True sl nz po by (simp_all add: rma_loop.simps [of os vs de key ro w tlen off p ep])
        then show ?thesis using e1 False 1(3) by (intro none) simp_all
      next
        case ok: True
        have run: "rma_loop os vs de key ro w tlen (off + got) ?p1 ep1 = (ret, p', ep')"
          using 1(2) True sl nz po ok by (simp add: rma_loop.simps [of os vs de key ro w tlen off p ep])
        have inc: "unat (p_seg_remaining p + 1) = unat (p_seg_remaining p) + 1"
          using 1(4) True by (intro unat_u32_inc) linarith
        define pst1 where "pst1 = pst(p_id p := pst (p_id p) + 1)"
        have e: "acct ep1 = (ps, ds, infl, oid, (pst1, ntf), cap)" using e1 ok by (simp add: pst1_def)
        have "unat (p_seg_remaining ?p1) + (tlen - (off + got)) < 4294967296"
          using 1(4) True nz inc by simp
        from 1(1) [OF True sl [symmetric] nz po [symmetric] _ run e this] ok inc obtain a where
          "acct ep' = (ps, ds, infl, oid, (pst1(p_id p := pst1 (p_id p) + a), ntf), cap)"
          "p_id p' = p_id p" "p_type p' = p_type p" "p_seg_deferred p' = p_seg_deferred p"
          "unat (p_seg_remaining p') = unat (p_seg_remaining p) + 1 + a" by (auto simp: fun_upd_def)
        then show ?thesis by (intro exI [of _ "1 + a"]) (simp add: pst1_def fun_eq_iff)
      qed
    qed
  qed
qed

text \<open>A one-sided operation becomes pending with what it has posted, or leaves nothing.\<close>

lemma ainv_rma_insert:
  assumes inv: "ainv ack (ps, ds, infl, oid, (pst, ntf), cap)" and "oid < p_id p" "p_type p = RDS_PEND_RMA"
    "p_seg_deferred p = 0" "unat (p_seg_remaining p) = a" "0 < a"
  shows "ainv ack (ps @ [p], ds, infl, p_id p, (pst(p_id p := pst (p_id p) + a), ntf), cap)"
proof -
  have new: "p_id p \<notin> p_id ` set ps" using ainvD(2) [OF inv] assms(2) by (metis imageE leD)
  have "pend_ok (pst(p_id p := pst (p_id p) + a)) ack (ds @ []) p"
    using assms(3-) ainvD(5) [OF inv new] ainv_parked_none [OF inv new] by (auto simp: pend_ok_def)
  from ainv_insert [OF inv assms(2) this] assms(3) show ?thesis by (simp add: is_tx_def)
qed

lemma good_rma_common:
  assumes g: "good ack (Suc n) ep"
  shows "good ack n (snd (rds_rma_common os vs fi ro key w cx fl ep))"
proof -
  let ?n = "rds_iov_len vs"
  let ?fl = "FI_RMA OR (if w then FI_WRITE else FI_READ)"
  obtain ps ds infl oid pst ntf cap where a: "acct ep = (ps, ds, infl, oid, (pst, ntf), cap)" by (rule acct_cases)
  have inv: "ainv ack (ps, ds, infl, oid, (pst, ntf), cap)" and room: "id_room (Suc n) ep"
    using goodD [OF g a] g by (simp_all add: good_def)
  obtain r ep1 where al: "rds_pending_alloc os RDS_PEND_RMA cx ?fl ep = (r, ep1)" by fastforce
  show ?thesis
  proof (cases "?n > RDS_MAX_MSG_SIZE \<or> rds_av_addr ep fi = None")
    case True
    then show ?thesis using good_less [OF g] by (auto simp: rds_rma_common_def Let_def)
  next
    case False
    then obtain dest where av: "rds_av_addr ep fi = Some dest" and sz: "?n \<le> RDS_MAX_MSG_SIZE" by auto
    show ?thesis
    proof (cases r)
      case None
      with al have "acct ep1 = acct ep" using pending_alloc_None by blast
      with good_less [OF g] have "good ack n ep1" using good_cong by blast
      then show ?thesis using al None av sz by (simp add: rds_rma_common_def Let_def)
    next
      case (Some kp)
      then obtain k p where kp: "r = Some (k, p)" by (metis surj_pair)
      from pending_alloc_Some [OF a room al [unfolded kp]]
      have k: "k = length ps" and p: "p = pending_init (oid + 1) RDS_PEND_RMA cx ?fl"
        and fresh: "oid < oid + 1" and e1: "acct ep1 = (ps @ [p], ds, infl, oid + 1, (pst, ntf), cap)"
        and r1: "id_room n ep1" by auto
      define p1 where "p1 = p\<lparr>p_len := ?n, p_addr := fi, p_no_comp := \<not> has_flag (tx_op_flags ep OR fl) FI_COMPLETION\<rparr>"
      have p1: "p_id p1 = oid + 1" "p_type p1 = RDS_PEND_RMA" "p_seg_remaining p1 = 0" "p_seg_deferred p1 = 0"
        by (simp_all add: p1_def p pending_init_def)
      obtain ret p2 ep2 where lp: "rma_loop os vs dest key ro w ?n 0 p1 ep1 = (ret, p2, ep2)" using prod_cases3 by blast
      obtain c where e2: "acct ep2 = (ps @ [p], ds, infl, oid + 1, (pst(oid + 1 := pst (oid + 1) + c), ntf), cap)"
        and p2: "p_id p2 = oid + 1" "p_type p2 = RDS_PEND_RMA" "p_seg_deferred p2 = 0" "unat (p_seg_remaining p2) = c"
        using rma_loop_acct [OF lp e1] p1 sz by auto
      have room2: "unat (oid + 1) + n < 18446744073709551615" using r1 e1 by (simp add: id_room_def acct_def)
      have run: "snd (rds_rma_common os vs fi ro key w cx fl ep) =
          (if p_seg_remaining p2 = 0 then pending_remove k ep2
           else pending_put k (if ret \<noteq> 0 then p2\<lparr>p_error := - ret\<rparr> else p2) ep2)"
        unfolding rds_rma_common_def Let_def using av sz al kp lp by (simp add: p1_def)
      show ?thesis
      proof (cases "p_seg_remaining p2 = 0")
        case True
        with p2 have "c = 0" by auto
        with e2 have "acct (pending_remove k ep2) = (ps, ds, infl, oid + 1, (pst, ntf), cap)"
          using pending_remove_acct [of ep2 ps p "[]"] k by simp
        from goodI [OF this ainv_op_id [OF inv] room2] fresh True show ?thesis by (simp add: run)
      next
        case False
        define q where "q = (if ret \<noteq> 0 then p2\<lparr>p_error := - ret\<rparr> else p2)"
        have q: "p_id q = oid + 1" "p_type q = RDS_PEND_RMA" "p_seg_deferred q = 0" "unat (p_seg_remaining q) = c"
          using p2 by (simp_all add: q_def)
        have "0 < c" using False p2(4) by (simp add: unat_gt_0 [symmetric])
        with ainv_rma_insert [OF inv, of q c] q fresh
        have "ainv ack (ps @ [q], ds, infl, oid + 1, (pst(oid + 1 := pst (oid + 1) + c), ntf), cap)" by simp
        moreover have "acct (pending_put k q ep2) = (ps @ [q], ds, infl, oid + 1, (pst(oid + 1 := pst (oid + 1) + c), ntf), cap)"
          using pending_put_acct [OF e2, of k q] k by simp
        ultimately have "good ack n (pending_put k q ep2)" using room2 by (intro goodI)
        with False show ?thesis by (simp add: run q_def)
      qed
    qed
  qed
qed

lemma good_inject_write:
  assumes g: "good ack (Suc n) ep"
  shows "good ack n (snd (rds_inject_write os buf len de ra key ep))"
proof -
  obtain x ep1 where al1: "ep_alloc os (ObjBounce len) ep = (x, ep1)" by fastforce
  have c1: "acct ep1 = acct ep" using acct_ep_alloc [of os "ObjBounce len" ep] al1 by simp
  show ?thesis
  proof (cases "len > rds_eager_size (cfg ep) \<or> x = None")
    case True
    have "good ack n ep1" using good_less [OF g] good_cong [OF c1] by blast
    with True good_less [OF g] al1 show ?thesis by (auto simp: rds_inject_write_def split: option.splits)
  next
    case False
    then obtain b where x: "x = Some b" and sz: "\<not> len > rds_eager_size (cfg ep)" by auto
    define ep2 where "ep2 = ep1\<lparr>mem := mem_write (mem ep1) b (mem_read (mem ep1) buf len)\<rparr>"
    have c2: "acct ep2 = acct ep" using c1 by (simp add: ep2_def)
    then have g2: "good ack (Suc n) ep2" using g good_cong by blast
    obtain ps ds infl oid pst ntf cap where a: "acct ep2 = (ps, ds, infl, oid, (pst, ntf), cap)" by (rule acct_cases)
    have inv: "ainv ack (ps, ds, infl, oid, (pst, ntf), cap)" and room: "id_room (Suc n) ep2"
      using goodD [OF g2 a] g2 by (simp_all add: good_def)
    obtain r ep3 where al: "rds_pending_alloc os RDS_PEND_RMA 0 (FI_RMA OR FI_WRITE) ep2 = (r, ep3)" by fastforce
    show ?thesis
    proof (cases "rds_av_addr ep2 de = None \<or> r = None")
      case True
      have "good ack n ep3" if "r = None"
        using pending_alloc_None [OF al [unfolded that]] good_less [OF g2] good_cong by blast
      with True good_less [OF g2] al1 x sz al show ?thesis
        by (auto simp: rds_inject_write_def Let_def ep2_def split: option.splits)
    next
      case False
      then obtain dest k p where av: "rds_av_addr ep2 de = Some dest" and kp: "r = Some (k, p)" by auto
      from pending_alloc_Some [OF a room al [unfolded kp]]
      have k: "k = length ps" and p: "p = pending_init (oid + 1) RDS_PEND_RMA 0 (FI_RMA OR FI_WRITE)"
        and fresh: "oid < oid + 1" and e3: "acct ep3 = (ps @ [p], ds, infl, oid + 1, (pst, ntf), cap)"
        and r3: "id_room n ep3" by auto
      define p1 where "p1 = p\<lparr>p_no_comp := True, p_bounce := Some b, p_seg_remaining := 1\<rparr>"
      have p1: "p_id p1 = oid + 1" "p_type p1 = RDS_PEND_RMA" "unat (p_seg_remaining p1) = 1" "p_seg_deferred p1 = 0"
        by (simp_all add: p1_def p pending_init_def)
      have e4: "acct (pending_put k p1 ep3) = (ps @ [p1], ds, infl, oid + 1, (pst, ntf), cap)"
        using pending_put_acct [OF e3, of k p1] k by simp
      obtain ret ep4 where po: "rds_post_rdma os dest key ra [iov b len] True True (p_id p) (pending_put k p1 ep3) = (ret, ep4)"
        by fastforce
      note e5 = post_rdma_acct [OF e4 po]
      have room2: "unat (oid + 1) + n < 18446744073709551615" using r3 e3 by (simp add: id_room_def acct_def)
      have run: "snd (rds_inject_write os buf len de ra key ep) = (if ret \<noteq> 0 then pending_remove k ep4 else ep4)"
        unfolding rds_inject_write_def Let_def using sz al1 x av al kp po by (simp add: ep2_def p1_def)
      show ?thesis
      proof (cases "ret = 0")
        case True
        with ainv_rma_insert [OF inv, of p1 1] p1 fresh e5 have
          "ainv ack (ps @ [p1], ds, infl, oid + 1, (pst(oid + 1 := pst (oid + 1) + 1), ntf), cap)"
          "acct ep4 = (ps @ [p1], ds, infl, oid + 1, (pst(oid + 1 := pst (oid + 1) + 1), ntf), cap)"
          by (simp_all add: p pending_init_def)
        from goodI [OF this(2,1) room2] True show ?thesis by (simp add: run)
      next
        case False
        then have "acct (pending_remove k ep4) = (ps, ds, infl, oid + 1, (pst, ntf), cap)"
          using pending_remove_acct [of ep4 ps p1 "[]"] e5 k by simp
        from goodI [OF this ainv_op_id [OF inv] room2] fresh False show ?thesis by (simp add: run)
      qed
    qed
  qed
qed

end
