(* ===== verification/Rds_Testbed.thy ===== *)
theory Rds_Testbed
  imports Rds_State
begin

text \<open>
  A concrete kernel and a concrete domain, at which the theorems of the other theories are
  applied: a kernel that accepts every request, has nothing to receive and allocates at
  address 4096, and a domain with one known address and the default tunables.
\<close>

definition calm_os :: os where
  "calm_os = \<lparr>os_send = (\<lambda>h d bs. 0), os_rdma = (\<lambda>h d ra. 0), os_recv = (\<lambda>h sz. Inl EAGAIN),
     os_alloc = (\<lambda>h ob. Some 4096), os_get_mr = (\<lambda>h s b n f d. Inr 7), os_time = (\<lambda>h. 0),
     os_pool = (\<lambda>h. None), os_node = (\<lambda>h. True), os_valid = (\<lambda>h a b. True),
     os_subscribe = (\<lambda>h v. 0), os_beyond = (\<lambda>h i. 0)\<rparr>"

text \<open>The same kernel with a full socket: every send and every RDMA request is refused for now.\<close>

definition busy_os :: os where
  "busy_os = calm_os\<lparr>os_send := (\<lambda>h d bs. EAGAIN), os_rdma := (\<lambda>h d ra. EAGAIN)\<rparr>"

definition sample_cache :: "cached_mr mr_cache" where
  "sample_cache = \<lparr>c_entries = (\<lambda>_. None), c_next = 0, c_tree = Sentinel, c_lru = [], c_dead = [],
     cached_cnt = 0, cached_size = 0, cached_max_cnt = 16, cached_max_size = 65536,
     uncached_cnt = 0, uncached_size = 0, search_cnt = 0, delete_cnt = 0, hit_cnt = 0, notify_cnt = 0\<rparr>"

definition sample_av :: util_av where
  "sample_av = \<lparr>av_entries = [1 \<mapsto> \<lparr>ave_addr = 9, ave_use_cnt = 1\<rparr>], av_hash = [9 \<mapsto> 1]\<rparr>"

definition sample_cfg :: rds_config where
  "sample_cfg = \<lparr>rds_eager_size = 8192, rds_eager_rdma = False, rds_ring_slots = 4, rds_ring_slot_size = 128,
     rds_ring_max_peers = 8, rds_mr_cache_enable = False, rds_rndzv_max_inflight = 2, rds_sndbuf = 0, rds_rcvbuf = 0\<rparr>"

definition sample_dom :: rds_ep where
  "sample_dom = \<lparr>hist = [], mem = (\<lambda>_. 0), cq_log = [], ep_sock = - 1, is_bound = False,
     ep_caps = FI_MSG OR FI_TAGGED OR FI_RMA, tx_op_flags = FI_COMPLETION, rx_op_flags = FI_COMPLETION, tx_cq = True,
     rx_cq = True, ep_av = Some sample_av, rx_posted_msg = [], rx_posted_tag = [], rx_unexp_msg = [],
     rx_unexp_tag = [], pending = [], deferred = [], rndzv_tx_inflight = 0, op_id = 0, rx_buf_size = 0,
     eager_rdma = False, ring_slots = 0, ring_slot_size = 0, ring_max_peers = 0, ring_payload = 0,
     peer_hash = (\<lambda>_. []), peer_lru = [], peers = (\<lambda>_. None), peer_cnt = 0, reg_ep = None,
     cache_enabled = False, dom_cache = sample_cache, cfg = sample_cfg\<rparr>"

lemmas testbed_simps = calm_os_def busy_os_def sample_cache_def sample_av_def sample_cfg_def sample_dom_def

end
