(* ===== verification/Rds_Reach.thy ===== *)
theory Rds_Reach
  imports Rds_Live Rds_Testbed
begin

text \<open>
  The progress engine keeps the accounting invariant as long as the kernel notifies only what
  was posted, and so does every sequence of calls an application can make on an endpoint.  What
  the invariant gives at the end: no operation is left waiting for nothing.
\<close>

section \<open>Notifications received are untouched by everything but a receive\<close>

definition ntf :: "rds_ep \<Rightarrow> u64 \<Rightarrow> nat" where
  "ntf ep = notified (hist ep)"

lemma ntf_upd [simp]:
  "ntf (ep\<lparr>deferred := ds\<rparr>) = ntf ep" "ntf (ep\<lparr>pending := ps\<rparr>) = ntf ep" "ntf (ep\<lparr>op_id := i\<rparr>) = ntf ep"
  "ntf (ep\<lparr>rx_unexp_msg := us\<rparr>) = ntf ep" "ntf (ep\<lparr>rx_unexp_tag := us\<rparr>) = ntf ep"
  "ntf (pending_put k p ep) = ntf ep"
  by (simp_all add: ntf_def pending_put_def)

lemma tally_cong: "acct ep' = acct ep \<Longrightarrow> tally (hist ep') = tally (hist ep)"
  by (simp add: acct_def)

lemma ntf_tally: "tally (hist ep') = tally (hist ep) \<Longrightarrow> ntf ep' = ntf ep"
  by (simp add: ntf_def tally_def)

lemma tally_send_fin [simp]: "tally (hist (rds_send_fin os pe i ep)) = tally (hist ep)"
proof -
  obtain ps ds infl oid pst nt cap where a: "acct ep = (ps, ds, infl, oid, (pst, nt), cap)" by (rule acct_cases)
  from send_fin_acct [OF this, of os pe i] a show ?thesis by (auto simp: acct_def)
qed

lemma hist_pending [simp]:
  "hist (pending_put k p ep) = hist ep" "hist (pending_remove k ep) = hist ep"
  by (simp_all add: pending_put_def pending_remove_def)

lemma hist_cq [simp]:
  "hist (rds_cq_write_tx c f l e ep) = hist ep" "hist (rds_cq_write_rx c f l d t s e ep) = hist ep"
  by (simp_all add: rds_cq_write_tx_def rds_cq_write_rx_def cq_push_def)

lemma tally_finalize [simp]: "tally (hist (rds_rndzv_rx_finalize os k ep)) = tally (hist ep)"
  by (simp add: rds_rndzv_rx_finalize_def Let_def)

lemma tally_complete [simp]: "tally (hist (rds_pending_complete os k ep)) = tally (hist ep)"
  by (simp add: rds_pending_complete_def Let_def tally_cong [OF acct_release_mrs])

lemma tally_handle_rdma_notify [simp]: "tally (hist (rds_handle_rdma_notify os t st ep)) = tally (hist ep)"
  by (simp add: rds_handle_rdma_notify_def Let_def split: option.splits rds_pend_type.splits)

lemma ntf_post_rdma: "rds_post_rdma os d c ro vs w n t ep = (r, ep1) \<Longrightarrow> ntf ep1 = ntf ep"
  by (auto simp: rds_post_rdma_def sys_rdma_def Let_def ntf_def fun_eq_iff split: if_splits prod.splits)

lemma ntf_ep_alloc: "ep_alloc os ob ep = (r, ep1) \<Longrightarrow> ntf ep1 = ntf ep"
  using acct_ep_alloc [of os ob ep] ntf_tally [OF tally_cong] by (metis snd_conv)

lemma ntf_read_seg:
  assumes "rndzv_read_seg os rx pe s off tn p ep = (p', ep')"
  shows "ntf ep' = ntf ep"
proof -
  obtain r ep1 where po: "rds_post_rdma os pe (seg_cookie s) (seg_off s) (fst (rds_iov_slice (rx_iov rx) off tn))
      False True (p_id p) ep = (r, ep1)" by fastforce
  have de: "rds_defer_read os pe c ro vs t ep1 = (q, ep2) \<Longrightarrow> ntf ep2 = ntf ep1" for c ro vs t q ep2
    by (auto simp: rds_defer_read_def rds_defer_enqueue_def
        split: prod.splits option.splits dest: ntf_ep_alloc)
  show ?thesis using assms po ntf_post_rdma [OF po]
    by (auto simp: rndzv_read_seg_def Let_def split: if_splits prod.splits dest: de)
qed

lemma ntf_read_loop: "rndzv_read_loop os rx pe ss off ef p ep = (p', ep') \<Longrightarrow> ntf ep' = ntf ep"
proof (induction ss arbitrary: off p ep)
  case Nil
  then show ?case by simp
next
  case (Cons s ss)
  then show ?case by (auto simp: Let_def split: if_splits prod.splits dest!: ntf_read_seg)
qed

lemma ntf_start_rndzv_read [simp]: "ntf (rds_start_rndzv_read os rx hdr segs pe src ep) = ntf ep"
proof -
  obtain r ep1 where al: "rds_pending_alloc os RDS_PEND_RNDZV_RX (rx_context rx) (rds_rx_flags hdr (hdr_tagged hdr)) ep = (r, ep1)"
    by fastforce
  then have e1: "ntf ep1 = ntf ep"
    by (auto simp: rds_pending_alloc_def Let_def rds_next_id_def split: option.splits prod.splits if_splits dest: ntf_ep_alloc)
  have fin: "ntf (rds_rndzv_rx_finalize os k e) = ntf e" "ntf (rds_send_fin os pe i e) = ntf e"
    "ntf (rds_cq_write_rx c f l d t sr er e) = ntf e" for k i c f l d t sr er e
    by (rule ntf_tally, simp)+
  show ?thesis
    using al e1 by (cases r) (auto simp: rds_start_rndzv_read_def Let_def fin
        split: option.splits prod.splits dest!: ntf_read_loop)
qed

lemma ntf_send_fin [simp]: "ntf (rds_send_fin os pe i ep) = ntf ep"
  by (rule ntf_tally) simp

lemma ntf_enqueue_unexp [simp]: "ntf (rds_enqueue_unexp os hdr pl src fi tg ep) = ntf ep"
  by (auto simp: rds_enqueue_unexp_def Let_def split: option.splits prod.splits dest!: ntf_ep_alloc)

lemma ntf_handle_fin [simp]: "ntf (rds_handle_fin os i ep) = ntf ep"
  by (rule ntf_tally) (simp add: rds_handle_fin_def split: option.splits)

lemma ntf_handle_message [simp]: "ntf (rds_handle_message os hdr pl src fi ep) = ntf ep"
proof -
  obtain r ep1 where m: "rds_match_posted hdr fi (hdr_tagged hdr) ep = (r, ep1)" by fastforce
  with acct_match_posted [of hdr fi "hdr_tagged hdr" ep] have "acct ep1 = acct ep" by simp
  from ntf_tally [OF tally_cong [OF this]] have "ntf ep1 = ntf ep" .
  moreover have "ntf (rds_deliver_eager rx hdr pl fi ep1) = ntf ep1" for rx
    using ntf_tally [OF tally_cong [OF acct_deliver_eager]] .
  ultimately show ?thesis by (cases r) (simp_all add: rds_handle_message_def Let_def m)
qed

lemma ntf_handle_inbound [simp]: "ntf (rds_handle_inbound os hdr pl src fi ep) = ntf ep"
  by (simp add: rds_handle_inbound_def ntf_tally [OF tally_cong [OF acct_ring_handle_ctrl]])

lemma ntf_deferred_step: "deferred_step os d ep = (b, ep') \<Longrightarrow> ntf ep' = ntf ep"
proof -
  have raw: "rds_send_fin_raw os pe i ep = (r, ep1) \<Longrightarrow> ntf ep1 = ntf ep" for pe i r ep1
    by (auto simp: rds_send_fin_raw_def sys_send_def ntf_def fun_eq_iff Let_def split: prod.splits)
  have fin: "ntf (rds_rndzv_rx_finalize os k e) = ntf e" for k e by (rule ntf_tally) simp
  show "deferred_step os d ep = (b, ep') \<Longrightarrow> ntf ep' = ntf ep"
    by (auto simp: deferred_step_def Let_def fin split: rds_deferred_type.splits prod.splits option.splits if_splits
        dest!: raw ntf_post_rdma)
qed

lemma ntf_deferred_loop: "progress_deferred_loop os kept ds b ep = (b', ep') \<Longrightarrow> ntf ep' = ntf ep"
proof (induction os kept ds b ep rule: progress_deferred_loop.induct)
  case (1 os kept blocked ep)
  then show ?case by simp
next
  case (2 os kept d rest blocked ep)
  obtain keep ep1 where st: "deferred_step os d (ep\<lparr>deferred := kept @ rest\<rparr>) = (keep, ep1)" by fastforce
  from ntf_deferred_step [OF this] have e1: "ntf ep1 = ntf ep" by simp
  with 2 st show ?case by (cases keep) (auto split: if_splits)
qed

lemma ntf_progress_deferred [simp]: "ntf (snd (rds_progress_deferred os ep)) = ntf ep"
  by (auto simp: rds_progress_deferred_def split: prod.splits dest: ntf_deferred_loop)

lemma ntf_pending_alloc: "rds_pending_alloc os ty cx fl ep = (r, ep1) \<Longrightarrow> ntf ep1 = ntf ep"
  by (auto simp: rds_pending_alloc_def Let_def rds_next_id_def split: option.splits prod.splits if_splits dest: ntf_ep_alloc)

lemma ntf_pending_remove [simp]: "ntf (pending_remove k ep) = ntf ep"
  by (simp add: ntf_def)

lemma ntf_post_recv [simp]: "ntf (snd (rds_post_recv os vs a tag ig cx fl tg ep)) = ntf ep"
proof -
  obtain r ep1 where m: "rds_match_unexp a tag ig tg ep = (r, ep1)" by fastforce
  with acct_match_unexp [of a tag ig tg ep] have "acct ep1 = acct ep" by simp
  from ntf_tally [OF tally_cong [OF this]] have e1: "ntf ep1 = ntf ep" .
  have eager: "ntf (rds_deliver_eager rx hdr pl fi ep1) = ntf ep1" for rx hdr pl fi
    using ntf_tally [OF tally_cong [OF acct_deliver_eager]] .
  have "ntf (e\<lparr>rx_posted_msg := q\<rparr>) = ntf e" "ntf (e\<lparr>rx_posted_tag := q\<rparr>) = ntf e" for e q by (simp_all add: ntf_def)
  with e1 eager show ?thesis
    by (cases r) (auto simp: rds_post_recv_def Let_def m split: option.splits prod.splits dest!: ntf_ep_alloc)
qed

lemma ntf_unregister [simp]: "ntf (unregister os rs ep) = ntf ep"
  by (rule ntf_tally [OF tally_cong [OF acct_unregister]])

lemma ntf_rndzv_ship: "rndzv_ship os k bs d da rs n ep = (r, ep') \<Longrightarrow> ntf ep' = ntf ep"
proof -
  obtain q ep1 where ri: "(if eager_rdma ep then rds_ring_send os (sizeof_rds_hdr + n * sizeof_rds_rndzv_seg) (\<lambda>_. bs) da 0 0 0 0
      False False RDS_OP_RTS ep else (- FI_ENOSYS, ep)) = (q, ep1)" by fastforce
  then have "acct ep1 = acct ep" by (metis acct_ring_send snd_conv)
  from ntf_tally [OF tally_cong [OF this]] have e1: "ntf ep1 = ntf ep" .
  have inf: "ntf (e\<lparr>rndzv_tx_inflight := i\<rparr>) = ntf e" for e i by (simp add: ntf_def)
  have snd: "ntf (e\<lparr>hist := SysSend a b c # hist e\<rparr>) = ntf e" for e a b c by (simp add: ntf_def fun_eq_iff)
  show "rndzv_ship os k bs d da rs n ep = (r, ep') \<Longrightarrow> ntf ep' = ntf ep"
    unfolding rndzv_ship_def ri using e1
    by (auto simp: inf snd sys_send_def Let_def split: if_splits prod.splits)
qed

lemma ntf_send_rndzv: "rds_send_rndzv os vs d tag da cx fl tg gc dad ep = Some (r, ep') \<Longrightarrow> ntf ep' = ntf ep"
proof -
  have loop: "rndzv_reg_loop os c d chs ss rs e = Some (er, ss', rs', e') \<Longrightarrow> ntf e' = ntf e" for c chs ss rs e er ss' rs' e'
    using ntf_tally [OF tally_cong [OF acct_rndzv_reg_loop]] .
  assume "rds_send_rndzv os vs d tag da cx fl tg gc dad ep = Some (r, ep')"
  then show "ntf ep' = ntf ep"
    by (auto simp: rds_send_rndzv_def Let_def split: if_splits prod.splits option.splits
        dest!: ntf_ep_alloc loop ntf_pending_alloc ntf_rndzv_ship)
qed

lemma ntf_generic_send:
  assumes "rds_generic_send os vs a tag da cx fl tg ep = Some (r, ep')"
  shows "ntf ep' = ntf ep"
proof -
  let ?n = "ofi_total_iov_len vs"
  obtain q ep1 where ri: "(if eager_rdma ep \<and> ?n \<le> unat (ring_payload ep)
      then rds_ring_send os ?n (iov_payload vs ?n) a tag da cx fl tg
        (has_flag (tx_op_flags ep OR fl) FI_COMPLETION) RDS_OP_EAGER ep else (- FI_ENOSYS, ep)) = (q, ep1)" by fastforce
  then have "acct ep1 = acct ep" by (metis acct_ring_send snd_conv)
  from ntf_tally [OF tally_cong [OF this]] have e1: "ntf ep1 = ntf ep" .
  have eager: "rds_send_eager os vs d tag da cx fl tg gc ep1 = (q', e) \<Longrightarrow> ntf e = ntf ep1" for d gc q' e
    using ntf_tally [OF tally_cong [OF acct_send_eager]] by (metis snd_conv)
  show ?thesis
    using assms e1 unfolding rds_generic_send_def Let_def ri
    by (auto split: if_splits option.splits prod.splits dest!: eager ntf_send_rndzv)
qed

lemma ntf_rma_loop: "rma_loop os vs d key ro w n off p ep = (r, p', ep') \<Longrightarrow> ntf ep' = ntf ep"
proof (induction os vs d key ro w n off p ep rule: rma_loop.induct)
  case (1 os vs d key ro w n off p ep)
  then show ?case
    by (subst (asm) (2) rma_loop.simps)
      (auto simp: Let_def split: if_splits prod.splits dest!: ntf_post_rdma)
qed

lemma ntf_rma_common [simp]: "ntf (snd (rds_rma_common os vs a ro key w cx fl ep)) = ntf ep"
  by (auto simp: rds_rma_common_def Let_def split: option.splits prod.splits dest!: ntf_pending_alloc ntf_rma_loop)

lemma ntf_inject_write [simp]: "ntf (snd (rds_inject_write os b len a ro key ep)) = ntf ep"
proof -
  have m: "ntf (e\<lparr>mem := x\<rparr>) = ntf e" for e x by (simp add: ntf_def)
  show ?thesis
    by (auto simp: rds_inject_write_def Let_def m split: option.splits prod.splits
        dest!: ntf_ep_alloc ntf_pending_alloc ntf_post_rdma)
qed

section \<open>Polling the rings\<close>

lemma good_add: "good ack (k + n) ep \<Longrightarrow> good ack n ep"
  by (simp add: good_def id_room_def)

lemma good_ring_deliver:
  "good ack (Suc n) ep \<Longrightarrow> good ack n (rds_ring_deliver os p sl pl ep)"
  by (simp add: rds_ring_deliver_def good_handle_inbound good_less)

lemma ntf_ring_deliver [simp]: "ntf (rds_ring_deliver os p sl pl ep) = ntf ep"
  by (simp add: rds_ring_deliver_def)

lemma ntf_peer_put [simp]: "ntf (peer_put a p ep) = ntf ep"
  by (rule ntf_tally) (simp add: peer_put_def)

lemma ntf_return_credit [simp]: "ntf (rds_ring_return_credit os a ep) = ntf ep"
  by (rule ntf_tally [OF tally_cong]) simp

lemma good_poll_step:
  assumes "good ack (Suc n) ep" and "ring_poll_step os a ep = Some ep'"
  shows "good ack n ep' \<and> ntf ep' = ntf ep"
proof -
  from assms(2) obtain p where p: "peers ep a = Some p" "rx_slot_ready ep p"
    by (auto simp: ring_poll_step_def split: option.splits if_splits)
  define p1 where "p1 = (if slot_ack (mem_get_slot (mem ep) (rx_slot_addr ep p)) > pr_tx_tail p
    then p\<lparr>pr_tx_tail := slot_ack (mem_get_slot (mem ep) (rx_slot_addr ep p))\<rparr> else p)"
  define ep1 where "ep1 = rds_ring_deliver os p1 (mem_get_slot (mem ep) (rx_slot_addr ep p))
    (mem_read (mem ep) (rds_slot_payload (rx_slot_addr ep p))
      (unat (slot_len (mem_get_slot (mem ep) (rx_slot_addr ep p))))) (peer_put a p1 ep)"
  have "good ack (Suc n) (peer_put a p1 ep)" using assms(1) by (simp add: good_cong [OF acct_peer_put])
  then have g1: "good ack n ep1" and n1: "ntf ep1 = ntf ep" by (simp_all add: ep1_def good_ring_deliver)
  from assms(2) p obtain p3 where "ep' = rds_ring_return_credit os a (peer_put a p3 ep1) \<or> ep' = peer_put a p3 ep1"
    by (auto simp: ring_poll_step_def Let_def p1_def [symmetric] ep1_def [symmetric] split: option.splits if_splits)
  with g1 n1 show ?thesis
    by (auto simp: good_cong [OF acct_return_credit] good_cong [OF acct_peer_put])
qed

lemma good_poll_loop:
  "good ack (k + n) ep \<Longrightarrow> ring_poll_loop k os a dr ep = (dr', ep') \<Longrightarrow> good ack n ep' \<and> ntf ep' = ntf ep"
proof (induction k arbitrary: dr ep)
  case 0
  then show ?case by simp
next
  case (Suc k)
  show ?case
  proof (cases "ring_poll_step os a ep")
    case None
    with Suc.prems good_add [of ack "Suc k" n ep] show ?thesis by simp
  next
    case (Some ep1)
    with good_poll_step [of ack "k + n" ep os a ep1] Suc.prems Suc.IH [of ep1 True] show ?thesis by simp
  qed
qed

lemma good_poll_peer:
  assumes "good ack (4294967296 + n) ep"
  shows "good ack n (rds_ring_poll_peer os a ep) \<and> ntf (rds_ring_poll_peer os a ep) = ntf ep"
proof -
  let ?k = "unat (ring_slots ep) + 1"
  have k: "unat (ring_slots ep) < 4294967296" by simp
  have "unat (op_id ep) + (4294967296 + n) < 18446744073709551615"
    using assms unfolding good_def id_room_def by (rule conjunct2)
  with k have "unat (op_id ep) + (?k + n) < 18446744073709551615" by linarith
  then have "id_room (?k + n) ep" unfolding id_room_def .
  then have "good ack (?k + n) ep" using assms by (simp only: good_def)
  moreover obtain dr ep1 where r: "ring_poll_loop ?k os a False ep = (dr, ep1)" by fastforce
  ultimately have "good ack n ep1" "ntf ep1 = ntf ep" using good_poll_loop by blast+
  with r show ?thesis
    by (auto simp: rds_ring_poll_peer_def good_cong [OF acct_return_credit] split: option.splits)
qed

lemma good_poll_peers:
  "good ack (length as * 4294967296 + n) ep \<Longrightarrow>
     good ack n (poll_peers os as ep) \<and> ntf (poll_peers os as ep) = ntf ep"
proof (induction os as ep rule: poll_peers.induct)
  case (1 os ep)
  then show ?case by simp
next
  case (2 os a as ep)
  let ?m = "length as * 4294967296 + n"
  let ?ep1 = "case peers ep a of None \<Rightarrow> ep
    | Some p \<Rightarrow> if pr_state p = RDS_PEER_READY then rds_ring_poll_peer os a ep else ep"
  from 2(2) have g: "good ack (4294967296 + ?m) ep" by (simp add: algebra_simps)
  have "good ack ?m ?ep1 \<and> ntf ?ep1 = ntf ep"
    using good_poll_peer [OF g, of os a] good_add [OF g] by (auto split: option.splits)
  with 2(1) show ?case by simp
qed

lemma good_ring_progress:
  assumes "good ack (length (peer_lru ep) * 4294967296 + n) ep"
  shows "good ack n (rds_ring_progress os ep) \<and> ntf (rds_ring_progress os ep) = ntf ep"
  using good_poll_peers [OF assms, of os] good_add [OF assms] by (simp add: rds_ring_progress_def)

section \<open>A pass of the progress engine\<close>

text \<open>
  What the kernel promises: it never notifies a token more often than operations asking for a
  notification under that token were accepted.
\<close>

definition kernel_notifies :: "os \<Rightarrow> bool" where
  "kernel_notifies os \<longleftrightarrow>
     (\<forall>h sz rm t. os_recv os h sz = Inr rm \<longrightarrow> notified h t + notify_cnt_of (rm_notifies rm) t \<le> posted h t)"

definition rds_inv :: "nat \<Rightarrow> rds_ep \<Rightarrow> bool" where
  "rds_inv n ep \<longleftrightarrow> good (ntf ep) n ep"

lemma good_reap_notifies:
  assumes "good ack n ep" and "\<forall>t. ack t + notify_cnt_of ns t \<le> posted (hist ep) t"
  shows "good (\<lambda>t. ack t + notify_cnt_of ns t) n (rds_reap_notifies os ns ep) \<and>
    tally (hist (rds_reap_notifies os ns ep)) = tally (hist ep)"
  using assms
proof (induction os ns ep arbitrary: ack rule: rds_reap_notifies.induct)
  case (1 os ep)
  then show ?case by (simp add: notify_cnt_of_def)
next
  case (2 os x ns ep)
  let ?t = "nt_user_token x"
  let ?ep = "rds_handle_rdma_notify os ?t (nt_status x) ep"
  let ?ack = "ack(?t := ack ?t + 1)"
  have cnt: "notify_cnt_of (x # ns) t = notify_cnt_of ns t + (if t = ?t then 1 else 0)" for t
    by (auto simp: notify_cnt_of_def)
  have "ack ?t < posted (hist ep) ?t" using 2(3) [rule_format, of ?t] by (simp add: cnt)
  from good_handle_rdma_notify [OF 2(2) this] have g: "good ?ack n ?ep" .
  have "posted (hist ?ep) = posted (hist ep)"
    using tally_handle_rdma_notify [of os ?t "nt_status x" ep] by (simp add: tally_def)
  moreover have "?ack t + notify_cnt_of ns t \<le> posted (hist ep) t" for t
    using 2(3) [rule_format, of t] by (simp add: cnt split: if_splits)
  ultimately have "\<forall>t. ?ack t + notify_cnt_of ns t \<le> posted (hist ?ep) t" by simp
  from 2(1) [OF g this] have
    "good (\<lambda>t. ?ack t + notify_cnt_of ns t) n (rds_reap_notifies os (x # ns) ep)"
    "tally (hist (rds_reap_notifies os (x # ns) ep)) = tally (hist ep)" by simp_all
  moreover have "(\<lambda>t. ?ack t + notify_cnt_of ns t) = (\<lambda>t. ack t + notify_cnt_of (x # ns) t)"
    by (auto simp: cnt)
  ultimately show ?case by simp
qed

lemma inv_recv_step:
  assumes k: "kernel_notifies os" and i: "rds_inv (Suc n) ep" and r: "sys_recv os sz (hist ep) = (Inr rm, h)"
  shows "rds_inv n (handle_recv_msg os rm (ep\<lparr>hist := h\<rparr>))"
proof -
  let ?ep = "ep\<lparr>hist := h\<rparr>"
  from r have o: "os_recv os (hist ep) sz = Inr rm" and h: "h = SysRecv (Inr rm) # hist ep"
    by (auto simp: sys_recv_def Let_def)
  have ps: "posted h = posted (hist ep)" by (auto simp: h)
  have "good (ntf ep) (Suc n) ?ep"
    using i by (simp add: rds_inv_def good_def acct_inv_def ainv_def acct_def tally_def id_room_def ps)
  moreover have "\<forall>t. ntf ep t + notify_cnt_of (rm_notifies rm) t \<le> posted (hist ?ep) t"
    using k o by (auto simp: kernel_notifies_def ntf_def ps)
  moreover have "(\<lambda>t. ntf ep t + notify_cnt_of (rm_notifies rm) t) = ntf ?ep"
    by (auto simp: ntf_def h)
  moreover define ep1 where "ep1 = rds_reap_notifies os (rm_notifies rm) ?ep"
  ultimately have g1: "good (ntf ?ep) (Suc n) ep1" and "tally (hist ep1) = tally (hist ?ep)"
    using good_reap_notifies [of "ntf ep" "Suc n" ?ep "rm_notifies rm" os] by simp_all
  then have n1: "ntf ep1 = ntf ?ep" using ntf_tally by blast
  show ?thesis
    using good_handle_inbound [OF g1] good_less [OF g1]
    by (simp add: handle_recv_msg_def Let_def ep1_def [symmetric] rds_inv_def n1)
qed

lemma inv_progress_loop:
  "kernel_notifies os \<Longrightarrow> rds_inv (k + n) ep \<Longrightarrow> rds_inv n (progress_loop k os ep)"
proof (induction k arbitrary: ep)
  case 0
  then show ?case by simp
next
  case (Suc k)
  obtain r h where r: "sys_recv os (rx_buf_size ep) (hist ep) = (r, h)" by fastforce
  show ?case
  proof (cases r)
    case (Inl e)
    have "h = SysRecv (Inl e) # hist ep" using r Inl by (auto simp: sys_recv_def Let_def)
    then have "acct (ep\<lparr>hist := h\<rparr>) = acct ep" by (simp add: acct_hist)
    moreover have "rds_inv n ep" using Suc.prems(2) good_add [of _ "Suc k" n] by (simp add: rds_inv_def)
    ultimately have "rds_inv n (ep\<lparr>hist := h\<rparr>)"
      using good_cong ntf_tally [OF tally_cong] by (metis rds_inv_def)
    then show ?thesis using r Inl by simp
  next
    case (Inr rm)
    with inv_recv_step [OF Suc.prems(1) _ r [unfolded Inr], of "k + n"] Suc.prems Suc.IH r show ?thesis by simp
  qed
qed

lemma lru_send_fin [simp]: "peer_lru (rds_send_fin os pe i ep) = peer_lru ep"
  by (auto simp: rds_send_fin_def rds_send_fin_raw_def sys_send_def rds_defer_fin_def ep_alloc_def sys_alloc_def
      rds_defer_enqueue_def Let_def split: option.splits prod.splits)

lemma lru_deferred_step: "deferred_step os d ep = (b, ep') \<Longrightarrow> peer_lru ep' = peer_lru ep"
proof -
  have post: "rds_post_rdma os pe c ro l w n t ep = (r, ep1) \<Longrightarrow> peer_lru ep1 = peer_lru ep" for pe c ro l w n t r ep1
    by (auto simp: rds_post_rdma_def sys_rdma_def Let_def split: if_splits prod.splits)
  have raw: "rds_send_fin_raw os pe i ep = (r, ep1) \<Longrightarrow> peer_lru ep1 = peer_lru ep" for pe i r ep1
    by (auto simp: rds_send_fin_raw_def sys_send_def Let_def split: prod.splits)
  have fin: "peer_lru (rds_rndzv_rx_finalize os k e) = peer_lru e" for k e
    by (simp add: rds_rndzv_rx_finalize_def Let_def pending_remove_def rds_cq_write_rx_def cq_push_def)
  show "deferred_step os d ep = (b, ep') \<Longrightarrow> peer_lru ep' = peer_lru ep"
    by (auto simp: deferred_step_def Let_def fin pending_put_def
        split: rds_deferred_type.splits prod.splits option.splits if_splits dest!: raw post)
qed

lemma lru_deferred_loop: "progress_deferred_loop os kept ds b ep = (b', ep') \<Longrightarrow> peer_lru ep' = peer_lru ep"
proof (induction os kept ds b ep rule: progress_deferred_loop.induct)
  case (1 os kept blocked ep)
  then show ?case by simp
next
  case (2 os kept d rest blocked ep)
  obtain keep ep1 where st: "deferred_step os d (ep\<lparr>deferred := kept @ rest\<rparr>) = (keep, ep1)" by fastforce
  from lru_deferred_step [OF this] have e1: "peer_lru ep1 = peer_lru ep" by simp
  with 2 st show ?case by (cases keep) (auto split: if_splits)
qed

text \<open>Identifiers one pass can draw: one per ring slot of each peer and one per datagram.\<close>

definition pass_ids :: "rds_ep \<Rightarrow> nat" where
  "pass_ids ep = length (peer_lru ep) * 4294967296 + 256"

lemma inv_ep_progress:
  assumes k: "kernel_notifies os" and i: "rds_inv (pass_ids ep + n) ep"
  shows "rds_inv n (rds_ep_progress os ep)"
proof -
  let ?ep1 = "snd (rds_progress_deferred os ep)"
  have lru: "peer_lru ?ep1 = peer_lru ep"
    by (auto simp: rds_progress_deferred_def split: prod.splits dest: lru_deferred_loop)
  have "good (ntf ep) (pass_ids ep + n) ?ep1" using i good_progress_deferred by (simp add: rds_inv_def)
  then have "good (ntf ep) (length (peer_lru ?ep1) * 4294967296 + (256 + n)) ?ep1"
    by (simp add: pass_ids_def lru algebra_simps)
  from good_ring_progress [OF this, of os]
  have "rds_inv (256 + n) (rds_ring_progress os ?ep1)" by (simp add: rds_inv_def)
  from inv_progress_loop [OF k this] i good_add [of "ntf ep" "pass_ids ep" n ep] show ?thesis
    by (simp add: rds_ep_progress_def Let_def rds_inv_def)
qed

section \<open>Everything an application and its environment can do\<close>

text \<open>
  One step of an endpoint's life, with the number of operation identifiers it may draw: a call
  of the message, tagged or one-sided interface, a cancellation, enabling, a pass of the
  progress engine, or the hardware writing into the process's memory.
\<close>

inductive ep_step :: "os \<Rightarrow> rds_ep \<Rightarrow> nat \<Rightarrow> rds_ep \<Rightarrow> bool" for os where
  st_recv: "ep_step os ep 1 (snd (rds_post_recv os vs a tag ig cx fl tg ep))"
| st_send: "rds_generic_send os vs a tag da cx fl tg ep = Some (ret, ep') \<Longrightarrow> ep_step os ep 1 ep'"
| st_inject: "ep_step os ep 0 (snd (rds_generic_inject os b len a tag tg ep))"
| st_rma: "ep_step os ep 1 (snd (rds_rma_common os vs a ro key w cx fl ep))"
| st_inject_write: "ep_step os ep 1 (snd (rds_inject_write os b len a ro key ep))"
| st_cancel: "ep_step os ep 0 (snd (rds_ep_cancel cx ep))"
| st_ctrl: "ep_step os ep 0 (snd (rds_ep_ctrl en ep))"
| st_progress: "ep_step os ep (pass_ids ep) (rds_ep_progress os ep)"
| st_dma: "ep_step os ep 0 (ep\<lparr>mem := m\<rparr>)"

inductive ep_run :: "os \<Rightarrow> rds_ep \<Rightarrow> nat \<Rightarrow> rds_ep \<Rightarrow> bool" for os where
  run_start: "ep_run os ep 0 ep"
| run_step: "ep_run os ep k ep' \<Longrightarrow> ep_step os ep' j ep'' \<Longrightarrow> ep_run os ep (k + j) ep''"

text \<open>
  A life of an endpoint: created over a domain whose history owes it nothing, with a budget a
  configuration can have, then any sequence of steps that cannot use up the identifiers.
\<close>

definition ep_life :: "os \<Rightarrow> rds_ep \<Rightarrow> bool" where
  "ep_life os ep \<longleftrightarrow>
     (\<exists>so src d ep0 k. rds_endpoint os so src 0 d = (0, ep0) \<and> posted (hist d) = notified (hist d) \<and>
        rds_rndzv_max_inflight (cfg d) < 4294967296 \<and> ep_run os ep0 k ep \<and> k < 18446744073709551615)"

text \<open>A concrete life: an endpoint over the sample domain that has written 16 bytes to its peer.\<close>

definition sample_sock :: sock_env where
  "sample_sock = \<lparr>so_socket = Inr 3, so_transport = 0, so_bind = 0, so_nonblock = 0\<rparr>"

definition sample_ep :: rds_ep where
  "sample_ep = snd (rds_endpoint calm_os sample_sock True 0 sample_dom)"

definition sample_writer :: rds_ep where
  "sample_writer = snd (rds_rma_common calm_os [iov 64 16] 1 0 5 True 3 0 sample_ep)"

lemma inv_cong: "acct ep' = acct ep \<Longrightarrow> rds_inv n ep' = rds_inv n ep"
  using good_cong [of ep' ep] ntf_tally [OF tally_cong [of ep' ep]] by (simp add: rds_inv_def)

lemma good_to_inv: "ntf ep' = ntf ep \<Longrightarrow> good (ntf ep) n ep' \<Longrightarrow> rds_inv n ep'"
  by (simp add: rds_inv_def)

lemma inv_step:
  assumes "kernel_notifies os" and "rds_inv (j + n) ep" and "ep_step os ep j ep'"
  shows "rds_inv n ep'"
  using assms(3,2)
proof cases
  case (st_recv vs a tag ig cx fl tg)
  with assms(2) show ?thesis using good_post_recv by (auto simp: rds_inv_def)
next
  case (st_send vs a tag da cx fl tg ret)
  with assms(2) ntf_generic_send [OF st_send(2)] good_generic_send [OF _ st_send(2)] show ?thesis
    by (simp add: rds_inv_def)
next
  case (st_inject b len a tag tg)
  with assms(2) show ?thesis using inv_cong [OF acct_generic_inject] by simp
next
  case (st_rma vs a ro key w cx fl)
  with assms(2) show ?thesis using good_rma_common by (auto simp: rds_inv_def)
next
  case (st_inject_write b len a ro key)
  with assms(2) show ?thesis using good_inject_write by (auto simp: rds_inv_def)
next
  case (st_cancel cx)
  with assms(2) show ?thesis using inv_cong [OF acct_cancel] by simp
next
  case (st_ctrl en)
  have "acct (snd (rds_ep_ctrl en ep)) = acct ep" by (simp add: rds_ep_ctrl_def acct_def)
  from inv_cong [OF this, of n] st_ctrl assms(2) show ?thesis by simp
next
  case st_progress
  with inv_ep_progress [OF assms(1), of ep n] assms(2) show ?thesis by simp
next
  case (st_dma m)
  with assms(2) show ?thesis by (simp add: inv_cong [OF acct_upd(1)])
qed

lemma inv_run:
  assumes "ep_run os ep k ep'" and "kernel_notifies os" and "rds_inv (k + n) ep"
  shows "rds_inv n ep'"
  using assms(1,3)
proof (induction arbitrary: n rule: ep_run.induct)
  case (run_start ep)
  then show ?case by simp
next
  case (run_step ep k ep' j ep'')
  then have "rds_inv (j + n) ep'" by (simp add: add.assoc)
  from inv_step [OF assms(2) this run_step(2)] show ?case .
qed

lemma inv_endpoint:
  assumes "rds_endpoint os so src 0 d = (0, ep)" and "posted (hist d) = notified (hist d)"
    and "rds_rndzv_max_inflight (cfg d) < 4294967296" and "n < 18446744073709551615"
  shows "rds_inv n ep"
proof -
  have al: "acct e1 = acct e" if "ep_alloc os ob e = (r, e1)" for ob e r e1
    using acct_ep_alloc [of os ob e] that by simp
  have al': "cfg e1 = cfg e \<and> tally (hist e1) = tally (hist e)" if "ep_alloc os ob e = (r, e1)" for ob e r e1
    using that by (auto simp: ep_alloc_def sys_alloc_def Let_def)
  have so: "acct e1 = acct e" if "rds_ep_init_socket so src e = (r, e1)" for e r e1
    using that by (auto simp: rds_ep_init_socket_def rds_setname_def acct_def split: sum.splits if_splits)
  have upd: "acct (e\<lparr>rx_buf_size := z\<rparr>) = acct e" for e z by (simp add: acct_def)
  let ?d = "\<lambda>e. rds_ep_ring_init (e\<lparr>ep_sock := - 1, is_bound := False, rx_posted_msg := [], rx_posted_tag := [],
    rx_unexp_msg := [], rx_unexp_tag := [], pending := [], deferred := [], rndzv_tx_inflight := 0, op_id := 0, cq_log := []\<rparr>)"
  have init: "acct (?d e) = ([], [], 0, 0, tally (hist e), rds_rndzv_max_inflight (cfg e))" for e
    by (simp add: acct_def rds_ep_ring_init_def)
  from assms(1) have "acct ep = ([], [], 0, 0, tally (hist d), rds_rndzv_max_inflight (cfg d))"
    by (auto simp: rds_endpoint_def Let_def upd init split: option.splits prod.splits dest!: so al [of "ObjRxBuf _"] al [of ObjCmsgBuf]
        al' [of ObjEp])
  then show ?thesis using assms(2-4)
    by (auto simp: rds_inv_def good_def acct_inv_def ainv_def id_room_def acct_def tally_def ntf_def)
qed

lemma inv_life: "ep_life os ep \<Longrightarrow> kernel_notifies os \<Longrightarrow> rds_inv 0 ep"
  using inv_run [where n = 0] inv_endpoint by (fastforce simp: ep_life_def)

lemma sample_ep_ok: "rds_endpoint calm_os sample_sock True 0 sample_dom = (0, sample_ep)"
  by (simp add: sample_ep_def rds_endpoint_def sample_sock_def ep_alloc_def sys_alloc_def Let_def testbed_simps
      rds_ep_init_socket_def rds_setname_def)

lemma calm_kernel: "kernel_notifies calm_os"
  by (simp add: kernel_notifies_def calm_os_def)

lemma sample_life: "ep_life calm_os sample_writer"
proof -
  have "ep_run calm_os sample_ep (0 + 1) sample_writer"
    unfolding sample_writer_def by (rule run_step [OF run_start st_rma])
  with sample_ep_ok show ?thesis
    unfolding ep_life_def
    by (intro exI [of _ sample_sock] exI [of _ True] exI [of _ sample_dom] exI [of _ sample_ep] exI [of _ "0 + 1"])
      (simp add: testbed_simps fun_eq_iff)
qed

lemma sample_writer_eval:
  "map p_id (pending sample_writer) = [1]" "map p_type (pending sample_writer) = [RDS_PEND_RMA]"
  "deferred sample_writer = []" "posted (hist sample_writer) 1 = 1" "notified (hist sample_writer) 1 = 0"
  by (simp_all add: sample_writer_def sample_ep_def rds_endpoint_def sample_sock_def ep_alloc_def sys_alloc_def Let_def
      testbed_simps rds_ep_init_socket_def rds_setname_def rds_rma_common_def rds_iov_len_def rds_av_addr_def
      ofi_av_get_addr_def rds_pending_alloc_def rds_next_id_def rds_ep_ring_init_def pending_init_def
      rma_loop.simps rds_iov_slice_def rds_post_rdma_def sys_rdma_def pending_put_def has_flag_def)

lemma inv_accounts:
  assumes "rds_inv n ep" and "p \<in> set (pending ep)"
  shows "unat (p_seg_remaining p) + notified (hist ep) (p_id p) = posted (hist ep) (p_id p)"
    and "unat (p_seg_deferred p) = parked (deferred ep) (p_id p)"
    and "p_type p = RDS_PEND_RNDZV_TX \<or> p_seg_remaining p \<noteq> 0 \<or> p_seg_deferred p \<noteq> 0"
    and "p_type p = RDS_PEND_RMA \<Longrightarrow> p_seg_remaining p \<noteq> 0"
proof -
  have "pend_ok (posted (hist ep)) (notified (hist ep)) (deferred ep) p"
    using assms by (simp add: rds_inv_def good_def acct_inv_def ainv_def acct_def tally_def ntf_def)
  then show "unat (p_seg_remaining p) + notified (hist ep) (p_id p) = posted (hist ep) (p_id p)"
    and "unat (p_seg_deferred p) = parked (deferred ep) (p_id p)"
    and "p_type p = RDS_PEND_RNDZV_TX \<or> p_seg_remaining p \<noteq> 0 \<or> p_seg_deferred p \<noteq> 0"
    and "p_type p = RDS_PEND_RMA \<Longrightarrow> p_seg_remaining p \<noteq> 0"
    by (auto simp: pend_ok_def split: rds_pend_type.splits)
qed

text \<open>
  C1.  No operation waits for nothing.  At any point in the life of an endpoint, over a kernel
  that notifies only what was posted, every pending operation is either a rendezvous send, which
  waits for the receiver's FIN, or the kernel still owes it a notification, or one of its reads
  is in the parked queue that every pass of the progress engine retries.
\<close>

theorem life_no_hang:
  assumes "kernel_notifies os" and "ep_life os ep" and "p \<in> set (pending ep)"
  shows "p_type p = RDS_PEND_RNDZV_TX \<or> notified (hist ep) (p_id p) < posted (hist ep) (p_id p) \<or>
    (\<exists>d \<in> set (deferred ep). d_type d = RDS_DEFERRED_READ \<and> d_id d = p_id p)"
proof -
  note acc = inv_accounts [OF inv_life [OF assms(2,1)] assms(3)]
  consider "p_type p = RDS_PEND_RNDZV_TX" | "0 < unat (p_seg_remaining p)" | "0 < unat (p_seg_deferred p)"
    using acc(3) by (auto simp: unat_gt_0)
  then show ?thesis
  proof cases
    case 3
    then have "0 < parked (deferred ep) (p_id p)" using acc(2) by simp
    then show ?thesis by (auto simp: parked_def filter_empty_conv)
  qed (use acc(1) in auto)
qed

theorem life_no_hang_witness:
  "\<exists>p. pending sample_writer = [p] \<and> p_type p = RDS_PEND_RMA \<and>
     notified (hist sample_writer) (p_id p) < posted (hist sample_writer) (p_id p)"
proof -
  from sample_writer_eval(1,2) obtain p where p: "pending sample_writer = [p]" "p_id p = 1" "p_type p = RDS_PEND_RMA"
    by (auto simp: map_eq_Cons_conv)
  with life_no_hang [OF calm_kernel sample_life, of p] sample_writer_eval(3) show ?thesis by auto
qed

text \<open>
  C6.  Flow control.  At any point in the life of an endpoint the counter of rendezvous sends in
  flight is exactly the number of rendezvous sends in the pending list, and it never exceeds the
  configured budget: each completion gives back what the send took, whatever the interleaving.
\<close>

theorem life_flow_control:
  assumes "kernel_notifies os" and "ep_life os ep"
  shows "unat (rndzv_tx_inflight ep) = length (filter (\<lambda>p. p_type p = RDS_PEND_RNDZV_TX) (pending ep)) \<and>
    unat (rndzv_tx_inflight ep) \<le> rds_rndzv_max_inflight (cfg ep)"
proof -
  have "is_tx = (\<lambda>p. p_type p = RDS_PEND_RNDZV_TX)" by (auto simp: is_tx_def)
  then show ?thesis using inv_life [OF assms(2,1)]
    by (simp add: rds_inv_def good_def acct_inv_def ainv_def acct_def tally_def)
qed

theorem life_flow_control_witness:
  "ep_life calm_os sample_writer \<and> unat (rndzv_tx_inflight sample_writer) = 0 \<and> 0 \<le> rds_rndzv_max_inflight (cfg sample_writer)"
proof -
  from sample_writer_eval(2) obtain p where "pending sample_writer = [p]" "p_type p = RDS_PEND_RMA"
    by (auto simp: map_eq_Cons_conv)
  with life_flow_control [OF calm_kernel sample_life] sample_life show ?thesis by simp
qed

text \<open>
  C11.  Tokens name operations.  At any point in the life of an endpoint the identifiers in the
  pending list are distinct and not zero, a parked read belongs to a pending rendezvous receive,
  and a token under which the kernel still owes a notification names a pending operation, so no
  notification arrives for an operation that is gone.
\<close>

theorem life_tokens:
  assumes "kernel_notifies os" and "ep_life os ep"
  shows "distinct (map p_id (pending ep)) \<and> 0 \<notin> p_id ` set (pending ep) \<and>
    {d_id d | d. d \<in> set (deferred ep) \<and> d_type d = RDS_DEFERRED_READ} \<subseteq>
      p_id ` {p \<in> set (pending ep). p_type p = RDS_PEND_RNDZV_RX} \<and>
    {t. notified (hist ep) t < posted (hist ep) t} \<subseteq> p_id ` set (pending ep)"
proof -
  have inv: "ainv (notified (hist ep)) (pending ep, deferred ep, rndzv_tx_inflight ep, op_id ep,
      (posted (hist ep), notified (hist ep)), rds_rndzv_max_inflight (cfg ep))"
    using inv_life [OF assms(2,1)] by (simp add: rds_inv_def good_def acct_inv_def acct_def tally_def ntf_def)
  then have "distinct (map p_id (pending ep))" "0 \<notin> p_id ` set (pending ep)"
    "{d_id d | d. d \<in> set (deferred ep) \<and> d_type d = RDS_DEFERRED_READ} \<subseteq>
      p_id ` {p \<in> set (pending ep). p_type p = RDS_PEND_RNDZV_RX}"
    by (auto simp: ainv_def image_iff) (metis (mono_tags, lifting))
  moreover have "t \<in> p_id ` set (pending ep)" if "notified (hist ep) t < posted (hist ep) t" for t
    using ainvD(5) [OF inv, of t] that by auto
  ultimately show ?thesis by blast
qed

theorem life_tokens_witness:
  "{t. notified (hist sample_writer) t < posted (hist sample_writer) t} \<subseteq> {1} \<and> distinct (map p_id (pending sample_writer))"
proof -
  have "p_id ` set (pending sample_writer) = {1}" using sample_writer_eval(1) by (metis list.set(1,2) list.set_map)
  with life_tokens [OF calm_kernel sample_life] show ?thesis by simp
qed

end
