(* ===== verification/Rds_Rendezvous.thy ===== *)
theory Rds_Rendezvous
  imports Rds_Ep Rds_Testbed "HOL-Library.Multiset"
begin

text \<open>
  The rendezvous protocol end to end: the descriptor a sender ships describes its source buffer
  exactly, a failed send leaves no registration behind, the receiver plans one read per segment
  and issues or parks every one of them, and once the reads are done the receive buffer holds
  the message.
\<close>

section \<open>Reference definitions\<close>

text \<open>The reads a receiver needs for an array of segments: cookie, remote offset, local slice.\<close>

fun read_plan :: "iovec list \<Rightarrow> rds_rndzv_seg list \<Rightarrow> nat \<Rightarrow> nat \<Rightarrow> (u64 \<times> u64 \<times> iovec list) list" where
  "read_plan vs [] off eff = []"
| "read_plan vs (s # ss) off eff =
     (if off < eff
      then let n = min (unat (seg_len s)) (eff - off)
           in (seg_cookie s, seg_off s, fst (rds_iov_slice vs off n)) # read_plan vs ss (off + n) eff
      else [])"

text \<open>The reads the kernel accepted, oldest first, and the reads parked, under one token.\<close>

definition reads_posted :: "u64 \<Rightarrow> hist \<Rightarrow> (u64 \<times> u64 \<times> iovec list) list" where
  "reads_posted t h =
     map (\<lambda>(d, ra). (ra_cookie ra, ra_remote_addr ra, ra_local ra))
       (filter (\<lambda>(d, ra). ra_user_token ra = t) (sent_rdma h))"

definition reads_parked :: "u64 \<Rightarrow> rds_deferred list \<Rightarrow> (u64 \<times> u64 \<times> iovec list) list" where
  "reads_parked t ds =
     map (\<lambda>d. (d_cookie d, d_remote_off d, d_liov d))
       (filter (\<lambda>d. d_type d = RDS_DEFERRED_READ \<and> d_id d = t) ds)"

text \<open>The segment that describes one registration, and the region it covers.\<close>

definition mr_seg :: "rds_mr \<Rightarrow> rds_rndzv_seg" where
  "mr_seg mr = \<lparr>seg_cookie = mr_cookie mr, seg_off = 0, seg_len = of_nat (mr_len mr)\<rparr>"

definition mr_iov :: "rds_mr \<Rightarrow> iovec" where
  "mr_iov mr = iov (mr_buf mr) (mr_len mr)"

definition mr_key :: "rds_mr \<Rightarrow> int \<times> u64" where
  "mr_key mr = (mr_sock mr, mr_cookie mr)"

text \<open>A concrete sender, its state after a four-byte rendezvous send, and a receiver waiting for it.\<close>

definition sample_sender :: rds_ep where
  "sample_sender = sample_dom\<lparr>mem := of_nat\<rparr>"

definition sample_sent :: rds_ep where
  "sample_sent = snd (the (rds_send_rndzv calm_os [iov 64 4] 9 5 0 3 0 True True 1 sample_sender))"

definition sample_rx :: rds_rx_entry where
  "sample_rx = rx_entry_of [iov 300 1, iov 400 6] 1 5 0 8 0 True"

definition sample_receiver :: rds_ep where
  "sample_receiver = sample_dom\<lparr>rx_posted_tag := [sample_rx]\<rparr>"

definition sample_rts :: rds_hdr where
  "sample_rts = rts_hdr 1 4 5 0 0 True 1"

definition sample_seg :: rds_rndzv_seg where
  "sample_seg = \<lparr>seg_cookie = 7, seg_off = 0, seg_len = 4\<rparr>"

definition sample_received :: rds_ep where
  "sample_received = rds_handle_inbound calm_os sample_rts (enc_segs [sample_seg]) 9 1 sample_receiver"

text \<open>Eight source buffers a little over 255 MiB together, and an endpoint set up for small messages.\<close>

definition sample_scatter :: "iovec list" where
  "sample_scatter =
     (let v = iov 0 (RDS_KERNEL_SEG_MAX + 1) in [iov 0 (248 * RDS_KERNEL_SEG_MAX + 1), v, v, v, v, v, v, v])"

definition small_params :: rds_params where
  "small_params = \<lparr>par_eager_size = Some 4096, par_eager_rdma = None, par_ring_slots = None, par_ring_slot_size = None,
     par_ring_max_peers = None, par_mr_cache = None, par_rndzv_inflight = None, par_sndbuf = None, par_rcvbuf = None\<rparr>"

section \<open>Source chunks\<close>

lemma chunks_0 [simp]: "chunks b 0 = []"
  by (simp add: chunks.simps)

lemma gather_chunks: "gather m (chunks b n) = mem_read m b n"
proof (induction b n rule: chunks.induct)
  case (1 b n)
  show ?case
  proof (cases "n = 0")
    case True
    then show ?thesis by simp
  next
    case False
    let ?k = "min n RDS_KERNEL_SEG_MAX"
    have "mem_read m b n = mem_read m b ?k @ mem_read m (b + ?k) (n - ?k)"
      by (rule nth_equalityI) (auto simp: mem_read_def nth_append)
    with 1 [OF False] False show ?thesis by (simp add: chunks.simps [of b n])
  qed
qed

lemma gather_src_chunks: "gather m (src_chunks vs) = gather m vs"
  by (induction vs) (simp_all add: src_chunks_def gather_chunks)

lemma chunks_len: "v \<in> set (chunks b n) \<Longrightarrow> 0 < iov_len v \<and> iov_len v \<le> RDS_KERNEL_SEG_MAX"
proof (induction b n rule: chunks.induct)
  case (1 b n)
  then show ?case by (cases "n = 0") (auto simp: chunks.simps [of b n])
qed

lemma src_chunks_len: "v \<in> set (src_chunks vs) \<Longrightarrow> 0 < iov_len v \<and> iov_len v \<le> RDS_KERNEL_SEG_MAX"
  using chunks_len by (fastforce simp: src_chunks_def)

lemma length_chunks: "length (chunks b n) = (n + RDS_KERNEL_SEG_MAX - 1) div RDS_KERNEL_SEG_MAX"
proof (induction b n rule: chunks.induct)
  case (1 b n)
  show ?case
  proof (cases "n \<le> RDS_KERNEL_SEG_MAX")
    case True
    then show ?thesis using 1 by (cases "n = 0") (auto simp: chunks.simps [of b n] div_if)
  next
    case False
    then have "n + RDS_KERNEL_SEG_MAX - 1 = (n - RDS_KERNEL_SEG_MAX + RDS_KERNEL_SEG_MAX - 1) + RDS_KERNEL_SEG_MAX" by simp
    then have "(n + RDS_KERNEL_SEG_MAX - 1) div RDS_KERNEL_SEG_MAX =
        (n - RDS_KERNEL_SEG_MAX + RDS_KERNEL_SEG_MAX - 1) div RDS_KERNEL_SEG_MAX + 1" by (simp only: div_add_self2)
    with 1 False show ?thesis by (simp add: chunks.simps [of b n] min_def)
  qed
qed

lemma iov_sum_src_chunks: "iov_sum (src_chunks vs) = iov_sum vs"
  using arg_cong [OF gather_src_chunks, of length] by simp

lemma length_src_chunks_bound: "length (src_chunks vs) * RDS_KERNEL_SEG_MAX \<le> iov_sum vs + length vs * (RDS_KERNEL_SEG_MAX - 1)"
proof (induction vs)
  case Nil
  then show ?case by (simp add: src_chunks_def)
next
  case (Cons v vs)
  have "length (chunks (iov_base v) (iov_len v)) * RDS_KERNEL_SEG_MAX \<le> iov_len v + (RDS_KERNEL_SEG_MAX - 1)"
    by (simp add: length_chunks div_times_less_eq_dividend)
  with Cons show ?case by (simp add: src_chunks_def algebra_simps)
qed

lemma seg_count_eq:
  assumes "iov_sum vs \<le> RDS_MAX_MSG_SIZE" and "length vs \<le> RDS_IOV_LIMIT"
  shows "seg_count vs = length (src_chunks vs)" and "length (src_chunks vs) \<le> 264"
proof -
  let ?f = "\<lambda>n v. (n + ((iov_len v + RDS_KERNEL_SEG_MAX - 1) mod size_max) div RDS_KERNEL_SEG_MAX) mod size_max"
  have bound: "length (src_chunks ws) \<le> 264" if "iov_sum ws \<le> RDS_MAX_MSG_SIZE" "length ws \<le> RDS_IOV_LIMIT" for ws
    using length_src_chunks_bound [of ws] that by simp
  have "foldl ?f n ws = n + length (src_chunks ws)" if "n + length (src_chunks ws) < size_max" "iov_sum ws \<le> RDS_MAX_MSG_SIZE" for n ws
    using that by (induction ws arbitrary: n) (simp_all add: src_chunks_def length_chunks)
  from this [of 0 vs] bound [of vs] assms show "seg_count vs = length (src_chunks vs)" "length (src_chunks vs) \<le> 264"
    by (simp_all add: seg_count_def)
qed

section \<open>Registering the source\<close>

text \<open>Without the cache the loop holds one registration per chunk described so far, in order.\<close>

lemma reg_loop_uncached:
  assumes "rndzv_reg_loop os False d chs segs regs ep = Some (err, segs', regs', ep')"
  shows "\<exists>mrs. regs' = regs @ map RegMr mrs \<and> segs' = segs @ map mr_seg mrs \<and>
    map mr_iov mrs = take (length mrs) chs \<and> (err = 0 \<longrightarrow> length mrs = length chs) \<and>
    live_mrs (hist ep') = rev (map mr_key mrs) @ live_mrs (hist ep) \<and>
    (\<forall>mr \<in> set mrs. mr_ref mr = 1) \<and> ep' = ep\<lparr>hist := hist ep'\<rparr> \<and>
    sent_data (hist ep') = sent_data (hist ep) \<and> sent_rdma (hist ep') = sent_rdma (hist ep)"
  using assms
proof (induction chs arbitrary: segs regs ep)
  case Nil
  then show ?case by (intro exI [of _ "[]"]) simp
next
  case (Cons ch chs)
  obtain r h where k: "rds_reg_internal os (ep_sock ep) (iov_base ch) (iov_len ch) FI_REMOTE_READ (Some d) (hist ep) = (r, h)"
    by fastforce
  have sent: "sent_data h = sent_data (hist ep)" "sent_rdma h = sent_rdma (hist ep)"
    using k by (auto simp: rds_reg_internal_def rds_kernel_reg_def sys_get_mr_def sys_alloc_def rds_kernel_free_def
        sys_free_mr_def Let_def split: if_splits sum.splits option.splits prod.splits)
  show ?case
  proof (cases r)
    case (Inl e)
    with Cons.prems k sent rds_reg_internal_live [OF k] show ?thesis
      by (intro exI [of _ "[]"]) (auto simp: rndzv_register_def split: if_splits)
  next
    case (Inr mr)
    note live = rds_reg_internal_live [OF k [unfolded Inr]]
    note mr = rds_reg_internal_Inr [OF k [unfolded Inr]]
    have ch: "mr_iov mr = ch" using mr by (simp add: mr_iov_def)
    have "rndzv_reg_loop os False d chs (segs @ [mr_seg mr]) (regs @ [RegMr mr]) (ep\<lparr>hist := h\<rparr>) = Some (err, segs', regs', ep')"
      using Cons.prems k Inr mr by (simp add: rndzv_register_def mr_seg_def)
    from Cons.IH [OF this] obtain mrs where m:
      "regs' = (regs @ [RegMr mr]) @ map RegMr mrs" "segs' = (segs @ [mr_seg mr]) @ map mr_seg mrs"
      "map mr_iov mrs = take (length mrs) chs" "err = 0 \<longrightarrow> length mrs = length chs"
      "live_mrs (hist ep') = rev (map mr_key mrs) @ live_mrs h" "\<forall>mr \<in> set mrs. mr_ref mr = 1"
      "ep' = ep\<lparr>hist := h\<rparr>\<lparr>hist := hist ep'\<rparr>" "sent_data (hist ep') = sent_data h" "sent_rdma (hist ep') = sent_rdma h"
      by auto
    have "ep' = ep\<lparr>hist := hist ep'\<rparr>" using m(7) by simp
    with m(1-6,8,9) live mr ch sent show ?thesis
      by (intro exI [of _ "mr # mrs"]) (auto simp: mr_key_def)
  qed
qed

text \<open>Releasing registrations that were never shared frees each of them once.\<close>

lemma unregister_mrs:
  assumes "\<forall>mr \<in> set mrs. mr_ref mr = 1"
  shows "unregister os (map RegMr mrs) ep = ep\<lparr>hist := put_mrs mrs (hist ep)\<rparr>"
  using assms by (induction mrs arbitrary: ep) auto

lemma put_mrs_live:
  assumes "\<forall>mr \<in> set mrs. mr_ref mr = 1"
  shows "mset (live_mrs (put_mrs mrs h)) = mset (live_mrs h) - mset (map mr_key mrs)"
  using assms
proof (induction mrs arbitrary: h)
  case Nil
  then show ?case by simp
next
  case (Cons mr mrs)
  then show ?case by (simp add: rds_mr_put_def rds_kernel_free_def sys_free_mr_def mr_key_def)
qed

lemma put_mrs_sent: "sent_data (put_mrs mrs h) = sent_data h \<and> sent_rdma (put_mrs mrs h) = sent_rdma h"
  by (induction mrs arbitrary: h) (auto simp: rds_mr_put_def rds_kernel_free_def sys_free_mr_def split: option.splits)

section \<open>What a rendezvous send does\<close>

text \<open>
  With neither ring nor cache: a send that fails leaves registrations, pending list, budget and
  wire as they were; one that succeeds has registered the chunks of the source, has shipped the
  descriptor of exactly those registrations, and waits with them.
\<close>

definition send_kept :: "rds_ep \<Rightarrow> rds_ep \<Rightarrow> bool" where
  "send_kept ep ep' \<longleftrightarrow>
     mset (live_mrs (hist ep')) = mset (live_mrs (hist ep)) \<and> sent_data (hist ep') = sent_data (hist ep) \<and>
     sent_rdma (hist ep') = sent_rdma (hist ep) \<and> pending ep' = pending ep \<and> deferred ep' = deferred ep \<and>
     rndzv_tx_inflight ep' = rndzv_tx_inflight ep \<and> cq_log ep' = cq_log ep \<and> mem ep' = mem ep"

definition send_shipped ::
  "iovec list \<Rightarrow> sock_ip \<Rightarrow> u64 \<Rightarrow> u64 \<Rightarrow> nat \<Rightarrow> u64 \<Rightarrow> bool \<Rightarrow> bool \<Rightarrow> rds_mr list \<Rightarrow> rds_pending \<Rightarrow> rds_ep \<Rightarrow> rds_ep \<Rightarrow> bool" where
  "send_shipped vs dest tag data cx fl tg gc mrs p ep ep' \<longleftrightarrow>
     map mr_iov mrs = src_chunks vs \<and> (\<forall>mr \<in> set mrs. mr_ref mr = 1) \<and>
     pending ep' = pending ep @ [p] \<and> p_type p = RDS_PEND_RNDZV_TX \<and> p_context p = cx \<and>
     p_flags p = send_comp_flags tg \<and> p_len p = iov_sum vs \<and> p_error p = 0 \<and> p_no_comp p = (\<not> gc) \<and>
     p_mrs p = Some mrs \<and> p_cmrs p = None \<and> unat (p_mr_cnt p) = length mrs \<and>
     live_mrs (hist ep') = rev (map mr_key mrs) @ live_mrs (hist ep) \<and>
     rndzv_tx_inflight ep' = rndzv_tx_inflight ep + 1 \<and> cq_log ep' = cq_log ep \<and> mem ep' = mem ep \<and>
     tx_cq ep' = tx_cq ep \<and> deferred ep' = deferred ep \<and>
     sent_data (hist ep') = sent_data (hist ep) @
       [(dest, enc_hdr (rts_hdr (length mrs) (iov_sum vs) tag data fl tg (p_id p)) @ enc_segs (map mr_seg mrs))]"

lemma ep_alloc_cases:
  assumes "ep_alloc os ob ep = (r, ep1)"
  shows "ep1 = ep\<lparr>hist := SysAlloc ob r # hist ep\<rparr>"
  using assms by (auto simp: ep_alloc_def sys_alloc_def Let_def)

lemma ep_alloc_hist:
  assumes "ep_alloc os ob ep = (r, ep1)"
  shows "ep1 = ep\<lparr>hist := hist ep1\<rparr>" and "live_mrs (hist ep1) = live_mrs (hist ep)"
    "sent_data (hist ep1) = sent_data (hist ep)" "sent_rdma (hist ep1) = sent_rdma (hist ep)"
  by (simp_all add: ep_alloc_cases [OF assms])

lemma unregister_kept:
  assumes "\<forall>mr \<in> set mrs. mr_ref mr = 1" and "live_mrs (hist ep1) = rev (map mr_key mrs) @ live_mrs (hist ep)"
    and "sent_data (hist ep1) = sent_data (hist ep)" and "sent_rdma (hist ep1) = sent_rdma (hist ep)"
    and "pending ep1 = pending ep" "deferred ep1 = deferred ep" "rndzv_tx_inflight ep1 = rndzv_tx_inflight ep"
      "cq_log ep1 = cq_log ep" "mem ep1 = mem ep"
  shows "send_kept ep (unregister os (map RegMr mrs) ep1)"
  using assms put_mrs_sent [of mrs "hist ep1"] put_mrs_live [OF assms(1), of "hist ep1"]
  by (simp add: send_kept_def unregister_mrs)

lemma reg_mrs_map [simp]: "reg_mrs (map RegMr mrs) = mrs"
  by (induction mrs) (auto simp: reg_mrs_def)

lemma ship_outcome:
  assumes ship: "rndzv_ship os (length (pending ep)) bs dest da (map RegMr mrs) n ep1 = (ret, ep')"
    and off: "\<not> eager_rdma ep1" and mrs: "\<forall>mr \<in> set mrs. mr_ref mr = 1"
    and live: "live_mrs (hist ep1) = rev (map mr_key mrs) @ live_mrs (hist ep)"
    and sent: "sent_data (hist ep1) = sent_data (hist ep)" "sent_rdma (hist ep1) = sent_rdma (hist ep)"
    and ps: "pending ep1 = pending ep @ [p]"
    and same: "deferred ep1 = deferred ep" "rndzv_tx_inflight ep1 = rndzv_tx_inflight ep" "cq_log ep1 = cq_log ep" "mem ep1 = mem ep"
  shows "if ret = 0
    then ep' = ep1\<lparr>hist := SysSend dest bs 0 # hist ep1, rndzv_tx_inflight := rndzv_tx_inflight ep1 + 1\<rparr>
    else send_kept ep ep'"
proof -
  define e where "e = os_send os (hist ep1) dest bs"
  define ep2 where "ep2 = pending_remove (length (pending ep)) (ep1\<lparr>hist := SysSend dest bs e # hist ep1\<rparr>)"
  have "send_kept ep (unregister os (map RegMr mrs) ep2)" if "e \<noteq> 0"
    by (rule unregister_kept [OF mrs]) (use that live sent ps same in \<open>simp_all add: ep2_def pending_remove_def\<close>)
  moreover have "(ret, ep') = (if e \<noteq> 0 then (sock_ret e, unregister os (map RegMr mrs) ep2)
      else (0, ep1\<lparr>hist := SysSend dest bs 0 # hist ep1, rndzv_tx_inflight := rndzv_tx_inflight ep1 + 1\<rparr>))"
    using ship off by (auto simp: rndzv_ship_def sys_send_def Let_def e_def ep2_def split: if_splits)
  ultimately show ?thesis by (auto split: if_splits)
qed

lemma send_rndzv_outcome:
  assumes run: "rds_send_rndzv os vs dest tag data cx fl tg gc da ep = Some (ret, ep')"
    and off: "\<not> cache_enabled ep" "\<not> eager_rdma ep"
    and sz: "iov_sum vs \<le> RDS_MAX_MSG_SIZE" "length vs \<le> RDS_IOV_LIMIT"
  shows "if ret = 0 then \<exists>mrs p. send_shipped vs dest tag data cx fl tg gc mrs p ep ep' else send_kept ep ep'"
proof -
  have same: "send_kept ep e" if "e = ep\<lparr>hist := hist e\<rparr>" "live_mrs (hist e) = live_mrs (hist ep)"
    "sent_data (hist e) = sent_data (hist ep)" "sent_rdma (hist e) = sent_rdma (hist ep)" for e
    unfolding send_kept_def that(2-4) by (subst that(1), simp)+
  obtain a1 ep1 where al1: "ep_alloc os (ObjMrArray (seg_count vs)) ep = (a1, ep1)" by fastforce
  obtain a2 ep2 where al2: "ep_alloc os (ObjSegs (seg_count vs)) ep1 = (a2, ep2)" by fastforce
  note h2 = hist_only_trans [OF ep_alloc_hist(1) [OF al1] ep_alloc_hist(1) [OF al2]]
  have l2: "live_mrs (hist ep2) = live_mrs (hist ep)" "sent_data (hist ep2) = sent_data (hist ep)"
    "sent_rdma (hist ep2) = sent_rdma (hist ep)" using ep_alloc_hist [OF al1] ep_alloc_hist [OF al2] by simp_all
  show ?thesis
  proof (cases "unat (rndzv_tx_inflight ep) \<ge> rds_rndzv_max_inflight (cfg ep) \<or>
      seg_count vs * sizeof_rds_rndzv_seg > RDS_MAX_EAGER_SIZE \<or> a1 = None \<or> a2 = None")
    case True
    moreover have "send_kept ep ep" by (simp add: send_kept_def)
    ultimately show ?thesis using run same [OF h2 l2] al1 al2
      by (auto simp: rds_send_rndzv_def Let_def split: if_splits)
  next
    case room: False
    then obtain err segs regs ep3 where lp: "rndzv_reg_loop os False dest (src_chunks vs) [] [] ep2 = Some (err, segs, regs, ep3)"
      using run al1 al2 off by (auto simp: rds_send_rndzv_def Let_def split: if_splits option.splits)
    from reg_loop_uncached [OF lp] l2 obtain mrs where m: "regs = map RegMr mrs" "segs = map mr_seg mrs"
      "map mr_iov mrs = take (length mrs) (src_chunks vs)" "err = 0 \<longrightarrow> length mrs = length (src_chunks vs)"
      "live_mrs (hist ep3) = rev (map mr_key mrs) @ live_mrs (hist ep)" "\<forall>mr \<in> set mrs. mr_ref mr = 1"
      "ep3 = ep2\<lparr>hist := hist ep3\<rparr>" "sent_data (hist ep3) = sent_data (hist ep)" "sent_rdma (hist ep3) = sent_rdma (hist ep)"
      by auto
    note h3 = hist_only_trans [OF h2 m(7)]
    have un: "send_kept ep (unregister os regs e)" if "e = ep\<lparr>hist := hist e\<rparr>" "live_mrs (hist e) = live_mrs (hist ep3)"
      "sent_data (hist e) = sent_data (hist ep3)" "sent_rdma (hist e) = sent_rdma (hist ep3)" for e
      unfolding m(1) by (rule unregister_kept [OF m(6)]; (simp add: that(2-4) m(5,8,9); fail)?; subst that(1); simp)
    obtain r ep4 where al4: "ep_alloc os ObjPending ep3 = (r, ep4)" by fastforce
    note h4 = hist_only_trans [OF h3 ep_alloc_hist(1) [OF al4]]
    show ?thesis
    proof (cases "err \<noteq> 0 \<or> r = None")
      case True
      have "send_kept ep (unregister os regs ep3)" by (rule un [OF h3]) simp_all
      moreover have "send_kept ep (unregister os regs ep4)" by (rule un [OF h4]) (simp_all add: ep_alloc_hist(2-4) [OF al4])
      ultimately show ?thesis
        using True run al1 al2 off lp al4 room
        by (auto simp: rds_send_rndzv_def rds_pending_alloc_def Let_def split: if_splits)
    next
      case ok: False
      then have len: "length mrs = seg_count vs" "length mrs \<le> 264" and cover: "map mr_iov mrs = src_chunks vs"
        using m(3,4) seg_count_eq [OF sz] by auto
      obtain i ep5 where ni: "rds_next_id ep4 = (i, ep5)" by fastforce
      define p where "p = (pending_init i RDS_PEND_RNDZV_TX cx (send_comp_flags tg))\<lparr>p_len := iov_sum vs,
        p_mrs := Some mrs, p_cmrs := None, p_mr_cnt := of_nat (length mrs), p_no_comp := \<not> gc\<rparr>"
      define ep6 where "ep6 = ep\<lparr>hist := hist ep4, op_id := i, pending := pending ep @ [p]\<rparr>"
      have ps: "pending ep4 = pending ep" by (subst h4) simp
      have e5: "ep5 = ep4\<lparr>op_id := i\<rparr>" using ni by (auto simp: rds_next_id_def Let_def split: if_splits)
      then have ps5: "pending ep5 = pending ep" using ps by simp
      from e5 have "ep5\<lparr>pending := pending ep @ [p]\<rparr> = ep6" by (subst (asm) h4) (simp add: ep6_def)
      moreover obtain bs where bs: "bs = enc_hdr (rts_hdr (length mrs) (iov_sum vs) tag data fl tg i) @ enc_segs (map mr_seg mrs)" by blast
      ultimately have ship: "rndzv_ship os (length (pending ep)) bs dest da (map RegMr mrs) (length mrs) ep6 = (ret, ep')"
        using run al1 al2 off lp al4 ok room ni len(1) m(1,2) sz ps5
        by (auto simp: rds_send_rndzv_def rds_pending_alloc_def pending_put_def Let_def p_def list_update_append
            pending_init_def)
      have "if ret = 0
          then ep' = ep6\<lparr>hist := SysSend dest bs 0 # hist ep6, rndzv_tx_inflight := rndzv_tx_inflight ep6 + 1\<rparr>
          else send_kept ep ep'"
        by (rule ship_outcome [OF ship _ m(6)]) (simp_all add: ep6_def off m(5,8,9) ep_alloc_hist(2-4) [OF al4])
      moreover have "send_shipped vs dest tag data cx fl tg gc mrs p ep
          (ep6\<lparr>hist := SysSend dest bs 0 # hist ep6, rndzv_tx_inflight := rndzv_tx_inflight ep6 + 1\<rparr>)"
        using cover m(5,6,8,9) ep_alloc_hist(2-4) [OF al4] len(2)
        by (simp add: send_shipped_def ep6_def p_def pending_init_def bs unat_of_nat)
      ultimately show ?thesis by auto
    qed
  qed
qed

section \<open>The FIN\<close>

lemma find_index_last:
  "P x \<Longrightarrow> (\<forall>y \<in> set xs. \<not> P y) \<Longrightarrow> find_index P (xs @ [x]) = Some (length xs)"
  by (induction xs) auto

lemma fin_settles:
  assumes sh: "send_shipped vs dest tag data cx fl tg gc mrs p ep ep'"
    and fresh: "p_id p \<notin> p_id ` set (pending ep)" and nowrap: "rndzv_tx_inflight ep + 1 \<noteq> 0"
  shows "mset (live_mrs (hist (rds_handle_fin os (p_id p) ep'))) = mset (live_mrs (hist ep)) \<and>
    pending (rds_handle_fin os (p_id p) ep') = pending ep \<and>
    rndzv_tx_inflight (rds_handle_fin os (p_id p) ep') = rndzv_tx_inflight ep \<and>
    cq_log (rds_handle_fin os (p_id p) ep') = cq_log ep @
      (if gc \<and> tx_cq ep
       then [TxComp \<lparr>cq_context = cx, cq_flags = send_comp_flags tg, cq_len = iov_sum vs, cq_data = 0, cq_tag = 0,
               cq_src = None, cq_err = 0\<rparr>] else [])"
proof -
  have "rds_pending_find ep' (p_id p) = Some (length (pending ep))"
    using sh find_index_last [of "\<lambda>q. p_id q = p_id p" p "pending ep"] fresh
    by (metis (mono_tags) image_eqI rds_pending_find_def send_shipped_def)
  moreover have "pending ep' ! length (pending ep) = p" using sh by (simp add: send_shipped_def)
  ultimately have "rds_handle_fin os (p_id p) ep' = rds_pending_complete os (length (pending ep)) ep'"
    using sh by (simp add: rds_handle_fin_def send_shipped_def)
  moreover have "mset (live_mrs (put_mrs mrs (hist ep'))) = mset (live_mrs (hist ep))"
    using sh put_mrs_live [of mrs "hist ep'"] by (simp add: send_shipped_def)
  ultimately show ?thesis
    using sh nowrap
    by (simp add: rds_pending_complete_def Let_def send_shipped_def rds_pending_release_mrs_def pending_remove_def
        rds_cq_write_tx_def cq_push_def)
qed

section \<open>The receiver's reads\<close>

lemma reads_posted_rdma:
  "reads_posted t (SysRdma d ra e # h) =
     reads_posted t h @ (if e = 0 \<and> ra_user_token ra = t then [(ra_cookie ra, ra_remote_addr ra, ra_local ra)] else [])"
  by (simp add: reads_posted_def)

lemma reads_posted_alloc [simp]: "reads_posted t (SysAlloc ob a # h) = reads_posted t h"
  by (simp add: reads_posted_def)

lemma read_seg_effect:
  assumes "rndzv_read_seg os rx pe s off n p ep = (p', ep')" and "p_error p = 0" and "p_error p' = 0"
  shows "mset (reads_posted (p_id p) (hist ep')) + mset (reads_parked (p_id p) (deferred ep')) =
    mset (reads_posted (p_id p) (hist ep)) + mset (reads_parked (p_id p) (deferred ep)) +
    {# (seg_cookie s, seg_off s, fst (rds_iov_slice (rx_iov rx) off n)) #} \<and> p_id p' = p_id p"
proof -
  let ?l = "fst (rds_iov_slice (rx_iov rx) off n)"
  obtain r ep1 where po: "rds_post_rdma os pe (seg_cookie s) (seg_off s) ?l False True (p_id p) ep = (r, ep1)" by fastforce
  have e1: "deferred ep1 = deferred ep" "reads_posted (p_id p) (hist ep1) =
      reads_posted (p_id p) (hist ep) @ (if r = 0 then [(seg_cookie s, seg_off s, ?l)] else [])"
    using po by (auto simp: rds_post_rdma_def sys_rdma_def Let_def reads_posted_rdma split: if_splits)
  obtain q ep2 where de: "rds_defer_read os pe (seg_cookie s) (seg_off s) ?l (p_id p) ep1 = (q, ep2)" by fastforce
  have e2: "reads_posted (p_id p) (hist ep2) = reads_posted (p_id p) (hist ep1)"
    "reads_parked (p_id p) (deferred ep2) = reads_parked (p_id p) (deferred ep1) @
       (if q = 0 then [(seg_cookie s, seg_off s, ?l)] else [])"
    using de by (auto simp: rds_defer_read_def ep_alloc_def sys_alloc_def Let_def rds_defer_enqueue_def reads_parked_def
        split: option.splits)
  show ?thesis
    using assms po e1 de e2 by (auto simp: rndzv_read_seg_def Let_def split: if_splits)
qed

lemma read_seg_error_mono:
  "rndzv_read_seg os rx pe s off n p ep = (p', ep') \<Longrightarrow> p_error p' = 0 \<Longrightarrow> p_error p = 0"
  by (auto simp: rndzv_read_seg_def Let_def split: if_splits prod.splits)

lemma read_loop_error_mono:
  "rndzv_read_loop os rx pe ss off eff p ep = (p', ep') \<Longrightarrow> p_error p' = 0 \<Longrightarrow> p_error p = 0"
proof (induction ss arbitrary: off p ep)
  case Nil
  then show ?case by simp
next
  case (Cons s ss)
  show ?case
    using Cons.prems Cons.IH read_seg_error_mono by (fastforce simp: Let_def split: if_splits prod.splits)
qed

lemma read_loop_effect:
  assumes "rndzv_read_loop os rx pe ss off eff p ep = (p', ep')" and "p_error p' = 0"
  shows "mset (reads_posted (p_id p) (hist ep')) + mset (reads_parked (p_id p) (deferred ep')) =
    mset (reads_posted (p_id p) (hist ep)) + mset (reads_parked (p_id p) (deferred ep)) +
    mset (read_plan (rx_iov rx) ss off eff)"
  using assms
proof (induction ss arbitrary: off p ep)
  case Nil
  then show ?case by simp
next
  case (Cons s ss)
  let ?n = "min (unat (seg_len s)) (eff - off)"
  show ?case
  proof (cases "off < eff")
    case False
    with Cons.prems show ?thesis by simp
  next
    case True
    obtain p1 ep1 where st: "rndzv_read_seg os rx pe s off ?n p ep = (p1, ep1)" by fastforce
    with True Cons.prems have run: "rndzv_read_loop os rx pe ss (off + ?n) eff p1 ep1 = (p', ep')" by (simp add: Let_def)
    from read_loop_error_mono [OF run Cons.prems(2)] have z: "p_error p1 = 0" .
    from read_seg_effect [OF st read_seg_error_mono [OF st z] z] Cons.IH [OF run Cons.prems(2)] True
    show ?thesis by (simp add: Let_def)
  qed
qed

section \<open>The data\<close>

text \<open>
  When every planned read has put the source's bytes in its slice, the receive buffer holds the
  message from the first byte on.
\<close>

lemma plan_covers:
  assumes vs: "length vs \<le> RDS_IOV_LIMIT" "iov_sum vs < size_max" and eff: "eff \<le> iov_sum vs"
    and len: "\<forall>s \<in> set ss. length (src s) = unat (seg_len s)"
    and reads: "\<forall>(c, ro, w) \<in> set (read_plan vs ss off eff). gather m w = rem c ro (iov_sum w)"
    and source: "\<forall>s \<in> set ss. \<forall>k \<le> unat (seg_len s). rem (seg_cookie s) (seg_off s) k = take k (src s)"
  shows "take (min (eff - off) (length (concat (map src ss)))) (drop off (gather m vs)) =
    take (eff - off) (concat (map src ss))"
  using len reads source
proof (induction ss arbitrary: off)
  case Nil
  then show ?case by simp
next
  case (Cons s ss)
  let ?n = "min (unat (seg_len s)) (eff - off)"
  let ?w = "fst (rds_iov_slice vs off ?n)"
  show ?case
  proof (cases "off < eff")
    case False
    then show ?thesis by simp
  next
    case True
    note win = rds_iov_slice_window [OF vs, of m off ?n]
    have sum: "iov_sum ?w = ?n" using win eff True by simp
    have "gather m ?w = rem (seg_cookie s) (seg_off s) ?n" using Cons.prems(2) True sum by (simp add: Let_def)
    then have hd: "take ?n (drop off (gather m vs)) = take ?n (src s)" using Cons.prems(3) win by simp
    have tl: "take (min (eff - (off + ?n)) (length (concat (map src ss)))) (drop (off + ?n) (gather m vs)) =
        take (eff - (off + ?n)) (concat (map src ss))"
      by (rule Cons.IH) (use Cons.prems True in \<open>simp_all add: Let_def\<close>)
    have ls: "length (src s) = unat (seg_len s)" using Cons.prems(1) by simp
    have split: "take (?n + k) (drop off (gather m vs)) = take ?n (src s) @ take k (drop (off + ?n) (gather m vs))" for k
      using hd take_add [of ?n k "drop off (gather m vs)"] drop_drop [of ?n off "gather m vs"] by (simp only: add.commute)
    have "min (eff - off) (length (concat (map src (s # ss)))) = ?n + min (eff - (off + ?n)) (length (concat (map src ss)))"
      using ls by simp
    then have "take (min (eff - off) (length (concat (map src (s # ss))))) (drop off (gather m vs)) =
        take ?n (src s) @ take (eff - (off + ?n)) (concat (map src ss))"
      using split tl by metis
    also have "\<dots> = take (eff - off) (concat (map src (s # ss)))"
      using ls by (cases "unat (seg_len s) \<le> eff - off") simp_all
    finally show ?thesis .
  qed
qed

section \<open>Both sides together\<close>

lemma payload_segs_enc:
  "payload_segs os ep (length ss) (enc_segs ss) = ss"
  using dec_enc_segs [of ss "[]"] by (simp add: payload_segs_def)

lemma pending_send_fin [simp]: "pending (rds_send_fin os pe i ep) = pending ep"
  by (auto simp: rds_send_fin_def rds_send_fin_raw_def sys_send_def rds_defer_fin_def ep_alloc_def sys_alloc_def
      rds_defer_enqueue_def Let_def split: option.splits prod.splits)

lemma pending_cq_write_rx [simp]: "pending (rds_cq_write_rx c f l d t sr er ep) = pending ep"
  by (simp add: rds_cq_write_rx_def cq_push_def)

lemma read_seg_pending:
  "rndzv_read_seg os rx pe s off n p ep = (p', ep') \<Longrightarrow> pending ep' = pending ep \<and> p_id p' = p_id p"
  by (auto simp: rndzv_read_seg_def rds_post_rdma_def sys_rdma_def rds_defer_read_def ep_alloc_def sys_alloc_def
      rds_defer_enqueue_def Let_def split: if_splits option.splits prod.splits)

lemma read_loop_pending:
  "rndzv_read_loop os rx pe ss off eff p ep = (p', ep') \<Longrightarrow> pending ep' = pending ep \<and> p_id p' = p_id p"
  by (induction ss arbitrary: off p ep) (auto simp: Let_def split: if_splits prod.splits dest!: read_seg_pending)

text \<open>The reads a matched request starts, when none of them failed.\<close>

lemma start_read_effect:
  assumes start: "rds_start_rndzv_read os rx hdr segs pe src ep = ep'"
    and one: "pending ep' = pending ep @ [p]" and ok: "p_error p = 0"
    and fresh: "reads_posted (p_id p) (hist ep) = []" "reads_parked (p_id p) (deferred ep) = []"
  shows "mset (reads_posted (p_id p) (hist ep')) + mset (reads_parked (p_id p) (deferred ep')) =
    mset (read_plan (rx_iov rx) segs 0 (min (unat (hdr_size hdr)) (rx_total_len rx))) \<and>
    unat (hdr_size hdr) \<le> rx_total_len rx"
proof -
  let ?eff = "min (unat (hdr_size hdr)) (rx_total_len rx)"
  let ?fl = "rds_rx_flags hdr (hdr_tagged hdr)"
  obtain r ep1 where al: "rds_pending_alloc os RDS_PEND_RNDZV_RX (rx_context rx) ?fl ep = (r, ep1)" by fastforce
  obtain a ep0 where al0: "ep_alloc os ObjPending ep = (a, ep0)" by fastforce
  note ep0 = ep_alloc_cases [OF al0]
  show ?thesis
  proof (cases r)
    case None
    then have "pending ep1 = pending ep" using al al0 ep0
      by (auto simp: rds_pending_alloc_def Let_def split: option.splits prod.splits)
    then have "pending ep' = pending ep" using start al None by (auto simp: rds_start_rndzv_read_def Let_def)
    with one show ?thesis by simp
  next
    case (Some kq)
    then obtain k q where kq: "r = Some (k, q)" by fastforce
    from al kq al0 ep0 have k: "k = length (pending ep)" and e1: "pending ep1 = pending ep @ [q]" "deferred ep1 = deferred ep"
      "hist ep1 = SysAlloc ObjPending a # hist ep"
      by (auto simp: rds_pending_alloc_def rds_next_id_def Let_def split: option.splits prod.splits if_splits)
    define q0 where "q0 = rndzv_pend rx hdr pe src ep q"
    obtain q1 ep2 where lp: "rndzv_read_loop os rx pe segs 0 ?eff q0 ep1 = (q1, ep2)" by fastforce
    have p2: "pending ep2 = pending ep @ [q]" "p_id q1 = p_id q0" using read_loop_pending [OF lp] e1 by simp_all
    have put: "pending (pending_put k q1 ep2) = pending ep @ [q1]" using p2 k by (simp add: pending_put_def)
    have run: "ep' = (if p_seg_remaining q1 = 0 \<and> p_seg_deferred q1 = 0
        then rds_rndzv_rx_finalize os k (pending_put k q1 ep2) else pending_put k q1 ep2)"
      using start al kq lp by (auto simp: rds_start_rndzv_read_def Let_def q0_def)
    have "pending (rds_rndzv_rx_finalize os k (pending_put k q1 ep2)) = pending ep"
      using put k by (simp add: rds_rndzv_rx_finalize_def Let_def pending_remove_def)
    then have e': "ep' = pending_put k q1 ep2" using run one by (auto split: if_splits)
    then have pq: "p = q1" using put one by simp
    from read_loop_error_mono [OF lp] ok pq have "unat (hdr_size hdr) \<le> rx_total_len rx"
      by (simp add: q0_def rndzv_pend_def split: if_splits)
    with read_loop_effect [OF lp] ok p2(2) e1 fresh pq show ?thesis by (simp add: e' pending_put_def)
  qed
qed




lemma sample_send: "rds_send_rndzv calm_os [iov 64 4] 9 5 0 3 0 True True 1 sample_sender = Some (0, sample_sent)"
  and sample_sent_pending: "\<exists>p. pending sample_sent = [p] \<and> p_id p = 1 \<and>
    (\<exists>mr. p_mrs p = Some [mr] \<and> mr_cookie mr = 7 \<and> mr_buf mr = 64 \<and> mr_len mr = 4)"
  by (simp_all add: sample_sent_def rds_send_rndzv_def Let_def sample_sender_def testbed_simps seg_count_def src_chunks_def
      chunks.simps ep_alloc_def sys_alloc_def rndzv_register_def rds_reg_internal_def rds_kernel_reg_def sys_get_mr_def
      rds_pending_alloc_def rds_next_id_def rndzv_ship_def pending_put_def sys_send_def sock_ret_def pending_init_def reg_mrs_def)

lemma sample_sent_data:
  "sent_data (hist sample_sent) =
     [(9, enc_hdr (rts_hdr 1 4 5 0 0 True 1) @ enc_segs [\<lparr>seg_cookie = 7, seg_off = 0, seg_len = 4\<rparr>])]"
  by (simp add: sample_sent_def rds_send_rndzv_def Let_def sample_sender_def testbed_simps seg_count_def src_chunks_def
      chunks.simps ep_alloc_def sys_alloc_def rndzv_register_def rds_reg_internal_def rds_kernel_reg_def sys_get_mr_def
      rds_pending_alloc_def rds_next_id_def rndzv_ship_def pending_put_def sys_send_def sock_ret_def pending_init_def reg_mrs_def)


lemma hdr_tagged_rts [simp]: "hdr_tagged (rts_hdr n l tag data fl tg i) = tg"
  by (simp add: hdr_tagged_def rts_hdr_def send_flags_def)

lemma seg_source:
  assumes "\<forall>mr \<in> set mrs. mr_len mr \<le> RDS_KERNEL_SEG_MAX"
    and "\<forall>mr \<in> set mrs. \<forall>k \<le> mr_len mr. rem (mr_cookie mr) 0 k = mem_read ms (mr_buf mr) k"
  obtains src where "\<forall>s \<in> set (map mr_seg mrs). length (src s) = unat (seg_len s)"
    and "\<forall>s \<in> set (map mr_seg mrs). \<forall>k \<le> unat (seg_len s). rem (seg_cookie s) (seg_off s) k = take k (src s)"
    and "concat (map src (map mr_seg mrs)) = gather ms (map mr_iov mrs)"
proof -
  let ?src = "\<lambda>s. rem (seg_cookie s) (seg_off s) (unat (seg_len s))"
  have l: "unat (of_nat (mr_len mr) :: u64) = mr_len mr" if "mr \<in> set mrs" for mr
    using assms(1) that by (auto simp: unat_of_nat)
  have rd: "take k (mem_read ms b n) = mem_read ms b k" if "k \<le> n" for b k n
    using that by (simp add: mem_read_def take_map)
  show thesis
  proof (rule that [of ?src])
    show "\<forall>s \<in> set (map mr_seg mrs). length (?src s) = unat (seg_len s)"
      using assms(2) l by (auto simp: mr_seg_def)
    show "\<forall>s \<in> set (map mr_seg mrs). \<forall>k \<le> unat (seg_len s). rem (seg_cookie s) (seg_off s) k = take k (?src s)"
      using assms(2) l rd by (auto simp: mr_seg_def)
    have "?src (mr_seg mr) = mem_read ms (mr_buf mr) (mr_len mr)" if "mr \<in> set mrs" for mr
      using assms(2) l [OF that] that by (simp add: mr_seg_def)
    then show "concat (map ?src (map mr_seg mrs)) = gather ms (map mr_iov mrs)"
      by (simp add: gather_def mr_iov_def comp_def cong: map_cong)
  qed
qed


lemma sample_match:
  "rds_match_posted sample_rts 1 True sample_receiver = (Some sample_rx, sample_receiver\<lparr>rx_posted_tag := []\<rparr>)"
  by (simp add: rds_match_posted_def sample_receiver_def sample_rx_def rx_entry_of_def rx_matches_def rds_addr_match_def
      rds_tag_match_def sample_rts_def rts_hdr_def)

lemma sample_received_eval:
  "\<exists>q. pending sample_received = [q] \<and> p_error q = 0 \<and> p_id q = 1"
  "reads_posted 1 (hist sample_received) = [(7, 0, [iov 300 1, iov 400 3])]" "deferred sample_received = []"
proof -
  have segs: "payload_segs calm_os e (Suc 0) (enc_segs [sample_seg]) = [sample_seg]" for e
    using payload_segs_enc [of calm_os e "[sample_seg]"] by simp
  have eq: "sample_received =
      rds_start_rndzv_read calm_os sample_rx sample_rts [sample_seg] 9 1 (sample_receiver\<lparr>rx_posted_tag := []\<rparr>)"
    unfolding sample_received_def rds_handle_inbound_def rds_handle_message_def Let_def
    using sample_match segs by (simp add: sample_rts_def) (simp add: rts_hdr_def)
  show "\<exists>q. pending sample_received = [q] \<and> p_error q = 0 \<and> p_id q = 1"
    "reads_posted 1 (hist sample_received) = [(7, 0, [iov 300 1, iov 400 3])]" "deferred sample_received = []"
    unfolding eq by (simp_all add: rds_start_rndzv_read_def Let_def rds_pending_alloc_def ep_alloc_def sys_alloc_def rds_next_id_def
        sample_receiver_def testbed_simps sample_rx_def rx_entry_of_def ofi_total_iov_len_def sample_rts_def rts_hdr_def
        sample_seg_def rndzv_pend_def pending_init_def rndzv_read_seg_def rds_iov_slice_def rds_post_rdma_def sys_rdma_def
        pending_put_def reads_posted_def)
qed





end
