(* ===== verification/Rds_Observe.thy ===== *)
theory Rds_Observe
  imports Rds_Reach
begin

text \<open>
  What the data path leaves alone.  An observation of the endpoint that does not look at
  completions, history, pending and parked operations, counters and cache is not changed by the
  handlers of rendezvous and one-sided operations; one that does not look at memory and ring peers
  either is not changed by anything but matching; one that does not look at the four receive
  lists either is not changed by any call.  The receive lists and the endpoint's configuration are two
  such observations.
\<close>

section \<open>Observers\<close>

text \<open>
  The handlers that only keep books: completions, history, pending and parked operations, and the
  cache.
\<close>

locale quiet_observer =
  fixes obs :: "rds_ep \<Rightarrow> 'o"
  assumes obs_cq_log [simp]: "obs (ep\<lparr>cq_log := l\<rparr>) = obs ep"
    and obs_hist [simp]: "obs (ep\<lparr>hist := h\<rparr>) = obs ep"
    and obs_pending [simp]: "obs (ep\<lparr>pending := ps\<rparr>) = obs ep"
    and obs_deferred [simp]: "obs (ep\<lparr>deferred := ds\<rparr>) = obs ep"
    and obs_op_id [simp]: "obs (ep\<lparr>op_id := i\<rparr>) = obs ep"
    and obs_inflight [simp]: "obs (ep\<lparr>rndzv_tx_inflight := n\<rparr>) = obs ep"
    and obs_dom_cache [simp]: "obs (ep\<lparr>dom_cache := c\<rparr>) = obs ep"
begin

lemma ob_pending_put [simp]: "obs (pending_put k p ep) = obs ep" "obs (pending_remove k ep) = obs ep"
  by (simp_all add: pending_put_def pending_remove_def)

lemma ob_cq [simp]: "obs (rds_cq_write_tx c f l e ep) = obs ep" "obs (rds_cq_write_rx c f l d t s e ep) = obs ep"
  by (simp_all add: rds_cq_write_tx_def rds_cq_write_rx_def cq_push_def)

lemma ob_ep_alloc: "ep_alloc os ob ep = (r, ep') \<Longrightarrow> obs ep' = obs ep"
  by (auto simp: ep_alloc_def split: prod.splits)

lemma ob_post_rdma: "rds_post_rdma os d c ro vs w n t ep = (r, ep') \<Longrightarrow> obs ep' = obs ep"
  by (auto simp: rds_post_rdma_def split: prod.splits if_splits)

lemma ob_pending_alloc: "rds_pending_alloc os ty cx fl ep = (r, ep') \<Longrightarrow> obs ep' = obs ep"
  by (auto simp: rds_pending_alloc_def rds_next_id_def Let_def split: prod.splits option.splits if_splits dest!: ob_ep_alloc)

lemma ob_defer_read: "rds_defer_read os pe c ro vs t ep = (r, ep') \<Longrightarrow> obs ep' = obs ep"
  by (auto simp: rds_defer_read_def rds_defer_enqueue_def split: prod.splits option.splits dest!: ob_ep_alloc)

lemma ob_send_fin_raw: "rds_send_fin_raw os pe i ep = (r, ep') \<Longrightarrow> obs ep' = obs ep"
  by (auto simp: rds_send_fin_raw_def split: prod.splits)

lemma ob_send_fin [simp]: "obs (rds_send_fin os pe i ep) = obs ep"
  by (auto simp: rds_send_fin_def rds_defer_fin_def rds_defer_enqueue_def split: prod.splits option.splits
      dest!: ob_send_fin_raw ob_ep_alloc)

lemma ob_reg_cache_put [simp]: "obs (rds_reg_cache_put os i ep) = obs ep"
  by (simp add: rds_reg_cache_put_def split: prod.splits)

lemma ob_put_cached [simp]: "obs (put_cached os is ep) = obs ep"
  by (induction os "is" ep rule: put_cached.induct) simp_all

lemma ob_release_mrs [simp]: "obs (rds_pending_release_mrs os p ep) = obs ep"
  by (simp add: rds_pending_release_mrs_def split: option.splits)

lemma ob_complete [simp]: "obs (rds_pending_complete os k ep) = obs ep"
  by (simp add: rds_pending_complete_def Let_def)

lemma ob_finalize [simp]: "obs (rds_rndzv_rx_finalize os k ep) = obs ep"
  by (simp add: rds_rndzv_rx_finalize_def Let_def)

lemma ob_unregister [simp]: "obs (unregister os rs ep) = obs ep"
  by (induction os rs ep rule: unregister.induct) simp_all

lemma ob_reg_cache_get: "rds_reg_cache_get os b n d ep = Some (r, ep') \<Longrightarrow> obs ep' = obs ep"
  by (auto simp: rds_reg_cache_get_def Let_def split: if_splits option.splits prod.splits)

lemma ob_rndzv_register: "rndzv_register os ca d ch ep = Some (r, ep') \<Longrightarrow> obs ep' = obs ep"
  by (auto simp: rndzv_register_def split: if_splits option.splits sum.splits prod.splits dest!: ob_reg_cache_get)

lemma ob_reg_loop: "rndzv_reg_loop os ca d chs ss rs ep = Some (e, ss', rs', ep') \<Longrightarrow> obs ep' = obs ep"
proof (induction chs arbitrary: ss rs ep)
  case Nil
  then show ?case by simp
next
  case (Cons ch chs)
  then show ?case by (auto split: option.splits sum.splits prod.splits dest!: ob_rndzv_register)
qed

lemma ob_rma_loop: "rma_loop os vs d key ro w n off p ep = (r, p', ep') \<Longrightarrow> obs ep' = obs ep"
proof (induction os vs d key ro w n off p ep rule: rma_loop.induct)
  case (1 os vs d key ro w n off p ep)
  then show ?case
    by (subst (asm) (2) rma_loop.simps) (auto simp: Let_def split: if_splits prod.splits dest!: ob_post_rdma)
qed

lemma ob_rma_common [simp]: "obs (snd (rds_rma_common os vs a ro key w cx fl ep)) = obs ep"
  by (auto simp: rds_rma_common_def Let_def split: option.splits prod.splits dest!: ob_pending_alloc ob_rma_loop)

lemma ob_read_seg: "rndzv_read_seg os rx pe s off n p ep = (p', ep') \<Longrightarrow> obs ep' = obs ep"
  by (auto simp: rndzv_read_seg_def Let_def split: prod.splits if_splits dest!: ob_post_rdma ob_defer_read)

lemma ob_read_loop: "rndzv_read_loop os rx pe ss off ef p ep = (p', ep') \<Longrightarrow> obs ep' = obs ep"
  by (induction ss arbitrary: off p ep) (auto simp: Let_def split: if_splits prod.splits dest!: ob_read_seg)

lemma ob_start_rndzv_read [simp]: "obs (rds_start_rndzv_read os rx hdr segs pe src ep) = obs ep"
  by (auto simp: rds_start_rndzv_read_def Let_def split: option.splits prod.splits dest!: ob_pending_alloc ob_read_loop)

lemma ob_handle_fin [simp]: "obs (rds_handle_fin os i ep) = obs ep"
  by (simp add: rds_handle_fin_def split: option.splits)

lemma ob_handle_rdma_notify [simp]: "obs (rds_handle_rdma_notify os t st ep) = obs ep"
  by (simp add: rds_handle_rdma_notify_def Let_def split: option.splits rds_pend_type.splits)

lemma ob_reap_notifies [simp]: "obs (rds_reap_notifies os ns ep) = obs ep"
  by (induction os ns ep rule: rds_reap_notifies.induct) simp_all

lemma ob_deferred_step: "deferred_step os d ep = (b, ep') \<Longrightarrow> obs ep' = obs ep"
  by (auto simp: deferred_step_def Let_def split: rds_deferred_type.splits prod.splits option.splits if_splits
      dest!: ob_send_fin_raw ob_post_rdma)

lemma ob_deferred_loop: "progress_deferred_loop os kept ds b ep = (b', ep') \<Longrightarrow> obs ep' = obs ep"
proof (induction os kept ds b ep rule: progress_deferred_loop.induct)
  case (1 os kept blocked ep)
  then show ?case by simp
next
  case (2 os kept d rest blocked ep)
  obtain keep ep1 where st: "deferred_step os d (ep\<lparr>deferred := kept @ rest\<rparr>) = (keep, ep1)" by fastforce
  from ob_deferred_step [OF this] have e1: "obs ep1 = obs ep" by simp
  with 2 st show ?case by (cases keep) (auto split: if_splits)
qed

lemma ob_progress_deferred [simp]: "obs (snd (rds_progress_deferred os ep)) = obs ep"
  by (auto simp: rds_progress_deferred_def split: prod.splits dest: ob_deferred_loop)

end

text \<open>Delivery and the rings, which also write memory and the peer table.\<close>

locale path_observer = quiet_observer +
  assumes obs_mem [simp]: "obs (ep\<lparr>mem := m\<rparr>) = obs ep"
    and obs_peers [simp]: "obs (ep\<lparr>peers := pm\<rparr>) = obs ep"
    and obs_peer_hash [simp]: "obs (ep\<lparr>peer_hash := ph\<rparr>) = obs ep"
    and obs_peer_lru [simp]: "obs (ep\<lparr>peer_lru := pl\<rparr>) = obs ep"
    and obs_peer_cnt [simp]: "obs (ep\<lparr>peer_cnt := pc\<rparr>) = obs ep"
begin

lemma ob_peer_put [simp]: "obs (peer_put a p ep) = obs ep"
  by (simp add: peer_put_def)

lemma ob_peer_buffers: "peer_buffers os ep = (r, ep') \<Longrightarrow> obs ep' = obs ep"
  by (auto simp: peer_buffers_def split: option.splits prod.splits dest!: ob_ep_alloc)

lemma ob_peer_create: "rds_peer_create os a ep = (r, ep') \<Longrightarrow> obs ep' = obs ep"
  by (auto simp: rds_peer_create_def Let_def split: option.splits prod.splits if_splits dest!: ob_peer_buffers)

lemma ob_ring_send_ctrl [simp]: "obs (rds_ring_send_ctrl os p op ep) = obs ep"
  by (simp add: rds_ring_send_ctrl_def)

lemma ob_ring_handle_ctrl [simp]: "obs (rds_ring_handle_ctrl os hdr pl src ep) = obs ep"
  by (auto simp: rds_ring_handle_ctrl_def Let_def split: option.splits prod.splits dest!: ob_peer_create)

lemma ob_ring_send_ready: "ring_send_ready os n cp a p tg da cx fl ta gc op ep = (r, ep') \<Longrightarrow> obs ep' = obs ep"
  by (auto simp: ring_send_ready_def Let_def split: prod.splits if_splits dest!: ob_post_rdma)

lemma ob_ring_send_handshake: "ring_send_handshake os a p ep = (r, ep') \<Longrightarrow> obs ep' = obs ep"
  by (auto simp: ring_send_handshake_def Let_def split: prod.splits if_splits)

lemma ob_ring_send: "rds_ring_send os n cp de tg da cx fl ta gc op ep = (r, ep') \<Longrightarrow> obs ep' = obs ep"
  by (auto simp: rds_ring_send_def Let_def split: prod.splits if_splits option.splits
      dest!: ob_peer_create ob_ring_send_ready ob_ring_send_handshake)

lemma ob_send_eager: "rds_send_eager os vs d tg da cx fl ta gc ep = (r, ep') \<Longrightarrow> obs ep' = obs ep"
  by (auto simp: rds_send_eager_def Let_def split: prod.splits if_splits)

lemma ob_send_eager_snd [simp]: "obs (snd (rds_send_eager os vs d tg da cx fl ta gc ep)) = obs ep"
  using ob_send_eager by (metis prod.collapse)

lemma ob_rndzv_ship: "rndzv_ship os k bs d da rs n ep = (r, ep') \<Longrightarrow> obs ep' = obs ep"
  by (auto simp: rndzv_ship_def Let_def split: prod.splits if_splits dest!: ob_ring_send)

lemma ob_send_rndzv: "rds_send_rndzv os vs d tag da cx fl tg gc dad ep = Some (r, ep') \<Longrightarrow> obs ep' = obs ep"
  by (auto simp: rds_send_rndzv_def Let_def split: if_splits prod.splits option.splits
      dest!: ob_ep_alloc ob_reg_loop ob_pending_alloc ob_rndzv_ship)

lemma ob_generic_send: "rds_generic_send os vs a tag da cx fl tg ep = Some (r, ep') \<Longrightarrow> obs ep' = obs ep"
  by (auto simp: rds_generic_send_def Let_def split: if_splits option.splits prod.splits
      dest!: ob_ring_send ob_send_eager ob_send_rndzv)

lemma ob_generic_inject [simp]: "obs (snd (rds_generic_inject os b l a tag tg ep)) = obs ep"
  by (auto simp: rds_generic_inject_def Let_def split: option.splits prod.splits dest!: ob_ring_send ob_send_eager)

lemma ob_inject_write [simp]: "obs (snd (rds_inject_write os b len a ro key ep)) = obs ep"
  by (auto simp: rds_inject_write_def Let_def split: option.splits prod.splits dest!: ob_ep_alloc ob_pending_alloc ob_post_rdma)

lemma ob_deliver_eager [simp]: "obs (rds_deliver_eager rx hdr pl src ep) = obs ep"
  by (simp add: rds_deliver_eager_def Let_def split: prod.splits)

lemma ob_return_credit [simp]: "obs (rds_ring_return_credit os a ep) = obs ep"
  by (auto simp: rds_ring_return_credit_def Let_def split: option.splits prod.splits dest!: ob_post_rdma)

end

text \<open>Nothing an application or the hardware does is visible to an observer of the second kind.\<close>

locale call_observer = path_observer +
  assumes obs_posted_msg [simp]: "obs (ep\<lparr>rx_posted_msg := rs\<rparr>) = obs ep"
    and obs_posted_tag [simp]: "obs (ep\<lparr>rx_posted_tag := rs\<rparr>) = obs ep"
    and obs_unexp_msg [simp]: "obs (ep\<lparr>rx_unexp_msg := us\<rparr>) = obs ep"
    and obs_unexp_tag [simp]: "obs (ep\<lparr>rx_unexp_tag := us\<rparr>) = obs ep"
    and obs_reg_ep [simp]: "obs (ep\<lparr>reg_ep := r\<rparr>) = obs ep"
begin

lemma ob_match_posted: "rds_match_posted hdr src tg ep = (r, ep') \<Longrightarrow> obs ep' = obs ep"
  by (auto simp: rds_match_posted_def split: option.splits)

lemma ob_match_unexp: "rds_match_unexp a t ig tg ep = (r, ep') \<Longrightarrow> obs ep' = obs ep"
  by (auto simp: rds_match_unexp_def split: option.splits)

lemma ob_enqueue_unexp [simp]: "obs (rds_enqueue_unexp os hdr pl src fi tg ep) = obs ep"
  by (auto simp: rds_enqueue_unexp_def Let_def split: option.splits prod.splits dest!: ob_ep_alloc)

lemma ob_handle_inbound [simp]: "obs (rds_handle_inbound os hdr pl src fi ep) = obs ep"
  by (auto simp: rds_handle_inbound_def rds_handle_message_def Let_def split: option.splits prod.splits dest!: ob_match_posted)

lemma ob_post_recv [simp]: "obs (snd (rds_post_recv os vs a tag ig cx fl tg ep)) = obs ep"
  by (auto simp: rds_post_recv_def Let_def split: option.splits prod.splits dest!: ob_match_unexp ob_ep_alloc)

lemma ob_cancel [simp]: "obs (snd (rds_ep_cancel cx ep)) = obs ep"
  by (auto simp: rds_ep_cancel_def cancel_entry_def cq_push_def split: option.splits)

lemma ob_ctrl [simp]: "obs (snd (rds_ep_ctrl en ep)) = obs ep"
  by (simp add: rds_ep_ctrl_def)

lemma ob_ring_deliver [simp]: "obs (rds_ring_deliver os p sl pl ep) = obs ep"
  by (simp add: rds_ring_deliver_def)

lemma ob_poll_step: "ring_poll_step os a ep = Some ep' \<Longrightarrow> obs ep' = obs ep"
  by (auto simp: ring_poll_step_def Let_def split: option.splits if_splits)

lemma ob_poll_loop: "ring_poll_loop k os a dr ep = (dr', ep') \<Longrightarrow> obs ep' = obs ep"
  by (induction k arbitrary: dr ep) (auto split: option.splits dest!: ob_poll_step)

lemma ob_poll_peer [simp]: "obs (rds_ring_poll_peer os a ep) = obs ep"
  by (auto simp: rds_ring_poll_peer_def simp del: ring_poll_loop.simps split: option.splits prod.splits dest!: ob_poll_loop)

lemma ob_poll_peers [simp]: "obs (poll_peers os as ep) = obs ep"
  by (induction os as ep rule: poll_peers.induct) (simp_all split: option.splits)

lemma ob_handle_recv_msg [simp]: "obs (handle_recv_msg os rm ep) = obs ep"
  by (simp add: handle_recv_msg_def Let_def)

lemma ob_progress_loop [simp]: "obs (progress_loop k os ep) = obs ep"
  by (induction k arbitrary: ep) (auto split: sum.splits prod.splits)

lemma ob_ep_progress [simp]: "obs (rds_ep_progress os ep) = obs ep"
  by (simp add: rds_ep_progress_def rds_ring_progress_def Let_def)

lemma ob_step: "ep_step os ep k ep' \<Longrightarrow> obs ep' = obs ep"
  by (erule ep_step.cases) (auto dest: ob_generic_send)

lemma ob_run: "ep_run os ep k ep' \<Longrightarrow> obs ep' = obs ep"
  by (induction rule: ep_run.induct) (auto dest: ob_step)

end

section \<open>Two observations\<close>

definition rx_lists :: "rds_ep \<Rightarrow> rds_rx_entry list \<times> rds_rx_entry list \<times> rds_unexp list \<times> rds_unexp list" where
  "rx_lists ep = (rx_posted_msg ep, rx_posted_tag ep, rx_unexp_msg ep, rx_unexp_tag ep)"

definition settings ::
  "rds_ep \<Rightarrow> (int \<times> bool \<times> u64 \<times> u64 \<times> u64 \<times> bool \<times> bool \<times> util_av option) \<times> nat \<times> bool \<times> u32 \<times> u32 \<times> u32 \<times> u32 \<times> bool \<times> rds_config" where
  "settings ep = ((ep_sock ep, is_bound ep, ep_caps ep, tx_op_flags ep, rx_op_flags ep, tx_cq ep, rx_cq ep, ep_av ep),
     rx_buf_size ep, eager_rdma ep, ring_slots ep, ring_slot_size ep, ring_max_peers ep, ring_payload ep,
     cache_enabled ep, cfg ep)"

interpretation rx_obs: path_observer rx_lists
  by unfold_locales (simp_all add: rx_lists_def)

interpretation set_obs: call_observer settings
  by unfold_locales (simp_all add: settings_def)

section \<open>Posted receives and unexpected messages never match\<close>

definition apart :: "bool \<Rightarrow> rds_rx_entry list \<Rightarrow> rds_unexp list \<Rightarrow> bool" where
  "apart tg rxs uxs \<longleftrightarrow> (\<forall>rx \<in> set rxs. \<forall>ux \<in> set uxs. \<not> rx_matches (ux_hdr ux) (ux_addr ux) tg rx)"

definition lists_apart :: "rds_rx_entry list \<times> rds_rx_entry list \<times> rds_unexp list \<times> rds_unexp list \<Rightarrow> bool" where
  "lists_apart l = (case l of (pm, pt, um, ut) \<Rightarrow> apart False pm um \<and> apart True pt ut)"

definition queues_apart :: "rds_ep \<Rightarrow> bool" where
  "queues_apart ep = lists_apart (rx_lists ep)"

lemma queues_apart_cong: "rx_lists ep' = rx_lists ep \<Longrightarrow> queues_apart ep' = queues_apart ep"
  by (simp add: queues_apart_def)

lemma ux_rx_matches: "ux_matches (rx_addr rx) (rx_tag rx) (rx_ignore rx) tg ux = rx_matches (ux_hdr ux) (ux_addr ux) tg rx"
  by (simp add: ux_matches_def rx_matches_def)

lemma apart_subset: "apart tg rxs uxs \<Longrightarrow> set rxs' \<subseteq> set rxs \<Longrightarrow> set uxs' \<subseteq> set uxs \<Longrightarrow> apart tg rxs' uxs'"
  by (auto simp: apart_def)

lemma take_first_set: "take_first P xs = Some (y, ys) \<Longrightarrow> set ys \<subseteq> set xs"
  by (auto dest!: take_first_Some)

lemma enqueue_lists:
  "rx_lists (rds_enqueue_unexp os hdr pl src fi tg ep) = rx_lists ep \<or>
   (\<exists>ux. ux_hdr ux = hdr \<and> ux_addr ux = fi \<and>
     rx_lists (rds_enqueue_unexp os hdr pl src fi tg ep) =
       (rx_posted_msg ep, rx_posted_tag ep, rx_unexp_msg ep @ (if tg then [] else [ux]), rx_unexp_tag ep @ (if tg then [ux] else [])))"
proof -
  obtain a ep1 where al: "ep_alloc os (ObjUnexp (if hdr_op hdr = RDS_OP_EAGER then length pl else 0)) ep = (a, ep1)" by fastforce
  obtain b ep2 where al2: "ep_alloc os (ObjSegs (unat (hdr_seg_cnt hdr))) ep1 = (b, ep2)" by fastforce
  have l: "rx_lists ep1 = rx_lists ep" "rx_lists ep2 = rx_lists ep"
    using rx_obs.ob_ep_alloc [OF al] rx_obs.ob_ep_alloc [OF al2] by simp_all
  define ux where "ux = (if hdr_op hdr = RDS_OP_EAGER
    then \<lparr>ux_hdr = hdr, ux_addr = fi, ux_src = src, ux_segs = [], ux_data = pl\<rparr>
    else \<lparr>ux_hdr = hdr, ux_addr = fi, ux_src = src, ux_segs = payload_segs os ep2 (unat (hdr_seg_cnt hdr)) pl, ux_data = []\<rparr>)"
  have "rx_lists (rds_enqueue_unexp os hdr pl src fi tg ep) = rx_lists ep \<or>
      rx_lists (rds_enqueue_unexp os hdr pl src fi tg ep) =
        (rx_posted_msg ep, rx_posted_tag ep, rx_unexp_msg ep @ (if tg then [] else [ux]), rx_unexp_tag ep @ (if tg then [ux] else []))"
    using al al2 l by (auto simp: rds_enqueue_unexp_def Let_def ux_def split: option.splits) (auto simp: rx_lists_def)
  then show ?thesis by (auto simp: ux_def)
qed

lemma apart_handle_message:
  assumes "queues_apart ep"
  shows "queues_apart (rds_handle_message os hdr pl src fi ep)"
proof -
  let ?tg = "hdr_tagged hdr"
  obtain r ep1 where m: "rds_match_posted hdr fi ?tg ep = (r, ep1)" by fastforce
  show ?thesis
  proof (cases r)
    case None
    with m have e1: "ep1 = ep" and no: "\<forall>rx \<in> set (if ?tg then rx_posted_tag ep else rx_posted_msg ep). \<not> rx_matches hdr fi ?tg rx"
      by (auto simp: rds_match_posted_def take_first_None_iff split: option.splits)
    then show ?thesis
      using assms enqueue_lists [of os hdr pl src fi ?tg ep] m None
      by (auto simp: rds_handle_message_def Let_def queues_apart_def lists_apart_def apart_def rx_lists_def split: if_splits)
  next
    case (Some rx)
    with m have "queues_apart ep1" using assms
      by (auto simp: rds_match_posted_def queues_apart_def lists_apart_def rx_lists_def split: option.splits if_splits
          dest!: take_first_set intro: apart_subset)
    with m Some show ?thesis
      using queues_apart_cong [OF rx_obs.ob_deliver_eager] queues_apart_cong [OF rx_obs.ob_start_rndzv_read]
      by (simp add: rds_handle_message_def Let_def)
  qed
qed

lemma apart_handle_inbound: "queues_apart ep \<Longrightarrow> queues_apart (rds_handle_inbound os hdr pl src fi ep)"
  by (simp add: rds_handle_inbound_def apart_handle_message queues_apart_cong [OF rx_obs.ob_handle_fin]
      queues_apart_cong [OF rx_obs.ob_ring_handle_ctrl])

lemma apart_post_recv:
  assumes "queues_apart ep"
  shows "queues_apart (snd (rds_post_recv os vs a tag ig cx fl tg ep))"
proof -
  let ?rx = "rx_entry_of vs a tag ig cx fl tg"
  obtain r ep1 where m: "rds_match_unexp a tag ig tg ep = (r, ep1)" by fastforce
  show ?thesis
  proof (cases r)
    case None
    with m have e1: "ep1 = ep" and no: "\<forall>ux \<in> set (if tg then rx_unexp_tag ep else rx_unexp_msg ep). \<not> ux_matches a tag ig tg ux"
      by (auto simp: rds_match_unexp_def take_first_None_iff split: option.splits)
    have rx: "ux_matches a tag ig tg ux = rx_matches (ux_hdr ux) (ux_addr ux) tg ?rx" for ux
      using ux_rx_matches [of ?rx tg ux] by (simp add: rx_entry_of_def)
    obtain q ep2 where al: "ep_alloc os ObjRx ep = (q, ep2)" by fastforce
    from rx_obs.ob_ep_alloc [OF al] have l: "rx_lists ep2 = rx_lists ep" .
    show ?thesis
      using assms m None e1 al l no unfolding rx
      by (auto simp: rds_post_recv_def Let_def queues_apart_def lists_apart_def apart_def rx_lists_def split: option.splits)
  next
    case (Some ux)
    with m have "queues_apart ep1" using assms
      by (auto simp: rds_match_unexp_def queues_apart_def lists_apart_def rx_lists_def split: option.splits if_splits
          dest!: take_first_set intro: apart_subset)
    with m Some assms show ?thesis
      using queues_apart_cong [OF rx_obs.ob_deliver_eager] queues_apart_cong [OF rx_obs.ob_start_rndzv_read]
      by (simp add: rds_post_recv_def Let_def)
  qed
qed

lemma apart_cancel: "queues_apart ep \<Longrightarrow> queues_apart (snd (rds_ep_cancel cx ep))"
  by (auto simp: rds_ep_cancel_def cancel_entry_def cq_push_def queues_apart_def lists_apart_def rx_lists_def
      split: option.splits dest!: take_first_set intro: apart_subset)

lemma apart_ring_deliver: "queues_apart ep \<Longrightarrow> queues_apart (rds_ring_deliver os p sl pl ep)"
  by (simp add: rds_ring_deliver_def apart_handle_inbound)

lemma apart_poll_step:
  assumes "queues_apart ep" and "ring_poll_step os a ep = Some ep'"
  shows "queues_apart ep'"
proof -
  from assms(2) obtain p where p: "peers ep a = Some p" "rx_slot_ready ep p"
    by (auto simp: ring_poll_step_def split: option.splits if_splits)
  let ?sl = "mem_get_slot (mem ep) (rx_slot_addr ep p)"
  let ?p1 = "if slot_ack ?sl > pr_tx_tail p then p\<lparr>pr_tx_tail := slot_ack ?sl\<rparr> else p"
  define ep1 where "ep1 = rds_ring_deliver os ?p1 ?sl
    (mem_read (mem ep) (rds_slot_payload (rx_slot_addr ep p)) (unat (slot_len ?sl))) (peer_put a ?p1 ep)"
  have "queues_apart ep1"
    unfolding ep1_def by (rule apart_ring_deliver) (simp only: queues_apart_cong [OF rx_obs.ob_peer_put] assms(1))
  moreover from assms(2) p obtain p3 where "ep' = rds_ring_return_credit os a (peer_put a p3 ep1) \<or> ep' = peer_put a p3 ep1"
    by (auto simp: ring_poll_step_def Let_def ep1_def [symmetric] split: option.splits if_splits)
  ultimately show ?thesis
    by (auto simp: queues_apart_cong [OF rx_obs.ob_return_credit] queues_apart_cong [OF rx_obs.ob_peer_put])
qed

lemma apart_poll_loop: "queues_apart ep \<Longrightarrow> ring_poll_loop k os a dr ep = (dr', ep') \<Longrightarrow> queues_apart ep'"
  by (induction k arbitrary: dr ep) (auto split: option.splits dest: apart_poll_step)

lemma apart_poll_peers: "queues_apart ep \<Longrightarrow> queues_apart (poll_peers os as ep)"
proof (induction os as ep rule: poll_peers.induct)
  case (1 os ep)
  then show ?case by simp
next
  case (2 os a as ep)
  have "queues_apart (rds_ring_poll_peer os a ep)"
    using 2(2) apart_poll_loop [of ep "unat (ring_slots ep) + 1" os a False]
    by (auto simp: rds_ring_poll_peer_def queues_apart_cong [OF rx_obs.ob_return_credit]
        simp del: ring_poll_loop.simps split: prod.splits option.splits)
  with 2 show ?case by (auto split: option.splits)
qed

lemma apart_recv_msg: "queues_apart ep \<Longrightarrow> queues_apart (handle_recv_msg os rm ep)"
  by (simp add: handle_recv_msg_def Let_def apart_handle_inbound queues_apart_cong [OF rx_obs.ob_reap_notifies])

lemma apart_progress_loop: "queues_apart ep \<Longrightarrow> queues_apart (progress_loop k os ep)"
proof (induction k arbitrary: ep)
  case 0
  then show ?case by simp
next
  case (Suc k)
  then show ?case
    by (auto simp: apart_recv_msg queues_apart_cong [OF rx_obs.obs_hist] split: sum.splits prod.splits)
qed

lemma apart_step: "ep_step os ep k ep' \<Longrightarrow> queues_apart ep \<Longrightarrow> queues_apart ep'"
proof (induction rule: ep_step.cases)
  case (st_progress ep)
  then show ?case
    using apart_progress_loop apart_poll_peers queues_apart_cong [OF rx_obs.ob_progress_deferred]
    by (simp add: rds_ep_progress_def rds_ring_progress_def Let_def)
next
  case (st_ctrl ep en)
  then show ?case by (simp add: rds_ep_ctrl_def queues_apart_def rx_lists_def)
qed (simp_all add: apart_post_recv apart_cancel queues_apart_cong [OF rx_obs.ob_generic_send]
    queues_apart_cong [OF rx_obs.ob_generic_inject] queues_apart_cong [OF rx_obs.ob_rma_common]
    queues_apart_cong [OF rx_obs.ob_inject_write] queues_apart_cong [OF rx_obs.obs_mem])

lemma apart_run: "ep_run os ep k ep' \<Longrightarrow> queues_apart ep \<Longrightarrow> queues_apart ep'"
  by (induction rule: ep_run.induct) (auto dest: apart_step)

lemma endpoint_lists:
  assumes "rds_endpoint os so src 0 d = (0, ep)"
  shows "rx_lists ep = ([], [], [], [])"
proof -
  have so: "rx_lists e1 = rx_lists e" if "rds_ep_init_socket so src e = (r, e1)" for e r e1
    using that by (auto simp: rds_ep_init_socket_def rds_setname_def rx_lists_def split: sum.splits if_splits)
  have init: "rx_lists (rds_ep_ring_init (e\<lparr>ep_sock := - 1, is_bound := False, rx_posted_msg := [], rx_posted_tag := [],
    rx_unexp_msg := [], rx_unexp_tag := [], pending := [], deferred := [], rndzv_tx_inflight := 0, op_id := 0, cq_log := []\<rparr>)) = ([], [], [], [])"
    for e by (simp add: rx_lists_def rds_ep_ring_init_def)
  have upd: "rx_lists (e\<lparr>rx_buf_size := z\<rparr>) = rx_lists e" for e z by (simp add: rx_lists_def)
  from assms show ?thesis
    by (auto simp: rds_endpoint_def Let_def upd init split: option.splits prod.splits
        dest!: so rx_obs.ob_ep_alloc [of os "ObjRxBuf _"] rx_obs.ob_ep_alloc [of os ObjCmsgBuf])
qed

text \<open>
  C4.  Nothing that could be matched is left waiting.  At any point in the life of an endpoint no
  posted receive matches any message in the unexpected queue of its kind: a message is queued only
  when no receive was there for it, a receive only when no message was, and whatever the
  interleaving of arrivals, receives and cancellations the two lists stay apart.
\<close>

theorem life_nothing_missed:
  assumes "ep_life os ep"
  shows "\<not> (\<exists>rx \<in> set (rx_posted_msg ep). \<exists>ux \<in> set (rx_unexp_msg ep). rx_matches (ux_hdr ux) (ux_addr ux) False rx) \<and>
    \<not> (\<exists>rx \<in> set (rx_posted_tag ep). \<exists>ux \<in> set (rx_unexp_tag ep). rx_matches (ux_hdr ux) (ux_addr ux) True rx)"
proof -
  from assms obtain so src d ep0 k where "rds_endpoint os so src 0 d = (0, ep0)" "ep_run os ep0 k ep"
    by (auto simp: ep_life_def)
  from apart_run [OF this(2)] endpoint_lists [OF this(1)] have "queues_apart ep"
    by (simp add: queues_apart_def lists_apart_def apart_def)
  then show ?thesis by (auto simp: queues_apart_def lists_apart_def apart_def rx_lists_def)
qed

theorem life_nothing_missed_witness:
  "ep_life calm_os sample_writer \<and>
   \<not> (\<exists>rx \<in> set (rx_posted_tag sample_writer). \<exists>ux \<in> set (rx_unexp_tag sample_writer).
       rx_matches (ux_hdr ux) (ux_addr ux) True rx)"
  using life_nothing_missed [OF sample_life] sample_life by blast

text \<open>
  No call changes the endpoint's settings.  Socket, binding, capabilities, operation flags,
  queues, address vector, buffer size, ring geometry, cache switch and tunables of an endpoint
  are the ones it was created with, after any sequence of calls.
\<close>

lemma run_settings:
  assumes "ep_run os ep k ep'"
  shows "settings ep' = settings ep"
  using assms by (rule set_obs.ob_run)

end
