(* ===== verification/Rds_Delivery.thy ===== *)
theory Rds_Delivery
  imports Rds_Ep Rds_Testbed
begin

text \<open>
  What a receiving application sees: receives are matched in the order they were posted, an eager
  message lands in the buffer it matched and nowhere else, and it makes no difference whether the
  receive or the message came first.  A cancelled receive and a finished one-sided operation
  report exactly once.
\<close>

section \<open>Samples\<close>

definition sample_eager :: rds_hdr where
  "sample_eager = eager_hdr 3 5 0 0 True"

definition sample_posted :: rds_ep where
  "sample_posted = sample_dom\<lparr>rx_posted_tag :=
     [rx_entry_of [iov 200 8] 1 4 0 7 0 True, rx_entry_of [iov 300 1, iov 400 6] 1 5 0 8 0 True]\<rparr>"

section \<open>Eager delivery\<close>

text \<open>The completion an eager delivery writes, if any.\<close>

definition eager_comp :: "rds_rx_entry \<Rightarrow> rds_hdr \<Rightarrow> nat \<Rightarrow> fi_addr \<Rightarrow> rds_ep \<Rightarrow> cq_event list" where
  "eager_comp rx hdr plen src ep =
     (let err = (if plen > rx_total_len rx then FI_ETRUNC else 0)
      in if rx_cq ep \<and> (has_flag (rx_flags rx OR rx_op_flags ep) FI_COMPLETION \<or> err \<noteq> 0)
         then [RxComp \<lparr>cq_context = rx_context rx, cq_flags = rds_rx_flags hdr (hdr_tagged hdr),
                 cq_len = min plen (iov_sum (rx_iov rx)), cq_data = hdr_data hdr, cq_tag = hdr_tag hdr,
                 cq_src = (if err = 0 \<and> has_flag (ep_caps ep) FI_SOURCE then Some src else None), cq_err = err\<rparr>]
         else [])"

lemma deliver_eager_effect:
  assumes "iov_disjoint (rx_iov rx)"
  shows "\<exists>m. rds_deliver_eager rx hdr pl src ep = ep\<lparr>mem := m, cq_log := cq_log ep @ eager_comp rx hdr (length pl) src ep\<rparr> \<and>
    gather m (rx_iov rx) = take (iov_sum (rx_iov rx)) pl @ drop (length pl) (gather (mem ep) (rx_iov rx)) \<and>
    (\<forall>x. \<not> in_iov x (rx_iov rx) \<longrightarrow> m x = mem ep x)"
proof -
  from ofi_copy_to_iov_eq [OF order_refl assms, of pl "mem ep"] obtain m where
    m: "ofi_copy_to_iov (rx_iov rx) 0 pl (length pl) (mem ep) = (min (length pl) (iov_sum (rx_iov rx)), m)"
      "gather m (rx_iov rx) = take (min (length pl) (iov_sum (rx_iov rx))) pl @
         drop (min (length pl) (iov_sum (rx_iov rx))) (gather (mem ep) (rx_iov rx))"
      "\<forall>x. \<not> in_iov x (rx_iov rx) \<longrightarrow> m x = mem ep x" by blast
  have "gather m (rx_iov rx) = take (iov_sum (rx_iov rx)) pl @ drop (length pl) (gather (mem ep) (rx_iov rx))"
    using m(2) by (cases "length pl \<le> iov_sum (rx_iov rx)") simp_all
  moreover have "rds_deliver_eager rx hdr pl src ep =
      ep\<lparr>mem := m, cq_log := cq_log ep @ eager_comp rx hdr (length pl) src ep\<rparr>"
    by (auto simp: rds_deliver_eager_def m(1) eager_comp_def Let_def rds_cq_write_rx_def cq_push_def)
  ultimately show ?thesis using m(3) by blast
qed

lemma handle_eager_posted:
  assumes "rds_match_posted hdr fi (hdr_tagged hdr) ep = (Some rx, ep1)" and "hdr_magic hdr = RDS_HDR_MAGIC"
    and "hdr_op hdr = RDS_OP_EAGER"
  shows "rds_handle_inbound os hdr pl src fi ep = rds_deliver_eager rx hdr pl fi ep1"
  using assms by (simp add: rds_handle_inbound_def rds_handle_message_def)

lemma handle_eager_unexpected:
  assumes "rds_match_posted hdr fi (hdr_tagged hdr) ep = (None, ep)" and "hdr_magic hdr = RDS_HDR_MAGIC"
    and "hdr_op hdr = RDS_OP_EAGER" and "ep_alloc os (ObjUnexp (length pl)) ep = (Some a, ep1)"
  shows "rds_handle_inbound os hdr pl src fi ep =
    (let ux = \<lparr>ux_hdr = hdr, ux_addr = fi, ux_src = src, ux_segs = [], ux_data = pl\<rparr>
     in if hdr_tagged hdr then ep1\<lparr>rx_unexp_tag := rx_unexp_tag ep1 @ [ux]\<rparr>
        else ep1\<lparr>rx_unexp_msg := rx_unexp_msg ep1 @ [ux]\<rparr>)"
  using assms by (simp add: rds_handle_inbound_def rds_handle_message_def rds_enqueue_unexp_def Let_def)

text \<open>
  First come, first served.  An arrived message takes the earliest posted receive whose
  source and tag match it, leaves every other receive in its place, and takes none if none
  matches.
\<close>

theorem match_in_order:
  "rds_match_posted hdr src tg ep =
    (case find (rx_matches hdr src tg) (if tg then rx_posted_tag ep else rx_posted_msg ep) of
       None \<Rightarrow> (None, ep)
     | Some rx \<Rightarrow>
         (let rest = takeWhile (\<lambda>r. \<not> rx_matches hdr src tg r) (if tg then rx_posted_tag ep else rx_posted_msg ep) @
                     tl (dropWhile (\<lambda>r. \<not> rx_matches hdr src tg r) (if tg then rx_posted_tag ep else rx_posted_msg ep))
          in (Some rx, if tg then ep\<lparr>rx_posted_tag := rest\<rparr> else ep\<lparr>rx_posted_msg := rest\<rparr>)))"
proof -
  have "take_first P xs = map_option (\<lambda>x. (x, takeWhile (\<lambda>y. \<not> P y) xs @ tl (dropWhile (\<lambda>y. \<not> P y) xs))) (find P xs)"
    for P :: "rds_rx_entry \<Rightarrow> bool" and xs
    by (induction xs) (auto split: option.splits)
  then show ?thesis by (simp add: rds_match_posted_def Let_def split: option.splits)
qed

text \<open>
  C22.  An eager message lands where it should.  If a posted receive matches, the message's bytes
  fill the receive's buffers from the start, what does not fit is cut off, the rest of the buffers
  and all other memory stay as they were, and one completion is written: with the number of bytes
  delivered, and with the truncation error exactly when the message was longer than the receive.
\<close>

theorem eager_delivery:
  assumes "rds_match_posted hdr fi (hdr_tagged hdr) ep = (Some rx, ep1)"
    and "hdr_magic hdr = RDS_HDR_MAGIC" and "hdr_op hdr = RDS_OP_EAGER"
    and "iov_disjoint (rx_iov rx)" and "rx_total_len rx = iov_sum (rx_iov rx)"
    and "ep' = rds_handle_inbound os hdr pl src fi ep"
  shows "gather (mem ep') (rx_iov rx) = take (iov_sum (rx_iov rx)) pl @ drop (length pl) (gather (mem ep) (rx_iov rx)) \<and>
    (\<forall>x. \<not> in_iov x (rx_iov rx) \<longrightarrow> mem ep' x = mem ep x) \<and>
    cq_log ep' = cq_log ep @ eager_comp rx hdr (length pl) fi ep \<and>
    (rx_cq ep \<and> iov_sum (rx_iov rx) < length pl \<longrightarrow>
       length (cq_log ep') = length (cq_log ep) + 1 \<and> (\<exists>e. last (cq_log ep') = RxComp e \<and> cq_err e = FI_ETRUNC))"
proof -
  have e1: "mem ep1 = mem ep" "cq_log ep1 = cq_log ep" "eager_comp rx hdr (length pl) fi ep1 = eager_comp rx hdr (length pl) fi ep"
    using assms(1) by (cases "hdr_tagged hdr"; auto simp: rds_match_posted_def eager_comp_def Let_def split: option.splits)+
  from deliver_eager_effect [OF assms(4), of hdr pl fi ep1] handle_eager_posted [OF assms(1-3)] assms(6)
  have main: "gather (mem ep') (rx_iov rx) = take (iov_sum (rx_iov rx)) pl @ drop (length pl) (gather (mem ep) (rx_iov rx))"
    "\<forall>x. \<not> in_iov x (rx_iov rx) \<longrightarrow> mem ep' x = mem ep x" "cq_log ep' = cq_log ep @ eager_comp rx hdr (length pl) fi ep"
    by (auto simp: e1)
  then show ?thesis using assms(5) by (auto simp: eager_comp_def Let_def)
qed

theorem eager_delivery_witness:
  "gather (mem (rds_handle_inbound calm_os sample_eager [11, 12, 13] 9 1 sample_posted)) [iov 300 1, iov 400 6] =
     [11, 12, 13, 0, 0, 0, 0]"
proof -
  let ?rx = "rx_entry_of [iov 300 1, iov 400 6] 1 5 0 8 0 True"
  have m: "rds_match_posted sample_eager 1 (hdr_tagged sample_eager) sample_posted =
      (Some ?rx, sample_posted\<lparr>rx_posted_tag := [rx_entry_of [iov 200 8] 1 4 0 7 0 True]\<rparr>)"
    by (simp add: rds_match_posted_def sample_posted_def rx_matches_def rx_entry_of_def rds_addr_match_def rds_tag_match_def
        sample_eager_def eager_hdr_def hdr_tagged_def send_flags_def)
  have h: "hdr_magic sample_eager = RDS_HDR_MAGIC" "hdr_op sample_eager = RDS_OP_EAGER"
    by (simp_all add: sample_eager_def eager_hdr_def)
  have "iov_disjoint (rx_iov ?rx)" "rx_total_len ?rx = iov_sum (rx_iov ?rx)"
    by (simp_all add: rx_entry_of_def iov_apart_def)
  from eager_delivery [OF m h this refl, of calm_os "[11, 12, 13]" 9] show ?thesis
    by (simp add: rx_entry_of_def sample_posted_def testbed_simps mem_read_def upt_rec)
qed

text \<open>
  C23.  Early and late receives are alike.  If no other receive and no other message interferes, an
  eager message that arrives before its receive is posted leaves the endpoint (memory,
  completions, every list) as it does when the receive was there first; only the allocations
  made on the way differ.
\<close>

theorem eager_order_irrelevant:
  assumes "rds_match_posted hdr fi (hdr_tagged hdr) ep = (None, ep)"
    and "rds_match_unexp a tag ig (hdr_tagged hdr) ep = (None, ep)"
    and "rx_matches hdr fi (hdr_tagged hdr) (rx_entry_of vs a tag ig ctx fl (hdr_tagged hdr))"
    and "hdr_magic hdr = RDS_HDR_MAGIC" and "hdr_op hdr = RDS_OP_EAGER" and "length vs \<le> RDS_IOV_LIMIT"
    and "ep_alloc os (ObjUnexp (length pl)) ep = (Some b1, ep1)" and "ep_alloc os ObjRx ep = (Some b2, ep2)"
    and "early = snd (rds_post_recv os vs a tag ig ctx fl (hdr_tagged hdr) (rds_handle_inbound os hdr pl src fi ep))"
    and "late = rds_handle_inbound os hdr pl src fi (snd (rds_post_recv os vs a tag ig ctx fl (hdr_tagged hdr) ep))"
  shows "early\<lparr>hist := hist late\<rparr> = late"
proof -
  let ?rx = "rx_entry_of vs a tag ig ctx fl (hdr_tagged hdr)"
  let ?ux = "\<lparr>ux_hdr = hdr, ux_addr = fi, ux_src = src, ux_segs = [], ux_data = pl\<rparr>"
  have nou: "\<forall>u \<in> set (if hdr_tagged hdr then rx_unexp_tag ep else rx_unexp_msg ep). \<not> ux_matches a tag ig (hdr_tagged hdr) u"
    using assms(2) by (auto simp: rds_match_unexp_def take_first_None_iff split: option.splits)
  have nop: "\<forall>r \<in> set (if hdr_tagged hdr then rx_posted_tag ep else rx_posted_msg ep). \<not> rx_matches hdr fi (hdr_tagged hdr) r"
    using assms(1) by (auto simp: rds_match_posted_def take_first_None_iff split: option.splits)
  have mu: "ux_matches a tag ig (hdr_tagged hdr) ?ux"
    using assms(3) by (simp add: ux_matches_def rx_matches_def rx_entry_of_def)
  from ep_alloc_frame [OF assms(7)] obtain h1 where e1: "ep1 = ep\<lparr>hist := h1\<rparr>" by blast
  from ep_alloc_frame [OF assms(8)] obtain h2 where e2: "ep2 = ep\<lparr>hist := h2\<rparr>" by blast
  have E: "early = rds_deliver_eager ?rx hdr pl fi (ep\<lparr>hist := h1\<rparr>)"
    unfolding assms(9) handle_eager_unexpected [OF assms(1,4,5,7)] e1
    using nou take_first_split [of "ux_matches a tag ig (hdr_tagged hdr)", OF mu, where bs = "[]"] assms(5,6)
    by (cases "hdr_tagged hdr"; simp add: rds_post_recv_def rds_match_unexp_def Let_def)
  define ep3 where "ep3 = snd (rds_post_recv os vs a tag ig ctx fl (hdr_tagged hdr) ep)"
  have m3: "rds_match_posted hdr fi (hdr_tagged hdr) ep3 = (Some ?rx, ep\<lparr>hist := h2\<rparr>)"
    using nop take_first_split [of "rx_matches hdr fi (hdr_tagged hdr)", OF assms(3), where bs = "[]"] assms(2,6,8)
    by (cases "hdr_tagged hdr"; simp add: ep3_def rds_post_recv_def e2 rds_match_posted_def Let_def)
  have L: "late = rds_deliver_eager ?rx hdr pl fi (ep\<lparr>hist := h2\<rparr>)"
    using handle_eager_posted [OF m3 assms(4,5)] by (simp add: assms(10) ep3_def)
  obtain m n where "ofi_copy_to_iov (rx_iov ?rx) 0 pl (length pl) (mem ep) = (n, m)" by fastforce
  then show ?thesis unfolding E L
    by (simp add: rds_deliver_eager_def rds_cq_write_rx_def cq_push_def Let_def)
qed

theorem eager_order_irrelevant_witness:
  "\<exists>early late. early = snd (rds_post_recv calm_os [iov 300 1, iov 400 6] 1 5 0 8 0 (hdr_tagged sample_eager)
             (rds_handle_inbound calm_os sample_eager [11, 12, 13] 9 1 sample_dom)) \<and>
       late = rds_handle_inbound calm_os sample_eager [11, 12, 13] 9 1
             (snd (rds_post_recv calm_os [iov 300 1, iov 400 6] 1 5 0 8 0 (hdr_tagged sample_eager) sample_dom)) \<and>
       early\<lparr>hist := hist late\<rparr> = late"
proof -
  have t: "hdr_tagged sample_eager" "hdr_tag sample_eager = 5" "hdr_magic sample_eager = RDS_HDR_MAGIC" "hdr_op sample_eager = RDS_OP_EAGER"
    by (simp_all add: sample_eager_def eager_hdr_def hdr_tagged_def send_flags_def)
  have n: "rds_match_posted sample_eager 1 (hdr_tagged sample_eager) sample_dom = (None, sample_dom)"
    "rds_match_unexp 1 5 0 (hdr_tagged sample_eager) sample_dom = (None, sample_dom)"
    "rx_matches sample_eager 1 (hdr_tagged sample_eager) (rx_entry_of [iov 300 1, iov 400 6] 1 5 0 8 0 (hdr_tagged sample_eager))"
    by (simp_all add: rds_match_posted_def rds_match_unexp_def rx_matches_def rx_entry_of_def rds_addr_match_def
        rds_tag_match_def testbed_simps t)
  have l: "length [iov 300 1, iov 400 6] \<le> RDS_IOV_LIMIT" by simp
  have al: "ep_alloc calm_os ob sample_dom = (Some 4096, sample_dom\<lparr>hist := [SysAlloc ob (Some 4096)]\<rparr>)" for ob
    by (simp add: ep_alloc_def sys_alloc_def testbed_simps Let_def)
  show ?thesis using eager_order_irrelevant [OF n t(3,4) l al al refl refl, of "[11, 12, 13]" 9] by simp
qed

end
