(* ===== verification/Rds_Retry.thy ===== *)
theory Rds_Retry
  imports Rds_Rendezvous
begin

text \<open>
  How operations come to an end: the kernel's notifications, the retry of parked operations, and
  cancellation.  A receive reports once, with its first error, when its last read is notified,
  and tells the sender so; a peer that does not take our traffic holds up nobody else's.
\<close>

section \<open>Samples\<close>

definition sample_pending :: "rds_pend_type \<Rightarrow> u32 \<Rightarrow> u32 \<Rightarrow> rds_pending" where
  "sample_pending t rem def =
     \<lparr>p_id = 4, p_type = t, p_context = 8, p_flags = FI_RECV OR FI_TAGGED, p_len = 4, p_addr = 1, p_data = 0, p_tag = 5,
      p_error = 0, p_seg_remaining = rem, p_seg_deferred = def, p_seg_total = 2, p_peer = 9, p_mrs = None, p_cmrs = None,
      p_mr_cnt = 0, p_peer_id = 6, p_bounce = None, p_no_comp = False\<rparr>"

definition sample_read :: rds_deferred where
  "sample_read = \<lparr>d_type = RDS_DEFERRED_READ, d_peer = 9, d_id = 4, d_cookie = 7, d_remote_off = 0, d_liov = [iov 64 4]\<rparr>"

text \<open>A receive whose only read is parked, behind a FIN for another peer.\<close>

definition sample_parked :: rds_ep where
  "sample_parked = sample_dom\<lparr>pending := [sample_pending RDS_PEND_RNDZV_RX 0 1], deferred := [deferred_fin 3 2, sample_read]\<rparr>"

text \<open>Kernels that refuse one peer's traffic, and one that fails RDMA and takes no datagrams.\<close>

definition congested_os :: os where
  "congested_os = calm_os\<lparr>os_send := (\<lambda>h d bs. if d = 3 then EAGAIN else 0), os_rdma := (\<lambda>h d ra. if d = 3 then EAGAIN else 0)\<rparr>"

definition broken_os :: os where
  "broken_os = calm_os\<lparr>os_send := (\<lambda>h d bs. EAGAIN), os_rdma := (\<lambda>h d ra. 5)\<rparr>"

section \<open>The end of a receive\<close>

text \<open>The completion of a rendezvous receive, and the first error it has seen.\<close>

definition first_error :: "rds_pending \<Rightarrow> int \<Rightarrow> int" where
  "first_error p st = (if p_error p = 0 then abs_status st else p_error p)"

definition rndzv_comp :: "rds_pending \<Rightarrow> int \<Rightarrow> rds_ep \<Rightarrow> cq_event list" where
  "rndzv_comp p err ep =
     (if rx_cq ep \<and> (\<not> p_no_comp p \<or> err \<noteq> 0)
      then [RxComp \<lparr>cq_context = p_context p, cq_flags = p_flags p, cq_len = p_len p, cq_data = p_data p, cq_tag = p_tag p,
              cq_src = (if err = 0 \<and> has_flag (ep_caps ep) FI_SOURCE then Some (p_addr p) else None), cq_err = \<bar>err\<bar>\<rparr>]
      else [])"

definition rma_comp :: "rds_pending \<Rightarrow> int \<Rightarrow> rds_ep \<Rightarrow> cq_event list" where
  "rma_comp p err ep =
     (if tx_cq ep \<and> \<not> p_no_comp p
      then [TxComp \<lparr>cq_context = p_context p, cq_flags = p_flags p, cq_len = p_len p, cq_data = 0, cq_tag = 0,
              cq_src = None, cq_err = \<bar>err\<bar>\<rparr>]
      else [])"

lemma send_fin_effect:
  assumes "ep' = rds_send_fin os pe i ep"
    and "e = os_send os (hist ep) pe (enc_hdr (fin_hdr i))" and "e = 0 \<or> e = EAGAIN \<or> e = ENOBUFS"
    and "os_alloc os (SysSend pe (enc_hdr (fin_hdr i)) e # hist ep) ObjDeferred \<noteq> None"
  shows "ep' = ep\<lparr>hist := hist ep', deferred := deferred ep'\<rparr> \<and>
    (if e = 0
     then sent_data (hist ep') = sent_data (hist ep) @ [(pe, enc_hdr (fin_hdr i))] \<and> deferred ep' = deferred ep
     else sent_data (hist ep') = sent_data (hist ep) \<and> deferred ep' = deferred ep @ [deferred_fin pe i])"
proof (cases "e = 0")
  case True
  then show ?thesis using assms by (simp add: rds_send_fin_def rds_send_fin_raw_def sys_send_def Let_def)
next
  case False
  obtain b where b: "os_alloc os (SysSend pe (enc_hdr (fin_hdr i)) e # hist ep) ObjDeferred = Some b" using assms(4) by blast
  have "sock_ret e = - FI_EAGAIN" using False assms(3) by (auto simp: sock_ret_def)
  then show ?thesis using False assms(1) b
    by (simp add: rds_send_fin_def rds_send_fin_raw_def sys_send_def assms(2) [symmetric] rds_defer_fin_def ep_alloc_def
        sys_alloc_def rds_defer_enqueue_def Let_def)
qed

lemma finalize_effect:
  assumes "ep' = rds_rndzv_rx_finalize os k ep" and "p = pending ep ! k"
    and "e = os_send os (hist ep) (p_peer p) (enc_hdr (fin_hdr (p_peer_id p)))" and "e = 0 \<or> e = EAGAIN \<or> e = ENOBUFS"
    and "os_alloc os (SysSend (p_peer p) (enc_hdr (fin_hdr (p_peer_id p))) e # hist ep) ObjDeferred \<noteq> None"
  shows "pending ep' = take k (pending ep) @ drop (Suc k) (pending ep) \<and> mem ep' = mem ep \<and>
    cq_log ep' = cq_log ep @ rndzv_comp p (p_error p) ep \<and>
    (if e = 0
     then sent_data (hist ep') = sent_data (hist ep) @ [(p_peer p, enc_hdr (fin_hdr (p_peer_id p)))] \<and> deferred ep' = deferred ep
     else sent_data (hist ep') = sent_data (hist ep) \<and> deferred ep' = deferred ep @ [deferred_fin (p_peer p) (p_peer_id p)])"
proof -
  from send_fin_effect [OF refl assms(3-5)] obtain h ds where
    s: "rds_send_fin os (p_peer p) (p_peer_id p) ep = ep\<lparr>hist := h, deferred := ds\<rparr>" by blast
  from send_fin_effect [OF refl assms(3-5), THEN conjunct2]
  have "if e = 0 then sent_data h = sent_data (hist ep) @ [(p_peer p, enc_hdr (fin_hdr (p_peer_id p)))] \<and> ds = deferred ep
     else sent_data h = sent_data (hist ep) \<and> ds = deferred ep @ [deferred_fin (p_peer p) (p_peer_id p)]"
    unfolding s by (cases "e = 0") simp_all
  then show ?thesis
    by (auto simp: assms(1) rds_rndzv_rx_finalize_def assms(2) [symmetric] s Let_def pending_remove_def rndzv_comp_def
        rds_cq_write_rx_def cq_push_def)
qed

lemma first_error_upd:
  "(if st \<noteq> 0 \<and> p_error p = 0 then p\<lparr>p_error := abs_status st\<rparr> else p) = p\<lparr>p_error := first_error p st\<rparr>"
  by (cases p) (simp add: first_error_def abs_status_def)

lemma notify_effect:
  assumes "rds_pending_find ep tok = Some k" and "p_seg_remaining (pending ep ! k) \<noteq> 0"
    and "q = (pending ep ! k)\<lparr>p_error := first_error (pending ep ! k) st, p_seg_remaining := p_seg_remaining (pending ep ! k) - 1\<rparr>"
  shows "rds_handle_rdma_notify os tok st ep =
    (if p_seg_remaining q \<noteq> 0 \<or> p_type q = RDS_PEND_RNDZV_TX then pending_put k q ep
     else if p_type q = RDS_PEND_RMA then rds_pending_complete os k (pending_put k q ep)
     else if p_seg_deferred q = 0 then rds_rndzv_rx_finalize os k (pending_put k q ep) else pending_put k q ep)"
  using assms(1,2) unfolding rds_handle_rdma_notify_def assms(3) Let_def first_error_upd
  by (simp split: rds_pend_type.splits)

text \<open>
  C24.  A rendezvous receive ends exactly once.  A notification for it is counted; only the one
  that leaves no read outstanding and none parked retires the operation: it writes the one
  completion, with the first error seen, and the FIN goes to the sender or is parked for it.
  Every earlier one writes nothing and sends nothing.
\<close>

theorem rndzv_last_notify:
  assumes "rds_pending_find ep tok = Some k" and "p = pending ep ! k" and "p_type p = RDS_PEND_RNDZV_RX"
    and "p_seg_remaining p \<noteq> 0"
    and "e = os_send os (hist ep) (p_peer p) (enc_hdr (fin_hdr (p_peer_id p)))" and "e = 0 \<or> e = EAGAIN \<or> e = ENOBUFS"
    and "os_alloc os (SysSend (p_peer p) (enc_hdr (fin_hdr (p_peer_id p))) e # hist ep) ObjDeferred \<noteq> None"
    and "ep' = rds_handle_rdma_notify os tok st ep"
    and "final \<longleftrightarrow> p_seg_remaining p = 1 \<and> p_seg_deferred p = 0"
  shows "pending ep' =
      (if final then take k (pending ep) @ drop (Suc k) (pending ep)
       else (pending ep)[k := p\<lparr>p_error := first_error p st, p_seg_remaining := p_seg_remaining p - 1\<rparr>]) \<and>
    cq_log ep' = cq_log ep @ (if final then rndzv_comp p (first_error p st) ep else []) \<and>
    sent_data (hist ep') = sent_data (hist ep) @ (if final \<and> e = 0 then [(p_peer p, enc_hdr (fin_hdr (p_peer_id p)))] else []) \<and>
    deferred ep' = deferred ep @ (if final \<and> e \<noteq> 0 then [deferred_fin (p_peer p) (p_peer_id p)] else [])"
proof -
  have k: "k < length (pending ep)" using assms(1) by (auto simp: rds_pending_find_def dest: find_index_Some)
  let ?p = "p\<lparr>p_error := first_error p st, p_seg_remaining := p_seg_remaining p - 1\<rparr>"
  have run: "ep' = (if final then rds_rndzv_rx_finalize os k (pending_put k ?p ep) else pending_put k ?p ep)"
    using notify_effect [OF assms(1) _ refl, of os st] assms(2-4,8,9) by auto
  show ?thesis
  proof (cases final)
    case True
    define ep0 where "ep0 = pending_put k ?p ep"
    have e0: "hist ep0 = hist ep" "deferred ep0 = deferred ep" "cq_log ep0 = cq_log ep"
      "rndzv_comp ?p (first_error p st) ep0 = rndzv_comp p (first_error p st) ep"
      "take k (pending ep0) = take k (pending ep)" "drop (Suc k) (pending ep0) = drop (Suc k) (pending ep)"
      by (simp_all add: ep0_def pending_put_def rndzv_comp_def)
    have pk: "?p = pending ep0 ! k" using k by (simp add: ep0_def pending_put_def)
    have e': "ep' = rds_rndzv_rx_finalize os k ep0" using run True by (simp add: ep0_def)
    note fe = finalize_effect [OF e' pk, of e]
    show ?thesis using fe assms(5-7) e0 True by (cases "e = 0") simp_all
  next
    case False
    then show ?thesis using run by (simp add: pending_put_def)
  qed
qed

theorem rndzv_last_notify_witness:
  "pending (rds_handle_rdma_notify calm_os 4 (- 5) (sample_dom\<lparr>pending := [sample_pending RDS_PEND_RNDZV_RX 1 0]\<rparr>)) = [] \<and>
   sent_data (hist (rds_handle_rdma_notify calm_os 4 (- 5) (sample_dom\<lparr>pending := [sample_pending RDS_PEND_RNDZV_RX 1 0]\<rparr>))) =
     [(9, enc_hdr (fin_hdr 6))] \<and>
   cq_log (rds_handle_rdma_notify calm_os 4 (- 5) (sample_dom\<lparr>pending := [sample_pending RDS_PEND_RNDZV_RX 1 0]\<rparr>)) =
     [RxComp \<lparr>cq_context = 8, cq_flags = FI_RECV OR FI_TAGGED, cq_len = 4, cq_data = 0, cq_tag = 5, cq_src = None, cq_err = 5\<rparr>]"
proof -
  let ?p = "sample_pending RDS_PEND_RNDZV_RX 1 0"
  let ?ep = "sample_dom\<lparr>pending := [?p]\<rparr>"
  have f: "rds_pending_find ?ep 4 = Some 0" by (simp add: rds_pending_find_def sample_pending_def)
  have p: "?p = pending ?ep ! 0" "p_type ?p = RDS_PEND_RNDZV_RX" "p_seg_remaining ?p \<noteq> 0"
    "(0 :: nat) = os_send calm_os (hist ?ep) (p_peer ?p) (enc_hdr (fin_hdr (p_peer_id ?p)))"
    "(0 :: nat) = 0 \<or> (0 :: nat) = EAGAIN \<or> (0 :: nat) = ENOBUFS"
    "os_alloc calm_os (SysSend (p_peer ?p) (enc_hdr (fin_hdr (p_peer_id ?p))) 0 # hist ?ep) ObjDeferred \<noteq> None"
    "True \<longleftrightarrow> p_seg_remaining ?p = 1 \<and> p_seg_deferred ?p = 0"
    by (simp_all add: sample_pending_def testbed_simps)
  show ?thesis using rndzv_last_notify [OF f p(1-6) refl p(7), of "- 5"]
    by (simp add: sample_pending_def first_error_def abs_status_def rndzv_comp_def testbed_simps)
qed

text \<open>
  A one-sided operation completes exactly once.  Its requests are counted down by their
  notifications; the last one removes the operation and writes its completion with the first
  error seen, every earlier one writes nothing.
\<close>

theorem rma_last_notify:
  assumes "rds_pending_find ep tok = Some k" and "p = pending ep ! k" and "p_type p = RDS_PEND_RMA"
    and "p_seg_remaining p \<noteq> 0" and "p_mrs p = None" and "p_cmrs p = None"
    and "ep' = rds_handle_rdma_notify os tok st ep"
  shows "ep' =
    (if p_seg_remaining p = 1
     then ep\<lparr>pending := take k (pending ep) @ drop (Suc k) (pending ep), cq_log := cq_log ep @ rma_comp p (first_error p st) ep\<rparr>
     else ep\<lparr>pending := (pending ep)[k := p\<lparr>p_error := first_error p st, p_seg_remaining := p_seg_remaining p - 1\<rparr>]\<rparr>)"
proof -
  have k: "k < length (pending ep)" using assms(1) by (auto simp: rds_pending_find_def dest: find_index_Some)
  show ?thesis
    using notify_effect [OF assms(1) _ refl, of os st] assms(2-7) k
    by (simp add: rds_pending_complete_def pending_put_def pending_remove_def rds_pending_release_mrs_def rma_comp_def
        rds_cq_write_tx_def cq_push_def Let_def)
qed

theorem rma_last_notify_witness:
  "rds_handle_rdma_notify calm_os 4 0 (sample_dom\<lparr>pending := [sample_pending RDS_PEND_RMA 1 0]\<rparr>) =
     sample_dom\<lparr>cq_log := [TxComp \<lparr>cq_context = 8, cq_flags = FI_RECV OR FI_TAGGED, cq_len = 4, cq_data = 0, cq_tag = 0,
       cq_src = None, cq_err = 0\<rparr>]\<rparr>"
proof -
  let ?p = "sample_pending RDS_PEND_RMA 1 0"
  let ?ep = "sample_dom\<lparr>pending := [?p]\<rparr>"
  have f: "rds_pending_find ?ep 4 = Some 0" by (simp add: rds_pending_find_def sample_pending_def)
  have p: "?p = pending ?ep ! 0" "p_type ?p = RDS_PEND_RMA" "p_seg_remaining ?p \<noteq> 0" "p_mrs ?p = None" "p_cmrs ?p = None"
    by (simp_all add: sample_pending_def)
  show ?thesis using rma_last_notify [OF f p refl, of calm_os 0]
    by (simp add: sample_pending_def first_error_def abs_status_def rma_comp_def testbed_simps)
qed

section \<open>Parked operations\<close>

text \<open>Peers outside \<open>B\<close> take our traffic: no send and no RDMA request to them is refused for now.\<close>

definition takes_traffic :: "os \<Rightarrow> sock_ip set \<Rightarrow> bool" where
  "takes_traffic os B \<longleftrightarrow>
     (\<forall>h d bs. d \<notin> B \<longrightarrow> os_send os h d bs \<noteq> EAGAIN \<and> os_send os h d bs \<noteq> ENOBUFS) \<and>
     (\<forall>h d ra. d \<notin> B \<longrightarrow> os_rdma os h d ra \<noteq> EAGAIN \<and> os_rdma os h d ra \<noteq> ENOBUFS)"

lemma send_fin_parked:
  assumes "takes_traffic os B"
  shows "\<exists>fs. deferred (rds_send_fin os pe i ep) = deferred ep @ fs \<and> d_peer ` set fs \<subseteq> B"
proof (cases "pe \<in> B")
  case True
  then show ?thesis using rds_send_fin_deferred [of os pe i ep]
    by (metis append_Nil2 deferred_fin_def empty_subsetI image_empty image_insert insert_subset list.set rds_deferred.select_convs(2))
next
  case False
  then have "sock_ret (os_send os (hist ep) pe (enc_hdr (fin_hdr i))) \<noteq> - FI_EAGAIN"
    using assms unfolding sock_ret_again by (simp add: takes_traffic_def)
  then show ?thesis by (simp add: rds_send_fin_def rds_send_fin_raw_def sys_send_def Let_def)
qed

lemma finalize_parked:
  assumes "takes_traffic os B"
  shows "\<exists>fs. deferred (rds_rndzv_rx_finalize os k ep) = deferred ep @ fs \<and> d_peer ` set fs \<subseteq> B"
  using send_fin_parked [OF assms] by (simp add: rds_rndzv_rx_finalize_def Let_def pending_remove_def)

lemma deferred_step_parked:
  assumes "takes_traffic os B" and "deferred_step os d ep = (keep, ep1)"
  shows "(keep \<longrightarrow> d_peer d \<in> B) \<and> (\<exists>fs. deferred ep1 = deferred ep @ fs \<and> d_peer ` set fs \<subseteq> B)"
proof (cases "d_type d")
  case RDS_DEFERRED_FIN
  then show ?thesis using assms
    by (auto simp: deferred_step_def rds_send_fin_raw_def sys_send_def Let_def sock_ret_again takes_traffic_def)
next
  case RDS_DEFERRED_READ
  obtain ret ep2 where r: "rds_post_rdma os (d_peer d) (d_cookie d) (d_remote_off d) (d_liov d) False True (d_id d) ep = (ret, ep2)"
    by fastforce
  then have e2: "deferred ep2 = deferred ep"
    by (auto simp: rds_post_rdma_def sys_rdma_def Let_def split: if_splits)
  have again: "ret = - FI_EAGAIN \<Longrightarrow> d_peer d \<in> B"
    using r assms(1)
    by (rule_tac ccontr) (auto simp: rds_post_rdma_def sys_rdma_def Let_def sock_ret_again takes_traffic_def split: if_splits)
  have fin: "\<exists>fs. deferred (rds_rndzv_rx_finalize os k (pending_put k p ep2)) = deferred ep @ fs \<and> d_peer ` set fs \<subseteq> B" for k p
    using finalize_parked [OF assms(1), of k "pending_put k p ep2"] e2 by (simp add: pending_put_def)
  show ?thesis
    using assms(2) RDS_DEFERRED_READ r e2 again fin
    by (auto simp: deferred_step_def Let_def pending_put_def split: option.splits if_splits)
qed

lemma deferred_loop_parked:
  assumes "takes_traffic os B"
  shows "d_peer ` set kept \<subseteq> B \<Longrightarrow> deferred ep = kept @ ds \<Longrightarrow>
    d_peer ` set (deferred (snd (progress_deferred_loop os kept ds blocked ep))) \<subseteq> B"
  using assms
proof (induction os kept ds blocked ep rule: progress_deferred_loop.induct)
  case (1 os kept blocked ep)
  then show ?case by simp
next
  case (2 os kept d rest blocked ep)
  obtain keep ep1 where st: "deferred_step os d (ep\<lparr>deferred := kept @ rest\<rparr>) = (keep, ep1)" by fastforce
  from deferred_step_parked [OF 2(5) st] obtain fs where
    fs: "keep \<Longrightarrow> d_peer d \<in> B" "deferred ep1 = kept @ rest @ fs" "d_peer ` set fs \<subseteq> B" by auto
  show ?case
  proof (cases keep)
    case True
    then show ?thesis using 2(1) [OF st [symmetric]] 2(3-5) st fs(1) by simp
  next
    case False
    then show ?thesis using 2(2) [OF st [symmetric]] 2(3-5) st fs(2,3) by (cases "rest = []") (auto simp: image_Un)
  qed
qed

text \<open>
  C25.  No head-of-line blocking.  After a retry pass, every operation still parked is addressed to
  a peer whose traffic the kernel refuses: an operation behind a blocked one is tried in the
  same pass, and so is what finishing it gives rise to.
\<close>

theorem no_head_of_line_blocking:
  assumes "takes_traffic os B"
  shows "d_peer ` set (deferred (snd (rds_progress_deferred os ep))) \<subseteq> B"
  using deferred_loop_parked [OF assms, of "[]" ep "deferred ep" False]
  by (auto simp: rds_progress_deferred_def split: prod.splits)

theorem no_head_of_line_blocking_witness:
  "takes_traffic congested_os {3} \<and> d_peer ` set (deferred sample_parked) = {3, 9} \<and>
   d_peer ` set (deferred (snd (rds_progress_deferred congested_os sample_parked))) \<subseteq> {3}"
proof -
  have t: "takes_traffic congested_os {3}" by (simp add: takes_traffic_def congested_os_def)
  show ?thesis using no_head_of_line_blocking [OF t, of sample_parked] t
    by (simp add: sample_parked_def sample_read_def deferred_fin_def)
qed

text \<open>
  A pass that reports an empty queue may leave one behind.  The last parked READ fails, so its
  receive is finished within the pass; the FIN this gives rise to is refused and parked, yet the
  pass returns 0, which its description reserves for a queue that fully drained.
\<close>

theorem drained_but_parked:
  "\<exists>ep'. rds_progress_deferred broken_os (sample_parked\<lparr>deferred := [sample_read]\<rparr>) = (0, ep') \<and>
         deferred ep' = [deferred_fin 9 6]"
  by (simp add: rds_progress_deferred_def sample_parked_def sample_read_def sample_pending_def broken_os_def deferred_step_def
      rds_pending_find_def rds_post_rdma_def sys_rdma_def sock_ret_def abs_status_def pending_put_def rds_rndzv_rx_finalize_def
      rds_send_fin_def rds_send_fin_raw_def sys_send_def rds_defer_fin_def ep_alloc_def sys_alloc_def rds_defer_enqueue_def
      rds_cq_write_rx_def cq_push_def pending_remove_def testbed_simps Let_def)

section \<open>Cancellation\<close>

text \<open>
  A cancelled receive is reported and gone.  Cancelling takes exactly one posted receive with
  the given context, if there is one, and writes its completion with \<^verbatim>\<open>FI_ECANCELED\<close>; if there is
  none it returns \<^verbatim>\<open>-FI_ENOENT\<close> and changes nothing.
\<close>

theorem cancel_once:
  assumes "rds_ep_cancel ctx ep = (ret, ep')"
  shows "(if \<exists>rx. rx \<in> set (rx_posted_msg ep @ rx_posted_tag ep) \<and> rx_context rx = ctx
      then ret = 0 \<and> (\<exists>rx. rx_context rx = ctx \<and>
             mset (rx_posted_msg ep @ rx_posted_tag ep) = add_mset rx (mset (rx_posted_msg ep' @ rx_posted_tag ep')) \<and>
             cq_log ep' = cq_log ep @ (if rx_cq ep
               then [RxComp \<lparr>cq_context = ctx, cq_flags = FI_RECV OR (if has_flag (rx_flags rx) FI_TAGGED then FI_TAGGED else FI_MSG),
                       cq_len = 0, cq_data = 0, cq_tag = rx_tag rx, cq_src = None, cq_err = FI_ECANCELED\<rparr>]
               else []))
      else ret = - FI_ENOENT \<and> ep' = ep)"
proof (cases "take_first (\<lambda>rx. rx_context rx = ctx) (rx_posted_msg ep)")
  case (Some q)
  then obtain rx rest where q: "q = (rx, rest)" by fastforce
  from take_first_Some [OF Some [unfolded q]] have "rx \<in> set (rx_posted_msg ep)" "rx_context rx = ctx"
    "mset (rx_posted_msg ep) = add_mset rx (mset rest)" by auto
  then show ?thesis using assms Some q by (auto simp: rds_ep_cancel_def cancel_entry_def cq_push_def)
next
  case None
  show ?thesis
  proof (cases "take_first (\<lambda>rx. rx_context rx = ctx) (rx_posted_tag ep)")
    case (Some q)
    then obtain rx rest where q: "q = (rx, rest)" by fastforce
    from take_first_Some [OF Some [unfolded q]] have "rx \<in> set (rx_posted_tag ep)" "rx_context rx = ctx"
      "mset (rx_posted_tag ep) = add_mset rx (mset rest)" by auto
    then show ?thesis using assms None Some q by (auto simp: rds_ep_cancel_def cancel_entry_def cq_push_def)
  next
    case None': None
    then have "\<forall>rx \<in> set (rx_posted_msg ep @ rx_posted_tag ep). rx_context rx \<noteq> ctx"
      using None by (auto simp: take_first_None_iff)
    then show ?thesis using assms None None' by (auto simp: rds_ep_cancel_def)
  qed
qed

theorem cancel_once_witness:
  "\<exists>ep'. rds_ep_cancel 8 (sample_dom\<lparr>rx_posted_tag := [rx_entry_of [iov 64 4] 1 5 0 8 0 True]\<rparr>) = (0, ep') \<and>
     rx_posted_tag ep' = [] \<and> length (cq_log ep') = 1"
proof -
  let ?ep = "sample_dom\<lparr>rx_posted_tag := [rx_entry_of [iov 64 4] 1 5 0 8 0 True]\<rparr>"
  obtain ret ep' where r: "rds_ep_cancel 8 ?ep = (ret, ep')" by fastforce
  have "ret = 0 \<and> mset (rx_posted_msg ep' @ rx_posted_tag ep') = {#} \<and> length (cq_log ep') = 1"
    using cancel_once [OF r] by (auto simp: rx_entry_of_def testbed_simps split: if_splits)
  then show ?thesis using r by auto
qed

end
