(* ===== verification/Rds_Onesided.thy ===== *)
theory Rds_Onesided
  imports Rds_Rma Rds_Testbed
begin

text \<open>
  What a one-sided operation asks the kernel to do: its requests cover the local buffers and the
  remote window piece by piece, in order and without gap or overlap, each within the kernel's
  limit and each notified under the operation's identifier.
\<close>

section \<open>Definitions\<close>

text \<open>The remote windows follow one another, from address \<open>a\<close> on.\<close>

fun chained :: "u64 \<Rightarrow> rdma_args list \<Rightarrow> bool" where
  "chained a [] = True"
| "chained a (ra # ras) \<longleftrightarrow> ra_remote_addr ra = a \<and> chained (a + ra_remote_bytes ra) ras"

definition rma_request :: "u64 \<Rightarrow> bool \<Rightarrow> u64 \<Rightarrow> rdma_args \<Rightarrow> bool" where
  "rma_request key w tok ra \<longleftrightarrow>
     ra_cookie ra = key \<and> ra_user_token ra = tok \<and> ra_remote_bytes ra = of_nat (iov_sum (ra_local ra)) \<and>
     0 < iov_sum (ra_local ra) \<and> iov_sum (ra_local ra) \<le> RDS_KERNEL_SEG_MAX \<and> length (ra_local ra) \<le> RDS_IOV_LIMIT \<and>
     ra_flags ra = (if w then RDS_RDMA_READWRITE else 0) OR RDS_RDMA_NOTIFY_ME"

section \<open>The issuing loop\<close>

lemma post_rdma_0:
  assumes "rds_post_rdma os dest key ro liov w True tok ep = (0, ep')"
  shows "ep' = ep\<lparr>hist := hist ep'\<rparr> \<and> sent_rdma (hist ep') = sent_rdma (hist ep) @
    [(dest, \<lparr>ra_cookie = key, ra_remote_addr = ro, ra_remote_bytes = of_nat (iov_sum liov), ra_local = liov,
       ra_flags = (if w then RDS_RDMA_READWRITE else 0) OR RDS_RDMA_NOTIFY_ME, ra_user_token = tok\<rparr>)]"
  using assms by (auto simp: rds_post_rdma_def sys_rdma_def Let_def split: if_splits)

lemma rma_loop_covers:
  assumes "rma_loop os vs dest key ro w tlen off p ep = (0, p', ep')"
    and "length vs \<le> RDS_IOV_LIMIT" and "iov_sum vs < size_max" and "tlen = iov_sum vs" and "off \<le> tlen"
  shows "\<exists>rs. sent_rdma (hist ep') = sent_rdma (hist ep) @ map (Pair dest) rs \<and>
    (\<forall>m. concat (map (\<lambda>ra. gather m (ra_local ra)) rs) = drop off (gather m vs)) \<and> chained (ro + of_nat off) rs \<and>
    (\<forall>ra \<in> set rs. rma_request key w (p_id p) ra) \<and> length rs \<le> tlen - off \<and>
    p' = p\<lparr>p_seg_remaining := p_seg_remaining p + of_nat (length rs)\<rparr> \<and> ep' = ep\<lparr>hist := hist ep'\<rparr>"
  using assms
proof (induction os vs dest key ro w tlen off p ep rule: rma_loop.induct)
  case (1 os vs dest key ro w tlen off p ep)
  show ?case
  proof (cases "off < tlen")
    case False
    then show ?thesis using 1(2-6) by (intro exI [of _ "[]"]) (simp add: rma_loop.simps)
  next
    case True
    let ?n = "min (tlen - off) RDS_KERNEL_SEG_MAX"
    obtain liov got where sl: "rds_iov_slice vs off ?n = (liov, got)" by fastforce
    note win = rds_iov_slice_window [OF 1(3,4), of _ off ?n, unfolded sl fst_conv snd_conv]
    have got: "got = ?n" "iov_sum liov = ?n" "gather m liov = take ?n (drop off (gather m vs))" "0 < got" for m
      using win [of m] 1(5) True by auto
    obtain ret ep1 where po: "rds_post_rdma os dest key (ro + of_nat off) liov w True (p_id p) ep = (ret, ep1)" by fastforce
    have r0: "ret = 0" and lp: "rma_loop os vs dest key ro w tlen (off + got) (p\<lparr>p_seg_remaining := p_seg_remaining p + 1\<rparr>) ep1 = (0, p', ep')"
      using 1(2) True sl po got(4) by (subst (asm) rma_loop.simps, auto split: if_splits)+
    define ra where "ra = \<lparr>ra_cookie = key, ra_remote_addr = ro + of_nat off, ra_remote_bytes = of_nat (iov_sum liov), ra_local = liov,
       ra_flags = (if w then RDS_RDMA_READWRITE else 0) OR RDS_RDMA_NOTIFY_ME, ra_user_token = p_id p\<rparr>"
    from post_rdma_0 [OF po [unfolded r0]]
    have e1: "ep1 = ep\<lparr>hist := hist ep1\<rparr>" and s1: "sent_rdma (hist ep1) = sent_rdma (hist ep) @ [(dest, ra)]"
      by (simp_all add: ra_def)
    have le: "off + got \<le> tlen" using got(1) True by linarith
    from 1(1) [OF True sl [symmetric] _ po [symmetric] _ lp 1(3-5) le] got(4) r0 obtain rs where
      rs: "sent_rdma (hist ep') = sent_rdma (hist ep1) @ map (Pair dest) rs"
        "\<forall>m. concat (map (\<lambda>ra. gather m (ra_local ra)) rs) = drop (off + got) (gather m vs)"
        "chained (ro + of_nat (off + got)) rs" "\<forall>ra \<in> set rs. rma_request key w (p_id p) ra" "length rs \<le> tlen - (off + got)"
        "p' = p\<lparr>p_seg_remaining := p_seg_remaining p + 1 + of_nat (length rs)\<rparr>" "ep' = ep1\<lparr>hist := hist ep'\<rparr>"
      by auto
    have "rma_request key w (p_id p) ra"
      using got length_rds_iov_slice [of vs off ?n] sl by (simp add: rma_request_def ra_def)
    moreover have "gather m liov @ drop (off + got) (gather m vs) = drop off (gather m vs)" for m
      using got by (metis append_take_drop_id drop_drop add.commute)
    moreover have "chained (ro + of_nat off) (ra # rs)" using rs(3) got(1,2) by (simp add: ra_def add.assoc)
    moreover note hist_only_trans [OF e1 rs(7)]
    ultimately show ?thesis using rs s1 got(4) True
      by (intro exI [of _ "ra # rs"]) (auto simp: ra_def add.assoc)
  qed
qed

lemma rma_loop_pending:
  "rma_loop os vs dest key ro w tlen off p ep = (ret, p', ep') \<Longrightarrow> pending ep' = pending ep \<and> p_error p' = p_error p"
proof (induction os vs dest key ro w tlen off p ep rule: rma_loop.induct)
  case (1 os vs dest key ro w tlen off p ep)
  have post: "rds_post_rdma os dest key r liov w True t ep = (ret1, ep1) \<Longrightarrow> pending ep1 = pending ep" for r liov t ret1 ep1
    by (auto simp: rds_post_rdma_def sys_rdma_def Let_def split: if_splits)
  obtain liov got where sl: "rds_iov_slice vs off (min (tlen - off) RDS_KERNEL_SEG_MAX) = (liov, got)" by fastforce
  obtain r ep1 where po: "rds_post_rdma os dest key (ro + of_nat off) liov w True (p_id p) ep = (r, ep1)" by fastforce
  note step = 1(2) [unfolded rma_loop.simps [of os vs dest key ro w tlen off p ep]]
  show ?case
  proof (cases "off < tlen \<and> got \<noteq> 0 \<and> r = 0")
    case True
    with 1(1) [OF _ sl [symmetric] _ po [symmetric]] step sl po post [OF po] show ?thesis by simp
  next
    case False
    with step sl po post [OF po] show ?thesis by (auto split: if_splits)
  qed
qed

section \<open>Properties\<close>

lemma rma_common_covers:
  assumes run: "rds_rma_common os vs fi ro key w cx fl ep = (0, ep')"
    and "length vs \<le> RDS_IOV_LIMIT" and "iov_sum vs < size_max"
    and one: "pending ep' = pending ep @ [p]" and ok: "p_error p = 0"
  shows "\<exists>dest rs. rds_av_addr ep fi = Some dest \<and> sent_rdma (hist ep') = sent_rdma (hist ep) @ map (Pair dest) rs \<and>
    (\<forall>m. concat (map (\<lambda>ra. gather m (ra_local ra)) rs) = gather m vs) \<and> chained ro rs \<and>
    (\<forall>ra \<in> set rs. rma_request key w (p_id p) ra) \<and> unat (p_seg_remaining p) = length rs \<and> p_len p = iov_sum vs"
proof -
  have len: "rds_iov_len vs = iov_sum vs" using assms(3) by (simp add: rds_iov_len_total ofi_total_iov_len_eq)
  have sz: "iov_sum vs \<le> RDS_MAX_MSG_SIZE" using run by (simp add: rds_rma_common_def len Let_def split: if_splits)
  then obtain dest where av: "rds_av_addr ep fi = Some dest"
    using run by (cases "rds_av_addr ep fi") (simp_all add: rds_rma_common_def len Let_def)
  obtain r ep1 where al: "rds_pending_alloc os RDS_PEND_RMA cx (FI_RMA OR (if w then FI_WRITE else FI_READ)) ep = (r, ep1)" by fastforce
  then obtain k q where kq: "r = Some (k, q)" using run sz av by (cases r) (auto simp: rds_rma_common_def len Let_def)
  from al kq have k: "k = length (pending ep)" and e1: "pending ep1 = pending ep @ [q]" "sent_rdma (hist ep1) = sent_rdma (hist ep)"
    and q: "p_seg_remaining q = 0" "p_error q = 0"
    by (auto simp: rds_pending_alloc_def ep_alloc_def sys_alloc_def rds_next_id_def pending_init_def Let_def
        split: option.splits prod.splits if_splits)
  define q1 where "q1 = q\<lparr>p_len := iov_sum vs, p_addr := fi, p_no_comp := \<not> has_flag (tx_op_flags ep OR fl) FI_COMPLETION\<rparr>"
  obtain ret q2 ep2 where lp: "rma_loop os vs dest key ro w (iov_sum vs) 0 q1 ep1 = (ret, q2, ep2)" by (metis prod_cases3)
  have e': "(0, ep') = (if p_seg_remaining q2 = 0 then (ret, pending_remove k ep2)
      else (0, pending_put k (if ret \<noteq> 0 then q2\<lparr>p_error := - ret\<rparr> else q2) ep2))"
    using run unfolding rds_rma_common_def Let_def len using av sz al kq lp by (simp add: q1_def)
  from rma_loop_pending [OF lp] e1(1) q(2) have p2: "pending ep2 = pending ep @ [q]" "p_error q2 = 0" by (simp_all add: q1_def)
  have nz: "p_seg_remaining q2 \<noteq> 0"
    using e' one k p2(1) by (auto simp: pending_remove_def)
  then have "p = (if ret \<noteq> 0 then q2\<lparr>p_error := - ret\<rparr> else q2)"
    using e' one k p2(1) by (auto simp: pending_put_def)
  with ok have r0: "ret = 0" and pq: "p = q2" by (auto split: if_splits)
  from rma_loop_covers [OF lp [unfolded r0] assms(2,3) refl] obtain rs where
    rs: "sent_rdma (hist ep2) = sent_rdma (hist ep1) @ map (Pair dest) rs"
      "\<forall>m. concat (map (\<lambda>ra. gather m (ra_local ra)) rs) = gather m vs" "chained ro rs"
      "\<forall>ra \<in> set rs. rma_request key w (p_id q1) ra" "length rs \<le> iov_sum vs"
      "q2 = q1\<lparr>p_seg_remaining := p_seg_remaining q1 + of_nat (length rs)\<rparr>" by auto
  have "unat (p_seg_remaining q2) = length rs"
    using rs(5,6) sz q(1) by (simp add: q1_def unat_of_nat take_bit_nat_eq_self)
  moreover have "hist ep' = hist ep2" using e' nz by (simp add: pending_put_def)
  moreover have "p_id q2 = p_id q1" "p_len q2 = iov_sum vs" using rs(6) by (simp_all add: q1_def)
  ultimately show ?thesis using rs(1-4) e1(2) av pq by auto
qed

text \<open>
  C21.  A one-sided operation moves exactly its bytes.  If the call succeeds and no request was
  refused, the requests handed to the kernel, taken in order, gather exactly the local buffers
  and address the remote window contiguously from the given offset; each is within the 1 MiB
  kernel limit and is notified under the operation's token, and the operation waits for exactly
  as many notifications as there are requests.
\<close>

theorem rma_requests_cover:
  assumes "rds_rma_common os vs fi ro key w cx fl ep = (0, ep')"
    and "length vs \<le> RDS_IOV_LIMIT" and "iov_sum vs < size_max"
    and "pending ep' = pending ep @ [p]" and "p_error p = 0"
  shows "\<exists>dest rs. rds_av_addr ep fi = Some dest \<and> sent_rdma (hist ep') = sent_rdma (hist ep) @ map (Pair dest) rs \<and>
    (\<forall>m. concat (map (\<lambda>ra. gather m (ra_local ra)) rs) = gather m vs) \<and> chained ro rs \<and>
    (\<forall>ra \<in> set rs. rma_request key w (p_id p) ra) \<and> unat (p_seg_remaining p) = length rs \<and> p_len p = iov_sum vs"
  using rma_common_covers [OF assms] .

lemma sample_dom_fields: "rds_av_addr sample_dom 1 = Some 9" "pending sample_dom = []" "hist sample_dom = []" "cq_log sample_dom = []"
  by (simp_all add: rds_av_addr_def ofi_av_get_addr_def testbed_simps)

theorem rma_requests_cover_witness:
  "\<exists>ep' p dest rs. rds_rma_common calm_os [iov 64 3, iov 96 2] 1 16 7 True 8 0 sample_dom = (0, ep') \<and>
     pending ep' = [p] \<and> sent_rdma (hist ep') = map (Pair dest) rs \<and> chained 16 rs \<and> unat (p_seg_remaining p) = length rs \<and>
     (\<forall>m. concat (map (\<lambda>ra. gather m (ra_local ra)) rs) = gather m [iov 64 3, iov 96 2])"
proof -
  obtain ret ep' where r: "rds_rma_common calm_os [iov 64 3, iov 96 2] 1 16 7 True 8 0 sample_dom = (ret, ep')" by fastforce
  have p: "ret = 0" "\<exists>p. pending ep' = [p] \<and> p_error p = 0"
    using r by (auto simp: rds_rma_common_def rds_iov_len_def sample_dom_fields rds_pending_alloc_def
        ep_alloc_def sys_alloc_def rds_next_id_def pending_init_def rma_loop.simps rds_iov_slice_def rds_post_rdma_def
        sys_rdma_def pending_put_def calm_os_def Let_def)
  then obtain q where q: "pending ep' = pending sample_dom @ [q]" "p_error q = 0" by (auto simp: sample_dom_fields)
  have "length [iov 64 3, iov 96 2] \<le> RDS_IOV_LIMIT" "iov_sum [iov 64 3, iov 96 2] < size_max" by simp_all
  from rma_requests_cover [OF r [unfolded p(1)] this q] r p(1) q show ?thesis by (auto simp: sample_dom_fields)
qed

text \<open>
  C29.  A one-sided operation of length zero is lost.  The call returns success, yet no request
  is made, no operation stays pending and no completion is ever written, although the caller
  was promised one.
\<close>

theorem zero_length_rma_lost:
  assumes "iov_sum vs = 0" and "rds_av_addr ep fi = Some dest" and "os_alloc os (hist ep) ObjPending \<noteq> None"
  shows "\<exists>ep'. rds_rma_common os vs fi ro key w cx fl ep = (0, ep') \<and> pending ep' = pending ep \<and>
    cq_log ep' = cq_log ep \<and> sent_rdma (hist ep') = sent_rdma (hist ep)"
proof -
  have "rds_iov_len vs = 0" using assms(1) by (simp add: rds_iov_len_total ofi_total_iov_len_mod)
  then show ?thesis using assms(2,3)
    by (auto simp: rds_rma_common_def rds_pending_alloc_def ep_alloc_def sys_alloc_def rds_next_id_def pending_init_def
        rma_loop.simps pending_remove_def Let_def split: option.splits)
qed

theorem zero_length_rma_lost_witness:
  "\<exists>ep'. rds_rma_common calm_os [iov 64 0] 1 16 7 True 8 FI_COMPLETION sample_dom = (0, ep') \<and> pending ep' = [] \<and> cq_log ep' = []"
  using zero_length_rma_lost [of "[iov 64 0]" sample_dom 1 9 calm_os 16 7 True 8 FI_COMPLETION]
  by (auto simp: sample_dom_fields calm_os_def)

end
