(* ===== verification/Ofi_Rbtree_Balance.thy ===== *)
theory Ofi_Rbtree_Balance
  imports Ofi_Rbtree
begin

text \<open>
  The red-black map stays a red-black tree and a search tree.  The colour and black-height
  invariants are stated for a tree and for a path, so that a loop of the C code is one induction
  over the path.  The search interface is a locale: a comparison that respects the order of the
  data finds what is there, whatever the shape of the tree.
\<close>

section \<open>Definitions\<close>

text \<open>No red node has a red child.\<close>

fun no_red_red :: "'a rbt \<Rightarrow> bool" where
  "no_red_red Sentinel = True"
| "no_red_red (Rbnode c l d r) \<longleftrightarrow>
     no_red_red l \<and> no_red_red r \<and> (c = RED \<longrightarrow> color l = BLACK \<and> color r = BLACK)"

text \<open>The number of black nodes from a node down, if it is the same on every way down.\<close>

fun black_height :: "'a rbt \<Rightarrow> nat option" where
  "black_height Sentinel = Some 0"
| "black_height (Rbnode c l d r) =
     (case (black_height l, black_height r) of
        (Some m, Some n) \<Rightarrow> if m = n then Some (if c = BLACK then Suc m else m) else None
      | _ \<Rightarrow> None)"

definition red_black :: "'a rbt \<Rightarrow> bool" where
  "red_black t \<longleftrightarrow> no_red_red t \<and> black_height t \<noteq> None \<and> color t = BLACK"

fun tree_height :: "'a rbt \<Rightarrow> nat" where
  "tree_height Sentinel = 0"
| "tree_height (Rbnode c l d r) = Suc (max (tree_height l) (tree_height r))"

text \<open>The same of a path; above the root there is a red node, so to say, for the root is black.\<close>

fun path_color :: "'a path \<Rightarrow> ofi_node_color" where
  "path_color [] = RED"
| "path_color (InLeft c d r # p) = c"
| "path_color (InRight c l d # p) = c"

fun path_colors_ok :: "'a path \<Rightarrow> bool" where
  "path_colors_ok [] = True"
| "path_colors_ok (InLeft c d r # p) \<longleftrightarrow>
     no_red_red r \<and> (c = RED \<longrightarrow> color r = BLACK \<and> path_color p = BLACK) \<and> path_colors_ok p"
| "path_colors_ok (InRight c l d # p) \<longleftrightarrow>
     no_red_red l \<and> (c = RED \<longrightarrow> color l = BLACK \<and> path_color p = BLACK) \<and> path_colors_ok p"

text \<open>The path fits a subtree of black height \<open>n\<close>.\<close>

fun path_fits :: "'a path \<Rightarrow> nat \<Rightarrow> bool" where
  "path_fits [] n = True"
| "path_fits (InLeft c d r # p) n \<longleftrightarrow> black_height r = Some n \<and> path_fits p (if c = BLACK then Suc n else n)"
| "path_fits (InRight c l d # p) n \<longleftrightarrow> black_height l = Some n \<and> path_fits p (if c = BLACK then Suc n else n)"

text \<open>A history of insertions and deletions.\<close>

datatype 'a rb_op = RbInsert "'a \<Rightarrow> int" 'a | RbDelete "'a \<Rightarrow> bool"

fun rb_run :: "'a rb_op list \<Rightarrow> 'a rbt \<Rightarrow> 'a rbt" where
  "rb_run [] t = t"
| "rb_run (RbInsert cmp d # ops) t = rb_run ops (snd (ofi_rbmap_insert cmp d t))"
| "rb_run (RbDelete P # ops) t = rb_run ops (rb_delete_data P t)"

section \<open>Trees and paths\<close>

lemma not_RED [simp]: "c \<noteq> RED \<longleftrightarrow> c = BLACK"
  by (cases c) auto

lemma red_black_plug:
  "red_black (plug t p) \<longleftrightarrow>
     no_red_red t \<and> path_colors_ok p \<and> (color t = RED \<longrightarrow> path_color p = BLACK) \<and>
     (\<exists>n. black_height t = Some n \<and> path_fits p n)"
proof (induction t p rule: plug.induct)
  case (1 t)
  then show ?case by (auto simp: red_black_def)
next
  case (2 t c d r p)
  then show ?case by (cases c) (auto split: option.splits)
next
  case (3 t c l d p)
  then show ?case by (cases c) (auto split: option.splits)
qed

lemma set_color_red_black [simp]: "red_black t \<Longrightarrow> set_color BLACK t = t"
  by (cases t) (auto simp: red_black_def)

lemma no_red_red_blacken [simp]: "no_red_red t \<Longrightarrow> no_red_red (set_color BLACK t)"
  by (cases t) auto

lemma color_blacken [simp]: "color (set_color BLACK t) = BLACK"
  by (cases t) auto

lemma set_color_same: "color t = BLACK \<Longrightarrow> set_color BLACK t = t"
  by (cases t) auto

lemma black_height_blacken:
  "black_height t = Some n \<Longrightarrow> color t = RED \<Longrightarrow> black_height (set_color BLACK t) = Some (Suc n)"
  by (cases t) (auto split: option.splits if_splits)

section \<open>Insertion\<close>

lemma insert_rebalance_red_black:
  "no_red_red x \<Longrightarrow> color x = RED \<Longrightarrow> black_height x = Some n \<Longrightarrow> path_colors_ok p \<Longrightarrow> path_fits p n \<Longrightarrow>
     red_black (ofi_insert_rebalance x p)"
proof (induction x p arbitrary: n rule: ofi_insert_rebalance.induct)
  case (1 x)
  then show ?case using black_height_blacken [of x n] by (auto simp: red_black_def)
next
  case (2 x f)
  then have "red_black (plug x [f])" unfolding red_black_plug by (cases f) auto
  then show ?case by simp
next
  case (3 x d r g p)
  then have "red_black (plug x (InLeft BLACK d r # g # p))" unfolding red_black_plug by auto
  then show ?case by simp
next
  case (4 x l d g p)
  then have "red_black (plug x (InRight BLACK l d # g # p))" unfolding red_black_plug by auto
  then show ?case by simp
next
  case (5 x d r cg dg y p)
  show ?case
  proof (cases "color y = RED")
    case True
    then show ?thesis using 5(1) [OF True] 5(2-6) black_height_blacken [of y n] by auto
  next
    case False
    then have "red_black (plug (Rbnode BLACK x d (Rbnode RED r dg y)) p)" using 5(2-6) unfolding red_black_plug by auto
    then show ?thesis using False by simp
  qed
next
  case (6 x l d cg dg y p)
  show ?case
  proof (cases "color y = RED")
    case True
    then show ?thesis using 6(1) [OF True] 6(2-6) black_height_blacken [of y n] by auto
  next
    case False
    obtain cx xl dx xr where x: "x = Rbnode cx xl dx xr" using 6(3) by (cases x) auto
    have "red_black (plug (Rbnode BLACK (Rbnode RED l d xl) dx (Rbnode RED xr dg y)) p)"
      using 6(2-6) False unfolding red_black_plug by (auto simp: x split: option.splits if_splits)
    then show ?thesis using False by (simp add: x)
  qed
next
  case (7 x l d cg y dg p)
  show ?case
  proof (cases "color y = RED")
    case True
    then show ?thesis using 7(1) [OF True] 7(2-6) black_height_blacken [of y n] by auto
  next
    case False
    then have "red_black (plug (Rbnode BLACK (Rbnode RED y dg l) d x) p)" using 7(2-6) unfolding red_black_plug by auto
    then show ?thesis using False by simp
  qed
next
  case (8 x d r cg y dg p)
  show ?case
  proof (cases "color y = RED")
    case True
    then show ?thesis using 8(1) [OF True] 8(2-6) black_height_blacken [of y n] by auto
  next
    case False
    obtain cx xl dx xr where x: "x = Rbnode cx xl dx xr" using 8(3) by (cases x) auto
    have "red_black (plug (Rbnode BLACK (Rbnode RED y dg xl) dx (Rbnode RED xr d r)) p)"
      using 8(2-6) False unfolding red_black_plug by (auto simp: x split: option.splits if_splits)
    then show ?thesis using False by (simp add: x)
  qed
qed

section \<open>Deletion\<close>

text \<open>One step at a black sibling: the subtree is whole again, or all of it is short of one black node.\<close>

lemma black_node:
  assumes "black_height w = Some (Suc n)" "color w = BLACK" "no_red_red w"
  obtains wl dw wr where "w = Rbnode BLACK wl dw wr" "black_height wl = Some n" "black_height wr = Some n" "no_red_red wl" "no_red_red wr"
  using assms by (cases w) (auto split: option.splits if_splits)

lemma red_node:
  assumes "black_height w = Some n" "color w = RED" "no_red_red w"
  obtains wl dw wr where "w = Rbnode RED wl dw wr" "black_height wl = Some n" "black_height wr = Some n" "no_red_red wl" "no_red_red wr"
    "color wl = BLACK" "color wr = BLACK"
  using assms by (cases w) (auto split: option.splits if_splits)

definition step_ok :: "ofi_node_color \<Rightarrow> nat \<Rightarrow> 'a rbt + 'a rbt \<Rightarrow> bool" where
  "step_ok c n s \<longleftrightarrow>
     (case s of
        Inl t \<Rightarrow> no_red_red t \<and> black_height t = Some (if c = BLACK then Suc (Suc n) else Suc n) \<and> color t = c
      | Inr t \<Rightarrow> no_red_red (set_color BLACK t) \<and> black_height t = Some (if c = BLACK then Suc n else n) \<and> color t = c)"

lemma del_left_step:
  assumes "no_red_red x" "color x = BLACK" "black_height x = Some n" "no_red_red w" "color w = BLACK" "black_height w = Some (Suc n)"
  shows "step_ok c n (del_left c x d w)"
proof -
  from black_node [OF assms(6,5,4)] obtain wl dw wr where
    w: "w = Rbnode BLACK wl dw wr" "black_height wl = Some n" "black_height wr = Some n" "no_red_red wl" "no_red_red wr" .
  show ?thesis
  proof (cases "color wr = RED")
    case True
    then show ?thesis using assms(1-3) w black_height_blacken [OF w(3)] by (simp add: step_ok_def)
  next
    case wr: False
    show ?thesis
    proof (cases "color wl = RED")
      case True
      from red_node [OF w(2) True w(4)] obtain a da b where
        "wl = Rbnode RED a da b" "black_height a = Some n" "black_height b = Some n" "no_red_red a" "no_red_red b"
        "color a = BLACK" "color b = BLACK" .
      then show ?thesis using assms(1-3) w(1,3,5) wr by (simp add: step_ok_def)
    next
      case False
      then show ?thesis using assms(1-3) w wr by (simp add: step_ok_def)
    qed
  qed
qed

lemma del_right_step:
  assumes "no_red_red x" "color x = BLACK" "black_height x = Some n" "no_red_red w" "color w = BLACK" "black_height w = Some (Suc n)"
  shows "step_ok c n (del_right c w d x)"
proof -
  from black_node [OF assms(6,5,4)] obtain wl dw wr where
    w: "w = Rbnode BLACK wl dw wr" "black_height wl = Some n" "black_height wr = Some n" "no_red_red wl" "no_red_red wr" .
  show ?thesis
  proof (cases "color wl = RED")
    case True
    then show ?thesis using assms(1-3) w black_height_blacken [OF w(2)] by (simp add: step_ok_def)
  next
    case wl: False
    show ?thesis
    proof (cases "color wr = RED")
      case True
      from red_node [OF w(3) True w(5)] obtain a da b where
        "wr = Rbnode RED a da b" "black_height a = Some n" "black_height b = Some n" "no_red_red a" "no_red_red b"
        "color a = BLACK" "color b = BLACK" .
      then show ?thesis using assms(1-3) w(1,2,4) wl by (simp add: step_ok_def)
    next
      case False
      then show ?thesis using assms(1-3) w wl by (simp add: step_ok_def)
    qed
  qed
qed

lemma delete_left_arm:
  assumes IH: "\<And>t m. no_red_red (set_color BLACK t) \<Longrightarrow> black_height t = Some m \<Longrightarrow> path_fits p (Suc m) \<Longrightarrow> red_black (ofi_delete_rebalance t p)"
    and x: "no_red_red x" "color x = BLACK" "black_height x = Some n"
    and w: "no_red_red w" "black_height w = Some (Suc n)" "path_fits p (if c = BLACK then Suc (Suc n) else Suc n)" "path_colors_ok p"
      "c = RED \<Longrightarrow> color w = BLACK \<and> path_color p = BLACK"
  shows "red_black (ofi_delete_rebalance x (InLeft c d w # p))"
proof (cases "color w = RED")
  case True
  from red_node [OF w(2) True w(1)] obtain wl dw wr where
    wn: "w = Rbnode RED wl dw wr" "black_height wl = Some (Suc n)" "black_height wr = Some (Suc n)" "no_red_red wl" "no_red_red wr"
      "color wl = BLACK" "color wr = BLACK" .
  have c: "c = BLACK" using True w(5) by (cases c) auto
  note st = del_left_step [OF x wn(4,6,2), of RED d]
  show ?thesis
  proof (cases "del_left RED x d wl")
    case (Inl t)
    then have "red_black (plug t (InLeft BLACK dw wr # p))"
      using st w(3,4) wn c unfolding red_black_plug by (simp add: step_ok_def)
    then show ?thesis using x(2) Inl by (simp add: wn(1))
  next
    case (Inr t)
    then have "red_black (plug (set_color BLACK t) (InLeft BLACK dw wr # p))"
      using st w(3,4) wn c black_height_blacken [of t n] unfolding red_black_plug by (simp add: step_ok_def)
    then show ?thesis using x(2) Inr by (simp add: wn(1))
  qed
next
  case False
  then have cw: "color w = BLACK" by simp
  from black_node [OF w(2) cw w(1)] obtain wl dw wr where wn: "w = Rbnode BLACK wl dw wr" by metis
  note st = del_left_step [OF x w(1) cw w(2), of c d]
  show ?thesis
  proof (cases "del_left c x d w")
    case (Inl t)
    then have "red_black (plug t p)" using st w(3-5) unfolding red_black_plug by (simp add: step_ok_def)
    then show ?thesis using x(2) Inl by (simp add: wn)
  next
    case (Inr t)
    then have "red_black (ofi_delete_rebalance t p)" using st IH [of t] w(3) by (simp add: step_ok_def split: if_splits)
    then show ?thesis using x(2) Inr by (simp add: wn)
  qed
qed

lemma delete_right_arm:
  assumes IH: "\<And>t m. no_red_red (set_color BLACK t) \<Longrightarrow> black_height t = Some m \<Longrightarrow> path_fits p (Suc m) \<Longrightarrow> red_black (ofi_delete_rebalance t p)"
    and x: "no_red_red x" "color x = BLACK" "black_height x = Some n"
    and w: "no_red_red w" "black_height w = Some (Suc n)" "path_fits p (if c = BLACK then Suc (Suc n) else Suc n)" "path_colors_ok p"
      "c = RED \<Longrightarrow> color w = BLACK \<and> path_color p = BLACK"
  shows "red_black (ofi_delete_rebalance x (InRight c w d # p))"
proof (cases "color w = RED")
  case True
  from red_node [OF w(2) True w(1)] obtain wl dw wr where
    wn: "w = Rbnode RED wl dw wr" "black_height wl = Some (Suc n)" "black_height wr = Some (Suc n)" "no_red_red wl" "no_red_red wr"
      "color wl = BLACK" "color wr = BLACK" .
  have c: "c = BLACK" using True w(5) by (cases c) auto
  note st = del_right_step [OF x wn(5,7,3), of RED d]
  show ?thesis
  proof (cases "del_right RED wr d x")
    case (Inl t)
    then have "red_black (plug t (InRight BLACK wl dw # p))"
      using st w(3,4) wn c unfolding red_black_plug by (simp add: step_ok_def)
    then show ?thesis using x(2) Inl by (simp add: wn(1))
  next
    case (Inr t)
    then have "red_black (plug (set_color BLACK t) (InRight BLACK wl dw # p))"
      using st w(3,4) wn c black_height_blacken [of t n] unfolding red_black_plug by (simp add: step_ok_def)
    then show ?thesis using x(2) Inr by (simp add: wn(1))
  qed
next
  case False
  then have cw: "color w = BLACK" by simp
  from black_node [OF w(2) cw w(1)] obtain wl dw wr where wn: "w = Rbnode BLACK wl dw wr" by metis
  note st = del_right_step [OF x w(1) cw w(2), of c d]
  show ?thesis
  proof (cases "del_right c w d x")
    case (Inl t)
    then have "red_black (plug t p)" using st w(3-5) unfolding red_black_plug by (simp add: step_ok_def)
    then show ?thesis using x(2) Inl by (simp add: wn)
  next
    case (Inr t)
    then have "red_black (ofi_delete_rebalance t p)" using st IH [of t] w(3) by (simp add: step_ok_def split: if_splits)
    then show ?thesis using x(2) Inr by (simp add: wn)
  qed
qed

lemma delete_rebalance_red_black:
  "no_red_red (set_color BLACK x) \<Longrightarrow> black_height x = Some n \<Longrightarrow> path_colors_ok p \<Longrightarrow> path_fits p (Suc n) \<Longrightarrow>
     red_black (ofi_delete_rebalance x p)"
proof (induction p arbitrary: x n)
  case Nil
  then show ?case by (cases x) (auto simp: red_black_def split: option.splits if_splits)
next
  case (Cons f p)
  show ?case
  proof (cases "color x = RED")
    case True
    have "red_black (plug (set_color BLACK x) (f # p))"
      using Cons.prems black_height_blacken [OF Cons.prems(2) True] unfolding red_black_plug by auto
    then show ?thesis using True by (cases f) simp_all
  next
    case False
    then have x: "no_red_red x" "color x = BLACK" using Cons.prems(1) by (simp_all add: set_color_same)
    show ?thesis
    proof (cases f)
      case (InLeft c d w)
      then show ?thesis using Cons.prems(3,4) unfolding InLeft
        by (intro delete_left_arm [OF Cons.IH x Cons.prems(2)]) auto
    next
      case (InRight c w d)
      then show ?thesis using Cons.prems(3,4) unfolding InRight
        by (intro delete_right_arm [OF Cons.IH x Cons.prems(2)]) auto
    qed
  qed
qed

section \<open>The map's operations\<close>

lemma descend_plug: "rb_descend cmp t p = (t', q) \<Longrightarrow> plug t' q = plug t p"
  by (induction cmp t p rule: rb_descend.induct) (auto split: if_splits)

lemma locate_plug: "rb_locate P t p = Some (t', q) \<Longrightarrow> plug t' q = plug t p"
  by (induction P t p rule: rb_locate.induct) (auto split: if_splits option.splits)

lemma leftmost_plug:
  "rb_leftmost t p = Some (c, d, r, q) \<Longrightarrow> plug (Rbnode c Sentinel d r) q = plug t p"
  by (induction t p rule: rb_leftmost.induct) auto

lemma plug_append [simp]: "plug t (p @ q) = plug (plug t p) q"
  by (induction t p rule: plug.induct) auto

lemma insert_red_black: "red_black t \<Longrightarrow> red_black (snd (ofi_rbmap_insert cmp d t))"
proof -
  assume rb: "red_black t"
  obtain t' p where dp: "rb_descend cmp t [] = (t', p)" by fastforce
  show ?thesis
  proof (cases t')
    case Sentinel
    with descend_plug [OF dp] rb have "red_black (plug Sentinel p)" by simp
    then have "path_colors_ok p" "path_fits p 0" unfolding red_black_plug by auto
    then show ?thesis using insert_rebalance_red_black [of "Rbnode RED Sentinel d Sentinel" 0 p]
      by (simp add: ofi_rbmap_insert_def dp Sentinel)
  next
    case Rbnode
    then show ?thesis using rb by (simp add: ofi_rbmap_insert_def dp)
  qed
qed

lemma unlink_red_black:
  assumes "red_black (plug (Rbnode c l d r) p)" and "l = Sentinel \<and> x = r \<or> r = Sentinel \<and> x = l"
  shows "red_black (rb_unlink c x p)"
proof (cases c)
  case BLACK
  then have "no_red_red x" "path_colors_ok p" "\<exists>n. black_height x = Some n \<and> path_fits p (Suc n)"
    using assms unfolding red_black_plug by (auto split: option.splits if_splits)
  then show ?thesis using delete_rebalance_red_black [of x _ p] by (auto simp: rb_unlink_def BLACK)
next
  case RED
  then have "no_red_red x" "color x = BLACK" "path_colors_ok p" "\<exists>n. black_height x = Some n \<and> path_fits p n"
    using assms unfolding red_black_plug by (auto split: option.splits if_splits)
  then have "red_black (plug x p)" unfolding red_black_plug by auto
  then show ?thesis by (simp add: rb_unlink_def RED)
qed

text \<open>Colours and heights do not depend on the data.\<close>

lemma red_black_data: "red_black (plug t (q @ InRight c l d # p)) = red_black (plug t (q @ InRight c l e # p))"
proof -
  have "color (plug t (q @ [InRight c l d])) = color (plug t (q @ [InRight c l e]))"
    "no_red_red (plug t (q @ [InRight c l d])) = no_red_red (plug t (q @ [InRight c l e]))"
    "black_height (plug t (q @ [InRight c l d])) = black_height (plug t (q @ [InRight c l e]))"
    by simp_all
  then show ?thesis using red_black_plug [of "plug t (q @ [InRight c l d])" p] red_black_plug [of "plug t (q @ [InRight c l e])" p]
    by simp
qed

lemma delete_red_black:
  assumes "red_black (plug (Rbnode c l d r) p)"
  shows "red_black (ofi_rbmap_delete (Rbnode c l d r) p)"
proof (cases "l = Sentinel \<or> r = Sentinel")
  case True
  then show ?thesis using unlink_red_black [OF assms] by auto
next
  case False
  then obtain cy dy xy q where y: "rb_leftmost r [] = Some (cy, dy, xy, q)"
    by (metis rb_leftmost_None not_None_eq prod_cases4)
  from leftmost_plug [OF y] have "plug (Rbnode cy Sentinel dy xy) (q @ InRight c l d # p) = plug (Rbnode c l d r) p" by simp
  with assms have "red_black (plug (Rbnode cy Sentinel dy xy) (q @ InRight c l dy # p))" using red_black_data by metis
  from unlink_red_black [OF this] False y show ?thesis by simp
qed

lemma delete_data_red_black: "red_black t \<Longrightarrow> red_black (rb_delete_data P t)"
proof -
  assume rb: "red_black t"
  show ?thesis
  proof (cases "rb_locate P t []")
    case None
    then show ?thesis using rb by (simp add: rb_delete_data_def)
  next
    case (Some z)
    obtain n q where z: "z = (n, q)" by fastforce
    from rb_locate_Some [OF Some [unfolded z]] obtain c l d r where n: "n = Rbnode c l d r" by auto
    from locate_plug [OF Some [unfolded z]] rb have "red_black (plug (Rbnode c l d r) q)" by (simp add: n)
    from delete_red_black [OF this] show ?thesis using Some by (simp add: rb_delete_data_def z n del: ofi_rbmap_delete.simps)
  qed
qed

lemma run_red_black: "red_black t \<Longrightarrow> red_black (rb_run ops t)"
  by (induction ops t rule: rb_run.induct) (auto simp: insert_red_black delete_data_red_black)

section \<open>Depth\<close>

lemma black_height_size: "black_height t = Some n \<Longrightarrow> 2 ^ n \<le> length (inorder t) + 1"
proof (induction t arbitrary: n)
  case Sentinel
  then show ?case by simp
next
  case (Rbnode c l d r)
  then obtain m where m: "black_height l = Some m" "black_height r = Some m" "n \<le> Suc m"
    by (auto split: option.splits if_splits)
  have "(2 :: nat) ^ n \<le> 2 ^ Suc m" using m(3) by (rule power_increasing) simp
  also have "\<dots> \<le> length (inorder (Rbnode c l d r)) + 1" using Rbnode.IH(1) [OF m(1)] Rbnode.IH(2) [OF m(2)] by simp
  finally show ?case .
qed

lemma height_bound:
  "black_height t = Some n \<Longrightarrow> no_red_red t \<Longrightarrow> tree_height t \<le> 2 * n + (if color t = RED then 1 else 0)"
proof (induction t arbitrary: n)
  case Sentinel
  then show ?case by simp
next
  case (Rbnode c l d r)
  then show ?case by (cases c) (fastforce split: option.splits if_splits)+
qed

text \<open>
  C17.  The map behind the registration cache stays balanced.  Whatever is inserted and deleted,
  in whatever order and with whatever comparison, the tree the C code builds is a red-black
  tree, so the number of nodes on a way down is at most twice the binary logarithm of the number
  of entries plus one; in particular the loops never run into a missing parent or sibling.
\<close>

theorem rbmap_stays_balanced:
  "red_black (rb_run ops Sentinel) \<and>
   2 ^ (tree_height (rb_run ops Sentinel) div 2) \<le> length (inorder (rb_run ops Sentinel)) + 1"
proof -
  define t where "t = rb_run ops (Sentinel :: 'a rbt)"
  have rb: "red_black t" using run_red_black [of Sentinel ops] by (simp add: t_def red_black_def)
  then obtain n where n: "black_height t = Some n" by (auto simp: red_black_def)
  have "tree_height t \<le> 2 * n" using height_bound [OF n] rb by (simp add: red_black_def)
  then have "tree_height t div 2 \<le> n" by simp
  then have "(2 :: nat) ^ (tree_height t div 2) \<le> 2 ^ n" by simp
  then have "2 ^ (tree_height t div 2) \<le> length (inorder t) + 1" using black_height_size [OF n] by linarith
  with rb show ?thesis by (simp add: t_def)
qed

section \<open>Search\<close>

text \<open>
  A comparison respects the order of the data if what lies beyond a too large datum is too large
  as well, and what lies before a too small one too small.
\<close>

locale search_order =
  fixes lt :: "'a \<Rightarrow> 'a \<Rightarrow> bool" and cmp :: "'k \<Rightarrow> 'a \<Rightarrow> int"
  assumes too_large: "lt x y \<Longrightarrow> cmp k x < 0 \<Longrightarrow> cmp k y < 0"
    and too_small: "lt x y \<Longrightarrow> cmp k y > 0 \<Longrightarrow> cmp k x > 0"
begin

lemma search_complete:
  "sorted_wrt lt (inorder t) \<Longrightarrow> ofi_rbmap_search (cmp k) t = None \<longleftrightarrow> (\<forall>d \<in> set (inorder t). cmp k d \<noteq> 0)"
proof (induction t)
  case Sentinel
  then show ?case by simp
next
  case (Rbnode c l d r)
  have "cmp k d < 0 \<Longrightarrow> \<forall>y \<in> set (inorder r). cmp k y < 0" "cmp k d > 0 \<Longrightarrow> \<forall>x \<in> set (inorder l). cmp k x > 0"
    using Rbnode.prems too_large too_small by (fastforce simp: sorted_wrt_append)+
  moreover have "sorted_wrt lt (inorder l)" "sorted_wrt lt (inorder r)" using Rbnode.prems by (simp_all add: sorted_wrt_append)
  ultimately show ?case using Rbnode.IH by (cases "cmp k d" "0 :: int" rule: linorder_cases) auto
qed

lemma descend_sides:
  "sorted_wrt lt (before p @ inorder t @ after p) \<Longrightarrow> (\<forall>x \<in> set (before p). cmp k x > 0) \<Longrightarrow> (\<forall>y \<in> set (after p). cmp k y < 0) \<Longrightarrow>
   rb_descend (cmp k) t p = (Sentinel, q) \<Longrightarrow> (\<forall>x \<in> set (before q). cmp k x > 0) \<and> (\<forall>y \<in> set (after q). cmp k y < 0)"
proof (induction "cmp k" t p rule: rb_descend.induct)
  case (1 p)
  then show ?case by simp
next
  case (2 c l d r p)
  have side: "cmp k d < 0 \<Longrightarrow> \<forall>y \<in> set (inorder r). cmp k y < 0" "cmp k d > 0 \<Longrightarrow> \<forall>x \<in> set (inorder l). cmp k x > 0"
    using 2(3) too_large too_small by (fastforce simp: sorted_wrt_append)+
  consider (left) "cmp k d < 0" | (right) "cmp k d > 0" using 2(6) by (cases "cmp k d" "0 :: int" rule: linorder_cases) auto
  then show ?case
  proof cases
    case left
    then have run: "rb_descend (cmp k) l (InLeft c d r # p) = (Sentinel, q)" using 2(6) by simp
    show ?thesis using left 2(3-5) side(1) by (intro 2(1) [OF _ left _ _ _ run]) auto
  next
    case right
    then have run: "rb_descend (cmp k) r (InRight c l d # p) = (Sentinel, q)" using 2(6) by simp
    show ?thesis using right 2(3-5) side(2) by (intro 2(2) [OF _ _ _ _ _ run]) auto
  qed
qed

lemma insert_sorted:
  assumes "sorted_wrt lt (inorder t)" and "ofi_rbmap_insert (cmp k) d t = (0, t')"
    and "\<And>x. x \<in> set (inorder t) \<Longrightarrow> cmp k x > 0 \<Longrightarrow> lt x d" and "\<And>x. x \<in> set (inorder t) \<Longrightarrow> cmp k x < 0 \<Longrightarrow> lt d x"
  shows "sorted_wrt lt (inorder t') \<and> (\<exists>xs ys. inorder t = xs @ ys \<and> inorder t' = xs @ d # ys)"
proof -
  from assms(2) obtain p where p: "rb_descend (cmp k) t [] = (Sentinel, p)"
    and t': "t' = ofi_insert_rebalance (Rbnode RED Sentinel d Sentinel) p"
    by (auto simp: ofi_rbmap_insert_def split: prod.splits rbt.splits)
  from rb_descend_inorder [OF p] have io: "inorder t = before p @ after p" by simp
  from descend_sides [OF _ _ _ p] assms(1) have "(\<forall>x \<in> set (before p). cmp k x > 0) \<and> (\<forall>y \<in> set (after p). cmp k y < 0)" by simp
  then show ?thesis using assms(1,3,4) io by (auto simp: t' sorted_wrt_append)
qed

end

end
