(* ===== verification/Ofi_Mr_Cache_Inv.thy ===== *)
theory Ofi_Mr_Cache_Inv
  imports Ofi_Mr_Cache Ofi_Rbtree_Balance
begin

text \<open>
  The invariant of the registration cache and what follows from it.  The tree holds the cached
  entries and nothing else, sorted so that none contains another; the idle ones among them are
  the LRU list; an entry that left the tree is dead if nobody holds it and is counted as uncached
  otherwise; the counters say what they should.  While an operation works on an entry outside
  these places the entry is loose, and the invariant says so.
\<close>

section \<open>Definitions\<close>

definition info_lt :: "mr_info \<Rightarrow> mr_info \<Rightarrow> bool" where
  "info_lt a b \<longleftrightarrow>
     mi_peer_id a < mi_peer_id b \<or> mi_peer_id a = mi_peer_id b \<and> ofi_iov_shifted_left (mi_iov a) (mi_iov b)"

definition entry_lt :: "'d mr_cache \<Rightarrow> nat \<Rightarrow> nat \<Rightarrow> bool" where
  "entry_lt c i j \<longleftrightarrow>
     (case (c_entries c i, c_entries c j) of (Some a, Some b) \<Rightarrow> info_lt (me_info a) (me_info b) | _ \<Rightarrow> False)"

definition ids :: "(nat \<Rightarrow> 'd mr_entry option) \<Rightarrow> ('d mr_entry \<Rightarrow> bool) \<Rightarrow> nat set" where
  "ids m P = {i. \<exists>e. m i = Some e \<and> P e}"

definition in_tree :: "'d mr_entry \<Rightarrow> bool" where "in_tree e \<longleftrightarrow> me_node e"

definition idle :: "'d mr_entry \<Rightarrow> bool" where "idle e \<longleftrightarrow> me_node e \<and> me_use_cnt e = 0"

definition dead :: "'d mr_entry \<Rightarrow> bool" where "dead e \<longleftrightarrow> \<not> me_node e \<and> me_use_cnt e = 0"

definition held :: "'d mr_entry \<Rightarrow> bool" where "held e \<longleftrightarrow> \<not> me_node e \<and> me_use_cnt e > 0"

text \<open>The invariant, with the set \<open>L\<close> of loose entries.\<close>

definition cache_ok :: "nat set \<Rightarrow> 'd mr_cache \<Rightarrow> bool" where
  "cache_ok L c \<longleftrightarrow>
     sorted_wrt (entry_lt c) (inorder (c_tree c)) \<and> red_black (c_tree c) \<and>
     set (inorder (c_tree c)) = ids (c_entries c) in_tree \<and>
     distinct (c_lru c) \<and> set (c_lru c) = ids (c_entries c) idle \<and>
     distinct (c_dead c) \<and> set (c_dead c) = ids (c_entries c) dead - L \<and>
     ids (c_entries c) (\<lambda>e. True) \<subseteq> {..<c_next c} \<and> ids (c_entries c) (\<lambda>e. me_use_cnt e < 0) = {} \<and>
     L \<subseteq> ids (c_entries c) (\<lambda>e. \<not> me_node e) \<and>
     cached_cnt c = of_nat (card (ids (c_entries c) in_tree)) \<and>
     cached_size c = sum (entry_len c) (ids (c_entries c) in_tree) \<and>
     uncached_cnt c = of_nat (card (ids (c_entries c) held - L)) \<and>
     uncached_size c = sum (entry_len c) (ids (c_entries c) held - L)"

section \<open>The order\<close>

lemma shifted_left_trans: "ofi_iov_shifted_left a b \<Longrightarrow> ofi_iov_shifted_left b c \<Longrightarrow> ofi_iov_shifted_left a c"
  by (simp add: ofi_iov_shifted_left_def)

lemma shifted_sym: "ofi_iov_shifted_right a b = ofi_iov_shifted_left b a"
  by (auto simp: ofi_iov_shifted_left_def ofi_iov_shifted_right_def)

lemma entry_lt_irrefl: "\<not> entry_lt c i i"
  by (simp add: entry_lt_def info_lt_def ofi_iov_shifted_left_def split: option.splits)

lemma within_info:
  "info_lt a b \<Longrightarrow> util_mr_find_within k a < 0 \<Longrightarrow> util_mr_find_within k b < 0"
  "info_lt a b \<Longrightarrow> util_mr_find_within k b > 0 \<Longrightarrow> util_mr_find_within k a > 0"
  by (auto simp: info_lt_def util_mr_find_within_def ofi_iov_shifted_left_def ofi_iov_shifted_right_def split: if_splits)

lemma overlap_info:
  "info_lt a b \<Longrightarrow> util_mr_find_overlap k a < 0 \<Longrightarrow> util_mr_find_overlap k b < 0"
  "info_lt a b \<Longrightarrow> util_mr_find_overlap k b > 0 \<Longrightarrow> util_mr_find_overlap k a > 0"
  by (auto simp: info_lt_def util_mr_find_overlap_def ofi_iov_shifted_left_def ofi_iov_left_def ofi_iov_right_def split: if_splits)

lemma entry_lt_Some: "entry_lt c i j \<longleftrightarrow> (\<exists>a b. c_entries c i = Some a \<and> c_entries c j = Some b \<and> info_lt (me_info a) (me_info b))"
  by (auto simp: entry_lt_def split: option.splits)

lemma within_laws:
  "entry_lt c x y \<Longrightarrow> entry_cmp util_mr_find_within c k x < 0 \<Longrightarrow> entry_cmp util_mr_find_within c k y < 0"
  "entry_lt c x y \<Longrightarrow> entry_cmp util_mr_find_within c k y > 0 \<Longrightarrow> entry_cmp util_mr_find_within c k x > 0"
  by (auto simp: entry_lt_Some entry_cmp_def dest: within_info)

lemma overlap_laws:
  "entry_lt c x y \<Longrightarrow> entry_cmp util_mr_find_overlap c k x < 0 \<Longrightarrow> entry_cmp util_mr_find_overlap c k y < 0"
  "entry_lt c x y \<Longrightarrow> entry_cmp util_mr_find_overlap c k y > 0 \<Longrightarrow> entry_cmp util_mr_find_overlap c k x > 0"
  by (auto simp: entry_lt_Some entry_cmp_def dest: overlap_info)

interpretation by_within: search_order "entry_lt c" "entry_cmp util_mr_find_within c" for c :: "'d mr_cache"
  by unfold_locales (fact within_laws)+

interpretation by_overlap: search_order "entry_lt c" "entry_cmp util_mr_find_overlap c" for c :: "'d mr_cache"
  by unfold_locales (fact overlap_laws)+


section \<open>Entries and counters\<close>

lemma ids_upd: "ids (m(i \<mapsto> e)) P = (if P e then insert i (ids m P) else ids m P - {i})"
  by (auto simp: ids_def)

lemma ids_del: "ids (m(i := None)) P = ids m P - {i}"
  by (auto simp: ids_def)

lemma in_ids: "m i = Some e \<Longrightarrow> i \<in> ids m P \<longleftrightarrow> P e"
  by (simp add: ids_def)

text \<open>The order and the lengths depend only on the regions.\<close>

definition regions :: "'d mr_cache \<Rightarrow> nat \<Rightarrow> mr_info option" where
  "regions c i = map_option me_info (c_entries c i)"

lemma entry_len_regions: "entry_len c i = (case regions c i of None \<Rightarrow> 0 | Some a \<Rightarrow> of_nat (iov_len (mi_iov a)))"
  by (simp add: entry_len_def regions_def split: option.splits)

lemma entry_lt_regions: "entry_lt c i j \<longleftrightarrow> (\<exists>a b. regions c i = Some a \<and> regions c j = Some b \<and> info_lt a b)"
  by (auto simp: entry_lt_Some regions_def)

lemma regions_same:
  assumes "\<And>j. j \<in> A \<Longrightarrow> regions c' j = regions c j"
  shows "sum (entry_len c') A = sum (entry_len c) A"
  using assms by (intro sum.cong) (simp_all add: entry_len_regions)

lemma sorted_same:
  assumes "\<And>j. j \<in> set xs \<Longrightarrow> regions c' j = regions c j"
    and "sorted_wrt (entry_lt c) xs"
  shows "sorted_wrt (entry_lt c') xs"
  using assms(2) by (rule sorted_wrt_mono_rel [rotated]) (simp add: entry_lt_regions assms(1))

lemma cache_ok_finite: "cache_ok L c \<Longrightarrow> finite (ids (c_entries c) P)"
  by (rule finite_subset [of _ "{..<c_next c}"]) (auto simp: cache_ok_def ids_def)

lemma cache_ok_distinct: "cache_ok L c \<Longrightarrow> distinct (inorder (c_tree c))"
proof -
  have "sorted_wrt (entry_lt c) xs \<Longrightarrow> distinct xs" for xs by (induction xs) (auto simp: entry_lt_irrefl)
  then show "cache_ok L c \<Longrightarrow> distinct (inorder (c_tree c))" by (simp add: cache_ok_def)
qed

lemma entry_lt_frame [simp]:
  "entry_lt (c\<lparr>c_next := x0\<rparr>) = entry_lt c"
  "entry_lt (c\<lparr>c_tree := x1\<rparr>) = entry_lt c"
  "entry_lt (c\<lparr>c_lru := x2\<rparr>) = entry_lt c"
  "entry_lt (c\<lparr>c_dead := x3\<rparr>) = entry_lt c"
  "entry_lt (c\<lparr>cached_cnt := x4\<rparr>) = entry_lt c"
  "entry_lt (c\<lparr>cached_size := x5\<rparr>) = entry_lt c"
  "entry_lt (c\<lparr>uncached_cnt := x6\<rparr>) = entry_lt c"
  "entry_lt (c\<lparr>uncached_size := x7\<rparr>) = entry_lt c"
  "entry_lt (c\<lparr>search_cnt := x8\<rparr>) = entry_lt c"
  "entry_lt (c\<lparr>delete_cnt := x9\<rparr>) = entry_lt c"
  "entry_lt (c\<lparr>hit_cnt := x10\<rparr>) = entry_lt c"
  "entry_lt (c\<lparr>notify_cnt := x11\<rparr>) = entry_lt c"
  by (simp_all add: fun_eq_iff entry_lt_def)

lemma entry_len_frame [simp]:
  "entry_len (c\<lparr>c_next := x0\<rparr>) = entry_len c"
  "entry_len (c\<lparr>c_tree := x1\<rparr>) = entry_len c"
  "entry_len (c\<lparr>c_lru := x2\<rparr>) = entry_len c"
  "entry_len (c\<lparr>c_dead := x3\<rparr>) = entry_len c"
  "entry_len (c\<lparr>cached_cnt := x4\<rparr>) = entry_len c"
  "entry_len (c\<lparr>cached_size := x5\<rparr>) = entry_len c"
  "entry_len (c\<lparr>uncached_cnt := x6\<rparr>) = entry_len c"
  "entry_len (c\<lparr>uncached_size := x7\<rparr>) = entry_len c"
  "entry_len (c\<lparr>search_cnt := x8\<rparr>) = entry_len c"
  "entry_len (c\<lparr>delete_cnt := x9\<rparr>) = entry_len c"
  "entry_len (c\<lparr>hit_cnt := x10\<rparr>) = entry_len c"
  "entry_len (c\<lparr>notify_cnt := x11\<rparr>) = entry_len c"
  by (simp_all add: fun_eq_iff entry_len_def)

lemma cache_ok_counters [simp]:
  "cache_ok L (c\<lparr>search_cnt := n\<rparr>) = cache_ok L c" "cache_ok L (c\<lparr>delete_cnt := n\<rparr>) = cache_ok L c"
  "cache_ok L (c\<lparr>hit_cnt := n\<rparr>) = cache_ok L c" "cache_ok L (c\<lparr>notify_cnt := n\<rparr>) = cache_ok L c"
  by (simp_all add: cache_ok_def)

section \<open>Moves\<close>

text \<open>What an operation does to one entry, and what becomes of the invariant.\<close>

lemma ok_unlink:
  assumes ok: "cache_ok L c" and e: "c_entries c i = Some e" and n: "me_node e"
    and c': "c' = (fst (util_mr_uncache_entry_storage env i c w))\<lparr>c_lru := removeAll i (c_lru c)\<rparr>"
  shows "cache_ok (insert i L) c'"
proof -
  let ?m = "(c_entries c)(i \<mapsto> e\<lparr>me_node := False\<rparr>)"
  have f: "c_tree c' = rb_delete_data (\<lambda>j. j = i) (c_tree c)" "c_entries c' = ?m" "c_lru c' = removeAll i (c_lru c)" "c_dead c' = c_dead c"
    "c_next c' = c_next c" "cached_cnt c' = cached_cnt c - 1" "cached_size c' = cached_size c - entry_len c i"
    "uncached_cnt c' = uncached_cnt c" "uncached_size c' = uncached_size c"
    using c' e by (simp_all add: util_mr_uncache_entry_storage_def)
  have reg: "regions c' j = regions c j" for j using e by (simp add: regions_def f)
  have it: "i \<in> ids (c_entries c) in_tree" "i \<notin> L" using e n ok by (auto simp: cache_ok_def ids_def in_tree_def)
  then have "\<exists>d \<in> set (inorder (c_tree c)). d = i" using ok by (simp add: cache_ok_def)
  from rb_delete_data_inorder [OF this] obtain xs ys where
    io: "inorder (c_tree c) = xs @ i # ys" "inorder (c_tree c') = xs @ ys" unfolding f by auto
  have srt: "sorted_wrt (entry_lt c) (xs @ ys)" using ok io(1) by (simp add: cache_ok_def sorted_wrt_append)
  have st: "set (xs @ ys) = ids (c_entries c) in_tree - {i}"
    using ok cache_ok_distinct [OF ok] io(1) by (auto simp: cache_ok_def)
  have id: "ids ?m in_tree = ids (c_entries c) in_tree - {i}" "ids ?m idle = ids (c_entries c) idle - {i}"
    "ids ?m dead - insert i L = ids (c_entries c) dead - L" "ids ?m held - insert i L = ids (c_entries c) held - L"
    "ids ?m (\<lambda>e. \<not> me_node e) = insert i (ids (c_entries c) (\<lambda>e. \<not> me_node e))"
    "ids ?m (\<lambda>e. me_use_cnt e < 0) = ids (c_entries c) (\<lambda>e. me_use_cnt e < 0)"
    "ids ?m (\<lambda>e. True) = ids (c_entries c) (\<lambda>e. True)"
    using e n by (auto simp: ids_def in_tree_def idle_def dead_def held_def)
  note fin = cache_ok_finite [OF ok, of in_tree]
  have "card (ids (c_entries c) in_tree) = Suc (card (ids (c_entries c) in_tree - {i}))" using card.remove [OF fin it(1)] .
  moreover have "sum (entry_len c) (ids (c_entries c) in_tree) = entry_len c i + sum (entry_len c) (ids (c_entries c) in_tree - {i})"
    using sum.remove [OF fin it(1)] .
  moreover have "sorted_wrt (entry_lt c') (xs @ ys)" by (rule sorted_same [OF reg srt])
  moreover have "red_black (c_tree c')" using ok unfolding f by (simp add: cache_ok_def delete_data_red_black)
  ultimately show ?thesis using ok st io(2) it
    unfolding cache_ok_def f id regions_same [of _ c' c, OF reg] by (auto simp: f(1) distinct_removeAll)
qed

lemma ok_to_dead:
  assumes ok: "cache_ok L c" and "c_entries c i = Some e" "i \<in> L" "me_use_cnt e = 0"
  shows "cache_ok (L - {i}) (c\<lparr>c_dead := c_dead c @ [i]\<rparr>)"
proof -
  have e: "\<not> me_node e" using assms by (auto simp: cache_ok_def ids_def)
  then have "ids (c_entries c) dead - (L - {i}) = insert i (ids (c_entries c) dead - L)"
    "ids (c_entries c) held - (L - {i}) = ids (c_entries c) held - L"
    using assms(2-4) by (auto simp: ids_def dead_def held_def)
  then show ?thesis using ok assms(3) by (auto simp: cache_ok_def)
qed

lemma ok_to_held:
  assumes ok: "cache_ok L c" and "c_entries c i = Some e" "i \<in> L" "me_use_cnt e > 0"
  shows "cache_ok (L - {i}) (c\<lparr>uncached_cnt := uncached_cnt c + 1, uncached_size := uncached_size c + entry_len c i\<rparr>)"
proof -
  have e: "\<not> me_node e" using assms by (auto simp: cache_ok_def ids_def)
  then have d: "ids (c_entries c) dead - (L - {i}) = ids (c_entries c) dead - L"
    "ids (c_entries c) held - (L - {i}) = insert i (ids (c_entries c) held - L)" "i \<notin> ids (c_entries c) held - L"
    using assms(2-4) by (auto simp: ids_def dead_def held_def)
  have "finite (ids (c_entries c) held - L)" using cache_ok_finite [OF ok] by simp
  then show ?thesis using ok d by (auto simp: cache_ok_def)
qed

lemma ok_freed:
  assumes ok: "cache_ok L c" and i: "i \<in> L"
  shows "cache_ok (L - {i}) (c\<lparr>c_entries := (c_entries c)(i := None)\<rparr>)"
proof -
  let ?c = "c\<lparr>c_entries := (c_entries c)(i := None)\<rparr>"
  have n: "i \<notin> ids (c_entries c) in_tree" "i \<notin> ids (c_entries c) idle" "L \<subseteq> ids (c_entries c) (\<lambda>e. \<not> me_node e)"
    using ok i by (auto simp: cache_ok_def ids_def in_tree_def idle_def)
  have reg: "j \<noteq> i \<Longrightarrow> regions ?c j = regions c j" for j by (simp add: regions_def)
  have "sum (entry_len ?c) A = sum (entry_len c) A" if "i \<notin> A" for A using that by (intro regions_same reg) auto
  moreover have "sorted_wrt (entry_lt ?c) (inorder (c_tree c))"
    using ok n(1) by (intro sorted_same [OF reg]) (auto simp: cache_ok_def)
  moreover have "ids (c_entries ?c) in_tree = ids (c_entries c) in_tree" "ids (c_entries ?c) idle = ids (c_entries c) idle"
    "ids (c_entries ?c) held - (L - {i}) = ids (c_entries c) held - L" "ids (c_entries ?c) dead - (L - {i}) = ids (c_entries c) dead - L"
    using n i by (auto simp: ids_del)
  moreover have "L - {i} \<subseteq> ids (c_entries ?c) (\<lambda>e. \<not> me_node e)" using n(3) by (auto simp: ids_del)
  moreover have "ids (c_entries ?c) (\<lambda>e. True) \<subseteq> {..<c_next c}" "ids (c_entries ?c) (\<lambda>e. me_use_cnt e < 0) = {}"
    using ok by (auto simp: cache_ok_def ids_def)
  ultimately show ?thesis using ok n(1) i unfolding cache_ok_def by simp
qed

lemma ok_fresh:
  assumes ok: "cache_ok L c" and "\<not> me_node e" "me_use_cnt e \<ge> 0"
  shows "cache_ok (insert (c_next c) L) (c\<lparr>c_next := c_next c + 1, c_entries := (c_entries c)(c_next c \<mapsto> e)\<rparr>)"
proof -
  let ?i = "c_next c"
  let ?c = "c\<lparr>c_next := ?i + 1, c_entries := (c_entries c)(?i \<mapsto> e)\<rparr>"
  have n: "?i \<notin> ids (c_entries c) P" for P using ok by (auto simp: cache_ok_def ids_def)
  then have nL: "?i \<notin> L" using ok by (auto simp: cache_ok_def)
  have reg: "j \<noteq> ?i \<Longrightarrow> regions ?c j = regions c j" for j by (simp add: regions_def)
  have "sum (entry_len ?c) A = sum (entry_len c) A" if "?i \<notin> A" for A using that by (intro regions_same reg) auto
  moreover have "sorted_wrt (entry_lt ?c) (inorder (c_tree c))"
    using ok n [of in_tree] by (intro sorted_same [OF reg]) (auto simp: cache_ok_def)
  moreover have "insert ?i (ids (c_entries c) held) - insert ?i L = ids (c_entries c) held - L"
    "insert ?i (ids (c_entries c) dead) - insert ?i L = ids (c_entries c) dead - L"
    "ids (c_entries c) held - insert ?i L = ids (c_entries c) held - L"
    "ids (c_entries c) dead - insert ?i L = ids (c_entries c) dead - L" using n [of held] n [of dead] by auto
  ultimately show ?thesis using ok n assms(2,3)
    by (auto simp: cache_ok_def ids_upd in_tree_def idle_def)
qed

lemma ok_take_dead: "cache_ok L c \<Longrightarrow> cache_ok (L \<union> set (c_dead c)) (c\<lparr>c_dead := []\<rparr>)"
proof -
  assume ok: "cache_ok L c"
  then have "ids (c_entries c) held - (L \<union> set (c_dead c)) = ids (c_entries c) held - L"
    by (auto simp: cache_ok_def ids_def held_def dead_def)
  with ok show ?thesis by (auto simp: cache_ok_def ids_def dead_def)
qed

lemma within_sides:
  "util_mr_find_within k a > 0 \<Longrightarrow> info_lt a k" "util_mr_find_within k a < 0 \<Longrightarrow> info_lt k a"
  by (auto simp: util_mr_find_within_def info_lt_def shifted_sym split: if_splits)

lemma ok_into_tree:
  assumes ok: "cache_ok L c" and e: "c_entries c i = Some e" and i: "i \<in> L" and u: "me_use_cnt e > 0"
    and ins: "ofi_rbmap_insert (entry_cmp util_mr_find_within c (me_info e)) i (c_tree c) = (0, t)"
    and c': "c' = entry_upd i (\<lambda>e. e\<lparr>me_node := True\<rparr>)
      (c\<lparr>c_tree := t, cached_cnt := cached_cnt c + 1, cached_size := cached_size c + entry_len c i\<rparr>)"
  shows "cache_ok (L - {i}) c'"
proof -
  let ?m = "(c_entries c)(i \<mapsto> e\<lparr>me_node := True\<rparr>)"
  have f: "c_tree c' = t" "c_entries c' = ?m" "c_lru c' = c_lru c" "c_dead c' = c_dead c" "c_next c' = c_next c"
    "cached_cnt c' = cached_cnt c + 1" "cached_size c' = cached_size c + entry_len c i"
    "uncached_cnt c' = uncached_cnt c" "uncached_size c' = uncached_size c"
    using c' e by (simp_all add: entry_upd_def)
  have reg: "regions c' j = regions c j" for j using e by (simp add: regions_def f)
  have n: "\<not> me_node e" "i \<notin> ids (c_entries c) in_tree" using ok e i by (auto simp: cache_ok_def ids_def in_tree_def)
  have st: "set (inorder (c_tree c)) = ids (c_entries c) in_tree" using ok by (simp add: cache_ok_def)
  have "entry_lt c x i" if "x \<in> set (inorder (c_tree c))" "entry_cmp util_mr_find_within c (me_info e) x > 0" for x
    using that e unfolding st by (auto simp: entry_lt_Some ids_def entry_cmp_def within_sides)
  moreover have "entry_lt c i x" if "x \<in> set (inorder (c_tree c))" "entry_cmp util_mr_find_within c (me_info e) x < 0" for x
    using that e unfolding st by (auto simp: entry_lt_Some ids_def entry_cmp_def within_sides)
  moreover have "sorted_wrt (entry_lt c) (inorder (c_tree c))" using ok by (simp add: cache_ok_def)
  ultimately obtain xs ys where srt: "sorted_wrt (entry_lt c) (inorder t)" and io: "inorder (c_tree c) = xs @ ys" "inorder t = xs @ i # ys"
    using by_within.insert_sorted [OF _ ins] by blast
  have id: "ids ?m in_tree = insert i (ids (c_entries c) in_tree)" "ids ?m idle = ids (c_entries c) idle"
    "ids ?m dead - (L - {i}) = ids (c_entries c) dead - L" "ids ?m held - (L - {i}) = ids (c_entries c) held - L"
    "ids ?m (\<lambda>e. \<not> me_node e) = ids (c_entries c) (\<lambda>e. \<not> me_node e) - {i}"
    "ids ?m (\<lambda>e. me_use_cnt e < 0) = ids (c_entries c) (\<lambda>e. me_use_cnt e < 0)"
    "ids ?m (\<lambda>e. True) = ids (c_entries c) (\<lambda>e. True)"
    using e n(1) i u by (auto simp: ids_def in_tree_def idle_def dead_def held_def)
  note fin = cache_ok_finite [OF ok, of in_tree]
  have "red_black t" using insert_red_black [of "c_tree c"] ok ins by (metis cache_ok_def snd_conv)
  moreover have "sorted_wrt (entry_lt c') (inorder t)" by (rule sorted_same [OF reg srt])
  moreover have "set (inorder t) = insert i (ids (c_entries c) in_tree)" using st io by auto
  ultimately show ?thesis using ok n(2) fin
    unfolding cache_ok_def f id regions_same [of _ c' c, OF reg] by auto
qed

text \<open>A change of the use count alone.\<close>

lemma ok_use_cnt:
  assumes ok: "cache_ok L c" and e: "c_entries c i = Some e" and u: "u \<ge> 0" and n: "me_node e \<or> u > 0 \<and> me_use_cnt e > 0"
    and c': "c' = (entry_upd i (\<lambda>e. e\<lparr>me_use_cnt := u\<rparr>) c)\<lparr>c_lru := l\<rparr>"
    and l: "distinct l" "set l = (if me_node e \<and> u = 0 then insert i (set (c_lru c)) else set (c_lru c) - {i})"
  shows "cache_ok L c'"
proof -
  let ?m = "(c_entries c)(i \<mapsto> e\<lparr>me_use_cnt := u\<rparr>)"
  have f: "c_tree c' = c_tree c" "c_entries c' = ?m" "c_lru c' = l" "c_dead c' = c_dead c" "c_next c' = c_next c"
    "cached_cnt c' = cached_cnt c" "cached_size c' = cached_size c" "uncached_cnt c' = uncached_cnt c" "uncached_size c' = uncached_size c"
    using c' e by (simp_all add: entry_upd_def)
  have reg: "regions c' j = regions c j" for j using e by (simp add: regions_def f)
  have id: "ids ?m in_tree = ids (c_entries c) in_tree" "ids ?m dead = ids (c_entries c) dead" "ids ?m held = ids (c_entries c) held"
    "ids ?m (\<lambda>e. \<not> me_node e) = ids (c_entries c) (\<lambda>e. \<not> me_node e)" "ids ?m (\<lambda>e. True) = ids (c_entries c) (\<lambda>e. True)"
    using e n by (auto simp: ids_def in_tree_def dead_def held_def)
  have "ids ?m idle = set l" using ok l(2) e by (auto simp: cache_ok_def ids_upd idle_def)
  moreover have "ids ?m (\<lambda>e. me_use_cnt e < 0) = {}" using ok u by (auto simp: cache_ok_def ids_upd)
  moreover have "sorted_wrt (entry_lt c') (inorder (c_tree c))" using ok by (intro sorted_same [OF reg]) (simp add: cache_ok_def)
  ultimately show ?thesis using ok l(1) unfolding cache_ok_def f id regions_same [of _ c' c, OF reg] by auto
qed

section \<open>Operations\<close>

text \<open>Every registration somebody holds is still there, with its region and its data.\<close>

definition held_kept :: "'d mr_cache \<Rightarrow> 'd mr_cache \<Rightarrow> bool" where
  "held_kept c c' \<longleftrightarrow>
     (\<forall>i e. c_entries c i = Some e \<longrightarrow> me_use_cnt e > 0 \<longrightarrow>
        (\<exists>e'. c_entries c' i = Some e' \<and> me_info e' = me_info e \<and> me_data e' = me_data e \<and> me_use_cnt e' \<ge> me_use_cnt e))"

lemma held_kept_refl [simp]: "held_kept c c"
  by (simp add: held_kept_def)

lemma held_kept_trans: "held_kept a b \<Longrightarrow> held_kept b c \<Longrightarrow> held_kept a c"
  unfolding held_kept_def by (fastforce intro: order_trans)

lemma held_kept_same: "c_entries c' = c_entries c \<Longrightarrow> held_kept c c'"
  by (auto simp: held_kept_def)

lemma held_kept_frame: "held_kept c d \<Longrightarrow> c_entries c' = c_entries d \<Longrightarrow> held_kept c c'"
  by (simp add: held_kept_def)

lemma storage_entries:
  "c_entries c i = Some e \<Longrightarrow> c_entries (fst (util_mr_uncache_entry_storage env i c w)) = (c_entries c)(i \<mapsto> e\<lparr>me_node := False\<rparr>)"
  by (simp add: util_mr_uncache_entry_storage_def)

lemma ok_uncache:
  assumes ok: "cache_ok L c" and e: "c_entries c i = Some e" and n: "me_node e"
    and r: "util_mr_uncache_entry env i c w = (c', w')"
  shows "cache_ok L c' \<and> held_kept c c' \<and> c_tree c' = rb_delete_data (\<lambda>j. j = i) (c_tree c) \<and> regions c' = regions c"
proof -
  obtain c1 w1 where s: "util_mr_uncache_entry_storage env i c w = (c1, w1)" by fastforce
  have iL: "i \<notin> L" using ok e n by (auto simp: cache_ok_def ids_def)
  have ent: "c_entries c1 = (c_entries c)(i \<mapsto> e\<lparr>me_node := False\<rparr>)" "c_lru c1 = c_lru c" "c_tree c1 = rb_delete_data (\<lambda>j. j = i) (c_tree c)"
    using s e by (auto simp: util_mr_uncache_entry_storage_def)
  have e1: "c_entries (c1\<lparr>c_lru := removeAll i (c_lru c)\<rparr>) i = Some (e\<lparr>me_node := False\<rparr>)" by (simp add: ent)
  have ok1: "cache_ok (insert i L) (c1\<lparr>c_lru := removeAll i (c_lru c)\<rparr>)" by (rule ok_unlink [OF ok e n, where env = env and w = w]) (simp add: s)
  have kept: "held_kept c c1" using e by (auto simp: held_kept_def ent)
  have reg: "regions c1 = regions c" using e by (auto simp: regions_def ent fun_eq_iff)
  have L: "insert i L - {i} = L" using iL by auto
  show ?thesis
  proof (cases "me_use_cnt e = 0")
    case True
    then have c': "c' = c1\<lparr>c_lru := removeAll i (c_lru c), c_dead := c_dead c1 @ [i]\<rparr>"
      using r s e by (simp add: util_mr_uncache_entry_def ent)
    show ?thesis using ok_to_dead [OF ok1 e1] True held_kept_frame [OF kept] reg
      by (simp add: c' L ent regions_def fun_eq_iff)
  next
    case False
    have "me_use_cnt e \<ge> 0" using ok e by (auto simp: cache_ok_def ids_def not_less)
    with False have u: "me_use_cnt (e\<lparr>me_node := False\<rparr>) > 0" by simp
    have "i \<notin> set (c_lru c)" using ok e False by (auto simp: cache_ok_def ids_def idle_def)
    then have c': "c' = c1\<lparr>c_lru := removeAll i (c_lru c), uncached_cnt := uncached_cnt c1 + 1, uncached_size := uncached_size c1 + entry_len c i\<rparr>"
      using r s e False by (simp add: util_mr_uncache_entry_def ent [symmetric])
    have "entry_len c i = entry_len c1 i" using reg by (simp add: entry_len_regions)
    then show ?thesis using ok_to_held [OF ok1 e1 _ u] held_kept_frame [OF kept] reg
      by (simp add: c' L ent regions_def fun_eq_iff)
  qed
qed

lemma ok_purge:
  assumes "cache_ok L c" and "length (inorder (c_tree c)) \<le> n"
    and srch: "\<And>c i. srch c = Some i \<Longrightarrow> i \<in> set (inorder (c_tree c))"
    and "purge_loop srch n env c w = (c', w')"
  shows "cache_ok L c' \<and> held_kept c c' \<and> srch c' = None \<and> regions c' = regions c"
  using assms(1,2,4)
proof (induction n arbitrary: c w)
  case 0
  then show ?case using srch [of c] by (cases "srch c") auto
next
  case (Suc n)
  show ?case
  proof (cases "srch c")
    case None
    then show ?thesis using Suc.prems by simp
  next
    case (Some i)
    then have it: "i \<in> ids (c_entries c) in_tree" using srch [OF Some] Suc.prems(1) by (simp add: cache_ok_def)
    then obtain e where e: "c_entries c i = Some e" "me_node e" by (auto simp: ids_def in_tree_def)
    obtain c1 w1 where u: "util_mr_uncache_entry env i c w = (c1, w1)" by fastforce
    note step = ok_uncache [OF Suc.prems(1) e u]
    have "\<exists>d \<in> set (inorder (c_tree c)). d = i" using srch [OF Some] by simp
    from rb_delete_data_inorder [OF this] step have "length (inorder (c_tree c1)) \<le> n" using Suc.prems(2) by auto
    with Suc.IH [of c1 w1] step Suc.prems(3) Some u have "cache_ok L c' \<and> held_kept c1 c' \<and> srch c' = None \<and> regions c' = regions c1" by simp
    with step show ?thesis by (auto intro: held_kept_trans)
  qed
qed

lemma ok_free_entry:
  assumes ok: "cache_ok L c" and i: "i \<in> L" and r: "util_mr_free_entry env i c w = (c', w')"
  shows "cache_ok (L - {i}) c' \<and> c_entries c' = (c_entries c)(i := None) \<and> c' = c\<lparr>c_entries := c_entries c'\<rparr>"
proof -
  from ok i obtain e where e: "c_entries c i = Some e" by (auto simp: cache_ok_def ids_def)
  then have "c' = c\<lparr>c_entries := (c_entries c)(i := None)\<rparr>" using r by (simp add: util_mr_free_entry_def)
  then show ?thesis using ok_freed [OF ok i] by simp
qed

lemma ok_free_list:
  assumes "cache_ok (set fl) c" and "distinct fl" and "\<And>i e. i \<in> set fl \<Longrightarrow> c_entries c i = Some e \<Longrightarrow> me_use_cnt e = 0"
    and "free_list_loop env fl c w = (c', w')"
  shows "cache_ok {} c' \<and> held_kept c c' \<and> c_lru c' = c_lru c \<and> c_dead c' = c_dead c"
  using assms
proof (induction fl arbitrary: c w)
  case Nil
  then show ?case by simp
next
  case (Cons i fl)
  obtain c1 w1 where f: "util_mr_free_entry env i c w = (c1, w1)" by fastforce
  from ok_free_entry [OF Cons.prems(1) _ f] Cons.prems(2) have
    ok1: "cache_ok (set fl) c1" and ent: "c_entries c1 = (c_entries c)(i := None)" and fr: "c1 = c\<lparr>c_entries := c_entries c1\<rparr>" by auto
  have "c_lru c1 = c_lru c" "c_dead c1 = c_dead c" by (subst fr, simp)+
  moreover have "held_kept c c1" using Cons.prems(3) [of i] by (auto simp: held_kept_def ent)
  moreover have z: "me_use_cnt e = 0" if "j \<in> set fl" "c_entries c1 j = Some e" for j e
    using that Cons.prems(3) [of j e] by (auto simp: ent split: if_splits)
  moreover have d: "distinct fl" and run: "free_list_loop env fl c1 w1 = (c', w')" using Cons.prems(2,4) f by auto
  moreover note Cons.IH [OF ok1 d z run]
  ultimately show ?case by (auto intro: held_kept_trans)
qed

lemma ok_flush_lru:
  assumes "cache_ok (set fl) c" and "distinct fl" and "\<And>i e. i \<in> set fl \<Longrightarrow> c_entries c i = Some e \<Longrightarrow> me_use_cnt e = 0"
    and "c_lru c = l" and "flush_lru_loop env b l fl c w = (fl', c', w')"
  shows "cache_ok (set fl') c' \<and> distinct fl' \<and> (\<forall>i e. i \<in> set fl' \<longrightarrow> c_entries c' i = Some e \<longrightarrow> me_use_cnt e = 0) \<and>
    held_kept c c' \<and> c_dead c' = c_dead c"
  using assms
proof (induction l arbitrary: b fl c w)
  case Nil
  then have "fl' = fl" "c' = c\<lparr>c_lru := []\<rparr>" "c\<lparr>c_lru := []\<rparr> = c" by auto
  with Nil show ?case by auto
next
  case (Cons i l)
  show ?case
  proof (cases b)
    case False
    then have "fl' = fl" "c' = c\<lparr>c_lru := i # l\<rparr>" "c\<lparr>c_lru := i # l\<rparr> = c" using Cons.prems(4,5) by auto
    with Cons.prems show ?thesis by auto
  next
    case True
    obtain c1 w1 where s: "util_mr_uncache_entry_storage env i (c\<lparr>c_lru := l\<rparr>) w = (c1, w1)" by fastforce
    have il: "i \<in> ids (c_entries c) idle" "i \<notin> set l" "removeAll i (c_lru c) = l"
      using Cons.prems(1,4) by (auto simp: cache_ok_def)
    then obtain e where e: "c_entries c i = Some e" "me_node e" "me_use_cnt e = 0" by (auto simp: ids_def idle_def)
    have c1: "c1 = (fst (util_mr_uncache_entry_storage env i c w))\<lparr>c_lru := removeAll i (c_lru c)\<rparr>"
      using s e il(3) by (auto simp: util_mr_uncache_entry_storage_def entry_len_def)
    have ok1: "cache_ok (set (fl @ [i])) c1" using ok_unlink [OF Cons.prems(1) e(1,2) c1] by simp
    have ent: "c_entries c1 = (c_entries c)(i \<mapsto> e\<lparr>me_node := False\<rparr>)" "c_lru c1 = l" "c_dead c1 = c_dead c"
      using s e by (auto simp: util_mr_uncache_entry_storage_def)
    have "i \<notin> set fl" using Cons.prems(1) e(1,2) by (auto simp: cache_ok_def ids_def)
    then have d: "distinct (fl @ [i])" using Cons.prems(2) by simp
    have z: "me_use_cnt e' = 0" if "j \<in> set (fl @ [i])" "c_entries c1 j = Some e'" for j e'
      using that Cons.prems(3) e by (auto simp: ent split: if_splits)
    have run: "flush_lru_loop env (ofi_mr_cache_full c1) l (fl @ [i]) c1 w1 = (fl', c', w')" using Cons.prems(5) True s by simp
    have "held_kept c c1" using e by (auto simp: held_kept_def ent)
    with Cons.IH [OF ok1 d z ent(2) run] show ?thesis by (auto simp: ent(3) intro: held_kept_trans)
  qed
qed

lemma ok_flush:
  assumes ok: "cache_ok {} c" and r: "ofi_mr_cache_flush env b c w = (freed, c', w')"
  shows "cache_ok {} c' \<and> held_kept c c' \<and> c_dead c' = []"
proof -
  obtain fl c1 w1 where l: "flush_lru_loop env b (c_lru c) (c_dead c) (c\<lparr>c_dead := []\<rparr>) w = (fl, c1, w1)" by (metis prod_cases3)
  obtain c2 w2 where f: "free_list_loop env fl c1 w1 = (c2, w2)" by fastforce
  have c': "c' = c2" using r l f by (simp add: ofi_mr_cache_flush_def)
  have "cache_ok (set (c_dead c)) (c\<lparr>c_dead := []\<rparr>)" using ok_take_dead [OF ok] by simp
  moreover have "distinct (c_dead c)" using ok by (simp add: cache_ok_def)
  moreover have "me_use_cnt e = 0" if "i \<in> set (c_dead c)" "c_entries (c\<lparr>c_dead := []\<rparr>) i = Some e" for i e
    using ok that by (auto simp: cache_ok_def ids_def dead_def)
  ultimately have one: "cache_ok (set fl) c1" "distinct fl" "\<forall>i e. i \<in> set fl \<longrightarrow> c_entries c1 i = Some e \<longrightarrow> me_use_cnt e = 0"
    "held_kept (c\<lparr>c_dead := []\<rparr>) c1" "c_dead c1 = []"
    using ok_flush_lru [OF _ _ _ _ l] by auto
  have "held_kept c c1" using one(4) by (simp add: held_kept_def)
  with ok_free_list [OF one(1,2) _ f] one show ?thesis by (auto simp: c' intro: held_kept_trans)
qed

lemma ok_unlink_held:
  assumes ok: "cache_ok L c" and e: "c_entries c i = Some e" "me_node e" "me_use_cnt e > 0"
    and r: "util_mr_uncache_entry_storage env i c w = (c', w')"
  shows "cache_ok L (c'\<lparr>uncached_cnt := uncached_cnt c' + 1, uncached_size := uncached_size c' + entry_len c' i\<rparr>)"
proof -
  have "i \<notin> set (c_lru c)" "i \<notin> L" using ok e by (auto simp: cache_ok_def ids_def idle_def)
  then have c': "c' = (fst (util_mr_uncache_entry_storage env i c w))\<lparr>c_lru := removeAll i (c_lru c)\<rparr>"
    using r e by (auto simp: util_mr_uncache_entry_storage_def)
  have ent: "c_entries c' i = Some (e\<lparr>me_node := False\<rparr>)" using r e by (auto simp: util_mr_uncache_entry_storage_def)
  have "insert i L - {i} = L" using \<open>i \<notin> L\<close> by auto
  then show ?thesis using ok_to_held [OF ok_unlink [OF ok e(1,2) c'] ent] e(3) by simp
qed

lemma ok_create_insert:
  assumes ok: "cache_ok {i} c" and e: "c_entries c i = Some e" and u: "me_use_cnt e = 1"
    and r: "create_insert env i (me_info e) c w = (ret, c', w')"
  shows "(if ret = 0 then cache_ok {} c' else c' = c) \<and> (\<exists>b. c_entries c' = (c_entries c)(i \<mapsto> e\<lparr>me_node := b\<rparr>))"
proof -
  have n: "\<not> me_node e" using ok e by (auto simp: cache_ok_def ids_def)
  then have en: "e\<lparr>me_node := False\<rparr> = e" by (cases e) simp
  have same: "\<exists>b. c_entries c = (c_entries c)(i \<mapsto> e\<lparr>me_node := b\<rparr>)" using e en by (intro exI [of _ False]) (simp add: fun_upd_idem)
  consider (found) "ofi_mr_rbt_find c (me_info e) \<noteq> None"
    | (full) "ofi_mr_rbt_find c (me_info e) = None" "ofi_mr_cache_full c"
    | (room) "ofi_mr_rbt_find c (me_info e) = None" "\<not> ofi_mr_cache_full c" by auto
  then show ?thesis
  proof cases
    case found
    then show ?thesis using r same by (auto simp: create_insert_def)
  next
    case full
    then have "ret = 0" "c' = c\<lparr>uncached_cnt := uncached_cnt c + 1, uncached_size := uncached_size c + entry_len c i\<rparr>"
      using r by (auto simp: create_insert_def)
    then show ?thesis using ok_to_held [OF ok e] u same by simp
  next
    case room
    obtain t where ins: "ofi_rbmap_insert (entry_cmp util_mr_find_within c (me_info e)) i (c_tree c) = (0, t)"
      using ofi_rbmap_insert_ret [of "entry_cmp util_mr_find_within c (me_info e)" i "c_tree c"] room(1)
      by (cases "ofi_rbmap_insert (entry_cmp util_mr_find_within c (me_info e)) i (c_tree c)") (simp add: ofi_mr_rbt_find_def)
    define c1 where "c1 = entry_upd i (\<lambda>e. e\<lparr>me_node := True\<rparr>)
      (c\<lparr>c_tree := t, cached_cnt := cached_cnt c + 1, cached_size := cached_size c + entry_len c i\<rparr>)"
    have ok1: "cache_ok {} c1" using ok_into_tree [OF ok e _ _ ins c1_def] u by simp
    have e1: "c_entries c1 = (c_entries c)(i \<mapsto> e\<lparr>me_node := True\<rparr>)" using e by (simp add: c1_def entry_upd_def)
    obtain sret w1 where s: "ce_subscribe env (mi_iov (me_info e)) w = (sret, w1)" by fastforce
    obtain c2 w2 where un: "util_mr_uncache_entry_storage env i c1 w1 = (c2, w2)" by fastforce
    have run: "ret = 0" "c' = (if sret = 0 then c1 else c2\<lparr>uncached_cnt := uncached_cnt c2 + 1, uncached_size := uncached_size c2 + entry_len c2 i\<rparr>)"
      using r room ins s un unfolding create_insert_def by (auto simp: c1_def [symmetric] Let_def split: if_splits)
    have e1i: "c_entries c1 i = Some (e\<lparr>me_node := True\<rparr>)" by (simp add: e1)
    have "c_entries c2 = (c_entries c)(i \<mapsto> e\<lparr>me_node := False\<rparr>)" using un by (auto simp: util_mr_uncache_entry_storage_def e1)
    then show ?thesis using run ok1 ok_unlink_held [OF ok1 e1i _ _ un] u e1 by auto
  qed
qed

lemma ok_create:
  assumes ok: "cache_ok {} c" and r: "util_mr_cache_create env info c w = (ret, i, info', c', w')"
  shows "cache_ok {} c' \<and> held_kept c c' \<and>
    (ret = 0 \<longrightarrow> (\<exists>e. c_entries c' i = Some e \<and> me_use_cnt e = 1 \<and> me_info e = info'))"
proof -
  obtain d w1 where a: "ce_entry_alloc env w = (d, w1)" by fastforce
  show ?thesis
  proof (cases d)
    case None
    then show ?thesis using r a ok by (auto simp: util_mr_cache_create_def)
  next
    case (Some d0)
    obtain ret1 info1 d1 w2 where ad: "ce_add_region env info d0 w1 = (ret1, info1, d1, w2)" by (metis prod_cases4)
    define e where "e = \<lparr>me_info = info1, me_node = False, me_use_cnt = 1, me_data = d1\<rparr>"
    define c1 where "c1 = c\<lparr>c_next := c_next c + 1, c_entries := (c_entries c)(c_next c \<mapsto> e)\<rparr>"
    have ok1: "cache_ok {c_next c} c1" using ok_fresh [OF ok, of e] by (simp add: c1_def e_def)
    have e1: "c_entries c1 (c_next c) = Some e" "c_entries c1 = (c_entries c)(c_next c \<mapsto> e)" by (simp_all add: c1_def)
    have fresh: "c_entries c (c_next c) = None" using ok by (cases "c_entries c (c_next c)") (auto simp: cache_ok_def ids_def)
    have freed: "cache_ok {} c2 \<and> held_kept c c2" if "util_mr_free_entry env (c_next c) c1 v = (c2, v')" for v c2 v'
      using ok_free_entry [OF ok1 _ that] fresh by (auto simp: e1 held_kept_def)
    obtain b w3 where nd: "ce_node_alloc env w2 = (b, w3)" by fastforce
    obtain r2 c2 w4 where ci: "create_insert env (c_next c) info1 c1 w3 = (r2, c2, w4)" by (metis prod_cases3)
    have ci': "create_insert env (c_next c) (me_info e) c1 w3 = (r2, c2, w4)" using ci by (simp add: e_def)
    note ins = ok_create_insert [OF ok1 e1(1) _ ci']
    have run: "util_mr_cache_create env info c w =
        (if ret1 \<noteq> 0 then (case util_mr_free_entry env (c_next c) c1 w2 of (c2, w3) \<Rightarrow> (ret1, c_next c, info, c2, w3))
         else if \<not> b then (case util_mr_free_entry env (c_next c) c1 w3 of (c2, w4) \<Rightarrow> (- FI_ENOMEM, c_next c, info1, c2, w4))
         else if r2 \<noteq> 0 then (case util_mr_free_entry env (c_next c) c2 w4 of (c3, w5) \<Rightarrow> (r2, c_next c, info1, c3, w5))
         else (0, c_next c, info1, c2, w4))"
      using ci by (simp add: util_mr_cache_create_def a Some ad nd Let_def c1_def e_def split: bool.split)
    show ?thesis
    proof (cases "ret1 = 0 \<and> b \<and> r2 = 0")
      case True
      then have "i = c_next c" "info' = info1" "c' = c2" using r run by simp_all
      moreover have "cache_ok {} c2 \<and> (\<exists>b. c_entries c2 = (c_entries c1)(c_next c \<mapsto> e\<lparr>me_node := b\<rparr>))" using ins True by (simp add: e_def)
      ultimately show ?thesis using fresh by (auto simp: e1(2) held_kept_def e_def)
    next
      case False
      have "r2 \<noteq> 0 \<Longrightarrow> c2 = c1" using ins by (simp add: e_def)
      then have "ret \<noteq> 0 \<and> (\<exists>v v'. util_mr_free_entry env (c_next c) c1 v = (c', v'))"
        using r False unfolding run by (auto split: if_splits prod.splits)
      then show ?thesis using freed by auto
    qed
  qed
qed

end
