(* ===== verification/Ofi_Mr_Cache_Run.thy ===== *)
theory Ofi_Mr_Cache_Run
  imports Ofi_Mr_Cache_Inv
begin

text \<open>
  The registration cache in use: the invariant holds after every history of lookups, releases,
  notifications and flushes; a lookup hands out a registration that covers the region asked for;
  a notification leaves no stale region behind; a registration somebody holds is never taken
  from under them.
\<close>

section \<open>Definitions\<close>

text \<open>One call on the cache.  A client releases only what it holds.\<close>

inductive cache_step :: "('w, 'd) cache_env \<Rightarrow> 'd mr_cache \<Rightarrow> 'd mr_cache \<Rightarrow> bool" where
  step_search: "ofi_mr_cache_search env info c w = Some (ret, i, c', w') \<Longrightarrow> cache_step env c c'"
| step_delete: "c_entries c i = Some e \<Longrightarrow> me_use_cnt e > 0 \<Longrightarrow> ofi_mr_cache_delete env i c w = (c', w') \<Longrightarrow> cache_step env c c'"
| step_notify: "ofi_mr_cache_notify env a len c w = (c', w') \<Longrightarrow> cache_step env c c'"
| step_flush: "ofi_mr_cache_flush env b c w = (freed, c', w') \<Longrightarrow> cache_step env c c'"

inductive cache_reach :: "('w, 'd) cache_env \<Rightarrow> 'd mr_cache \<Rightarrow> bool" where
  reach_init: "ofi_mr_cache_init max_cnt max_size = Inr c \<Longrightarrow> cache_reach env c"
| reach_step: "cache_reach env c \<Longrightarrow> cache_step env c c' \<Longrightarrow> cache_reach env c'"

text \<open>A provider that registers without fail, and an empty cache.\<close>

definition sample_env :: "(nat, nat) cache_env" where
  "sample_env = \<lparr>ce_entry_alloc = (\<lambda>w. (Some 0, w)), ce_node_alloc = (\<lambda>w. (True, w)),
     ce_add_region = (\<lambda>info d w. (0, info, w, w + 1)), ce_delete_region = (\<lambda>d w. w), ce_valid = (\<lambda>a b w. True),
     ce_subscribe = (\<lambda>v w. (0, w)), ce_unsubscribe = (\<lambda>v w. w)\<rparr>"

definition empty_cache :: "nat mr_cache" where
  "empty_cache = \<lparr>c_entries = (\<lambda>_. None), c_next = 0, c_tree = Sentinel, c_lru = [], c_dead = [],
     cached_cnt = 0, cached_size = 0, cached_max_cnt = 4, cached_max_size = 65536,
     uncached_cnt = 0, uncached_size = 0, search_cnt = 0, delete_cnt = 0, hit_cnt = 0, notify_cnt = 0\<rparr>"

definition sample_info :: mr_info where
  "sample_info = \<lparr>mi_iov = iov 4096 8192, mi_peer_id = 0\<rparr>"

definition one_cached :: "nat mr_cache" where
  "one_cached = empty_cache\<lparr>c_entries := [0 \<mapsto> \<lparr>me_info = sample_info, me_node = True, me_use_cnt = 1, me_data = 3\<rparr>],
     c_next := 1, c_tree := Rbnode BLACK Sentinel 0 Sentinel, cached_cnt := 1, cached_size := 8192, search_cnt := 1\<rparr>"

section \<open>Release and notification\<close>

lemma ok_release_held:
  assumes ok: "cache_ok {} c" and e: "c_entries c i = Some e" "\<not> me_node e" "me_use_cnt e = 1"
    and c': "c' = (entry_upd i (\<lambda>e. e\<lparr>me_use_cnt := 0\<rparr>) c)\<lparr>uncached_cnt := uncached_cnt c - 1, uncached_size := uncached_size c - entry_len c i\<rparr>"
  shows "cache_ok {i} c'"
proof -
  let ?m = "(c_entries c)(i \<mapsto> e\<lparr>me_use_cnt := 0\<rparr>)"
  have f: "c_tree c' = c_tree c" "c_entries c' = ?m" "c_lru c' = c_lru c" "c_dead c' = c_dead c" "c_next c' = c_next c"
    "cached_cnt c' = cached_cnt c" "cached_size c' = cached_size c" "uncached_cnt c' = uncached_cnt c - 1"
    "uncached_size c' = uncached_size c - entry_len c i"
    using c' e by (simp_all add: entry_upd_def)
  have reg: "regions c' j = regions c j" for j using e by (simp add: regions_def f)
  have id: "ids ?m in_tree = ids (c_entries c) in_tree" "ids ?m idle = ids (c_entries c) idle"
    "ids ?m dead - {i} = ids (c_entries c) dead - {}" "ids ?m held - {i} = ids (c_entries c) held - {i}"
    "ids ?m (\<lambda>e. \<not> me_node e) = ids (c_entries c) (\<lambda>e. \<not> me_node e)" "ids ?m (\<lambda>e. True) = ids (c_entries c) (\<lambda>e. True)"
    "ids ?m (\<lambda>e. me_use_cnt e < 0) = ids (c_entries c) (\<lambda>e. me_use_cnt e < 0)"
    using e by (auto simp: ids_def in_tree_def idle_def dead_def held_def)
  have ih: "i \<in> ids (c_entries c) held" "i \<in> ids (c_entries c) (\<lambda>e. \<not> me_node e)" using e by (auto simp: ids_def held_def)
  note fin = cache_ok_finite [OF ok, of held]
  have "card (ids (c_entries c) held) = Suc (card (ids (c_entries c) held - {i}))" using card.remove [OF fin ih(1)] .
  moreover have "sum (entry_len c) (ids (c_entries c) held) = entry_len c i + sum (entry_len c) (ids (c_entries c) held - {i})"
    using sum.remove [OF fin ih(1)] .
  moreover have "sorted_wrt (entry_lt c') (inorder (c_tree c))" using ok by (intro sorted_same [OF reg]) (simp add: cache_ok_def)
  ultimately show ?thesis using ok ih
    unfolding cache_ok_def f id regions_same [of _ c' c, OF reg] by auto
qed

lemma ok_delete:
  assumes ok: "cache_ok {} c" and e: "c_entries c i = Some e" "me_use_cnt e > 0"
    and r: "ofi_mr_cache_delete env i c w = (c', w')"
  shows "cache_ok {} c'"
proof -
  let ?c = "c\<lparr>delete_cnt := delete_cnt c + 1\<rparr>"
  have ok0: "cache_ok {} ?c" and e0: "c_entries ?c i = Some e" using ok e by simp_all
  define c1 where "c1 = entry_upd i (\<lambda>e. e\<lparr>me_use_cnt := me_use_cnt e - 1\<rparr>) ?c"
  have c1: "c1 = entry_upd i (\<lambda>x. x\<lparr>me_use_cnt := me_use_cnt e - 1\<rparr>) ?c" using e by (simp add: c1_def entry_upd_def)
  have f: "c_lru c1 = c_lru c" "uncached_cnt c1 = uncached_cnt c" "uncached_size c1 = uncached_size c" by (simp_all add: c1_def entry_upd_def)
  consider (free) "me_use_cnt e = 1" "\<not> me_node e" | (lru) "me_use_cnt e = 1" "me_node e" | (more) "me_use_cnt e > 1" using e(2) by linarith
  then show ?thesis
  proof cases
    case free
    have "util_mr_free_entry env i (c1\<lparr>uncached_cnt := uncached_cnt c - 1, uncached_size := uncached_size c - entry_len c i\<rparr>) w = (c', w')"
      using r e free by (simp add: ofi_mr_cache_delete_def Let_def c1_def [symmetric] f)
    moreover have "cache_ok {i} (c1\<lparr>uncached_cnt := uncached_cnt c - 1, uncached_size := uncached_size c - entry_len c i\<rparr>)"
      by (rule ok_release_held [OF ok0 e0 free(2,1)]) (simp add: c1 free)
    ultimately show ?thesis using ok_free_entry by fastforce
  next
    case lru
    then have c': "c' = c1\<lparr>c_lru := c_lru c @ [i]\<rparr>" using r e by (simp add: ofi_mr_cache_delete_def Let_def c1_def [symmetric] f)
    have "i \<notin> set (c_lru c)" "distinct (c_lru c)" using ok lru e by (auto simp: cache_ok_def ids_def idle_def)
    then show ?thesis using lru by (intro ok_use_cnt [OF ok0 e0 _ _ c' [unfolded c1]]) auto
  next
    case more
    then have "c' = c1" using r e by (simp add: ofi_mr_cache_delete_def Let_def c1_def)
    then have c': "c' = c1\<lparr>c_lru := c_lru c\<rparr>" using f(1) by simp
    have "i \<notin> set (c_lru c)" "distinct (c_lru c)" using ok more e by (auto simp: cache_ok_def ids_def idle_def)
    then show ?thesis using more by (intro ok_use_cnt [OF ok0 e0 _ _ c' [unfolded c1]]) auto
  qed
qed

lemma overlap_member: "ofi_mr_rbt_overlap c v = Some i \<Longrightarrow> i \<in> set (inorder (c_tree c))"
  by (auto simp: ofi_mr_rbt_overlap_def dest: ofi_rbmap_search_Some)

lemma within_member: "ofi_mr_rbt_find c info = Some i \<Longrightarrow> i \<in> set (inorder (c_tree c))"
  by (auto simp: ofi_mr_rbt_find_def dest: ofi_rbmap_search_Some)

lemma ok_notify:
  assumes "cache_ok {} c" and "ofi_mr_cache_notify env a len c w = (c', w')"
  shows "cache_ok {} c' \<and> held_kept c c' \<and> ofi_mr_rbt_overlap c' (iov a len) = None"
proof -
  let ?c = "c\<lparr>notify_cnt := notify_cnt c + 1\<rparr>"
  have "cache_ok {} ?c" "length (inorder (c_tree ?c)) \<le> length (inorder (c_tree c))" using assms(1) by simp_all
  from ok_purge [OF this, of "\<lambda>c. ofi_mr_rbt_overlap c (iov a len)", OF overlap_member [where v = "iov a len"] assms(2) [unfolded ofi_mr_cache_notify_def]]
  have "cache_ok {} c' \<and> held_kept ?c c' \<and> ofi_mr_rbt_overlap c' (iov a len) = None"
    by blast
  then show ?thesis by (simp add: held_kept_def)
qed

section \<open>Lookup\<close>

lemma ok_search_flush:
  assumes "cache_ok {} c" and "search_flush env c w = (c', w')"
  shows "cache_ok {} c' \<and> held_kept c c'"
proof (cases "ofi_mr_cache_full c \<or> c_dead c \<noteq> []")
  case True
  obtain b c1 w1 where f: "ofi_mr_cache_flush env (ofi_mr_cache_full c) c w = (b, c1, w1)" by (metis prod_cases3)
  with True assms(2) have "c' = c1" by (simp add: search_flush_def)
  with ok_flush [OF assms(1) f] show ?thesis by simp
next
  case False
  then show ?thesis using assms by (simp add: search_flush_def)
qed

lemma ok_hit:
  assumes ok: "cache_ok {} c" and e: "c_entries c i = Some e" "me_node e"
  shows "cache_ok {} (search_hit i e c) \<and> held_kept c (search_hit i e c) \<and>
    c_entries (search_hit i e c) i = Some (e\<lparr>me_use_cnt := me_use_cnt e + 1\<rparr>)"
proof -
  let ?c = "c\<lparr>hit_cnt := hit_cnt c + 1\<rparr>"
  have ok0: "cache_ok {} ?c" and e0: "c_entries ?c i = Some e" using ok e by simp_all
  have u: "me_use_cnt e \<ge> 0" using ok e by (auto simp: cache_ok_def ids_def not_less)
  let ?l = "if me_use_cnt e = 0 then removeAll i (c_lru c) else c_lru c"
  have h: "search_hit i e c = (entry_upd i (\<lambda>x. x\<lparr>me_use_cnt := me_use_cnt e + 1\<rparr>) ?c)\<lparr>c_lru := ?l\<rparr>"
    using e by (simp add: search_hit_def entry_upd_def Let_def)
  have "distinct (c_lru c)" "me_use_cnt e \<noteq> 0 \<Longrightarrow> i \<notin> set (c_lru c)" using ok e by (auto simp: cache_ok_def ids_def idle_def)
  then have "cache_ok {} (search_hit i e c)"
    using u e(2) by (intro ok_use_cnt [OF ok0 e0 _ _ h]) (auto simp: distinct_removeAll)
  then show ?thesis using e(1) unfolding h by (auto simp: held_kept_def entry_upd_def)
qed

definition found :: "(mr_info \<Rightarrow> mr_info \<Rightarrow> bool) \<Rightarrow> mr_info \<Rightarrow> 'd mr_cache \<Rightarrow> int \<times> nat \<times> 'd mr_cache \<times> 'w \<Rightarrow> bool" where
  "found rel info c r \<longleftrightarrow>
     (case r of (ret, i, c', w') \<Rightarrow>
        cache_ok {} c' \<and> held_kept c c' \<and>
        (ret = 0 \<longrightarrow> (\<exists>e. c_entries c' i = Some e \<and> me_use_cnt e > 0 \<and> rel info (me_info e))))"

text \<open>
  What the caller of a lookup gets, for any relation between the region asked for and the region
  handed out that the provider's registration and a hit both establish.
\<close>

locale cache_client =
  fixes env :: "('w, 'd) cache_env" and rel :: "mr_info \<Rightarrow> mr_info \<Rightarrow> bool"
  assumes rel_refl: "rel a a"
    and rel_trans: "rel a b \<Longrightarrow> rel b c \<Longrightarrow> rel a c"
    and rel_add: "ce_add_region env a d w = (0, b, d', w') \<Longrightarrow> rel a b"
    and rel_hit: "ofi_iov_within (mi_iov a) (mi_iov b) \<Longrightarrow> rel a b"
begin

lemma create_rel:
  assumes "util_mr_cache_create env info c w = (ret, i, info', c', w')"
  shows "rel info info'"
proof -
  obtain d w1 where a: "ce_entry_alloc env w = (d, w1)" by fastforce
  show ?thesis
  proof (cases d)
    case None
    then show ?thesis using assms a by (simp add: util_mr_cache_create_def rel_refl)
  next
    case (Some d0)
    obtain ret1 info1 d1 w2 where ad: "ce_add_region env info d0 w1 = (ret1, info1, d1, w2)" by (metis prod_cases4)
    have "info' = (if ret1 \<noteq> 0 then info else info1)"
      using assms a Some ad by (auto simp: util_mr_cache_create_def Let_def split: prod.splits bool.splits if_splits)
    then show ?thesis using rel_add [of info d0 w1] ad rel_refl by auto
  qed
qed

lemma miss_found:
  assumes ok: "cache_ok {} c"
  shows "case search_miss env info c w of
      Inl r \<Rightarrow> found rel info c r
    | Inr (info', c', w') \<Rightarrow> cache_ok {} c' \<and> held_kept c c' \<and> rel info info'"
proof -
  obtain c1 w1 where p: "search_purge env info c w = (c1, w1)" by fastforce
  from ok_purge [OF ok order_refl, of "\<lambda>c. ofi_mr_rbt_find c info", OF within_member p [unfolded search_purge_def]]
  have p1: "cache_ok {} c1" "held_kept c c1" by auto
  obtain ret i info' c2 w2 where cr: "util_mr_cache_create env info c1 w1 = (ret, i, info', c2, w2)" by (metis prod_cases5)
  note c2 = ok_create [OF p1(1) cr]
  have k2: "held_kept c c2" using held_kept_trans [OF p1(2)] c2 by blast
  obtain freed c3 w3 where f: "ofi_mr_cache_flush env True c2 w2 = (freed, c3, w3)" by (metis prod_cases3)
  have c3: "cache_ok {} c3" "held_kept c c3" using ok_flush [OF _ f] c2 held_kept_trans [OF k2] by auto
  show ?thesis using c2 k2 c3 create_rel [OF cr]
    by (auto simp: search_miss_def p cr f found_def)
qed

lemma round_found:
  assumes ok: "cache_ok {} c"
  shows "case search_round env info c w of
      Inl r \<Rightarrow> found rel info c r
    | Inr (info', c', w') \<Rightarrow> cache_ok {} c' \<and> held_kept c c' \<and> rel info info'"
proof -
  obtain c1 w1 where f: "search_flush env c w = (c1, w1)" by fastforce
  note ok1 = ok_search_flush [OF ok f]
  define c2 where "c2 = c1\<lparr>search_cnt := search_cnt c1 + 1\<rparr>"
  have ok2: "cache_ok {} c2" "held_kept c c2" using ok1 by (simp_all add: c2_def held_kept_def)
  show ?thesis
  proof (cases "search_lookup env info c2 w1")
    case None
    have "search_round env info c w = search_miss env info c2 w1" using f None by (simp add: search_round_def Let_def c2_def)
    with miss_found [OF ok2(1), of info w1] ok2(2) show ?thesis
      by (auto simp: found_def split: sum.splits prod.splits intro: held_kept_trans)
  next
    case (Some q)
    obtain i e where q: "q = (i, e)" by fastforce
    have l: "ofi_mr_rbt_find c2 info = Some i" "c_entries c2 i = Some e" "ofi_iov_within (mi_iov info) (mi_iov (me_info e))"
      using Some unfolding q by (auto simp: search_lookup_def split: option.splits if_splits)
    have "i \<in> ids (c_entries c2) in_tree" using within_member [OF l(1)] ok2(1) by (simp add: cache_ok_def)
    then have n: "me_node e" using l(2) by (simp add: ids_def in_tree_def)
    have "me_use_cnt e \<ge> 0" using ok2(1) l(2) by (auto simp: cache_ok_def ids_def not_less)
    then show ?thesis using ok_hit [OF ok2(1) l(2) n] ok2(2) rel_hit [OF l(3)] f Some
      by (auto simp: search_round_def Let_def c2_def [symmetric] q found_def intro: held_kept_trans)
  qed
qed

lemma search_found_all:
  assumes "ofi_mr_cache_search e info c w = Some r"
  shows "e = env \<longrightarrow> cache_ok {} c \<longrightarrow> found rel info c r"
proof (rule ofi_mr_cache_search.raw_induct
    [where P = "\<lambda>e info c w r. e = env \<longrightarrow> cache_ok {} c \<longrightarrow> found rel info c r", OF _ assms], intro impI)
  fix loop :: "('w, 'd) cache_env \<Rightarrow> mr_info \<Rightarrow> 'd mr_cache \<Rightarrow> 'w \<Rightarrow> (int \<times> nat \<times> 'd mr_cache \<times> 'w) option"
    and e inf c w r
  assume IH: "\<And>e inf c w r. loop e inf c w = Some r \<Longrightarrow> e = env \<longrightarrow> cache_ok {} c \<longrightarrow> found rel inf c r"
    and run: "(case search_round e inf c w of Inl r \<Rightarrow> Some r
      | Inr s \<Rightarrow> loop e (fst s) (fst (snd s)) (snd (snd s))) = Some r" and e: "e = env" and ok: "cache_ok {} c"
  show "found rel inf c r"
  proof (cases "search_round env inf c w")
    case (Inl a)
    with run e show ?thesis using round_found [OF ok, of inf w] by simp
  next
    case (Inr s)
    obtain inf1 c1 w1 where s: "s = (inf1, c1, w1)" by (metis prod_cases3)
    with run e Inr have l: "loop env inf1 c1 w1 = Some r" by simp
    from round_found [OF ok, of inf w] Inr s have one: "cache_ok {} c1" "held_kept c c1" "rel inf inf1" by auto
    from IH [OF l] one(1) have "found rel inf1 c1 r" by simp
    then show ?thesis using one(2,3) by (auto simp: found_def intro: held_kept_trans rel_trans)
  qed
qed

lemma search_found:
  "ofi_mr_cache_search env info c w = Some (ret, i, c', w') \<Longrightarrow> cache_ok {} c \<Longrightarrow>
     cache_ok {} c' \<and> held_kept c c' \<and> (ret = 0 \<longrightarrow> (\<exists>e. c_entries c' i = Some e \<and> me_use_cnt e > 0 \<and> rel info (me_info e)))"
  using search_found_all [of env info c w "(ret, i, c', w')"] by (simp add: found_def)

end

interpretation any_env: cache_client env "\<lambda>a b. True" for env :: "('w, 'd) cache_env"
  by unfold_locales simp_all

section \<open>Histories\<close>

lemma ok_init: "ofi_mr_cache_init max_cnt max_size = Inr c \<Longrightarrow> cache_ok {} c"
  by (clarsimp simp: ofi_mr_cache_init_def split: if_splits) (simp add: cache_ok_def ids_def red_black_def)

lemma ok_step: "cache_step env c c' \<Longrightarrow> cache_ok {} c \<Longrightarrow> cache_ok {} c'"
proof (induction rule: cache_step.induct)
  case (step_search env info c w ret i c' w')
  then show ?case using any_env.search_found [OF step_search(1,2)] by simp
next
  case (step_delete c i e env w c' w')
  show ?case by (rule ok_delete [OF step_delete(4,1-3)])
next
  case (step_notify env a len c w c' w')
  then show ?case using ok_notify [OF step_notify(2,1)] by simp
next
  case (step_flush env b c w freed c' w')
  then show ?case using ok_flush [OF step_flush(2,1)] by simp
qed

lemma ok_reach: "cache_reach env c \<Longrightarrow> cache_ok {} c"
  by (induction rule: cache_reach.induct) (auto intro: ok_init ok_step)

text \<open>
  C12.  The cache keeps its books.  After any history of lookups, releases of held registrations,
  notifications and flushes, with any provider, monitor and allocator: the tree is a red-black
  tree of exactly the cached entries, none containing another; the LRU list is exactly the
  cached entries nobody holds; the dead list exactly those that left the tree unheld; and the
  four counters are the numbers and sizes of the cached and of the held uncached entries.
\<close>

theorem cache_keeps_books:
  assumes "cache_reach env c"
  shows "cache_ok {} c"
  using ok_reach [OF assms] .

lemma sample_search: "ofi_mr_cache_search sample_env sample_info empty_cache 3 = Some (0, 0, one_cached, 4)"
  by (subst ofi_mr_cache_search.simps) (simp add: search_round_def search_flush_def search_lookup_def
      search_miss_def search_purge_def util_mr_cache_create_def create_insert_def ofi_mr_rbt_find_def ofi_mr_cache_full_def
      ofi_rbmap_insert_def entry_upd_def entry_len_def sample_env_def sample_info_def empty_cache_def one_cached_def Let_def)

lemma sample_reach: "cache_reach sample_env one_cached"
proof (rule reach_step [OF reach_init])
  show "ofi_mr_cache_init 4 65536 = Inr empty_cache" by (simp add: ofi_mr_cache_init_def empty_cache_def)
  show "cache_step sample_env empty_cache one_cached" by (rule step_search [OF sample_search])
qed

theorem cache_keeps_books_witness:
  "cache_ok {} one_cached \<and> cached_size one_cached = sum (entry_len one_cached) (ids (c_entries one_cached) in_tree)"
  using cache_keeps_books [OF sample_reach] by (simp add: cache_ok_def)

text \<open>
  C13.  A notification leaves no stale region in the cache.  After the monitor reports that a range
  of addresses changed, no cached region of the process shares a byte with it, so no later lookup
  can hand one out; what clients still hold stays valid until they release it.
\<close>

theorem notify_purges:
  assumes "cache_reach env c" and "ofi_mr_cache_notify env a len c w = (c', w')"
    and "0 < len" and "a + len \<le> size_max"
    and "c_entries c' i = Some e" and "me_node e" and "mi_peer_id (me_info e) = 0" and "mi_iov (me_info e) = v"
    and "0 < iov_len v" and "iov_base v + iov_len v \<le> size_max"
  shows "(a + len \<le> iov_base v \<or> iov_base v + iov_len v \<le> a) \<and> held_kept c c'"
proof -
  from ok_notify [OF ok_reach [OF assms(1)] assms(2)] have
    ok: "cache_ok {} c'" and k: "held_kept c c'" and none: "ofi_mr_rbt_overlap c' (iov a len) = None" by auto
  have it: "i \<in> set (inorder (c_tree c'))" using ok assms(5,6) by (simp add: cache_ok_def ids_def in_tree_def)
  have "sorted_wrt (entry_lt c') (inorder (c_tree c'))" using ok by (simp add: cache_ok_def)
  from by_overlap.search_complete [OF this] none it
  have "entry_cmp util_mr_find_overlap c' \<lparr>mi_iov = iov a len, mi_peer_id = 0\<rparr> i \<noteq> 0"
    unfolding ofi_mr_rbt_overlap_def by blast
  then have "ofi_iov_left (iov a len) v \<or> ofi_iov_right (iov a len) v"
    using assms(5,7,8) by (auto simp: entry_cmp_def util_mr_find_overlap_def split: if_splits)
  moreover have "ofi_iov_end (iov a len) = a + len - 1" "ofi_iov_end v = iov_base v + iov_len v - 1"
    using assms(3,4,9,10) by (auto simp: ofi_iov_end_def mod_if)
  ultimately show ?thesis using k assms(3,9) by (auto simp: ofi_iov_left_def ofi_iov_right_def)
qed

theorem notify_purges_witness:
  "\<exists>c' w' e. ofi_mr_cache_notify sample_env 20000 10 one_cached 4 = (c', w') \<and> c_entries c' 0 = Some e \<and>
     (20000 + 10 \<le> iov_base (mi_iov (me_info e)) \<or> iov_base (mi_iov (me_info e)) + iov_len (mi_iov (me_info e)) \<le> 20000) \<and>
     held_kept one_cached c'"
proof -
  have n: "ofi_mr_cache_notify sample_env 20000 10 one_cached 4 = (one_cached\<lparr>notify_cnt := 1\<rparr>, 4)"
    by (simp add: ofi_mr_cache_notify_def ofi_mr_rbt_overlap_def one_cached_def empty_cache_def sample_info_def entry_cmp_def
        util_mr_find_overlap_def ofi_iov_left_def ofi_iov_right_def ofi_iov_end_def)
  have e: "c_entries (one_cached\<lparr>notify_cnt := 1\<rparr>) 0 = Some \<lparr>me_info = sample_info, me_node = True, me_use_cnt = 1, me_data = 3\<rparr>"
    by (simp add: one_cached_def)
  show ?thesis using notify_purges [OF sample_reach n _ _ e, of "iov 4096 8192"] n e by (simp add: sample_info_def)
qed

text \<open>
  C14.  A registration that somebody holds is never taken away.  Lookups of other regions, however
  they overlap, notifications and flushes leave every held registration in place with its region
  and its cookie.
\<close>

theorem held_registration_survives:
  assumes "cache_reach env c"
    and "ofi_mr_cache_search env info c w = Some (ret, i, c', w') \<or> ofi_mr_cache_notify env a len c w = (c', w') \<or>
      ofi_mr_cache_flush env b c w = (freed, c', w')"
  shows "held_kept c c'"
  using assms(2) any_env.search_found [OF _ ok_reach [OF assms(1)]] ok_notify [OF ok_reach [OF assms(1)]]
    ok_flush [OF ok_reach [OF assms(1)]] by fastforce

theorem held_registration_survives_witness:
  "\<exists>freed c' w' e. ofi_mr_cache_flush sample_env True one_cached 4 = (freed, c', w') \<and> c_entries c' 0 = Some e \<and> me_data e = 3"
proof -
  obtain freed c' w' where f: "ofi_mr_cache_flush sample_env True one_cached 4 = (freed, c', w')" by (metis prod_cases3)
  from held_registration_survives [OF sample_reach, OF disjI2 [OF disjI2 [OF f]]] have "held_kept one_cached c'" .
  moreover have "c_entries one_cached 0 = Some \<lparr>me_info = sample_info, me_node = True, me_use_cnt = 1, me_data = 3\<rparr>"
    by (simp add: one_cached_def)
  ultimately show ?thesis using f unfolding held_kept_def by fastforce
qed

section \<open>Lookups return\<close>

text \<open>A provider that registers the region as it is or fails for good, but never asks to try again.\<close>

definition plain_env :: "('w, 'd) cache_env \<Rightarrow> bool" where
  "plain_env env \<longleftrightarrow>
     (\<forall>info d w ret info' d' w'. ce_add_region env info d w = (ret, info', d', w') \<longrightarrow> ret \<noteq> - FI_EAGAIN \<and> info' = info)"

lemma search_cong: "(\<And>d. d \<in> set (inorder t) \<Longrightarrow> f d = g d) \<Longrightarrow> ofi_rbmap_search f t = ofi_rbmap_search g t"
  by (induction t) auto

lemma find_fresh:
  assumes "cache_ok {} c" and "c1 = c\<lparr>c_next := n, c_entries := (c_entries c)(c_next c \<mapsto> e)\<rparr>"
  shows "ofi_mr_rbt_find c1 info = ofi_mr_rbt_find c info"
proof -
  have "c_next c \<notin> set (inorder (c_tree c))" using assms(1) by (auto simp: cache_ok_def ids_def)
  then show ?thesis unfolding ofi_mr_rbt_find_def assms(2)
    by (auto intro!: search_cong simp: entry_cmp_def)
qed

lemma create_no_again:
  assumes ok: "cache_ok {} c" and plain: "plain_env env" and none: "ofi_mr_rbt_find c info = None"
    and r: "util_mr_cache_create env info c w = (ret, i, info', c', w')" and bad: "ret \<noteq> 0"
  shows "ret \<noteq> - FI_EAGAIN \<and> info' = info \<and> dom (c_entries c') = dom (c_entries c)"
proof -
  obtain d w1 where a: "ce_entry_alloc env w = (d, w1)" by fastforce
  have fresh: "c_entries c (c_next c) = None" using ok by (cases "c_entries c (c_next c)") (auto simp: cache_ok_def ids_def)
  show ?thesis
  proof (cases d)
    case None
    then show ?thesis using r a by (simp add: util_mr_cache_create_def)
  next
    case (Some d0)
    obtain ret1 info1 d1 w2 where ad: "ce_add_region env info d0 w1 = (ret1, info1, d1, w2)" by (metis prod_cases4)
    then have pl: "ret1 \<noteq> - FI_EAGAIN" "info1 = info" using plain unfolding plain_env_def by blast+
    define c1 where "c1 = c\<lparr>c_next := c_next c + 1,
      c_entries := (c_entries c)(c_next c \<mapsto> \<lparr>me_info = info, me_node = False, me_use_cnt = 1, me_data = d1\<rparr>)\<rparr>"
    obtain b w3 where nd: "ce_node_alloc env w2 = (b, w3)" by fastforce
    obtain r2 c2 w4 where ci: "create_insert env (c_next c) info c1 w3 = (r2, c2, w4)" by (metis prod_cases3)
    have f1: "ofi_mr_rbt_find c1 info = None" using find_fresh [OF ok c1_def] none by simp
    then have r2: "r2 = 0"
      using ci ofi_rbmap_insert_ret [of "entry_cmp util_mr_find_within c1 info" "c_next c" "c_tree c1"]
      by (auto simp: create_insert_def ofi_mr_rbt_find_def Let_def split: if_splits prod.splits)
    have fr: "util_mr_free_entry env (c_next c) c1 v = (c1\<lparr>c_entries := c_entries c\<rparr>, ce_delete_region env d1 v)" for v
      using fresh by (simp add: util_mr_free_entry_def c1_def fun_upd_idem)
    have run: "util_mr_cache_create env info c w =
        (if ret1 \<noteq> 0 then (ret1, c_next c, info, c1\<lparr>c_entries := c_entries c\<rparr>, ce_delete_region env d1 w2)
         else if \<not> b then (- FI_ENOMEM, c_next c, info, c1\<lparr>c_entries := c_entries c\<rparr>, ce_delete_region env d1 w3)
         else (0, c_next c, info, c2, w4))"
      using ci fr r2 pl by (simp add: util_mr_cache_create_def a Some ad nd Let_def c1_def split: bool.split)
    show ?thesis using r bad pl unfolding run by (auto split: if_splits)
  qed
qed

lemma free_list_entries:
  "c_entries (fst (free_list_loop env fl c w)) = (\<lambda>i. if i \<in> set fl then None else c_entries c i)"
proof (induction fl arbitrary: c w)
  case Nil
  then show ?case by simp
next
  case (Cons i fl)
  obtain c1 w1 where f: "util_mr_free_entry env i c w = (c1, w1)" by fastforce
  then have "c_entries c1 = (c_entries c)(i := None)" by (auto simp: util_mr_free_entry_def fun_upd_idem split: option.splits)
  with Cons [of c1 w1] f show ?case by auto
qed

lemma flush_lru_dom:
  "flush_lru_loop env b l fl c w = (fl', c', w') \<Longrightarrow> dom (c_entries c') = dom (c_entries c)"
proof (induction l arbitrary: b fl c w)
  case Nil
  then show ?case by auto
next
  case (Cons i l)
  obtain c1 w1 where s: "util_mr_uncache_entry_storage env i (c\<lparr>c_lru := l\<rparr>) w = (c1, w1)" by fastforce
  then have "dom (c_entries c1) = dom (c_entries c)"
    by (auto simp: util_mr_uncache_entry_storage_def split: option.splits if_splits)
  with Cons.IH [of "ofi_mr_cache_full c1" "fl @ [i]" c1 w1] Cons.prems s show ?case by (auto split: if_splits)
qed

lemma flush_dom:
  assumes ok: "cache_ok {} c" and r: "ofi_mr_cache_flush env b c w = (freed, c', w')"
  shows "if freed then dom (c_entries c') \<subset> dom (c_entries c) else dom (c_entries c') = dom (c_entries c)"
proof -
  obtain fl c1 w1 where l: "flush_lru_loop env b (c_lru c) (c_dead c) (c\<lparr>c_dead := []\<rparr>) w = (fl, c1, w1)" by (metis prod_cases3)
  have fr: "freed = (fl \<noteq> [])" "c' = fst (free_list_loop env fl c1 w1)"
    using r l by (auto simp: ofi_mr_cache_flush_def split: prod.splits)
  have "cache_ok (set (c_dead c)) (c\<lparr>c_dead := []\<rparr>)" using ok_take_dead [OF ok] by simp
  moreover have "distinct (c_dead c)" using ok by (simp add: cache_ok_def)
  moreover have "me_use_cnt e = 0" if "i \<in> set (c_dead c)" "c_entries (c\<lparr>c_dead := []\<rparr>) i = Some e" for i e
    using ok that by (auto simp: cache_ok_def ids_def dead_def)
  ultimately have "cache_ok (set fl) c1" using ok_flush_lru [OF _ _ _ _ l] by auto
  then have "set fl \<subseteq> dom (c_entries c1)" by (auto simp: cache_ok_def ids_def)
  moreover have "dom (c_entries c1) = dom (c_entries c)" using flush_lru_dom [OF l] by simp
  moreover have "dom (c_entries c') = dom (c_entries c1) - set fl" unfolding fr free_list_entries by (auto split: if_splits)
  ultimately show ?thesis using fr(1) by (cases fl) auto
qed

lemma search_flush_dom:
  assumes "cache_ok {} c" and "search_flush env c w = (c', w')"
  shows "dom (c_entries c') \<subseteq> dom (c_entries c)"
proof -
  obtain b c1 w1 where f: "ofi_mr_cache_flush env (ofi_mr_cache_full c) c w = (b, c1, w1)" by (metis prod_cases3)
  from flush_dom [OF assms(1) f] assms(2) f show ?thesis by (auto simp: search_flush_def split: if_splits)
qed

lemma dom_regions: "dom (c_entries c) = {i. regions c i \<noteq> None}"
  by (auto simp: regions_def)

text \<open>Every further round has fewer entries left.\<close>

lemma round_progress:
  assumes ok: "cache_ok {} c" and plain: "plain_env env" and r: "search_round env info c w = Inr (info', c', w')"
  shows "cache_ok {} c' \<and> info' = info \<and> dom (c_entries c') \<subset> dom (c_entries c)"
proof -
  obtain c1 w1 where f: "search_flush env c w = (c1, w1)" by fastforce
  note ok1 = ok_search_flush [OF ok f]
  define c2 where "c2 = c1\<lparr>search_cnt := search_cnt c1 + 1\<rparr>"
  have ok2: "cache_ok {} c2" and d2: "dom (c_entries c2) \<subseteq> dom (c_entries c)"
    using ok1 search_flush_dom [OF ok f] by (simp_all add: c2_def)
  have miss: "search_miss env info c2 w1 = Inr (info', c', w')"
    using r f by (auto simp: search_round_def Let_def c2_def [symmetric] split: option.splits prod.splits)
  obtain c3 w3 where p: "search_purge env info c2 w1 = (c3, w3)" by fastforce
  from ok_purge [OF ok2 order_refl, of "\<lambda>c. ofi_mr_rbt_find c info", OF within_member p [unfolded search_purge_def]]
  have p3: "cache_ok {} c3" "ofi_mr_rbt_find c3 info = None" "dom (c_entries c3) = dom (c_entries c2)" by (auto simp: dom_regions)
  obtain ret i info4 c4 w4 where cr: "util_mr_cache_create env info c3 w3 = (ret, i, info4, c4, w4)" by (metis prod_cases5)
  note na = create_no_again [OF p3(1) plain p3(2) cr]
  obtain freed c5 w5 where fl: "ofi_mr_cache_flush env True c4 w4 = (freed, c5, w5)" by (metis prod_cases3)
  have bad: "ret \<noteq> 0" "freed" "info' = info4" "c' = c5"
    using miss na by (auto simp: search_miss_def p cr fl split: if_splits)
  have "cache_ok {} c4" using ok_create [OF p3(1) cr] by simp
  with bad na d2 p3(3) ok_flush [OF _ fl] flush_dom [OF _ fl] show ?thesis by auto
qed

lemma search_returns_some:
  assumes plain: "plain_env env"
  shows "cache_ok {} c \<Longrightarrow> \<exists>r. ofi_mr_cache_search env info c w = Some r"
proof (induction "card (dom (c_entries c))" arbitrary: c w rule: less_induct)
  case less
  show ?case
  proof (cases "search_round env info c w")
    case (Inl r)
    then have "ofi_mr_cache_search env info c w = Some r" by (simp add: ofi_mr_cache_search.simps [of env info c w])
    then show ?thesis ..
  next
    case (Inr s)
    obtain info' c' w' where s: "s = (info', c', w')" by (metis prod_cases3)
    from round_progress [OF less.prems plain Inr [unfolded s]] have
      ok': "cache_ok {} c'" and i: "info' = info" and d: "dom (c_entries c') \<subset> dom (c_entries c)" by auto
    have "finite (dom (c_entries c))" using cache_ok_finite [OF less.prems, of "\<lambda>e. True"] by (simp add: ids_def dom_def)
    from psubset_card_mono [OF this d] less.hyps [OF _ ok'] obtain r where "ofi_mr_cache_search env info c' w' = Some r" by blast
    then have "ofi_mr_cache_search env info c w = Some r" using Inr s i by (subst ofi_mr_cache_search.simps) simp
    then show ?thesis ..
  qed
qed

text \<open>
  C15.  Every lookup returns.  If the provider's registration either succeeds for the region as
  given or fails with an error other than \<^verbatim>\<open>-FI_EAGAIN\<close>, the retry loop ends: it goes round again
  only after a flush that freed an entry, and registrations that fail add none.
\<close>

theorem cache_lookup_returns:
  assumes "cache_reach env c" and "plain_env env"
  shows "\<exists>r. ofi_mr_cache_search env info c w = Some r"
  using search_returns_some [OF assms(2) ok_reach [OF assms(1)]] .

theorem cache_lookup_returns_witness:
  "plain_env sample_env \<and> (\<exists>r. ofi_mr_cache_search sample_env \<lparr>mi_iov = iov 8192 8192, mi_peer_id = 0\<rparr> one_cached 4 = Some r)"
proof -
  have p: "plain_env sample_env" by (simp add: plain_env_def sample_env_def)
  show ?thesis using cache_lookup_returns [OF sample_reach p] p by blast
qed

end
