(* ===== verification/Rds_Ring_Protocol.thy ===== *)
theory Rds_Ring_Protocol
  imports Rds_Progress Rds_Testbed
begin

text \<open>
  One direction of an eager ring, both ends and the wire between them.  The sender stages a slot
  and posts one RDMA write for it; the hardware places its bytes in the receiver's ring in
  ascending order, some time later and possibly with a pause before the stamp at the end; the
  receiver polls the stamp; credit travels back by RDMA writes of its own, which carry the count
  the credit word holds when the hardware reads it, or with traffic in the other direction.  A
  write the kernel refuses leaves a staged slot behind that the next send overwrites.  Both applications use the rest of their memory as they like.  The theorem:
  the receiver takes exactly the messages that were sent, whole and in order, and sees a message
  as soon as it has landed.
\<close>

section \<open>Definitions\<close>

record ring_link =
  lk_smem :: memory
  lk_tx :: rds_peer
  lk_rmem :: memory
  lk_rx :: rds_peer
  lk_size :: u32
  lk_sent :: "(rds_ring_slot \<times> byte list) list"
  lk_landed :: nat
  lk_recv :: "(rds_ring_slot \<times> byte list) list"
  lk_credits :: "u64 list"

abbreviation slots_of :: "ring_link \<Rightarrow> nat" where "slots_of st \<equiv> unat (pr_rem_slots (lk_tx st))"

definition stage_addr :: "ring_link \<Rightarrow> nat \<Rightarrow> addr" where
  "stage_addr st n = pr_tx_stage (lk_tx st) + (n mod slots_of st) * unat (lk_size st)"

definition ring_addr :: "ring_link \<Rightarrow> nat \<Rightarrow> addr" where
  "ring_addr st n = pr_rx_ring (lk_rx st) + (n mod slots_of st) * unat (lk_size st)"

definition slot_stamp :: "memory \<Rightarrow> addr \<Rightarrow> u32 \<Rightarrow> u32" where
  "slot_stamp m a sz = of_nat (mem_get m (rds_slot_gen a sz) 4)"

definition slot_message :: "memory \<Rightarrow> addr \<Rightarrow> rds_ring_slot \<times> byte list" where
  "slot_message m a = (mem_get_slot m a, mem_read m (rds_slot_payload a) (unat (slot_len (mem_get_slot m a))))"

definition lap_stamp :: "ring_link \<Rightarrow> nat \<Rightarrow> u32" where
  "lap_stamp st n = of_nat (n div slots_of st) + 1"

text \<open>What the applications must leave alone: the staging ring and the credit cell, and the receive ring.\<close>

definition sender_owned :: "ring_link \<Rightarrow> addr \<Rightarrow> bool" where
  "sender_owned st x \<longleftrightarrow>
     pr_tx_stage (lk_tx st) \<le> x \<and> x < pr_tx_stage (lk_tx st) + slots_of st * unat (lk_size st) \<or>
     pr_credit_cell (lk_tx st) \<le> x \<and> x < pr_credit_cell (lk_tx st) + 8"

definition receiver_owned :: "ring_link \<Rightarrow> addr \<Rightarrow> bool" where
  "receiver_owned st x \<longleftrightarrow>
     pr_rx_ring (lk_rx st) \<le> x \<and> x < pr_rx_ring (lk_rx st) + slots_of st * unat (lk_size st)"

inductive ring_step :: "ring_link \<Rightarrow> ring_link \<Rightarrow> bool" where
  ring_put: "p = rds_ring_refresh_credit (lk_smem st) (lk_tx st) \<Longrightarrow>
    \<not> pr_tx_head p - pr_tx_tail p \<ge> ucast (pr_rem_slots p) \<Longrightarrow>
    slot_len s = of_nat (length pl) \<Longrightarrow> length pl \<le> unat (rds_ring_payload_max (lk_size st)) \<Longrightarrow>
    length (lk_sent st) < 18446744073709551615 \<Longrightarrow>
    ring_step st (st\<lparr>lk_tx := p\<lparr>pr_tx_head := pr_tx_head p + 1\<rparr>,
      lk_smem := stage_slot (pr_tx_stage p + tx_idx p * unat (lk_size st)) (lk_size st) s pl (tx_gen p) (lk_smem st),
      lk_sent := lk_sent st @ [(s, pl)]\<rparr>)"
| ring_full: "ring_step st (st\<lparr>lk_tx := rds_ring_refresh_credit (lk_smem st) (lk_tx st)\<rparr>)"
| ring_refused: "p = rds_ring_refresh_credit (lk_smem st) (lk_tx st) \<Longrightarrow>
    \<not> pr_tx_head p - pr_tx_tail p \<ge> ucast (pr_rem_slots p) \<Longrightarrow> length pl \<le> unat (rds_ring_payload_max (lk_size st)) \<Longrightarrow>
    ring_step st (st\<lparr>lk_tx := p,
      lk_smem := stage_slot (pr_tx_stage p + tx_idx p * unat (lk_size st)) (lk_size st) s pl (tx_gen p) (lk_smem st)\<rparr>)"
| ring_land_part: "lk_landed st < length (lk_sent st) \<Longrightarrow> k \<le> unat (lk_size st) - RDS_RING_GEN_SIZE \<Longrightarrow>
    ring_step st (st\<lparr>lk_rmem := mem_write (lk_rmem st) (ring_addr st (lk_landed st))
      (take k (mem_read (lk_smem st) (stage_addr st (lk_landed st)) (unat (lk_size st))))\<rparr>)"
| ring_land: "lk_landed st < length (lk_sent st) \<Longrightarrow>
    ring_step st (st\<lparr>lk_rmem := mem_write (lk_rmem st) (ring_addr st (lk_landed st))
        (mem_read (lk_smem st) (stage_addr st (lk_landed st)) (unat (lk_size st))),
      lk_landed := lk_landed st + 1\<rparr>)"
| ring_take: "a = ring_addr st (unat (pr_rx_head (lk_rx st))) \<Longrightarrow>
    slot_stamp (lk_rmem st) a (lk_size st) = lap_stamp st (unat (pr_rx_head (lk_rx st))) \<Longrightarrow>
    ring_step st (st\<lparr>lk_rx := (lk_rx st)\<lparr>pr_rx_head := pr_rx_head (lk_rx st) + 1\<rparr>,
      lk_recv := lk_recv st @ [slot_message (lk_rmem st) a]\<rparr>)"
| ring_credit: "ring_step st (st\<lparr>lk_credits := lk_credits st @ [pr_rx_head (lk_rx st)]\<rparr>)"
| ring_credit_land: "lk_credits st = v # vs \<Longrightarrow> v \<le> w \<Longrightarrow> w \<le> pr_rx_head (lk_rx st) \<Longrightarrow>
    ring_step st (st\<lparr>lk_smem := mem_write (lk_smem st) (pr_credit_cell (lk_tx st)) (le_enc 8 (unat w)), lk_credits := vs\<rparr>)"
| ring_ack: "v > pr_tx_tail (lk_tx st) \<Longrightarrow> v \<le> pr_rx_head (lk_rx st) \<Longrightarrow>
    ring_step st (st\<lparr>lk_tx := (lk_tx st)\<lparr>pr_tx_tail := v\<rparr>\<rparr>)"
| ring_app: "(\<And>x. sender_owned st x \<Longrightarrow> m x = lk_smem st x) \<Longrightarrow> (\<And>x. receiver_owned st x \<Longrightarrow> m' x = lk_rmem st x) \<Longrightarrow>
    ring_step st (st\<lparr>lk_smem := m, lk_rmem := m'\<rparr>)"

definition ring_start :: "ring_link \<Rightarrow> bool" where
  "ring_start st \<longleftrightarrow>
     pr_tx_head (lk_tx st) = 0 \<and> pr_tx_tail (lk_tx st) = 0 \<and> pr_rx_head (lk_rx st) = 0 \<and> pr_rem_slots (lk_tx st) \<noteq> 0 \<and>
     RDS_RING_HDR_SIZE + RDS_RING_GEN_SIZE \<le> unat (lk_size st) \<and>
     (pr_credit_cell (lk_tx st) + 8 \<le> pr_tx_stage (lk_tx st) \<or>
      pr_tx_stage (lk_tx st) + slots_of st * unat (lk_size st) \<le> pr_credit_cell (lk_tx st)) \<and>
     mem_get (lk_smem st) (pr_credit_cell (lk_tx st)) 8 = 0 \<and> (\<forall>x. receiver_owned st x \<longrightarrow> lk_rmem st x = 0) \<and>
     lk_sent st = [] \<and> lk_landed st = 0 \<and> lk_recv st = [] \<and> lk_credits st = []"

inductive ring_reach :: "ring_link \<Rightarrow> ring_link \<Rightarrow> bool" where
  ring_init: "ring_start st \<Longrightarrow> ring_reach st st"
| ring_more: "ring_reach st st' \<Longrightarrow> ring_step st' st'' \<Longrightarrow> ring_reach st st''"

section \<open>Slots in memory\<close>

text \<open>A slot is determined by its bytes, wherever they are.\<close>

lemma read_part:
  assumes "mem_read m a n = mem_read m' b n" and "k + j \<le> n"
  shows "mem_read m (a + k) j = mem_read m' (b + k) j"
proof -
  have "mem_read m (a + k) j = take j (drop k (mem_read m a n))" using assms(2) by (simp add: drop_mem_read take_mem_read)
  also have "\<dots> = take j (drop k (mem_read m' b n))" by (simp add: assms(1))
  also have "\<dots> = mem_read m' (b + k) j" using assms(2) by (simp add: drop_mem_read take_mem_read)
  finally show ?thesis .
qed

lemma slot_same:
  assumes "mem_read m a n = mem_read m' b n" and "32 \<le> n"
  shows "mem_get_slot m a = mem_get_slot m' b"
  using read_part [OF assms(1), of 0 4] read_part [OF assms(1), of 4 1] read_part [OF assms(1), of 5 1]
    read_part [OF assms(1), of 8 8] read_part [OF assms(1), of 16 8] read_part [OF assms(1), of 24 8] assms(2)
  by (simp add: mem_get_slot_def mem_get_def)

lemma message_same:
  assumes "mem_read m a n = mem_read m' b n" and "32 + unat (slot_len (mem_get_slot m a)) \<le> n"
  shows "slot_message m a = slot_message m' b"
  using slot_same [OF assms(1)] read_part [OF assms(1,2)] assms(2) by (simp add: slot_message_def rds_slot_payload_def)

lemma stamp_same:
  assumes "mem_read m a (unat sz) = mem_read m' b (unat sz)" and "36 \<le> unat sz"
  shows "slot_stamp m a sz = slot_stamp m' b sz"
  using read_part [OF assms(1), of "unat sz - 4" 4] assms(2) by (simp add: slot_stamp_def rds_slot_gen_def mem_get_def)

lemma mem_write_get:
  assumes "length bs = k" and "256 ^ k = (2 :: nat) ^ LENGTH('a)" and "bs = le_enc k (unat (v :: 'a :: len word))"
  shows "(of_nat (mem_get (mem_write m a bs) a k) :: 'a word) = v"
proof -
  have "mem_read (mem_write m a bs) a k = bs" using mem_read_write_same [of m a bs] assms(1) by simp
  then show ?thesis using assms(2,3) by (simp add: mem_get_def le_dec_enc)
qed

lemma stage_outside:
  assumes "36 \<le> unat sz" and "32 + length pl + 4 \<le> unat sz" and "x < a \<or> a + unat sz \<le> x"
  shows "stage_slot a sz s pl g m x = m x"
  using assms by (auto simp: stage_slot_def mem_put_slot_def mem_write_def Let_def rds_slot_payload_def rds_slot_gen_def)

lemma stage_message:
  assumes "32 + length pl + 4 \<le> unat sz" and "slot_len s = of_nat (length pl)"
  shows "slot_message (stage_slot a sz s pl g m) a = (s, pl)" and "slot_stamp (stage_slot a sz s pl g m) a sz = g"
proof -
  let ?m1 = "mem_put_slot m a s"
  let ?m2 = "mem_write ?m1 (rds_slot_payload a) pl"
  let ?m3 = "stage_slot a sz s pl g m"
  have m3: "?m3 = mem_write ?m2 (rds_slot_gen a sz) (le_enc 4 (unat g))" by (simp add: stage_slot_def Let_def)
  have "mem_read ?m3 a 32 = mem_read ?m1 a 32"
    unfolding m3 rds_slot_payload_def rds_slot_gen_def using assms(1) by (simp add: mem_read_write_disjoint)
  from slot_same [OF this] have h: "mem_get_slot ?m3 a = s" by (simp add: mem_get_put_slot)
  have "unat sz < 4294967296" by (rule unat_bounds)
  then have "length pl < 4294967296" using assms(1) by linarith
  then have l: "unat (slot_len s) = length pl" by (simp add: assms(2) unat_of_nat take_bit_nat_eq_self)
  have "mem_read ?m3 (rds_slot_payload a) (length pl) = pl"
    unfolding m3 rds_slot_payload_def rds_slot_gen_def using assms(1) by (simp add: mem_read_write_disjoint)
  with h l show "slot_message ?m3 a = (s, pl)" by (simp add: slot_message_def)
  show "slot_stamp ?m3 a sz = g" unfolding slot_stamp_def m3 by (rule mem_write_get) simp_all
qed

section \<open>The invariant\<close>

text \<open>The stamp of the last message that landed in a slot of the ring, 0 if none has.\<close>

definition last_stamp :: "nat \<Rightarrow> nat \<Rightarrow> nat \<Rightarrow> u32" where
  "last_stamp sl l i = (if l \<le> i then 0 else of_nat ((l - 1 - i) div sl) + 1)"

definition link_ok :: "ring_link \<Rightarrow> bool" where
  "link_ok st \<longleftrightarrow>
     (let n = length (lk_sent st); l = lk_landed st; c = length (lk_recv st); sl = slots_of st; sz = unat (lk_size st) in
      0 < sl \<and> 36 \<le> sz \<and>
      (pr_credit_cell (lk_tx st) + 8 \<le> pr_tx_stage (lk_tx st) \<or> pr_tx_stage (lk_tx st) + sl * sz \<le> pr_credit_cell (lk_tx st)) \<and>
      c \<le> l \<and> l \<le> n \<and> n < 18446744073709551616 \<and> unat (pr_tx_head (lk_tx st)) = n \<and> unat (pr_rx_head (lk_rx st)) = c \<and>
      unat (pr_tx_tail (lk_tx st)) \<le> c \<and> n \<le> unat (pr_tx_tail (lk_tx st)) + sl \<and>
      mem_get (lk_smem st) (pr_credit_cell (lk_tx st)) 8 \<le> c \<and> (\<forall>v \<in> set (lk_credits st). unat v \<le> c) \<and>
      lk_recv st = take c (lk_sent st) \<and>
      (\<forall>(s, pl) \<in> set (lk_sent st). unat (slot_len s) + 36 \<le> sz) \<and>
      (\<forall>k. l \<le> k \<longrightarrow> k < n \<longrightarrow> slot_message (lk_smem st) (stage_addr st k) = lk_sent st ! k \<and>
         slot_stamp (lk_smem st) (stage_addr st k) (lk_size st) = lap_stamp st k) \<and>
      (\<forall>k. c \<le> k \<longrightarrow> k < l \<longrightarrow> slot_message (lk_rmem st) (ring_addr st k) = lk_sent st ! k) \<and>
      (\<forall>i < sl. slot_stamp (lk_rmem st) (ring_addr st i) (lk_size st) = last_stamp sl l i))"

lemma last_stamp_step:
  assumes "0 < sl" and "i < sl"
  shows "last_stamp sl (Suc l) i = (if i = l mod sl then of_nat (l div sl) + 1 else last_stamp sl l i)"
proof (cases "i = l mod sl")
  case True
  have "l = l div sl * sl + l mod sl" by simp
  then have "(l - l mod sl) div sl = l div sl" using assms(1) by (metis diff_add_inverse2 nonzero_mult_div_cancel_right not_gr0)
  moreover have "\<not> Suc l \<le> l mod sl" by (simp add: less_Suc_eq_le mod_less_eq_dividend not_le)
  ultimately show ?thesis using True by (simp add: last_stamp_def)
next
  case False
  show ?thesis
  proof (cases "l \<le> i")
    case True
    then have "l < i" using False assms(2) by (cases "l = i") auto
    then show ?thesis using False by (simp add: last_stamp_def)
  next
    case gt: False
    have "(l - i) mod sl \<noteq> 0"
    proof
      assume "(l - i) mod sl = 0"
      then have "l mod sl = i mod sl" using gt by (metis le_add_diff_inverse mod_add_right_eq add.right_neutral nat_le_linear)
      then show False using False assms(2) by simp
    qed
    then have "(l - i) div sl = (l - i - 1) div sl"
      using assms(1) gt by (metis div_Suc Suc_pred' diff_Suc_1 mod_0 neq0_conv not_le zero_less_diff)
    then show ?thesis using False gt by (simp add: last_stamp_def)
  qed
qed

text \<open>The stamp the receiver waits for appears with the message and not before.\<close>

lemma stamp_tells:
  assumes "0 < sl" and "c \<le> l" and "l \<le> c + sl"
  shows "last_stamp sl l (c mod sl) = of_nat (c div sl) + 1 \<longleftrightarrow> c < l"
proof -
  define q i where "q = c div sl" and "i = c mod sl"
  have c: "c = q * sl + i" "i < sl" using assms(1) by (simp_all add: q_def i_def)
  show ?thesis
  proof (cases "c < l")
    case True
    have "(l - 1 - i) div sl = q"
    proof (rule div_nat_eqI)
      show "sl * q \<le> l - 1 - i" using True c by (simp add: mult.commute)
      show "l - 1 - i < sl * Suc q" using True assms(3) c by (simp add: mult.commute)
    qed
    then show ?thesis using True c by (simp add: last_stamp_def q_def [symmetric] i_def [symmetric])
  next
    case False
    then have l: "l = c" using assms(2) by simp
    show ?thesis
    proof (cases q)
      case 0
      then show ?thesis using False l c by (simp add: last_stamp_def q_def [symmetric] i_def [symmetric])
    next
      case (Suc r)
      have "(c - 1 - i) div sl = r" using c assms(1) by (intro div_nat_eqI) (auto simp: Suc mult.commute)
      moreover have "i < c" using c Suc assms(1) by (simp add: trans_less_add1)
      ultimately show ?thesis using False l by (simp add: last_stamp_def q_def [symmetric] i_def [symmetric] Suc)
    qed
  qed
qed

section \<open>Preservation\<close>

lemma unat_ucast_slots: "unat (ucast (x :: u32) :: u64) = unat x"
proof -
  have "unat x < 4294967296" by (rule unat_bounds)
  then have "unat x < 18446744073709551616" by linarith
  then show ?thesis by (simp add: unsigned_ucast_eq take_bit_nat_eq_self)
qed

lemma payload_room:
  assumes "36 \<le> unat sz" and "n \<le> unat (rds_ring_payload_max sz)"
  shows "32 + n + 4 \<le> unat sz"
proof -
  have "unat (sz - 32) = unat sz - 32" using assms(1) by (subst unat_sub) (simp_all add: word_le_nat_alt)
  moreover from this have "unat (sz - 32 - 4) = unat sz - 36" using assms(1) by (subst unat_sub) (simp_all add: word_le_nat_alt)
  ultimately show ?thesis using assms by (simp add: rds_ring_payload_max_def)
qed

lemma slot_apart:
  assumes "i \<noteq> j" and "i < sl" and "j < (sl :: nat)"
  shows "a + i * sz + sz \<le> a + j * sz \<or> a + j * sz + sz \<le> a + i * sz"
proof (cases "i < j")
  case True
  then have "Suc i * sz \<le> j * sz" by (intro mult_le_mono1) simp
  then show ?thesis by simp
next
  case False
  then have "Suc j * sz \<le> i * sz" using assms(1) by (intro mult_le_mono1) simp
  then show ?thesis by simp
qed

lemma slot_inside: "i < sl \<Longrightarrow> a + i * sz + sz \<le> a + sl * (sz :: nat)"
  using mult_le_mono1 [of "Suc i" sl sz] by simp

lemma near_mod: "k < (n :: nat) \<Longrightarrow> n < k + sl \<Longrightarrow> k mod sl \<noteq> n mod sl"
  by (metis add_less_cancel_left le_add_diff_inverse less_imp_le_nat mod_eq_dvd_iff_nat nat_dvd_not_less zero_less_diff)

lemma message_kept:
  assumes "mem_read m' b n = mem_read m a n" and "slot_message m a = (s, pl)" and "unat (slot_len s) + 36 \<le> n"
  shows "slot_message m' b = (s, pl)"
  using message_same [OF assms(1) [symmetric]] assms(2,3) by (auto simp: slot_message_def)

lemma refresh_tail:
  assumes "p = rds_ring_refresh_credit m tx" and "mem_get m (pr_credit_cell tx) 8 \<le> c" and "unat (pr_tx_tail tx) \<le> c" and "c < 18446744073709551616"
  shows "\<exists>t. p = tx\<lparr>pr_tx_tail := t\<rparr> \<and> unat (pr_tx_tail tx) \<le> unat t \<and> unat t \<le> c"
proof -
  have "unat (of_nat (mem_get m (pr_credit_cell tx) 8) :: u64) = mem_get m (pr_credit_cell tx) 8"
    using assms(2,4) by (simp add: unat_of_nat take_bit_nat_eq_self)
  then show ?thesis using assms(1-3)
    by (cases "of_nat (mem_get m (pr_credit_cell tx) 8) > pr_tx_tail tx")
      (auto simp: rds_ring_refresh_credit_def Let_def word_less_nat_alt intro: exI [of _ "pr_tx_tail tx"])
qed

text \<open>The same link with another tail.\<close>

lemma ok_tail:
  assumes "link_ok st" and "unat (pr_tx_tail (lk_tx st)) \<le> unat t" and "unat t \<le> length (lk_recv st)"
  shows "link_ok (st\<lparr>lk_tx := (lk_tx st)\<lparr>pr_tx_tail := t\<rparr>\<rparr>)"
  using assms by (simp add: link_ok_def Let_def stage_addr_def ring_addr_def lap_stamp_def)

lemma ok_refresh:
  assumes ok: "link_ok st" and p: "p = rds_ring_refresh_credit (lk_smem st) (lk_tx st)"
  shows "link_ok (st\<lparr>lk_tx := p\<rparr>) \<and> p = (lk_tx st)\<lparr>pr_tx_tail := pr_tx_tail p\<rparr>"
proof -
  have "length (lk_recv st) < 18446744073709551616" "unat (pr_tx_tail (lk_tx st)) \<le> length (lk_recv st)"
    "mem_get (lk_smem st) (pr_credit_cell (lk_tx st)) 8 \<le> length (lk_recv st)" using ok by (auto simp: link_ok_def Let_def)
  from refresh_tail [OF p this(3,2,1)] obtain t where
    "p = (lk_tx st)\<lparr>pr_tx_tail := t\<rparr>" "unat (pr_tx_tail (lk_tx st)) \<le> unat t" "unat t \<le> length (lk_recv st)" by blast
  then show ?thesis using ok_tail [OF ok] by simp
qed

text \<open>The staged messages, under a change of the sender's memory outside their slots.\<close>

lemma staged_kept:
  assumes ok: "link_ok st" and k: "lk_landed st \<le> k" "k < length (lk_sent st)"
    and same: "\<And>x. stage_addr st k \<le> x \<Longrightarrow> x < stage_addr st k + unat (lk_size st) \<Longrightarrow> m x = lk_smem st x"
  shows "slot_message m (stage_addr st k) = lk_sent st ! k \<and> slot_stamp m (stage_addr st k) (lk_size st) = lap_stamp st k"
proof -
  obtain s' pl' where sk: "lk_sent st ! k = (s', pl')" by fastforce
  then have "(s', pl') \<in> set (lk_sent st)" using k(2) nth_mem by metis
  then have o: "unat (slot_len s') + 36 \<le> unat (lk_size st)" "slot_message (lk_smem st) (stage_addr st k) = (s', pl')"
    "slot_stamp (lk_smem st) (stage_addr st k) (lk_size st) = lap_stamp st k" "36 \<le> unat (lk_size st)"
    using ok k sk by (auto simp: link_ok_def Let_def)
  have r: "mem_read m (stage_addr st k) (unat (lk_size st)) = mem_read (lk_smem st) (stage_addr st k) (unat (lk_size st))"
    by (rule mem_read_cong) (rule same)
  show ?thesis using message_kept [OF r o(2,1)] stamp_same [OF r o(4)] o(3) sk by simp
qed

lemma landed_kept:
  assumes ok: "link_ok st" and k: "length (lk_recv st) \<le> k" "k < lk_landed st"
    and same: "\<And>x. ring_addr st k \<le> x \<Longrightarrow> x < ring_addr st k + unat (lk_size st) \<Longrightarrow> m x = lk_rmem st x"
  shows "slot_message m (ring_addr st k) = lk_sent st ! k"
proof -
  obtain s' pl' where sk: "lk_sent st ! k = (s', pl')" by fastforce
  have "k < length (lk_sent st)" using ok k(2) by (auto simp: link_ok_def Let_def)
  then have "(s', pl') \<in> set (lk_sent st)" using sk nth_mem by metis
  then have o: "unat (slot_len s') + 36 \<le> unat (lk_size st)" "slot_message (lk_rmem st) (ring_addr st k) = (s', pl')"
    using ok k sk by (auto simp: link_ok_def Let_def)
  have r: "mem_read m (ring_addr st k) (unat (lk_size st)) = mem_read (lk_rmem st) (ring_addr st k) (unat (lk_size st))"
    by (rule mem_read_cong) (rule same)
  show ?thesis using message_kept [OF r o(2,1)] sk by simp
qed

lemma cell_kept:
  assumes "\<And>x. pr_credit_cell (lk_tx st) \<le> x \<Longrightarrow> x < pr_credit_cell (lk_tx st) + 8 \<Longrightarrow> m x = lk_smem st x"
  shows "mem_get m (pr_credit_cell (lk_tx st)) 8 = mem_get (lk_smem st) (pr_credit_cell (lk_tx st)) 8"
  unfolding mem_get_def by (intro arg_cong [where f = le_dec] mem_read_cong assms)

lemma stage_apart_cell:
  assumes "link_ok st"
  shows "pr_credit_cell (lk_tx st) + 8 \<le> stage_addr st k \<or> stage_addr st k + unat (lk_size st) \<le> pr_credit_cell (lk_tx st)"
proof -
  have o: "0 < slots_of st" "pr_credit_cell (lk_tx st) + 8 \<le> pr_tx_stage (lk_tx st) \<or>
      pr_tx_stage (lk_tx st) + slots_of st * unat (lk_size st) \<le> pr_credit_cell (lk_tx st)"
    using assms by (simp_all add: link_ok_def Let_def)
  then show ?thesis using slot_inside [of "k mod slots_of st" "slots_of st" "pr_tx_stage (lk_tx st)" "unat (lk_size st)"]
    by (auto simp: stage_addr_def)
qed

lemma addr_apart:
  assumes "link_ok st" and "k < n" and "n < k + slots_of st"
  shows "stage_addr st k + unat (lk_size st) \<le> stage_addr st n \<or> stage_addr st n + unat (lk_size st) \<le> stage_addr st k"
    and "ring_addr st k + unat (lk_size st) \<le> ring_addr st n \<or> ring_addr st n + unat (lk_size st) \<le> ring_addr st k"
proof -
  have "0 < slots_of st" using assms(1) by (simp add: link_ok_def Let_def)
  then show "stage_addr st k + unat (lk_size st) \<le> stage_addr st n \<or> stage_addr st n + unat (lk_size st) \<le> stage_addr st k"
    "ring_addr st k + unat (lk_size st) \<le> ring_addr st n \<or> ring_addr st n + unat (lk_size st) \<le> ring_addr st k"
    using slot_apart [OF near_mod [OF assms(2,3)], of "slots_of st" _ "unat (lk_size st)"] unfolding stage_addr_def ring_addr_def by simp_all
qed

text \<open>
  Staging the next slot: it is the slot the head names, it is apart from every slot still to land
  and from the credit cell.
\<close>

lemma staging:
  assumes ok: "link_ok st" and room: "\<not> pr_tx_head (lk_tx st) - pr_tx_tail (lk_tx st) \<ge> ucast (pr_rem_slots (lk_tx st))"
    and fit: "32 + length pl + 4 \<le> unat (lk_size st)"
    and m: "m = stage_slot (stage_addr st (length (lk_sent st))) (lk_size st) s pl g (lk_smem st)"
  shows "length (lk_sent st) < unat (pr_tx_tail (lk_tx st)) + slots_of st"
    and "mem_get m (pr_credit_cell (lk_tx st)) 8 = mem_get (lk_smem st) (pr_credit_cell (lk_tx st)) 8"
    and "lk_landed st \<le> k \<Longrightarrow> k < length (lk_sent st) \<Longrightarrow>
      slot_message m (stage_addr st k) = lk_sent st ! k \<and> slot_stamp m (stage_addr st k) (lk_size st) = lap_stamp st k"
proof -
  let ?n = "length (lk_sent st)" and ?sl = "slots_of st" and ?sz = "unat (lk_size st)" and ?t = "unat (pr_tx_tail (lk_tx st))"
  have o: "36 \<le> ?sz" "unat (pr_tx_head (lk_tx st)) = ?n" "?t \<le> length (lk_recv st)" "length (lk_recv st) \<le> lk_landed st" "lk_landed st \<le> ?n"
    using ok by (auto simp: link_ok_def Let_def)
  have "unat (pr_tx_head (lk_tx st) - pr_tx_tail (lk_tx st)) = ?n - ?t"
    using o by (subst unat_sub) (auto simp: word_le_nat_alt)
  with unat_ucast_slots [of "pr_rem_slots (lk_tx st)"] room show room': "?n < ?t + ?sl" by (simp add: word_le_nat_alt)
  note out = stage_outside [OF o(1) fit]
  show "mem_get m (pr_credit_cell (lk_tx st)) 8 = mem_get (lk_smem st) (pr_credit_cell (lk_tx st)) 8"
    unfolding m using stage_apart_cell [OF ok, of ?n] by (intro cell_kept out) auto
  assume k: "lk_landed st \<le> k" "k < ?n"
  show "slot_message m (stage_addr st k) = lk_sent st ! k \<and> slot_stamp m (stage_addr st k) (lk_size st) = lap_stamp st k"
    unfolding m using addr_apart(1) [OF ok k(2)] k o room' by (intro staged_kept [OF ok k] out) auto
qed

lemma head_slot:
  assumes "link_ok st"
  shows "pr_tx_stage (lk_tx st) + tx_idx (lk_tx st) * unat (lk_size st) = stage_addr st (length (lk_sent st))"
    and "tx_gen (lk_tx st) = lap_stamp st (length (lk_sent st))"
  using assms by (simp_all add: tx_idx_def tx_gen_def stage_addr_def lap_stamp_def link_ok_def Let_def)

lemma ok_put:
  assumes ok: "link_ok st" and room: "\<not> pr_tx_head (lk_tx st) - pr_tx_tail (lk_tx st) \<ge> ucast (pr_rem_slots (lk_tx st))"
    and len: "slot_len s = of_nat (length pl)" "length pl \<le> unat (rds_ring_payload_max (lk_size st))"
    and more: "length (lk_sent st) < 18446744073709551615"
    and st': "st' = st\<lparr>lk_tx := (lk_tx st)\<lparr>pr_tx_head := pr_tx_head (lk_tx st) + 1\<rparr>,
      lk_smem := stage_slot (pr_tx_stage (lk_tx st) + tx_idx (lk_tx st) * unat (lk_size st)) (lk_size st) s pl (tx_gen (lk_tx st)) (lk_smem st),
      lk_sent := lk_sent st @ [(s, pl)]\<rparr>"
  shows "link_ok st'"
proof -
  let ?n = "length (lk_sent st)" and ?sz = "unat (lk_size st)"
  have o: "36 \<le> ?sz" "unat (pr_tx_head (lk_tx st)) = ?n" using ok by (auto simp: link_ok_def Let_def)
  have fit: "32 + length pl + 4 \<le> ?sz" using payload_room [OF o(1) len(2)] .
  have same: "stage_addr st' k = stage_addr st k" "ring_addr st' k = ring_addr st k" "lap_stamp st' k = lap_stamp st k" for k
    by (simp_all add: st' stage_addr_def ring_addr_def lap_stamp_def)
  let ?m = "stage_slot (stage_addr st ?n) (lk_size st) s pl (lap_stamp st ?n) (lk_smem st)"
  have m': "lk_smem st' = ?m" by (simp add: st' head_slot [OF ok])
  note old = staging [OF ok room fit refl]
  note new = stage_message [OF fit len(1), where a = "stage_addr st ?n" and g = "lap_stamp st ?n" and m = "lk_smem st"]
  have stage: "slot_message ?m (stage_addr st k) = (lk_sent st @ [(s, pl)]) ! k \<and> slot_stamp ?m (stage_addr st k) (lk_size st) = lap_stamp st k"
    if "lk_landed st \<le> k" "k < Suc ?n" for k
    using that old(3) [of k] new by (cases "k = ?n") (auto simp: nth_append)
  have "?sz < 4294967296" by (rule unat_bounds)
  then have "length pl < 4294967296" using fit by linarith
  then have "unat (slot_len s) = length pl" by (simp add: len(1) unat_of_nat take_bit_nat_eq_self)
  moreover have "unat (pr_tx_head (lk_tx st) + 1) = Suc ?n" using more o(2) by (simp add: unat_word_ariths)
  ultimately show ?thesis using ok stage fit old(1,2) more
    unfolding link_ok_def Let_def same m' by (auto simp: st' nth_append)
qed

lemma ok_refused:
  assumes ok: "link_ok st" and room: "\<not> pr_tx_head (lk_tx st) - pr_tx_tail (lk_tx st) \<ge> ucast (pr_rem_slots (lk_tx st))"
    and len: "length pl \<le> unat (rds_ring_payload_max (lk_size st))"
  shows "link_ok (st\<lparr>lk_smem := stage_slot (pr_tx_stage (lk_tx st) + tx_idx (lk_tx st) * unat (lk_size st)) (lk_size st) s pl
    (tx_gen (lk_tx st)) (lk_smem st)\<rparr>)" (is "link_ok ?st'")
proof -
  have "36 \<le> unat (lk_size st)" using ok by (simp add: link_ok_def Let_def)
  note old = staging [OF ok room payload_room [OF this len] refl]
  have "stage_addr ?st' = stage_addr st" "ring_addr ?st' = ring_addr st" "lap_stamp ?st' = lap_stamp st"
    by (simp_all add: stage_addr_def ring_addr_def lap_stamp_def fun_eq_iff)
  then show ?thesis using ok old unfolding link_ok_def Let_def by (auto simp: head_slot [OF ok])
qed

text \<open>A change of the receiver's memory inside the slot of the message that is landing.\<close>

lemma ring_slot_kept:
  assumes ok: "link_ok st" and i: "i < slots_of st" "i \<noteq> lk_landed st mod slots_of st"
    and same: "\<And>x. x < ring_addr st (lk_landed st) \<or> ring_addr st (lk_landed st) + unat (lk_size st) \<le> x \<Longrightarrow> m x = lk_rmem st x"
  shows "slot_stamp m (ring_addr st i) (lk_size st) = slot_stamp (lk_rmem st) (ring_addr st i) (lk_size st)"
proof -
  have o: "0 < slots_of st" "36 \<le> unat (lk_size st)" using ok by (simp_all add: link_ok_def Let_def)
  have "mem_read m (ring_addr st i) (unat (lk_size st)) = mem_read (lk_rmem st) (ring_addr st i) (unat (lk_size st))"
    using slot_apart [OF i(2,1), of "pr_rx_ring (lk_rx st)" "unat (lk_size st)"] i(1) o(1)
    by (intro mem_read_cong same) (auto simp: ring_addr_def)
  from stamp_same [OF this o(2)] show ?thesis .
qed

lemma landing_room:
  assumes "link_ok st" and "lk_landed st < length (lk_sent st)" and "length (lk_recv st) \<le> k" and "k < lk_landed st"
  shows "lk_landed st < k + slots_of st"
  using assms by (auto simp: link_ok_def Let_def)

lemma ok_land_part:
  assumes ok: "link_ok st" and l: "lk_landed st < length (lk_sent st)" and k: "k \<le> unat (lk_size st) - 4"
    and st': "st' = st\<lparr>lk_rmem := mem_write (lk_rmem st) (ring_addr st (lk_landed st))
      (take k (mem_read (lk_smem st) (stage_addr st (lk_landed st)) (unat (lk_size st))))\<rparr>"
  shows "link_ok st'"
proof -
  let ?a = "ring_addr st (lk_landed st)" and ?sz = "unat (lk_size st)"
  let ?m = "mem_write (lk_rmem st) ?a (take k (mem_read (lk_smem st) (stage_addr st (lk_landed st)) ?sz))"
  have o: "0 < slots_of st" "36 \<le> ?sz" using ok by (simp_all add: link_ok_def Let_def)
  have out: "x < ?a \<or> ?a + (?sz - 4) \<le> x \<Longrightarrow> ?m x = lk_rmem st x" for x using k by (intro mem_write_outside) auto
  have msg: "slot_message ?m (ring_addr st j) = lk_sent st ! j" if "length (lk_recv st) \<le> j" "j < lk_landed st" for j
    using addr_apart(2) [OF ok that(2) landing_room [OF ok l that]] o(2) by (intro landed_kept [OF ok that] out) auto
  have stamp: "slot_stamp ?m (ring_addr st i) (lk_size st) = slot_stamp (lk_rmem st) (ring_addr st i) (lk_size st)" if "i < slots_of st" for i
  proof (cases "i = lk_landed st mod slots_of st")
    case True
    then have "ring_addr st i = ?a" by (simp add: ring_addr_def)
    then show ?thesis unfolding slot_stamp_def mem_get_def rds_slot_gen_def
      using o(2) by (intro arg_cong [where f = "\<lambda>x. of_nat (le_dec x)"] mem_read_cong out) auto
  next
    case False
    then show ?thesis by (intro ring_slot_kept [OF ok that] out) auto
  qed
  have same: "stage_addr st' = stage_addr st" "ring_addr st' = ring_addr st" "lap_stamp st' = lap_stamp st"
    by (simp_all add: st' stage_addr_def ring_addr_def lap_stamp_def fun_eq_iff)
  show ?thesis using ok msg stamp unfolding link_ok_def Let_def same by (auto simp: st')
qed

lemma ok_land:
  assumes ok: "link_ok st" and l: "lk_landed st < length (lk_sent st)"
    and st': "st' = st\<lparr>lk_rmem := mem_write (lk_rmem st) (ring_addr st (lk_landed st))
        (mem_read (lk_smem st) (stage_addr st (lk_landed st)) (unat (lk_size st))),
      lk_landed := lk_landed st + 1\<rparr>"
  shows "link_ok st'"
proof -
  let ?a = "ring_addr st (lk_landed st)" and ?b = "stage_addr st (lk_landed st)" and ?sz = "unat (lk_size st)"
  let ?m = "mem_write (lk_rmem st) ?a (mem_read (lk_smem st) ?b ?sz)"
  have o: "0 < slots_of st" "36 \<le> ?sz" using ok by (simp_all add: link_ok_def Let_def)
  have out: "x < ?a \<or> ?a + ?sz \<le> x \<Longrightarrow> ?m x = lk_rmem st x" for x by (intro mem_write_outside) auto
  have cp: "mem_read ?m ?a ?sz = mem_read (lk_smem st) ?b ?sz" using mem_read_write_same [of "lk_rmem st" ?a "mem_read (lk_smem st) ?b ?sz"] by simp
  have staged: "slot_message (lk_smem st) ?b = lk_sent st ! lk_landed st" "slot_stamp (lk_smem st) ?b (lk_size st) = lap_stamp st (lk_landed st)"
    using staged_kept [OF ok order_refl l] by auto
  obtain s pl where sl: "lk_sent st ! lk_landed st = (s, pl)" by fastforce
  then have "(s, pl) \<in> set (lk_sent st)" using l nth_mem by metis
  then have "unat (slot_len s) + 36 \<le> ?sz" using ok by (auto simp: link_ok_def Let_def)
  then have new: "slot_message ?m ?a = lk_sent st ! lk_landed st" using message_kept [OF cp] staged(1) sl by simp
  have nst: "slot_stamp ?m ?a (lk_size st) = lap_stamp st (lk_landed st)" using stamp_same [OF cp o(2)] staged(2) by simp
  have msg: "slot_message ?m (ring_addr st j) = lk_sent st ! j" if "length (lk_recv st) \<le> j" "j < Suc (lk_landed st)" for j
  proof (cases "j = lk_landed st")
    case False
    then have j: "j < lk_landed st" using that(2) by simp
    show ?thesis using addr_apart(2) [OF ok j landing_room [OF ok l that(1) j]] by (intro landed_kept [OF ok that(1) j] out) auto
  qed (simp add: new)
  have stamp: "slot_stamp ?m (ring_addr st i) (lk_size st) = last_stamp (slots_of st) (Suc (lk_landed st)) i" if "i < slots_of st" for i
  proof (cases "i = lk_landed st mod slots_of st")
    case True
    then have "ring_addr st i = ?a" by (simp add: ring_addr_def)
    then show ?thesis using nst last_stamp_step [OF o(1) that, of "lk_landed st"] True by (simp add: lap_stamp_def)
  next
    case False
    then show ?thesis using ring_slot_kept [OF ok that False out] last_stamp_step [OF o(1) that, of "lk_landed st"] ok that
      by (simp add: link_ok_def Let_def)
  qed
  have same: "stage_addr st' = stage_addr st" "ring_addr st' = ring_addr st" "lap_stamp st' = lap_stamp st"
    by (simp_all add: st' stage_addr_def ring_addr_def lap_stamp_def fun_eq_iff)
  show ?thesis using ok l msg stamp unfolding link_ok_def Let_def same by (auto simp: st')
qed

lemma ok_take:
  assumes ok: "link_ok st" and a: "a = ring_addr st (unat (pr_rx_head (lk_rx st)))"
    and stamp: "slot_stamp (lk_rmem st) a (lk_size st) = lap_stamp st (unat (pr_rx_head (lk_rx st)))"
    and st': "st' = st\<lparr>lk_rx := (lk_rx st)\<lparr>pr_rx_head := pr_rx_head (lk_rx st) + 1\<rparr>,
      lk_recv := lk_recv st @ [slot_message (lk_rmem st) a]\<rparr>"
  shows "link_ok st' \<and> length (lk_recv st) < lk_landed st"
proof -
  let ?c = "length (lk_recv st)" and ?sl = "slots_of st"
  have o: "0 < ?sl" "unat (pr_rx_head (lk_rx st)) = ?c" "?c \<le> lk_landed st" "lk_landed st \<le> ?c + ?sl" "lk_landed st \<le> length (lk_sent st)"
    "length (lk_sent st) < 18446744073709551616" "lk_recv st = take ?c (lk_sent st)"
    using ok unfolding link_ok_def Let_def by auto
  have "ring_addr st (?c mod ?sl) = a" using o(2) by (simp add: a ring_addr_def)
  moreover have "slot_stamp (lk_rmem st) (ring_addr st (?c mod ?sl)) (lk_size st) = last_stamp ?sl (lk_landed st) (?c mod ?sl)"
    using ok o(1) by (simp add: link_ok_def Let_def)
  ultimately have c: "?c < lk_landed st" using stamp_tells [OF o(1,3,4)] stamp o(2) by (simp add: lap_stamp_def)
  have msg: "slot_message (lk_rmem st) a = lk_sent st ! ?c"
    using landed_kept [OF ok order_refl c] o(2) by (simp add: a)
  have "lk_recv st @ [slot_message (lk_rmem st) a] = take (Suc ?c) (lk_sent st)"
    using o(5,7) c msg by (simp add: take_Suc_conv_app_nth)
  moreover have "unat (pr_rx_head (lk_rx st) + 1) = Suc ?c" using o c by (simp add: unat_word_ariths)
  moreover have "stage_addr st' = stage_addr st" "ring_addr st' = ring_addr st" "lap_stamp st' = lap_stamp st"
    by (simp_all add: st' stage_addr_def ring_addr_def lap_stamp_def fun_eq_iff)
  ultimately show ?thesis using ok c unfolding link_ok_def Let_def by (auto simp: st')
qed

lemma ok_sender_memory:
  assumes ok: "link_ok st" and st': "st' = st\<lparr>lk_smem := m, lk_rmem := m', lk_credits := vs\<rparr>"
    and cell: "mem_get m (pr_credit_cell (lk_tx st)) 8 \<le> length (lk_recv st)" and vs: "\<forall>v \<in> set vs. unat v \<le> length (lk_recv st)"
    and stage: "\<And>x k. stage_addr st k \<le> x \<Longrightarrow> x < stage_addr st k + unat (lk_size st) \<Longrightarrow> m x = lk_smem st x"
    and ring: "\<And>x k. ring_addr st k \<le> x \<Longrightarrow> x < ring_addr st k + unat (lk_size st) \<Longrightarrow> m' x = lk_rmem st x"
  shows "link_ok st'"
proof -
  have o: "36 \<le> unat (lk_size st)" using ok by (simp add: link_ok_def Let_def)
  have "slot_stamp m' (ring_addr st i) (lk_size st) = slot_stamp (lk_rmem st) (ring_addr st i) (lk_size st)" for i
    by (rule stamp_same [OF mem_read_cong o]) (rule ring)
  moreover have "slot_message m (stage_addr st k) = lk_sent st ! k \<and> slot_stamp m (stage_addr st k) (lk_size st) = lap_stamp st k"
    if "lk_landed st \<le> k" "k < length (lk_sent st)" for k by (rule staged_kept [OF ok that]) (rule stage)
  moreover have "slot_message m' (ring_addr st k) = lk_sent st ! k" if "length (lk_recv st) \<le> k" "k < lk_landed st" for k
    by (rule landed_kept [OF ok that]) (rule ring)
  moreover have "stage_addr st' = stage_addr st" "ring_addr st' = ring_addr st" "lap_stamp st' = lap_stamp st"
    by (simp_all add: st' stage_addr_def ring_addr_def lap_stamp_def fun_eq_iff)
  ultimately show ?thesis using ok cell vs unfolding link_ok_def Let_def by (auto simp: st')
qed

lemma owned:
  assumes "link_ok st"
  shows "stage_addr st k \<le> x \<Longrightarrow> x < stage_addr st k + unat (lk_size st) \<Longrightarrow> sender_owned st x"
    and "ring_addr st k \<le> x \<Longrightarrow> x < ring_addr st k + unat (lk_size st) \<Longrightarrow> receiver_owned st x"
proof -
  have sl: "k mod slots_of st < slots_of st" using assms by (simp add: link_ok_def Let_def)
  show "stage_addr st k \<le> x \<Longrightarrow> x < stage_addr st k + unat (lk_size st) \<Longrightarrow> sender_owned st x"
    using slot_inside [OF sl, of "pr_tx_stage (lk_tx st)" "unat (lk_size st)"] by (auto simp: stage_addr_def sender_owned_def)
  show "ring_addr st k \<le> x \<Longrightarrow> x < ring_addr st k + unat (lk_size st) \<Longrightarrow> receiver_owned st x"
    using slot_inside [OF sl, of "pr_rx_ring (lk_rx st)" "unat (lk_size st)"] by (auto simp: ring_addr_def receiver_owned_def)
qed

lemma link_step: "ring_step st st' \<Longrightarrow> link_ok st \<Longrightarrow> link_ok st'"
proof (induction rule: ring_step.induct)
  case (ring_put p st s pl)
  note r = ok_refresh [OF ring_put(6,1)]
  show ?case
    by (rule ok_put [OF conjunct1 [OF r], where s = s and pl = pl]) (use ring_put(2-5) in simp_all)
next
  case (ring_full st)
  then show ?case using ok_refresh by blast
next
  case (ring_refused p st pl s)
  note r = ok_refresh [OF ring_refused(4,1)]
  show ?case using ok_refused [OF conjunct1 [OF r], where s = s and pl = pl] ring_refused(2,3) by simp
next
  case (ring_land_part st k)
  then show ?case using ok_land_part [OF _ _ _ refl] by simp
next
  case (ring_land st)
  then show ?case using ok_land [OF _ _ refl] by simp
next
  case (ring_take a st)
  then show ?case using ok_take [OF _ _ _ refl] by blast
next
  case (ring_credit st)
  then show ?case by (simp add: link_ok_def Let_def stage_addr_def ring_addr_def lap_stamp_def)
next
  case (ring_credit_land st v vs w)
  let ?m = "mem_write (lk_smem st) (pr_credit_cell (lk_tx st)) (le_enc 8 (unat w))"
  have v: "unat w \<le> length (lk_recv st)" "\<forall>v \<in> set vs. unat v \<le> length (lk_recv st)"
    using ring_credit_land by (simp_all add: link_ok_def Let_def word_le_nat_alt)
  have "mem_get ?m (pr_credit_cell (lk_tx st)) 8 = unat w"
    using mem_read_write_same [of "lk_smem st" "pr_credit_cell (lk_tx st)" "le_enc 8 (unat w)"] by (simp add: mem_get_def le_dec_enc)
  moreover have "?m x = lk_smem st x" if "stage_addr st k \<le> x" "x < stage_addr st k + unat (lk_size st)" for x k
    using stage_apart_cell [OF ring_credit_land(4), of k] that by (intro mem_write_outside) auto
  ultimately show ?case using v
    by (intro ok_sender_memory [OF ring_credit_land(4), where m = ?m and m' = "lk_rmem st" and vs = vs]) simp_all
next
  case (ring_ack v st)
  then show ?case using ok_tail [of st v] by (simp add: link_ok_def Let_def word_less_nat_alt word_le_nat_alt)
next
  case (ring_app st m m')
  have "mem_get m (pr_credit_cell (lk_tx st)) 8 \<le> length (lk_recv st)" "\<forall>v \<in> set (lk_credits st). unat v \<le> length (lk_recv st)"
    using ring_app(3) cell_kept [of st m] ring_app(1) by (simp_all add: link_ok_def Let_def sender_owned_def)
  then show ?case
    by (intro ok_sender_memory [OF ring_app(3), where m = m and m' = m' and vs = "lk_credits st"])
      (auto intro: ring_app(1,2) owned [OF ring_app(3)])
qed

lemma link_start: "ring_start st \<Longrightarrow> link_ok st"
proof -
  assume st: "ring_start st"
  have "slot_stamp (lk_rmem st) (ring_addr st i) (lk_size st) = 0" if "i < slots_of st" for i
  proof -
    have "mem_read (lk_rmem st) (rds_slot_gen (ring_addr st i) (lk_size st)) 4 = replicate 4 0"
    proof (rule nth_equalityI)
      fix j assume "j < length (mem_read (lk_rmem st) (rds_slot_gen (ring_addr st i) (lk_size st)) 4)"
      then have j: "j < 4" by simp
      have "receiver_owned st (rds_slot_gen (ring_addr st i) (lk_size st) + j)"
        using j st slot_inside [OF that, of "pr_rx_ring (lk_rx st)" "unat (lk_size st)"] that
        by (auto simp: receiver_owned_def rds_slot_gen_def ring_addr_def ring_start_def)
      then show "mem_read (lk_rmem st) (rds_slot_gen (ring_addr st i) (lk_size st)) 4 ! j = replicate 4 0 ! j"
        using j st by (simp add: nth_mem_read ring_start_def)
    qed simp
    then show ?thesis by (simp add: slot_stamp_def mem_get_def numeral_eq_Suc)
  qed
  then show ?thesis using st by (auto simp: link_ok_def Let_def ring_start_def last_stamp_def unat_eq_0 [symmetric])
qed

lemma link_reach: "ring_reach st st' \<Longrightarrow> link_ok st'"
  by (induction rule: ring_reach.induct) (auto intro: link_start link_step)

end
