(* ===== verification/Rds_Ring_Refine.thy ===== *)
theory Rds_Ring_Refine
  imports Rds_Ring_Protocol Rds_Observe
begin

text \<open>
  The eager ring's code implements the ring protocol.  \<^verbatim>\<open>rds_ring_send\<close> on a ready peer is a step
  of the sending end, posted to the kernel as the RDMA write the protocol's wire carries; a turn of
  \<^verbatim>\<open>rds_ring_poll_peer\<close> is a step of the receiving end and hands the application the next message
  that was sent.  Hence one poll drains everything that has landed.
\<close>

section \<open>The two ends\<close>

definition tx_view :: "rds_peer \<Rightarrow> u64 \<times> u64 \<times> addr \<times> addr \<times> u32" where
  "tx_view p = (pr_tx_head p, pr_tx_tail p, pr_tx_stage p, pr_credit_cell p, pr_rem_slots p)"

definition rx_view :: "rds_peer \<Rightarrow> addr \<times> u64" where
  "rx_view p = (pr_rx_ring p, pr_rx_head p)"

text \<open>The endpoint is at the sending end of the link, with peer \<open>p\<close>.\<close>

definition sending :: "ring_link \<Rightarrow> rds_peer \<Rightarrow> rds_ep \<Rightarrow> bool" where
  "sending st p ep \<longleftrightarrow> tx_view p = tx_view (lk_tx st) \<and> mem ep = lk_smem st \<and> ring_slot_size ep = lk_size st"

text \<open>The endpoint is at the receiving end, with peer \<open>a\<close> in its table.\<close>

definition receiving :: "ring_link \<Rightarrow> fi_addr \<Rightarrow> rds_ep \<Rightarrow> bool" where
  "receiving st a ep \<longleftrightarrow>
     mem ep = lk_rmem st \<and> ring_slots ep = pr_rem_slots (lk_tx st) \<and> ring_slot_size ep = lk_size st \<and>
     rds_peer_find ep a = Some a \<and>
     (case peers ep a of None \<Rightarrow> False | Some p \<Rightarrow> pr_addr p = a \<and> rx_view p = rx_view (lk_rx st))"

text \<open>What a polling turn does with the message it found.\<close>

definition take_slot :: "os \<Rightarrow> fi_addr \<Rightarrow> rds_peer \<Rightarrow> rds_ring_slot \<times> byte list \<Rightarrow> rds_ep \<Rightarrow> rds_ep option" where
  "take_slot os a p msg ep =
     (let p1 = (if slot_ack (fst msg) > pr_tx_tail p then p\<lparr>pr_tx_tail := slot_ack (fst msg)\<rparr> else p);
          ep1 = rds_ring_deliver os p1 (fst msg) (snd msg) (peer_put a p1 ep)
      in map_option (\<lambda>p2.
           let p3 = p2\<lparr>pr_rx_head := pr_rx_head p2 + 1\<rparr>; ep2 = peer_put a p3 ep1
           in if pr_rx_head p3 - pr_rx_credit_sent p3 \<ge> ucast (ring_slots ep2 div 2)
              then rds_ring_return_credit os a ep2 else ep2) (peers ep1 a))"

lemma poll_step_take:
  assumes "peers ep a = Some p"
  shows "ring_poll_step os a ep =
    (if rx_slot_ready ep p then take_slot os a p (slot_message (mem ep) (rx_slot_addr ep p)) ep else None)"
  using assms by (simp add: ring_poll_step_def take_slot_def slot_message_def Let_def split: option.splits)

section \<open>Samples\<close>

definition sample_peer :: rds_peer where
  "sample_peer = \<lparr>pr_addr = 1, pr_sa = 9, pr_state = RDS_PEER_READY, pr_connect_start_ms = 0, pr_rx_ring = 4096,
     pr_rx_ring_mr = None, pr_rx_head = 0, pr_rx_credit_sent = 0, pr_credit_cell = 1024, pr_credit_mr = None,
     pr_rem_ring_cookie = 5, pr_rem_credit_cookie = 6, pr_rem_slots = 4, pr_rem_slot_size = 64, pr_tx_head = 0,
     pr_tx_tail = 0, pr_tx_stage = 8192, pr_credit_tx = 2048\<rparr>"

definition sample_link :: ring_link where
  "sample_link = \<lparr>lk_smem = (\<lambda>_. 0), lk_tx = sample_peer, lk_rmem = (\<lambda>_. 0), lk_rx = sample_peer, lk_size = 64,
     lk_sent = [], lk_landed = 0, lk_recv = [], lk_credits = []\<rparr>"

definition ring_ep :: rds_ep where
  "ring_ep = sample_dom\<lparr>eager_rdma := True, ring_slots := 4, ring_slot_size := 64, ring_max_peers := 8, ring_payload := 28,
     peer_hash := (\<lambda>_. [1]), peer_lru := [1], peers := [1 \<mapsto> sample_peer], peer_cnt := 1\<rparr>"

section \<open>The link in order\<close>

lemma le_dec_zero: "le_dec (replicate n 0) = 0"
  by (induction n) simp_all

lemma mem_get_zero: "mem_get (\<lambda>_. 0) a n = 0"
proof -
  have "mem_read (\<lambda>_. 0) a n = replicate n 0" by (rule nth_equalityI) (simp_all add: nth_mem_read)
  then show ?thesis by (simp add: mem_get_def le_dec_zero)
qed

lemma sample_start: "ring_start sample_link"
  by (simp add: ring_start_def sample_link_def sample_peer_def receiver_owned_def mem_get_zero)

text \<open>
  C7.  The eager ring delivers every message once, whole and in order.  Whatever the interleaving
  of sends, hardware placement, polling and credit, and whatever the applications do with the rest
  of their memory: what the receiver has taken is a prefix of what was sent; at most as many
  messages as the ring has slots are under way; and the stamp the receiver polls for is in place
  exactly when the next message has fully landed.
\<close>

theorem ring_delivers_in_order:
  assumes "ring_reach st0 st"
  shows "lk_recv st = take (length (lk_recv st)) (lk_sent st) \<and> length (lk_sent st) \<le> length (lk_recv st) + slots_of st \<and>
    (slot_stamp (lk_rmem st) (ring_addr st (length (lk_recv st))) (lk_size st) = lap_stamp st (length (lk_recv st)) \<longleftrightarrow>
       length (lk_recv st) < lk_landed st)"
proof -
  let ?c = "length (lk_recv st)" and ?sl = "slots_of st"
  from link_reach [OF assms] have ok: "link_ok st" .
  then have o: "0 < ?sl" "?c \<le> lk_landed st" "lk_landed st \<le> length (lk_sent st)" "length (lk_sent st) \<le> ?c + ?sl"
    "lk_recv st = take ?c (lk_sent st)" unfolding link_ok_def Let_def by auto
  have "ring_addr st (?c mod ?sl) = ring_addr st ?c" by (simp add: ring_addr_def)
  then have "slot_stamp (lk_rmem st) (ring_addr st ?c) (lk_size st) = last_stamp ?sl (lk_landed st) (?c mod ?sl)"
    using ok o(1) mod_less_divisor [OF o(1), of ?c] unfolding link_ok_def Let_def by metis
  then show ?thesis using stamp_tells [OF o(1,2)] o by (simp add: lap_stamp_def)
qed


definition sample_slot :: rds_ring_slot where
  "sample_slot = \<lparr>slot_len = 2, slot_flags = 0, slot_op = RDS_OP_EAGER, slot_tag = 0, slot_data = 0, slot_ack = 0\<rparr>"

lemma sample_landed:
  "\<exists>st. ring_reach sample_link st \<and> lk_sent st = [(sample_slot, [7, 8])] \<and> lk_landed st = 1 \<and> lk_recv st = [] \<and>
     lk_rx st = sample_peer \<and> pr_rem_slots (lk_tx st) = 4 \<and> lk_size st = 64"
proof -
  let ?p = "rds_ring_refresh_credit (lk_smem sample_link) (lk_tx sample_link)"
  have p: "?p = sample_peer" by (simp add: rds_ring_refresh_credit_def sample_link_def mem_get_zero)
  from ring_more [OF ring_init [OF sample_start] ring_put [OF refl, where s = sample_slot and pl = "[7, 8]"], unfolded p]
  obtain st where st: "ring_reach sample_link st" "lk_sent st = [(sample_slot, [7, 8])]" "lk_landed st = 0" "lk_recv st = []"
    "lk_rx st = sample_peer" "pr_rem_slots (lk_tx st) = 4" "lk_size st = 64"
    by (fastforce simp: sample_peer_def sample_link_def sample_slot_def rds_ring_payload_max_def word_le_nat_alt)
  from ring_more [OF st(1) ring_land] st(2-7) show ?thesis by fastforce
qed

theorem ring_delivers_in_order_witness:
  "\<exists>st. ring_reach sample_link st \<and> lk_landed st = 1 \<and> lk_recv st = [] \<and>
     slot_stamp (lk_rmem st) (ring_addr st 0) (lk_size st) = lap_stamp st 0"
proof -
  obtain st where st: "ring_reach sample_link st" "lk_landed st = 1" "lk_recv st = []" using sample_landed by blast
  from ring_delivers_in_order [OF st(1)] st show ?thesis by auto
qed

section \<open>Sending\<close>

lemma tx_view_refresh:
  assumes "tx_view p = tx_view q"
  shows "tx_view (rds_ring_refresh_credit m p) = tx_view (rds_ring_refresh_credit m q)"
  using assms by (simp add: rds_ring_refresh_credit_def tx_view_def Let_def)

lemma tx_view_same:
  assumes "tx_view p = tx_view q"
  shows "tx_idx p = tx_idx q" and "tx_gen p = tx_gen q" and "pr_tx_stage p = pr_tx_stage q" and "pr_tx_head p = pr_tx_head q"
    and "pr_tx_tail p = pr_tx_tail q" and "pr_rem_slots p = pr_rem_slots q"
    and "tx_view (p\<lparr>pr_tx_head := h\<rparr>) = tx_view (q\<lparr>pr_tx_head := h\<rparr>)"
  using assms by (simp_all add: tx_view_def tx_idx_def tx_gen_def)

lemma refresh_frame:
  "pr_sa (rds_ring_refresh_credit m p) = pr_sa p" "pr_rem_ring_cookie (rds_ring_refresh_credit m p) = pr_rem_ring_cookie p"
  "pr_rem_slot_size (rds_ring_refresh_credit m p) = pr_rem_slot_size p" "pr_rx_head (rds_ring_refresh_credit m p) = pr_rx_head p"
  by (simp_all add: rds_ring_refresh_credit_def Let_def)

text \<open>The slot a send fills and the write it posts.\<close>

definition sent_slot :: "nat \<Rightarrow> u64 \<Rightarrow> u64 \<Rightarrow> u64 \<Rightarrow> bool \<Rightarrow> u8 \<Rightarrow> rds_peer \<Rightarrow> rds_ring_slot" where
  "sent_slot tlen tag data flags tagged op p =
     \<lparr>slot_len = of_nat tlen, slot_flags = send_flags tagged flags, slot_op = op, slot_tag = tag, slot_data = data,
      slot_ack = pr_rx_head p\<rparr>"

definition slot_write :: "ring_link \<Rightarrow> rds_peer \<Rightarrow> sock_ip \<times> rdma_args" where
  "slot_write st p = (let n = length (lk_sent st) in
     (pr_sa p, \<lparr>ra_cookie = pr_rem_ring_cookie p, ra_remote_addr = of_nat (n mod slots_of st * unat (lk_size st)),
        ra_remote_bytes = of_nat (unat (lk_size st)), ra_local = [iov (stage_addr st n) (unat (lk_size st))],
        ra_flags = RDS_RDMA_READWRITE, ra_user_token = 0\<rparr>))"

text \<open>A send on a ring with room, through the result of its one RDMA request.\<close>

lemma ring_send_post:
  assumes "p1 = rds_ring_refresh_credit (mem ep) p" and "\<not> pr_tx_head p1 - pr_tx_tail p1 \<ge> ucast (pr_rem_slots p1)"
    and "stage = pr_tx_stage p1 + tx_idx p1 * unat (ring_slot_size ep)"
    and "ra = \<lparr>ra_cookie = pr_rem_ring_cookie p1, ra_remote_addr = of_nat (tx_idx p1 * unat (pr_rem_slot_size p1)),
      ra_remote_bytes = of_nat (unat (ring_slot_size ep)), ra_local = [iov stage (unat (ring_slot_size ep))],
      ra_flags = RDS_RDMA_READWRITE, ra_user_token = 0\<rparr>"
    and "e = os_rdma os (hist ep) (pr_sa p1) ra"
    and "m = stage_slot stage (ring_slot_size ep) (sent_slot tlen tag data flags tagged op p1) (copy (mem ep)) (tx_gen p1) (mem ep)"
    and "p2 = (if e = 0 then p1\<lparr>pr_tx_head := pr_tx_head p1 + 1\<rparr> else p1)"
    and "ring_send_ready os tlen copy a p tag data context flags tagged gen_comp op ep = (ret, ep')"
  shows "ret = sock_ret e \<and> mem ep' = m \<and> peers ep' a = Some p2 \<and> ring_slot_size ep' = ring_slot_size ep \<and>
    hist ep' = SysRdma (pr_sa p1) ra e # hist ep"
proof -
  have "rds_post_rdma os (pr_sa p1) (pr_rem_ring_cookie p1) (of_nat (tx_idx p1 * unat (pr_rem_slot_size p1)))
      [iov stage (unat (ring_slot_size ep))] True False 0 (peer_put a p1 ep\<lparr>mem := m\<rparr>) =
      (sock_ret e, peer_put a p1 ep\<lparr>mem := m, hist := SysRdma (pr_sa p1) ra e # hist ep\<rparr>)"
    by (simp add: rds_post_rdma_def sys_rdma_def Let_def iov_sum_def peer_put_def assms(4,5))
  with assms(8) assms(2) show ?thesis
    unfolding ring_send_ready_def Let_def assms(1) [symmetric] assms(3) [symmetric] sent_slot_def [symmetric] assms(6) [symmetric]
    by (cases "e = 0") (auto simp: assms(7) peer_put_def rds_cq_write_tx_def cq_push_def)
qed

text \<open>
  C8.  A ring send is a step of the protocol's sending end.  If the ring is full nothing is staged;
  otherwise the next staging slot is filled, and if the kernel takes the request, exactly one RDMA
  write goes out, without a notification, from that staging slot to the matching slot of the peer's
  ring, and the message counts as sent.  If the kernel refuses, or the ring is full, nothing was
  sent and the staging slot is free for the next attempt.
\<close>

theorem ring_send_simulates:
  assumes "ring_reach st0 st" and "sending st p ep" and "pr_rem_slot_size p = lk_size st"
    and "length (copy (mem ep)) = tlen" and "tlen \<le> unat (rds_ring_payload_max (lk_size st))"
    and "length (lk_sent st) < 18446744073709551615"
    and "ring_send_ready os tlen copy a p tag data context flags tagged gen_comp op ep = (ret, ep')"
  shows "\<exists>st' p'. ring_reach st0 st' \<and> peers ep' a = Some p' \<and> sending st' p' ep' \<and>
    lk_sent st' = lk_sent st @ (if ret = 0 then [(sent_slot tlen tag data flags tagged op p, copy (mem ep))] else []) \<and>
    sent_rdma (hist ep') = sent_rdma (hist ep) @ (if ret = 0 then [slot_write st p] else [])"
proof -
  let ?p = "rds_ring_refresh_credit (mem ep) p" and ?q = "rds_ring_refresh_credit (lk_smem st) (lk_tx st)"
  have m: "mem ep = lk_smem st" "ring_slot_size ep = lk_size st" and v: "tx_view ?p = tx_view ?q"
    using assms(2) tx_view_refresh [of p "lk_tx st"] by (simp_all add: sending_def)
  note same = tx_view_same [OF v]
  from link_reach [OF assms(1)] have ok: "link_ok (st\<lparr>lk_tx := ?q\<rparr>)" using ok_refresh by blast
  have n: "stage_addr (st\<lparr>lk_tx := ?q\<rparr>) = stage_addr st" "slots_of (st\<lparr>lk_tx := ?q\<rparr>) = slots_of st"
    by (simp_all add: stage_addr_def fun_eq_iff rds_ring_refresh_credit_def Let_def)
  let ?n = "length (lk_sent st)"
  have idx: "tx_idx ?q = ?n mod slots_of st" "pr_tx_stage ?q + ?n mod slots_of st * unat (lk_size st) = stage_addr st ?n"
    using ok head_slot(1) [OF ok] n by (simp_all add: tx_idx_def link_ok_def Let_def)
  show ?thesis
  proof (cases "pr_tx_head ?q - pr_tx_tail ?q \<ge> ucast (pr_rem_slots ?q)")
    case True
    then have r: "ret = - FI_EAGAIN" "ep' = peer_put a ?p ep" using assms(7) by (auto simp: ring_send_ready_def Let_def same)
    then show ?thesis using ring_more [OF assms(1) ring_full] m v
      by (intro exI [of _ "st\<lparr>lk_tx := ?q\<rparr>"] exI [of _ ?p]) (simp add: peer_put_def sending_def)
  next
    case False
    let ?s = "sent_slot tlen tag data flags tagged op p"
    let ?m = "stage_slot (stage_addr st ?n) (lk_size st) ?s (copy (mem ep)) (tx_gen ?q) (lk_smem st)"
    define e where "e = os_rdma os (hist ep) (pr_sa ?p) (snd (slot_write st p))"
    define p' where "p' = (if e = 0 then ?p\<lparr>pr_tx_head := pr_tx_head ?p + 1\<rparr> else ?p)"
    have w: "slot_write st p = (pr_sa ?p, snd (slot_write st p))" by (simp add: slot_write_def Let_def refresh_frame)
    have "ret = sock_ret e \<and> mem ep' = ?m \<and> peers ep' a = Some p' \<and> ring_slot_size ep' = ring_slot_size ep \<and>
        hist ep' = SysRdma (pr_sa ?p) (snd (slot_write st p)) e # hist ep"
      by (rule ring_send_post [OF refl _ _ _ e_def _ p'_def assms(7), where stage = "stage_addr st ?n"])
        (use False assms(3) m(2) in \<open>simp_all add: same idx [unfolded m(1) [symmetric]] slot_write_def Let_def refresh_frame sent_slot_def m(1) [symmetric]\<close>)
    then have r: "ret = sock_ret e" "mem ep' = ?m" "peers ep' a = Some p'" "ring_slot_size ep' = lk_size st"
      "sent_rdma (hist ep') = sent_rdma (hist ep) @ (if e = 0 then [slot_write st p] else [])" using m(2) w by auto
    let ?st' = "st\<lparr>lk_tx := ?q\<lparr>pr_tx_head := pr_tx_head ?q + (if e = 0 then 1 else 0)\<rparr>, lk_smem := ?m,
      lk_sent := lk_sent st @ (if e = 0 then [(?s, copy (mem ep))] else [])\<rparr>"
    have len: "slot_len ?s = of_nat (length (copy (mem ep)))" "length (copy (mem ep)) \<le> unat (rds_ring_payload_max (lk_size st))"
      using assms(4,5) by (simp_all add: sent_slot_def)
    have "ring_step st ?st'"
      using ring_put [OF refl False len assms(6)] ring_refused [OF refl False len(2), of ?s] by (simp add: idx)
    moreover have "tx_view p' = tx_view (lk_tx ?st')" using v same(7) by (simp add: p'_def same(4))
    ultimately show ?thesis using ring_more [OF assms(1)] r
      by (intro exI [of _ ?st'] exI [of _ p']) (simp add: sending_def)
  qed
qed


theorem ring_send_simulates_witness:
  "\<exists>st' ep'. ring_send_ready calm_os 2 (\<lambda>_. [7, 8]) 1 sample_peer 0 0 0 0 False False RDS_OP_EAGER ring_ep = (0, ep') \<and>
     ring_reach sample_link st' \<and> mem ep' = lk_smem st' \<and> lk_sent st' = [(sample_slot, [7, 8])] \<and>
     sent_rdma (hist ep') = [slot_write sample_link sample_peer]"
proof -
  obtain ret ep' where r: "ring_send_ready calm_os 2 (\<lambda>_. [7, 8]) 1 sample_peer 0 0 0 0 False False RDS_OP_EAGER ring_ep = (ret, ep')"
    by fastforce
  have z: "ret = 0" using r
    by (auto simp: ring_send_ready_def rds_ring_refresh_credit_def rds_post_rdma_def sys_rdma_def ring_ep_def sample_peer_def
        sample_dom_def calm_os_def mem_get_zero word_le_nat_alt Let_def split: prod.splits if_splits)
  have s: "sent_slot 2 0 0 0 False RDS_OP_EAGER sample_peer = sample_slot"
    by (simp add: sent_slot_def sample_slot_def sample_peer_def send_flags_def has_flag_def)
  have "sending sample_link sample_peer ring_ep" "pr_rem_slot_size sample_peer = lk_size sample_link"
    by (simp_all add: sending_def sample_link_def ring_ep_def sample_dom_def sample_peer_def)
  from ring_send_simulates [OF ring_init [OF sample_start] this _ _ _ r] z s show ?thesis using r
    by (fastforce simp: sending_def sample_link_def ring_ep_def sample_dom_def rds_ring_payload_max_def)
qed

section \<open>What a delivery leaves alone\<close>

definition posted_rx :: "rds_ep \<Rightarrow> rds_rx_entry set" where
  "posted_rx ep = set (rx_posted_msg ep) \<union> set (rx_posted_tag ep)"

definition peer_key :: "rds_peer \<Rightarrow> fi_addr \<times> (addr \<times> u64) \<times> addr" where
  "peer_key p = (pr_addr p, rx_view p, pr_credit_tx p)"

definition rx_kept :: "rds_ep \<Rightarrow> rds_ep \<Rightarrow> bool" where
  "rx_kept ep ep' \<longleftrightarrow>
     peer_hash ep' = peer_hash ep \<and> (\<forall>b. map_option peer_key (peers ep' b) = map_option peer_key (peers ep b)) \<and>
     posted_rx ep' \<subseteq> posted_rx ep \<and>
     (\<forall>x. (\<forall>rx \<in> posted_rx ep. \<not> in_iov x (rx_iov rx)) \<longrightarrow> mem ep' x = mem ep x)"

definition rx_state :: "rds_ep \<Rightarrow> memory \<times> (fi_addr \<Rightarrow> rds_peer option) \<times> (nat \<Rightarrow> fi_addr list) \<times> rds_rx_entry list \<times> rds_rx_entry list" where
  "rx_state ep = (mem ep, peers ep, peer_hash ep, rx_posted_msg ep, rx_posted_tag ep)"

interpretation rx_quiet: quiet_observer rx_state
  by unfold_locales (simp_all add: rx_state_def)

lemma kept_quiet: "rx_state ep' = rx_state ep \<Longrightarrow> rx_kept ep ep'"
  by (simp add: rx_state_def rx_kept_def posted_rx_def)

lemma kept_refl: "rx_kept ep ep"
  by (rule kept_quiet) simp

lemma kept_trans: "rx_kept e1 e2 \<Longrightarrow> rx_kept e2 e3 \<Longrightarrow> rx_kept e1 e3"
  unfolding rx_kept_def by (simp add: subset_iff)

lemma find_kept:
  assumes "peer_hash ep' = peer_hash ep" and "\<And>b. map_option pr_addr (peers ep' b) = map_option pr_addr (peers ep b)"
  shows "rds_peer_find ep' a = rds_peer_find ep a"
proof -
  have "(case peers ep' b of None \<Rightarrow> False | Some p \<Rightarrow> pr_addr p = a) = (case peers ep b of None \<Rightarrow> False | Some p \<Rightarrow> pr_addr p = a)" for b
    using assms(2) [of b] by (auto split: option.splits)
  then show ?thesis by (simp add: rds_peer_find_def assms(1))
qed

lemma kept_find: "rx_kept ep ep' \<Longrightarrow> rds_peer_find ep' a = rds_peer_find ep a"
proof (rule find_kept)
  fix b assume k: "rx_kept ep ep'"
  then have "map_option peer_key (peers ep' b) = map_option peer_key (peers ep b)" by (simp add: rx_kept_def)
  then show "map_option pr_addr (peers ep' b) = map_option pr_addr (peers ep b)"
    by (cases "peers ep' b"; cases "peers ep b") (auto simp: peer_key_def)
qed (simp add: rx_kept_def)

lemma kept_deliver_eager:
  assumes "rx \<in> posted_rx ep" and "rx_kept ep ep1" and "mem ep1 = mem ep"
  shows "rx_kept ep (rds_deliver_eager rx hdr pl src ep1)"
proof -
  obtain n m where c: "ofi_copy_to_iov (rx_iov rx) 0 pl (length pl) (mem ep1) = (n, m)" by fastforce
  have "m x = mem ep1 x" if "\<not> in_iov x (rx_iov rx)" for x using ofi_copy_to_iov_outside [OF that, of 0 pl "length pl" "mem ep1"] c by simp
  moreover have "rx_state (rds_deliver_eager rx hdr pl src ep1) = rx_state (ep1\<lparr>mem := m\<rparr>)"
    by (simp add: rds_deliver_eager_def c Let_def)
  ultimately show ?thesis using assms by (simp add: rx_kept_def posted_rx_def rx_state_def)
qed

lemma kept_match:
  assumes "rds_match_posted hdr src tg ep = (r, ep1)"
  shows "rx_kept ep ep1 \<and> mem ep1 = mem ep \<and> (\<forall>rx. r = Some rx \<longrightarrow> rx \<in> posted_rx ep)"
  using assms by (auto simp: rds_match_posted_def rx_kept_def posted_rx_def split: option.splits if_splits dest!: take_first_Some)

lemma kept_enqueue: "rx_kept ep (rds_enqueue_unexp os hdr pl src fi tg ep)"
proof -
  have u: "rx_state (e\<lparr>rx_unexp_tag := us\<rparr>) = rx_state e" "rx_state (e\<lparr>rx_unexp_msg := us\<rparr>) = rx_state e" for e us
    by (simp_all add: rx_state_def)
  show ?thesis
    by (rule kept_quiet) (auto simp: rds_enqueue_unexp_def Let_def u split: option.splits prod.splits dest!: rx_quiet.ob_ep_alloc)
qed

lemma kept_message: "rx_kept ep (rds_handle_message os hdr pl src fi ep)"
proof -
  obtain r ep1 where m: "rds_match_posted hdr fi (hdr_tagged hdr) ep = (r, ep1)" by fastforce
  note k = kept_match [OF m]
  show ?thesis
  proof (cases r)
    case None
    then show ?thesis using m kept_trans [OF conjunct1 [OF k] kept_enqueue] by (simp add: rds_handle_message_def Let_def)
  next
    case (Some rx)
    then show ?thesis using m k kept_deliver_eager [of rx ep ep1] kept_trans [OF conjunct1 [OF k] kept_quiet [OF rx_quiet.ob_start_rndzv_read]]
      by (simp add: rds_handle_message_def Let_def)
  qed
qed

lemma kept_ctrl:
  assumes "rds_peer_find ep a = Some a" and "peers ep a = Some p"
  shows "rx_kept ep (rds_ring_handle_ctrl os hdr pl a ep)"
  using assms by (auto simp: rds_ring_handle_ctrl_def Let_def kept_refl rds_ring_adopt_def peer_put_def rds_ring_send_ctrl_def
      rx_kept_def posted_rx_def peer_key_def rx_view_def)

lemma kept_inbound:
  assumes "rds_peer_find ep a = Some a" and "peers ep a = Some p"
  shows "rx_kept ep (rds_handle_inbound os hdr pl src a ep)"
  using kept_ctrl [OF assms] kept_message kept_quiet [OF rx_quiet.ob_handle_fin] by (simp add: rds_handle_inbound_def kept_refl)


lemma return_credit_effect:
  assumes "peers ep a = Some p" and "ep' = rds_ring_return_credit os a ep"
  shows "peer_hash ep' = peer_hash ep \<and> posted_rx ep' = posted_rx ep \<and>
    (\<exists>p'. peers ep' = (peers ep)(a \<mapsto> p') \<and> peer_key p' = peer_key p) \<and>
    (\<forall>x. x < pr_credit_tx p \<or> pr_credit_tx p + 8 \<le> x \<longrightarrow> mem ep' x = mem ep x)"
proof -
  let ?m = "mem_write (mem ep) (pr_credit_tx p) (le_enc 8 (unat (pr_rx_head p)))"
  obtain ret ep2 where r: "rds_post_rdma os (pr_sa p) (pr_rem_credit_cookie p) 0 [iov (pr_credit_tx p) 8] True False 0 (ep\<lparr>mem := ?m\<rparr>) = (ret, ep2)"
    by fastforce
  from rx_quiet.ob_post_rdma [OF r] have "rx_state ep2 = rx_state (ep\<lparr>mem := ?m\<rparr>)" .
  then have q: "mem ep2 = ?m" "peers ep2 = peers ep" "peer_hash ep2 = peer_hash ep" "posted_rx ep2 = posted_rx ep"
    by (simp_all add: rx_state_def posted_rx_def)
  define p' where "p' = (if ret = 0 then p\<lparr>pr_rx_credit_sent := pr_rx_head p\<rparr> else p)"
  have "peer_hash ep' = peer_hash ep" "posted_rx ep' = posted_rx ep" "peers ep' = (peers ep)(a \<mapsto> p')" "mem ep' = ?m"
    using assms r q by (auto simp: rds_ring_return_credit_def peer_put_def p'_def posted_rx_def fun_upd_idem)
  moreover have "peer_key p' = peer_key p" by (simp add: p'_def peer_key_def rx_view_def)
  ultimately show ?thesis by (auto intro!: mem_write_outside)
qed

lemma deliver_effect:
  assumes p: "peers ep a = Some p" "pr_addr p = a" "rds_peer_find ep a = Some a" and p1: "peer_key p1 = peer_key p"
    and ep1: "ep1 = rds_ring_deliver os p1 slot pl (peer_put a p1 ep)"
  shows "\<exists>p2. peers ep1 a = Some p2 \<and> peer_key p2 = peer_key p \<and> rds_peer_find ep1 a = Some a \<and> posted_rx ep1 \<subseteq> posted_rx ep \<and>
    (\<forall>x. (\<forall>rx \<in> posted_rx ep. \<not> in_iov x (rx_iov rx)) \<longrightarrow> mem ep1 x = mem ep x)"
proof -
  let ?ep0 = "peer_put a p1 ep"
  have e0: "peers ?ep0 a = Some p1" "mem ?ep0 = mem ep" "posted_rx ?ep0 = posted_rx ep" by (simp_all add: peer_put_def posted_rx_def)
  have a1: "pr_addr p1 = a" using p1 p(2) by (simp add: peer_key_def)
  then have f0: "rds_peer_find ?ep0 a = Some a" using find_kept [of ?ep0 ep a] p by (simp add: peer_put_def)
  have k: "rx_kept ?ep0 ep1" unfolding ep1 rds_ring_deliver_def using kept_inbound [OF f0 e0(1)] a1 by (simp add: kept_refl)
  then have "map_option peer_key (peers ep1 a) = Some (peer_key p)" using e0(1) p1 unfolding rx_kept_def by (metis option.simps(9))
  then show ?thesis using k e0 f0 kept_find [OF k, of a] by (auto simp: rx_kept_def)
qed

text \<open>A turn that takes a message moves the receive head by one and writes only to posted buffers and to the credit word.\<close>

lemma take_slot_effect:
  assumes p: "peers ep a = Some p" "pr_addr p = a" "rds_peer_find ep a = Some a"
  shows "\<exists>ep' p'. take_slot os a p msg ep = Some ep' \<and> peers ep' a = Some p' \<and>
    peer_key p' = (a, (pr_rx_ring p, pr_rx_head p + 1), pr_credit_tx p) \<and> rds_peer_find ep' a = Some a \<and>
    posted_rx ep' \<subseteq> posted_rx ep \<and>
    (\<forall>x. (\<forall>rx \<in> posted_rx ep. \<not> in_iov x (rx_iov rx)) \<longrightarrow> x < pr_credit_tx p \<or> pr_credit_tx p + 8 \<le> x \<longrightarrow> mem ep' x = mem ep x)"
proof -
  define p1 where "p1 = (if slot_ack (fst msg) > pr_tx_tail p then p\<lparr>pr_tx_tail := slot_ack (fst msg)\<rparr> else p)"
  define ep1 where "ep1 = rds_ring_deliver os p1 (fst msg) (snd msg) (peer_put a p1 ep)"
  have k1: "peer_key p1 = peer_key p" by (simp add: p1_def peer_key_def rx_view_def)
  from deliver_effect [OF p k1 ep1_def] obtain p2 where p2: "peers ep1 a = Some p2" "peer_key p2 = peer_key p" and
    k: "rds_peer_find ep1 a = Some a" "posted_rx ep1 \<subseteq> posted_rx ep"
    "\<And>x. (\<forall>rx \<in> posted_rx ep. \<not> in_iov x (rx_iov rx)) \<Longrightarrow> mem ep1 x = mem ep x" by blast
  define p3 where "p3 = p2\<lparr>pr_rx_head := pr_rx_head p2 + 1\<rparr>"
  define ep2 where "ep2 = peer_put a p3 ep1"
  have k3: "peer_key p3 = (a, (pr_rx_ring p, pr_rx_head p + 1), pr_credit_tx p)" "pr_addr p3 = pr_addr p2" "pr_credit_tx p3 = pr_credit_tx p"
    "pr_rx_head p3 = pr_rx_head p2 + 1" "pr_rx_credit_sent p3 = pr_rx_credit_sent p2"
    using p2(2) p(2) by (simp_all add: p3_def peer_key_def rx_view_def)
  have e2: "peers ep2 a = Some p3" "mem ep2 = mem ep1" "posted_rx ep2 = posted_rx ep1" by (simp_all add: ep2_def peer_put_def posted_rx_def)
  have f2: "rds_peer_find ep2 a = Some a"
    using find_kept [of ep2 ep1 a] k(1) k3(2) p2(1) by (simp add: ep2_def peer_put_def)
  define ep3 where "ep3 = rds_ring_return_credit os a ep2"
  note c = return_credit_effect [OF e2(1) ep3_def]
  then obtain p4 where p4: "peers ep3 = (peers ep2)(a \<mapsto> p4)" "peer_key p4 = peer_key p3" by blast
  have f3: "rds_peer_find ep3 a = Some a"
    using find_kept [of ep3 ep2 a] f2 c p4 e2(1) by (simp add: peer_key_def)
  have t: "take_slot os a p msg ep = Some (if pr_rx_head p3 - pr_rx_credit_sent p3 \<ge> ucast (ring_slots ep2 div 2) then ep3 else ep2)"
    by (simp add: take_slot_def Let_def p1_def [symmetric] ep1_def [symmetric] p2(1) p3_def [symmetric] ep2_def [symmetric] ep3_def [symmetric] k3)
  show ?thesis
  proof (cases "pr_rx_head p3 - pr_rx_credit_sent p3 \<ge> ucast (ring_slots ep2 div 2)")
    case True
    then show ?thesis using t p4 k3 f3 c k(2,3) e2 by (intro exI [of _ ep3] exI [of _ p4]) auto
  next
    case False
    then show ?thesis using t k3 f2 k(2,3) e2 by (intro exI [of _ ep2] exI [of _ p3]) auto
  qed
qed

section \<open>Polling\<close>

text \<open>The application's posted buffers and the outgoing credit word lie outside the ring.\<close>

definition clear_of_ring :: "ring_link \<Rightarrow> fi_addr \<Rightarrow> rds_ep \<Rightarrow> bool" where
  "clear_of_ring st a ep \<longleftrightarrow>
     (\<forall>x. receiver_owned st x \<longrightarrow> (\<forall>rx \<in> posted_rx ep. \<not> in_iov x (rx_iov rx)) \<and>
        (\<forall>p. peers ep a = Some p \<longrightarrow> x < pr_credit_tx p \<or> pr_credit_tx p + 8 \<le> x))"

lemma ready_when_landed:
  assumes "link_ok st" and "receiving st a ep" and "peers ep a = Some p"
  shows "rx_slot_ready ep p \<longleftrightarrow> length (lk_recv st) < lk_landed st"
    and "length (lk_recv st) < lk_landed st \<Longrightarrow> slot_message (mem ep) (rx_slot_addr ep p) = lk_sent st ! length (lk_recv st)"
    and "rx_slot_addr ep p = ring_addr st (unat (pr_rx_head (lk_rx st)))" and "rx_want ep p = lap_stamp st (unat (pr_rx_head (lk_rx st)))"
proof -
  let ?c = "length (lk_recv st)" and ?sl = "slots_of st"
  have o: "0 < ?sl" "?c \<le> lk_landed st" "lk_landed st \<le> ?c + ?sl" "unat (pr_rx_head (lk_rx st)) = ?c"
    using assms(1) unfolding link_ok_def Let_def by auto
  have r: "pr_rx_head p = pr_rx_head (lk_rx st)" "pr_rx_ring p = pr_rx_ring (lk_rx st)" "ring_slots ep = pr_rem_slots (lk_tx st)"
    "ring_slot_size ep = lk_size st" "mem ep = lk_rmem st" using assms(2,3) by (simp_all add: receiving_def rx_view_def)
  show ad: "rx_slot_addr ep p = ring_addr st (unat (pr_rx_head (lk_rx st)))" and w: "rx_want ep p = lap_stamp st (unat (pr_rx_head (lk_rx st)))"
    by (simp_all add: rx_slot_addr_def ring_addr_def rx_want_def lap_stamp_def r)
  have "ring_addr st (?c mod ?sl) = ring_addr st ?c" by (simp add: ring_addr_def)
  then have "slot_stamp (lk_rmem st) (ring_addr st ?c) (lk_size st) = last_stamp ?sl (lk_landed st) (?c mod ?sl)"
    using assms(1) mod_less_divisor [OF o(1), of ?c] unfolding link_ok_def Let_def by metis
  then show "rx_slot_ready ep p \<longleftrightarrow> ?c < lk_landed st"
    using stamp_tells [OF o(1,2,3)] by (simp add: rx_slot_ready_def ad w o(4) r lap_stamp_def slot_stamp_def)
  show "?c < lk_landed st \<Longrightarrow> slot_message (mem ep) (rx_slot_addr ep p) = lk_sent st ! ?c"
    using assms(1) by (simp add: ad o(4) r(5) link_ok_def Let_def)
qed

lemma poll_turn:
  assumes reach: "ring_reach st0 st" and rcv: "receiving st a ep" and clear: "clear_of_ring st a ep"
    and p: "peers ep a = Some p" and c: "length (lk_recv st) < lk_landed st"
  shows "\<exists>ep' st'. take_slot os a p (lk_sent st ! length (lk_recv st)) ep = Some ep' \<and> ring_reach st0 st' \<and> receiving st' a ep' \<and>
    clear_of_ring st' a ep' \<and> lk_recv st' = lk_recv st @ [lk_sent st ! length (lk_recv st)] \<and> lk_sent st' = lk_sent st \<and>
    lk_landed st' = lk_landed st \<and> slots_of st' = slots_of st"
proof -
  let ?msg = "lk_sent st ! length (lk_recv st)"
  note ok = link_reach [OF reach] and rd = ready_when_landed [OF link_reach [OF reach] rcv p]
  have pa: "pr_addr p = a" "rds_peer_find ep a = Some a" "rx_view p = rx_view (lk_rx st)" "mem ep = lk_rmem st"
    using rcv p by (simp_all add: receiving_def)
  from take_slot_effect [OF p pa(1,2)] obtain ep' p' where t: "take_slot os a p ?msg ep = Some ep'" "peers ep' a = Some p'"
    "peer_key p' = (a, (pr_rx_ring p, pr_rx_head p + 1), pr_credit_tx p)" "rds_peer_find ep' a = Some a" "posted_rx ep' \<subseteq> posted_rx ep"
    "\<And>x. (\<forall>rx \<in> posted_rx ep. \<not> in_iov x (rx_iov rx)) \<Longrightarrow> x < pr_credit_tx p \<or> pr_credit_tx p + 8 \<le> x \<Longrightarrow> mem ep' x = mem ep x" by blast
  have "ring_poll_step os a ep = Some ep'" using poll_step_take [OF p] rd(1,2) c t(1) by simp
  from set_obs.ob_poll_step [OF this] have g: "ring_slots ep' = ring_slots ep" "ring_slot_size ep' = ring_slot_size ep"
    by (simp_all add: settings_def)
  let ?st1 = "st\<lparr>lk_rx := (lk_rx st)\<lparr>pr_rx_head := pr_rx_head (lk_rx st) + 1\<rparr>, lk_recv := lk_recv st @ [?msg]\<rparr>"
  let ?st2 = "?st1\<lparr>lk_rmem := mem ep'\<rparr>"
  have own: "receiver_owned ?st1 = receiver_owned st" "receiver_owned ?st2 = receiver_owned st" by (simp_all add: receiver_owned_def fun_eq_iff)
  have "rx_slot_ready ep p" using rd(1) c by simp
  then have stamp: "slot_stamp (lk_rmem st) (ring_addr st (unat (pr_rx_head (lk_rx st)))) (lk_size st) = lap_stamp st (unat (pr_rx_head (lk_rx st)))"
    using rcv by (simp add: rx_slot_ready_def rd(3,4) slot_stamp_def receiving_def)
  have "ring_step st ?st1" using ring_take [OF refl stamp] rd(2) [OF c] by (simp add: rd(3) pa(4))
  moreover have same: "mem ep' x = mem ep x" if "receiver_owned st x" for x
    using clear that p by (intro t(6)) (auto simp: clear_of_ring_def)
  then have "ring_step ?st1 ?st2" using ring_app [of ?st1 "lk_smem st" "mem ep'"] pa(4) own by simp
  ultimately have "ring_reach st0 ?st2" using reach by (blast intro: ring_more)
  moreover have "receiving ?st2 a ep'"
    using t(2-4) g rcv pa(3) by (simp add: receiving_def rx_view_def peer_key_def)
  moreover have "clear_of_ring ?st2 a ep'"
    using clear t(2,3,5) p unfolding clear_of_ring_def own by (auto simp: peer_key_def)
  ultimately show ?thesis using t(1) by (intro exI [of _ ep'] exI [of _ ?st2]) simp
qed

text \<open>
  C9.  A polling turn is a step of the protocol's receiving end.  The turn finds a message exactly
  when one has fully landed that was not taken yet; it then hands over the oldest such message,
  header and payload as they were sent, and afterwards the endpoint is at the receiving end of the
  link in which this message has been taken, whatever delivering it did to the posted buffers.
\<close>

theorem ring_poll_simulates:
  assumes "ring_reach st0 st" and "receiving st a ep" and "clear_of_ring st a ep" and "peers ep a = Some p"
  shows "ring_poll_step os a ep =
      (if length (lk_recv st) < lk_landed st then take_slot os a p (lk_sent st ! length (lk_recv st)) ep else None) \<and>
    (length (lk_recv st) < lk_landed st \<longrightarrow>
      (\<exists>ep' st'. ring_poll_step os a ep = Some ep' \<and> ring_reach st0 st' \<and> receiving st' a ep' \<and> clear_of_ring st' a ep' \<and>
         lk_recv st' = lk_recv st @ [lk_sent st ! length (lk_recv st)] \<and> lk_sent st' = lk_sent st))"
proof -
  note rd = ready_when_landed [OF link_reach [OF assms(1)] assms(2,4)]
  have e: "ring_poll_step os a ep =
      (if length (lk_recv st) < lk_landed st then take_slot os a p (lk_sent st ! length (lk_recv st)) ep else None)"
    using poll_step_take [OF assms(4)] rd(1,2) by simp
  then show ?thesis using poll_turn [OF assms(1-4)] by fastforce
qed

lemma sample_receiving:
  assumes "lk_rx st = sample_peer" and "pr_rem_slots (lk_tx st) = 4" and "lk_size st = 64"
  shows "receiving st 1 (ring_ep\<lparr>mem := lk_rmem st\<rparr>) \<and> clear_of_ring st 1 (ring_ep\<lparr>mem := lk_rmem st\<rparr>) \<and>
    peers (ring_ep\<lparr>mem := lk_rmem st\<rparr>) 1 = Some sample_peer"
  using assms by (auto simp: receiving_def ring_ep_def sample_peer_def rx_view_def rds_peer_find_def clear_of_ring_def receiver_owned_def
      posted_rx_def sample_dom_def)

theorem ring_poll_simulates_witness:
  "\<exists>(st :: ring_link) ep' st'. ring_poll_step calm_os 1 (ring_ep\<lparr>mem := lk_rmem st\<rparr>) = Some ep' \<and> ring_reach sample_link st' \<and>
     receiving st' 1 ep' \<and> lk_recv st' = [(sample_slot, [7, 8])]"
proof -
  obtain st where st: "ring_reach sample_link st" "lk_sent st = [(sample_slot, [7, 8])]" "lk_landed st = 1" "lk_recv st = []"
    "lk_rx st = sample_peer" "pr_rem_slots (lk_tx st) = 4" "lk_size st = 64" using sample_landed by blast
  note r = sample_receiving [OF st(5-7)]
  have "length (lk_recv st) < lk_landed st" using st(3,4) by simp
  with ring_poll_simulates [OF st(1) conjunct1 [OF r] conjunct1 [OF conjunct2 [OF r]] conjunct2 [OF conjunct2 [OF r]], of calm_os, THEN conjunct2]
  obtain ep' st' where "ring_poll_step calm_os 1 (ring_ep\<lparr>mem := lk_rmem st\<rparr>) = Some ep'" "ring_reach sample_link st'"
    "receiving st' 1 ep'" "lk_recv st' = lk_recv st @ [lk_sent st ! length (lk_recv st)]" by blast
  moreover have "lk_recv st @ [lk_sent st ! length (lk_recv st)] = [(sample_slot, [7, 8])]" using st(2,4) by simp
  ultimately show ?thesis by metis
qed

text \<open>
  C10.  One poll drains the ring.  The polling loop ends after at most as many turns as the ring has
  slots, with the next stamp not in place; by then the receiver has taken every message that had
  landed when the poll began, and more turns would change nothing.
\<close>

theorem ring_poll_drains:
  assumes "ring_reach st0 st" and "receiving st a ep" and "clear_of_ring st a ep"
  shows "\<exists>ep' st'. ring_reach st0 st' \<and> receiving st' a ep' \<and> lk_recv st' = take (lk_landed st) (lk_sent st) \<and>
    ring_poll_step os a ep' = None \<and>
    (\<forall>fuel \<ge> slots_of st. ring_poll_loop fuel os a drained ep = (drained \<or> length (lk_recv st) < lk_landed st, ep'))"
proof -
  have fuel: "lk_landed st - length (lk_recv st) \<le> slots_of st"
    using link_reach [OF assms(1)] unfolding link_ok_def Let_def by auto
  have "\<exists>ep' st'. ring_reach st0 st' \<and> receiving st' a ep' \<and> lk_recv st' = take (lk_landed st) (lk_sent st) \<and>
    ring_poll_step os a ep' = None \<and>
    (\<forall>fuel \<ge> lk_landed st - length (lk_recv st). ring_poll_loop fuel os a drained ep = (drained \<or> length (lk_recv st) < lk_landed st, ep'))"
    using assms
  proof (induction "lk_landed st - length (lk_recv st)" arbitrary: st ep drained)
    case 0
    obtain p where p: "peers ep a = Some p" using 0(3) by (auto simp: receiving_def split: option.splits)
    note rd = ready_when_landed [OF link_reach [OF 0(2)] 0(3) p]
    have l: "length (lk_recv st) = lk_landed st" "lk_recv st = take (length (lk_recv st)) (lk_sent st)"
      using 0(1) link_reach [OF 0(2)] unfolding link_ok_def Let_def by auto
    then have n: "ring_poll_step os a ep = None" using poll_step_take [OF p] rd(1) by simp
    have "ring_poll_loop fuel os a drained ep = (drained, ep)" for fuel by (cases fuel) (simp_all add: n)
    then show ?case using 0(2,3) l n by (intro exI [of _ ep] exI [of _ st]) auto
  next
    case (Suc k)
    obtain p where p: "peers ep a = Some p" using Suc(4) by (auto simp: receiving_def split: option.splits)
    have c: "length (lk_recv st) < lk_landed st" using Suc(2) by simp
    note rd = ready_when_landed [OF link_reach [OF Suc(3)] Suc(4) p]
    from poll_turn [OF Suc(3-5) p c] obtain ep1 st1 where s: "take_slot os a p (lk_sent st ! length (lk_recv st)) ep = Some ep1"
      "ring_reach st0 st1" "receiving st1 a ep1" "clear_of_ring st1 a ep1" "lk_recv st1 = lk_recv st @ [lk_sent st ! length (lk_recv st)]"
      "lk_sent st1 = lk_sent st" "lk_landed st1 = lk_landed st" by blast
    have n: "ring_poll_step os a ep = Some ep1" using poll_step_take [OF p] rd(1,2) c s(1) by simp
    have "k = lk_landed st1 - length (lk_recv st1)" using Suc(2) s(5,7) by simp
    from Suc(1) [OF this s(2-4), of True] obtain ep' st' where e: "ring_reach st0 st'" "receiving st' a ep'"
      "lk_recv st' = take (lk_landed st) (lk_sent st)" "ring_poll_step os a ep' = None"
      "\<forall>fuel \<ge> k. ring_poll_loop fuel os a True ep1 = (True, ep')" using \<open>k = _\<close> s(6,7) by auto
    have "ring_poll_loop fuel os a drained ep = (True, ep')" if "fuel \<ge> Suc k" for fuel
      using that e(5) n by (cases fuel) auto
    then show ?case using e c Suc(2) by (intro exI [of _ ep'] exI [of _ st']) auto
  qed
  then show ?thesis using fuel by (meson order_trans)
qed


theorem ring_poll_drains_witness:
  "\<exists>(st :: ring_link) ep' st'. ring_poll_loop 5 calm_os 1 False (ring_ep\<lparr>mem := lk_rmem st\<rparr>) = (True, ep') \<and> ring_reach sample_link st' \<and>
     receiving st' 1 ep' \<and> lk_recv st' = [(sample_slot, [7, 8])]"
proof -
  obtain st where st: "ring_reach sample_link st" "lk_sent st = [(sample_slot, [7, 8])]" "lk_landed st = 1" "lk_recv st = []"
    "lk_rx st = sample_peer" "pr_rem_slots (lk_tx st) = 4" "lk_size st = 64" using sample_landed by blast
  note r = sample_receiving [OF st(5-7)]
  from ring_poll_drains [OF st(1) conjunct1 [OF r] conjunct1 [OF conjunct2 [OF r]], of calm_os False] st obtain ep' st' where
    "ring_reach sample_link st'" "receiving st' 1 ep'" "lk_recv st' = [(sample_slot, [7, 8])]" and
    l: "\<forall>fuel \<ge> 4. ring_poll_loop fuel calm_os 1 False (ring_ep\<lparr>mem := lk_rmem st\<rparr>) = (True, ep')" by auto
  moreover have "ring_poll_loop 5 calm_os 1 False (ring_ep\<lparr>mem := lk_rmem st\<rparr>) = (True, ep')" by (rule l [rule_format]) simp
  ultimately show ?thesis by metis
qed

end
