(* ===== verification/Util_Cq.thy ===== *)
theory Util_Cq
  imports Util_Av
begin

text \<open>
  The completion queue of the utility layer (\<^verbatim>\<open>prov/util/src/util_cq.c\<close>, the inline part in
  \<^verbatim>\<open>include/ofi_util.h\<close>) over its circular buffer (\<^verbatim>\<open>include/ofi_rbuf.h\<close>).  Completions go into the
  slots of the buffer while it has room; a completion that does not fit and every error go to an
  auxiliary list, with a marked slot in the buffer to keep their place.  The read and write
  counters are 64-bit words that wrap.  An allocation is a boolean argument; a failed assertion of
  the code is the result \<open>None\<close>.
\<close>

section \<open>Circular buffer\<close>

text \<open>The error entry of \<^verbatim>\<open>fi_eq.h\<close> extends the tagged entry, as the cast in the reader relies on.\<close>

record fi_cq_tagged_entry =
  te_context :: nat
  te_flags :: u64
  te_len :: nat
  te_buf :: addr
  te_data :: u64
  te_tag :: u64

record fi_cq_err_entry = fi_cq_tagged_entry +
  er_olen :: nat
  er_err :: int
  er_prov_errno :: int
  er_data :: "byte list"
  er_src_addr :: fi_addr

record util_comp_cirq =
  cirq_size :: u64
  size_mask :: u64
  rcnt :: u64
  wcnt :: u64
  cirq_buf :: "fi_cq_tagged_entry list"

definition ofi_cirque_isempty :: "util_comp_cirq \<Rightarrow> bool" where
  "ofi_cirque_isempty q \<longleftrightarrow> wcnt q = rcnt q"

definition ofi_cirque_usedcnt :: "util_comp_cirq \<Rightarrow> u64" where
  "ofi_cirque_usedcnt q = wcnt q - rcnt q"

definition ofi_cirque_freecnt :: "util_comp_cirq \<Rightarrow> u64" where
  "ofi_cirque_freecnt q = cirq_size q - ofi_cirque_usedcnt q"

definition ofi_cirque_isfull :: "util_comp_cirq \<Rightarrow> bool" where
  "ofi_cirque_isfull q \<longleftrightarrow> ofi_cirque_freecnt q \<le> 0"

definition ofi_cirque_rindex :: "util_comp_cirq \<Rightarrow> nat" where
  "ofi_cirque_rindex q = unat (rcnt q AND size_mask q)"

definition ofi_cirque_windex :: "util_comp_cirq \<Rightarrow> nat" where
  "ofi_cirque_windex q = unat (wcnt q AND size_mask q)"

definition ofi_cirque_tindex :: "util_comp_cirq \<Rightarrow> nat" where
  "ofi_cirque_tindex q = unat ((wcnt q - 1) AND size_mask q)"

definition ofi_cirque_head :: "util_comp_cirq \<Rightarrow> fi_cq_tagged_entry" where
  "ofi_cirque_head q = cirq_buf q ! ofi_cirque_rindex q"

definition ofi_cirque_discard :: "util_comp_cirq \<Rightarrow> util_comp_cirq" where
  "ofi_cirque_discard q = q\<lparr>rcnt := rcnt q + 1\<rparr>"

definition ofi_cirque_commit :: "util_comp_cirq \<Rightarrow> util_comp_cirq" where
  "ofi_cirque_commit q = q\<lparr>wcnt := wcnt q + 1\<rparr>"

text \<open>The position of the highest bit set, which the compiler's \<^verbatim>\<open>clz\<close> counts from the other end.\<close>

fun hi_bit :: "nat \<Rightarrow> nat" where
  "hi_bit n = (if n < 2 then 0 else Suc (hi_bit (n div 2)))"

declare hi_bit.simps [simp del]

definition roundup_power_of_two :: "u64 \<Rightarrow> u64" where
  "roundup_power_of_two n = (if n < 2 then n else push_bit (hi_bit (unat (n - 1))) 2)"

definition zero_entry :: fi_cq_tagged_entry where
  "zero_entry = \<lparr>te_context = 0, te_flags = 0, te_len = 0, te_buf = 0, te_data = 0, te_tag = 0\<rparr>"

definition util_comp_cirq_create :: "bool \<Rightarrow> u64 \<Rightarrow> util_comp_cirq option" where
  "util_comp_cirq_create ok sz =
     (if \<not> ok then None
      else let r = roundup_power_of_two sz
           in Some \<lparr>cirq_size = r, size_mask = r - 1, rcnt = 0, wcnt = 0, cirq_buf = replicate (unat r) zero_entry\<rparr>)"

section \<open>Queue\<close>

abbreviation (input) UTIL_FLAG_AUX :: u64 where "UTIL_FLAG_AUX \<equiv> 0x2000000000000000"
abbreviation (input) UTIL_DEF_CQ_SIZE :: u64 where "UTIL_DEF_CQ_SIZE \<equiv> 1024"
abbreviation (input) FI_EAVAIL :: int where "FI_EAVAIL \<equiv> 259"
abbreviation (input) FI_ENOMSG :: int where "FI_ENOMSG \<equiv> 42"

datatype fi_cq_format = FI_CQ_FORMAT_UNSPEC | FI_CQ_FORMAT_CONTEXT | FI_CQ_FORMAT_MSG | FI_CQ_FORMAT_DATA | FI_CQ_FORMAT_TAGGED

datatype cq_out =
    CqEntry nat
  | CqMsgEntry nat u64 nat
  | CqDataEntry nat u64 nat addr u64
  | CqTaggedEntry nat u64 nat addr u64 u64

fun read_entry :: "fi_cq_format \<Rightarrow> 'a fi_cq_tagged_entry_scheme \<Rightarrow> cq_out" where
  "read_entry FI_CQ_FORMAT_UNSPEC e = CqEntry (te_context e)"
| "read_entry FI_CQ_FORMAT_CONTEXT e = CqEntry (te_context e)"
| "read_entry FI_CQ_FORMAT_MSG e = CqMsgEntry (te_context e) (te_flags e) (te_len e)"
| "read_entry FI_CQ_FORMAT_DATA e = CqDataEntry (te_context e) (te_flags e) (te_len e) (te_buf e) (te_data e)"
| "read_entry FI_CQ_FORMAT_TAGGED e = CqTaggedEntry (te_context e) (te_flags e) (te_len e) (te_buf e) (te_data e) (te_tag e)"

record util_cq_aux_entry =
  ax_slot :: nat
  ax_comp :: fi_cq_err_entry
  ax_src :: fi_addr

record util_cq =
  cirq :: util_comp_cirq
  cq_srcs :: "fi_addr list option"
  aux_queue :: "util_cq_aux_entry list"
  cq_format :: fi_cq_format
  cq_err_data :: "byte list option"
  cq_users :: int

text \<open>The assertion that at most one slot is free guards the overflow path.\<close>

definition util_cq_insert_aux :: "fi_cq_err_entry \<Rightarrow> fi_addr \<Rightarrow> util_cq \<Rightarrow> util_cq" where
  "util_cq_insert_aux c src cq =
     (let q = (if \<not> ofi_cirque_isfull (cirq cq) then ofi_cirque_commit (cirq cq) else cirq cq);
          t = ofi_cirque_tindex q
      in cq\<lparr>cirq := q\<lparr>cirq_buf := (cirq_buf q)[t := (cirq_buf q ! t)\<lparr>te_flags := UTIL_FLAG_AUX\<rparr>]\<rparr>,
            aux_queue := aux_queue cq @ [\<lparr>ax_slot = t, ax_comp = c, ax_src = src\<rparr>]\<rparr>)"

definition ofi_cq_write_overflow :: "bool \<Rightarrow> fi_cq_tagged_entry \<Rightarrow> fi_addr \<Rightarrow> util_cq \<Rightarrow> (int \<times> util_cq) option" where
  "ofi_cq_write_overflow ok e src cq =
     (if \<not> ofi_cirque_freecnt (cirq cq) \<le> 1 then None
      else if \<not> ok then Some (- FI_ENOMEM, cq)
      else Some (0, util_cq_insert_aux (fi_cq_tagged_entry.extend e
             \<lparr>er_olen = 0, er_err = 0, er_prov_errno = 0, er_data = [], er_src_addr = 0\<rparr>) src cq))"

text \<open>The two allocations of an error: the entry and, if it carries any, its data.\<close>

definition util_cq_insert_error :: "bool \<Rightarrow> bool \<Rightarrow> fi_cq_err_entry \<Rightarrow> util_cq \<Rightarrow> (int \<times> util_cq) option" where
  "util_cq_insert_error ok ok_data e cq =
     (if er_err e = 0 then None
      else if \<not> ok then Some (- FI_ENOMEM, cq)
      else if er_data e \<noteq> [] \<and> \<not> ok_data then Some (- FI_ENOMEM, cq)
      else Some (0, util_cq_insert_aux e 0 cq))"

definition ofi_cq_write_error :: "bool \<Rightarrow> bool \<Rightarrow> fi_cq_err_entry \<Rightarrow> util_cq \<Rightarrow> (int \<times> util_cq) option" where
  "ofi_cq_write_error ok ok_data e cq = util_cq_insert_error ok ok_data e cq"

definition ofi_cq_write_error_peek :: "bool \<Rightarrow> u64 \<Rightarrow> nat \<Rightarrow> util_cq \<Rightarrow> (int \<times> util_cq) option" where
  "ofi_cq_write_error_peek ok tag context cq =
     ofi_cq_write_error ok True \<lparr>te_context = context, te_flags = 0x408, te_len = 0, te_buf = 0, te_data = 0, te_tag = tag,
       er_olen = 0, er_err = FI_ENOMSG, er_prov_errno = - FI_ENOMSG, er_data = [], er_src_addr = 0\<rparr> cq"

definition ofi_cq_write_error_trunc :: "bool \<Rightarrow> fi_cq_tagged_entry \<Rightarrow> nat \<Rightarrow> util_cq \<Rightarrow> (int \<times> util_cq) option" where
  "ofi_cq_write_error_trunc ok e olen cq =
     ofi_cq_write_error ok True (fi_cq_tagged_entry.extend e
       \<lparr>er_olen = olen, er_err = FI_ETRUNC, er_prov_errno = - FI_ETRUNC, er_data = [], er_src_addr = 0\<rparr>) cq"

definition ofi_cq_write_entry :: "fi_cq_tagged_entry \<Rightarrow> util_cq \<Rightarrow> util_cq" where
  "ofi_cq_write_entry e cq =
     (let q = cirq cq
      in cq\<lparr>cirq := ofi_cirque_commit (q\<lparr>cirq_buf := (cirq_buf q)[ofi_cirque_windex q := e]\<rparr>)\<rparr>)"

text \<open>Only a queue of a domain with \<^verbatim>\<open>FI_SOURCE\<close> has the array of sources this writes to; without it the pointer is null.\<close>

definition ofi_cq_write_src_entry :: "fi_cq_tagged_entry \<Rightarrow> fi_addr \<Rightarrow> util_cq \<Rightarrow> util_cq option" where
  "ofi_cq_write_src_entry e src cq =
     (case cq_srcs cq of
        None \<Rightarrow> None
      | Some ss \<Rightarrow> Some (ofi_cq_write_entry e (cq\<lparr>cq_srcs := Some (ss[ofi_cirque_windex (cirq cq) := src])\<rparr>)))"

definition ofi_cq_write :: "bool \<Rightarrow> fi_cq_tagged_entry \<Rightarrow> util_cq \<Rightarrow> (int \<times> util_cq) option" where
  "ofi_cq_write ok e cq =
     (if ofi_cirque_freecnt (cirq cq) > 1 then Some (0, ofi_cq_write_entry e cq)
      else ofi_cq_write_overflow ok e FI_ADDR_NOTAVAIL cq)"

definition ofi_cq_write_src :: "bool \<Rightarrow> fi_cq_tagged_entry \<Rightarrow> fi_addr \<Rightarrow> util_cq \<Rightarrow> (int \<times> util_cq) option" where
  "ofi_cq_write_src ok e src cq =
     (if ofi_cirque_freecnt (cirq cq) > 1 then map_option (\<lambda>cq'. (0, cq')) (ofi_cq_write_src_entry e src cq)
      else ofi_cq_write_overflow ok e src cq)"

text \<open>
  The same writers behind the table a peer provider is given; the table with the source is
  chosen when the queue has the array.
\<close>

definition util_peer_cq_write :: "bool \<Rightarrow> fi_cq_tagged_entry \<Rightarrow> fi_addr \<Rightarrow> util_cq \<Rightarrow> (int \<times> util_cq) option" where
  "util_peer_cq_write ok e src cq =
     (if ofi_cirque_freecnt (cirq cq) > 1 then Some (0, ofi_cq_write_entry e cq)
      else ofi_cq_write_overflow ok e FI_ADDR_NOTAVAIL cq)"

definition util_peer_cq_write_src :: "bool \<Rightarrow> fi_cq_tagged_entry \<Rightarrow> fi_addr \<Rightarrow> util_cq \<Rightarrow> (int \<times> util_cq) option" where
  "util_peer_cq_write_src ok e src cq =
     (if ofi_cirque_freecnt (cirq cq) > 1 then map_option (\<lambda>cq'. (0, cq')) (ofi_cq_write_src_entry e src cq)
      else ofi_cq_write_overflow ok e src cq)"

definition util_peer_cq_writeerr :: "bool \<Rightarrow> bool \<Rightarrow> fi_cq_err_entry \<Rightarrow> util_cq \<Rightarrow> (int \<times> util_cq) option" where
  "util_peer_cq_writeerr ok ok_data e cq = util_cq_insert_error ok ok_data e cq"

definition ofi_peer_cq_write :: "bool \<Rightarrow> fi_cq_tagged_entry \<Rightarrow> fi_addr \<Rightarrow> util_cq \<Rightarrow> (int \<times> util_cq) option" where
  "ofi_peer_cq_write ok e src cq =
     (if cq_srcs cq = None then util_peer_cq_write ok e src cq else util_peer_cq_write_src ok e src cq)"

section \<open>Reading\<close>

text \<open>Behind the head of the auxiliary list: its slot goes when no other entry shares it.\<close>

definition drop_aux :: "util_cq \<Rightarrow> util_cq" where
  "drop_aux cq =
     (let cq1 = cq\<lparr>aux_queue := tl (aux_queue cq)\<rparr>; cq2 = cq1\<lparr>cirq := ofi_cirque_discard (cirq cq)\<rparr>
      in (case aux_queue cq1 of
            [] \<Rightarrow> cq2
          | ax # _ \<Rightarrow> if ax_slot ax \<noteq> ofi_cirque_rindex (cirq cq) then cq2 else cq1))"

definition slot_src :: "util_cq \<Rightarrow> nat \<Rightarrow> fi_addr" where
  "slot_src cq i = (case cq_srcs cq of None \<Rightarrow> FI_ADDR_NOTAVAIL | Some ss \<Rightarrow> ss ! i)"

definition aux_src :: "util_cq \<Rightarrow> util_cq_aux_entry \<Rightarrow> fi_addr" where
  "aux_src cq ax = (case cq_srcs cq of None \<Rightarrow> FI_ADDR_NOTAVAIL | Some _ \<Rightarrow> ax_src ax)"

fun read_loop :: "nat \<Rightarrow> nat \<Rightarrow> util_cq \<Rightarrow> (int \<times> (cq_out \<times> fi_addr) list \<times> util_cq) option" where
  "read_loop 0 i cq = Some (int i, [], cq)"
| "read_loop (Suc k) i cq =
     (let e = ofi_cirque_head (cirq cq)
      in if te_flags e AND UTIL_FLAG_AUX = 0
         then map_option (\<lambda>(r, os, cq'). (r, (read_entry (cq_format cq) e, slot_src cq (ofi_cirque_rindex (cirq cq))) # os, cq'))
                (read_loop k (Suc i) (cq\<lparr>cirq := ofi_cirque_discard (cirq cq)\<rparr>))
         else (case aux_queue cq of
                 [] \<Rightarrow> None
               | ax # _ \<Rightarrow>
                   if ax_slot ax \<noteq> ofi_cirque_rindex (cirq cq) then None
                   else if er_err (ax_comp ax) \<noteq> 0 then Some (if i = 0 then - FI_EAVAIL else int i, [], cq)
                   else map_option (\<lambda>(r, os, cq'). (r, (read_entry (cq_format cq) (ax_comp ax), aux_src cq ax) # os, cq'))
                          (read_loop k (Suc i) (drop_aux cq))))"

definition ofi_cq_read_entries :: "nat \<Rightarrow> util_cq \<Rightarrow> (int \<times> (cq_out \<times> fi_addr) list \<times> util_cq) option" where
  "ofi_cq_read_entries count cq =
     (let cq1 = cq\<lparr>cq_err_data := None\<rparr>
      in if ofi_cirque_isempty (cirq cq) then Some (- FI_EAGAIN, [], cq1)
         else read_loop (min count (unat (ofi_cirque_usedcnt (cirq cq)))) 0 cq1)"

text \<open>
  Versions are compared as \<^verbatim>\<open>FI_VERSION(1, n)\<close>.  \<open>er_data\<close> of the user's entry is what they can read
  through it; an older client has no source field in it.
\<close>

abbreviation (input) FI_VERSION :: "nat \<Rightarrow> nat \<Rightarrow> nat" where "FI_VERSION a b \<equiv> a * 65536 + b"

definition ofi_cq_err_memcpy :: "nat \<Rightarrow> fi_cq_err_entry \<Rightarrow> fi_cq_err_entry \<Rightarrow> fi_cq_err_entry" where
  "ofi_cq_err_memcpy api ub pb =
     (if api < FI_VERSION 1 5 then pb\<lparr>er_src_addr := er_src_addr ub\<rparr>
      else let r = (if api \<ge> FI_VERSION 1 20 then pb else pb\<lparr>er_src_addr := er_src_addr ub\<rparr>)
           in if er_data ub \<noteq> [] then r\<lparr>er_data := take (length (er_data ub)) (er_data pb)\<rparr> else r)"

definition ofi_cq_readerr ::
  "nat \<Rightarrow> bool \<Rightarrow> fi_cq_err_entry \<Rightarrow> util_cq \<Rightarrow> (int \<times> fi_cq_err_entry \<times> util_cq) option" where
  "ofi_cq_readerr api ok ub cq =
     (let cq1 = cq\<lparr>cq_err_data := None\<rparr>
      in if ofi_cirque_isempty (cirq cq) \<or> te_flags (ofi_cirque_head (cirq cq)) AND UTIL_FLAG_AUX = 0 then Some (- FI_EAGAIN, ub, cq1)
         else (case aux_queue cq of
                 [] \<Rightarrow> None
               | ax # _ \<Rightarrow>
                   if ax_slot ax \<noteq> ofi_cirque_rindex (cirq cq) then None
                   else if er_err (ax_comp ax) = 0 then Some (- FI_EAGAIN, ub, cq1)
                   else let buf = ofi_cq_err_memcpy api ub (ax_comp ax); d = er_data (ax_comp ax)
                        in if d \<noteq> [] \<and> (er_data ub = [] \<or> api < FI_VERSION 1 5)
                           then if \<not> ok then Some (- FI_ENOMEM, buf, cq1)
                                else Some (1, buf\<lparr>er_data := d\<rparr>, drop_aux (cq1\<lparr>cq_err_data := Some d\<rparr>))
                           else Some (1, buf, drop_aux cq1)))"

section \<open>Opening and closing\<close>

datatype fi_wait_obj = FI_WAIT_NONE | FI_WAIT_UNSPEC | FI_WAIT_SET | FI_WAIT_FD | FI_WAIT_MUTEX_COND | FI_WAIT_YIELD | FI_WAIT_POLLFD
datatype fi_cq_wait_cond = FI_CQ_COND_NONE | FI_CQ_COND_THRESHOLD

text \<open>An enumeration's value that is none of its constants is \<open>None\<close>.\<close>

record fi_cq_attr =
  at_size :: u64
  at_flags :: u64
  at_format :: "fi_cq_format option"
  at_wait_obj :: "fi_wait_obj option"
  at_wait_cond :: "fi_cq_wait_cond option"
  at_wait_set :: bool

abbreviation (input) FI_AFFINITY :: u64 where "FI_AFFINITY \<equiv> 0x20000000"
abbreviation (input) FI_PEER :: u64 where "FI_PEER \<equiv> 0x80000000000"
abbreviation (input) FI_SELECTIVE_COMPLETION :: u64 where "FI_SELECTIVE_COMPLETION \<equiv> 0x800000000000000"

definition ofi_check_cq_attr :: "fi_cq_attr \<Rightarrow> int" where
  "ofi_check_cq_attr attr =
     (if at_format attr = None then - FI_EINVAL
      else let wait = (case at_wait_obj attr of
                 Some FI_WAIT_NONE \<Rightarrow> 0
               | Some FI_WAIT_YIELD \<Rightarrow> 0
               | Some FI_WAIT_SET \<Rightarrow>
                   if \<not> at_wait_set attr then - FI_EINVAL else if at_wait_cond attr = None then - FI_EINVAL else 0
               | Some FI_WAIT_UNSPEC \<Rightarrow> if at_wait_cond attr = None then - FI_EINVAL else 0
               | Some FI_WAIT_FD \<Rightarrow> if at_wait_cond attr = None then - FI_EINVAL else 0
               | Some FI_WAIT_POLLFD \<Rightarrow> if at_wait_cond attr = None then - FI_EINVAL else 0
               | _ \<Rightarrow> - FI_EINVAL)
           in if wait \<noteq> 0 then wait
              else if at_flags attr AND NOT (FI_AFFINITY OR FI_PEER) \<noteq> 0 then - FI_EINVAL else 0)"

text \<open>
  The queue's own storage.  \<open>source\<close> says whether the domain has \<^verbatim>\<open>FI_SOURCE\<close>; the three booleans
  are the allocations of the peer object, the buffer and the array of sources.
\<close>

definition util_init_peer_cq :: "bool \<times> bool \<times> bool \<Rightarrow> bool \<Rightarrow> fi_cq_attr \<Rightarrow> int + util_cq" where
  "util_init_peer_cq oks source attr =
     (case oks of (ok_peer, ok_cirq, ok_src) \<Rightarrow>
        if \<not> ok_peer then Inl (- FI_ENOMEM)
        else (case at_format attr of
                None \<Rightarrow> Inl (- FI_EINVAL)
              | Some fmt \<Rightarrow>
                  (case util_comp_cirq_create ok_cirq (if at_size attr = 0 then UTIL_DEF_CQ_SIZE else at_size attr) of
                     None \<Rightarrow> Inl (- FI_ENOMEM)
                   | Some q \<Rightarrow>
                       if source \<and> \<not> ok_src then Inl (- FI_ENOMEM)
                       else Inr \<lparr>cirq = q, cq_srcs = (if source then Some (replicate (unat (cirq_size q)) 0) else None),
                              aux_queue = [], cq_format = fmt, cq_err_data = None, cq_users = 0\<rparr>)))"

definition ofi_check_bind_cq_flags :: "bool \<Rightarrow> bool \<Rightarrow> u64 \<Rightarrow> int" where
  "ofi_check_bind_cq_flags has_tx has_rx flags =
     (if flags AND NOT (0x800 OR 0x400 OR FI_SELECTIVE_COMPLETION) \<noteq> 0 then - FI_EBADFLAGS
      else if flags AND 0x800 \<noteq> 0 \<and> has_tx \<or> flags AND 0x400 \<noteq> 0 \<and> has_rx then - FI_EINVAL
      else 0)"

definition ofi_cq_cleanup :: "util_cq \<Rightarrow> int \<times> util_cq" where
  "ofi_cq_cleanup cq = (if cq_users cq \<noteq> 0 then (- FI_EBUSY, cq) else (0, cq\<lparr>aux_queue := [], cq_err_data := None\<rparr>))"

text \<open>
  \<open>None\<close> is the null pointer the log statement of the default branch follows when the queue has
  no wait object; \<open>control\<close> is the wait object's own handler.
\<close>

datatype cq_command = FI_GETWAIT | FI_GETWAITOBJ | OtherCommand

definition ofi_cq_control :: "(cq_command \<Rightarrow> int) option \<Rightarrow> cq_command \<Rightarrow> int option" where
  "ofi_cq_control wait command =
     (case command of
        OtherCommand \<Rightarrow> (case wait of None \<Rightarrow> None | Some _ \<Rightarrow> Some (- FI_ENOSYS))
      | _ \<Rightarrow> (case wait of None \<Rightarrow> Some (- FI_ENODATA) | Some control \<Rightarrow> Some (control command)))"

end
