(* ===== verification/Util_Cq_Fifo.thy ===== *)
theory Util_Cq_Fifo
  imports Util_Cq
begin

text \<open>
  The completion queue is a first-in first-out queue of completions and errors.  The abstraction
  walks the used slots of the circular buffer in order and takes the entries that wait at a marked
  slot from the auxiliary list; every operation is followed by a step of the abstract queue, also
  when the counters wrap and when the buffer overflows, and no assertion of the code fails.
\<close>

section \<open>Circular buffer\<close>

definition cirq_slots :: "util_comp_cirq \<Rightarrow> nat list" where
  "cirq_slots q = map (\<lambda>n. (unat (rcnt q) + n) mod unat (cirq_size q)) [0..<unat (ofi_cirque_usedcnt q)]"

definition cirq_ok :: "util_comp_cirq \<Rightarrow> bool" where
  "cirq_ok q \<longleftrightarrow>
     (\<exists>k < 64. unat (cirq_size q) = 2 ^ k \<and> size_mask q = mask k) \<and> length (cirq_buf q) = unat (cirq_size q) \<and>
     unat (ofi_cirque_usedcnt q) \<le> unat (cirq_size q)"

lemma cirq_index: "cirq_ok q \<Longrightarrow> unat (c AND size_mask q) = unat c mod unat (cirq_size q)"
proof -
  assume "cirq_ok q"
  then obtain k where k: "unat (cirq_size q) = 2 ^ k" "size_mask q = mask k" by (auto simp: cirq_ok_def)
  have "unat (c AND mask k) = take_bit k (unat c)" by (simp only: take_bit_eq_mask [symmetric] unsigned_take_bit_eq)
  then show ?thesis by (simp add: k take_bit_eq_mod)
qed

lemma size_divides:
  assumes "cirq_ok q"
  shows "unat (c + d :: u64) mod unat (cirq_size q) = (unat c + unat d) mod unat (cirq_size q)"
proof -
  obtain k where k: "unat (cirq_size q) = 2 ^ k" "k < 64" using assms by (auto simp: cirq_ok_def)
  have "(2 :: nat) ^ k dvd 2 ^ 64" using k(2) by (intro le_imp_power_dvd) simp
  then have "(2 :: nat) ^ k dvd 18446744073709551616" by simp
  then have "(n mod 18446744073709551616) mod 2 ^ k = n mod 2 ^ k" for n :: nat by (simp add: mod_mod_cancel)
  then show ?thesis by (simp add: unat_word_ariths k(1))
qed

lemma used_small: "cirq_ok q \<Longrightarrow> unat (ofi_cirque_usedcnt q) < 18446744073709551616"
  by simp

lemma cirq_positive: "cirq_ok q \<Longrightarrow> 0 < unat (cirq_size q)"
  by (auto simp: cirq_ok_def)

lemma free_used:
  assumes "cirq_ok q"
  shows "unat (ofi_cirque_freecnt q) = unat (cirq_size q) - unat (ofi_cirque_usedcnt q)"
  using assms unfolding ofi_cirque_freecnt_def by (subst unat_sub) (auto simp: cirq_ok_def word_le_nat_alt)

lemma isfull_iff: "cirq_ok q \<Longrightarrow> ofi_cirque_isfull q \<longleftrightarrow> unat (ofi_cirque_usedcnt q) = unat (cirq_size q)"
  using free_used [of q] by (auto simp: ofi_cirque_isfull_def cirq_ok_def word_le_nat_alt)

lemma isempty_iff: "ofi_cirque_isempty q \<longleftrightarrow> unat (ofi_cirque_usedcnt q) = 0"
  by (auto simp: ofi_cirque_isempty_def ofi_cirque_usedcnt_def unat_eq_0)

lemma slots_length [simp]: "length (cirq_slots q) = unat (ofi_cirque_usedcnt q)"
  by (simp add: cirq_slots_def)

lemma slots_bound: "cirq_ok q \<Longrightarrow> i \<in> set (cirq_slots q) \<Longrightarrow> i < length (cirq_buf q)"
  using cirq_positive [of q] by (auto simp: cirq_slots_def cirq_ok_def)

lemma near_distinct: "a < b \<Longrightarrow> b < a + m \<Longrightarrow> a mod m \<noteq> b mod (m :: nat)"
  by (metis add_less_cancel_left le_add_diff_inverse less_imp_le_nat mod_eq_dvd_iff_nat nat_dvd_not_less zero_less_diff)

lemma slots_apart:
  assumes "cirq_ok q" and "i < j" and "j < unat (cirq_size q)"
  shows "(unat (rcnt q) + i) mod unat (cirq_size q) \<noteq> (unat (rcnt q) + j) mod unat (cirq_size q)"
  using assms by (intro near_distinct) auto

lemma slots_distinct: "cirq_ok q \<Longrightarrow> distinct (cirq_slots q)"
proof -
  assume ok: "cirq_ok q"
  have "inj_on (\<lambda>n. (unat (rcnt q) + n) mod unat (cirq_size q)) {0..<unat (ofi_cirque_usedcnt q)}"
  proof (rule linorder_inj_onI)
    fix i j assume "i < j" "i \<in> {0..<unat (ofi_cirque_usedcnt q)}" "j \<in> {0..<unat (ofi_cirque_usedcnt q)}"
    then show "(unat (rcnt q) + i) mod unat (cirq_size q) \<noteq> (unat (rcnt q) + j) mod unat (cirq_size q)"
      using slots_apart [OF ok] ok by (simp add: cirq_ok_def)
  qed auto
  then show ?thesis by (simp add: cirq_slots_def distinct_map)
qed

lemma wcnt_mod: "cirq_ok q \<Longrightarrow> unat (wcnt q) mod unat (cirq_size q) = (unat (rcnt q) + unat (ofi_cirque_usedcnt q)) mod unat (cirq_size q)"
  using size_divides [of q "rcnt q" "wcnt q - rcnt q"] by (simp add: ofi_cirque_usedcnt_def)

lemma windex_eq: "cirq_ok q \<Longrightarrow> ofi_cirque_windex q = (unat (rcnt q) + unat (ofi_cirque_usedcnt q)) mod unat (cirq_size q)"
  by (simp add: ofi_cirque_windex_def cirq_index wcnt_mod)

lemma rindex_head: "cirq_ok q \<Longrightarrow> unat (ofi_cirque_usedcnt q) \<noteq> 0 \<Longrightarrow> hd (cirq_slots q) = ofi_cirque_rindex q"
  by (simp add: cirq_slots_def ofi_cirque_rindex_def cirq_index hd_map upt_conv_Cons)

lemma windex_free:
  assumes "cirq_ok q" and "unat (ofi_cirque_usedcnt q) < unat (cirq_size q)"
  shows "ofi_cirque_windex q \<notin> set (cirq_slots q)" and "ofi_cirque_windex q < length (cirq_buf q)"
proof -
  show "ofi_cirque_windex q \<notin> set (cirq_slots q)"
    using slots_apart [OF assms(1) _ assms(2)] by (fastforce simp: windex_eq [OF assms(1)] cirq_slots_def)
  show "ofi_cirque_windex q < length (cirq_buf q)"
    using assms(1) cirq_positive [OF assms(1)] by (simp add: windex_eq cirq_ok_def)
qed

lemma used_commit:
  assumes "cirq_ok q" and "unat (ofi_cirque_usedcnt q) < unat (cirq_size q)"
  shows "unat (ofi_cirque_usedcnt (ofi_cirque_commit q)) = Suc (unat (ofi_cirque_usedcnt q))"
proof -
  have "unat (cirq_size q) < 18446744073709551616" by (rule unat_bounds)
  then have "Suc (unat (wcnt q - rcnt q)) < 18446744073709551616" using assms(2) unfolding ofi_cirque_usedcnt_def by linarith
  then have "unat (wcnt q - rcnt q + 1) = Suc (unat (wcnt q - rcnt q))" by (simp add: unat_word_ariths(1))
  then show ?thesis by (simp add: ofi_cirque_usedcnt_def ofi_cirque_commit_def add.commute add_diff_eq)
qed

lemma used_discard:
  assumes "unat (ofi_cirque_usedcnt q) \<noteq> 0"
  shows "unat (ofi_cirque_usedcnt (ofi_cirque_discard q)) = unat (ofi_cirque_usedcnt q) - 1"
proof -
  have "wcnt q - rcnt q \<noteq> 0" using assms by (auto simp: ofi_cirque_usedcnt_def)
  then have "1 \<le> wcnt q - rcnt q" by (simp add: word_le_nat_alt unat_eq_0 Suc_le_eq unat_gt_0)
  then have "unat (wcnt q - rcnt q - 1) = unat (wcnt q - rcnt q) - 1" by (subst unat_sub) simp_all
  then show ?thesis by (simp add: ofi_cirque_usedcnt_def ofi_cirque_discard_def diff_diff_eq)
qed

lemma slots_commit:
  assumes "cirq_ok q" and "unat (ofi_cirque_usedcnt q) < unat (cirq_size q)"
  shows "cirq_slots (ofi_cirque_commit q) = cirq_slots q @ [ofi_cirque_windex q]" and "cirq_ok (ofi_cirque_commit q)"
    and "ofi_cirque_tindex (ofi_cirque_commit q) = ofi_cirque_windex q"
proof -
  have r: "rcnt (ofi_cirque_commit q) = rcnt q" "cirq_size (ofi_cirque_commit q) = cirq_size q" by (simp_all add: ofi_cirque_commit_def)
  show "cirq_slots (ofi_cirque_commit q) = cirq_slots q @ [ofi_cirque_windex q]"
    by (simp add: cirq_slots_def used_commit [OF assms] r windex_eq [OF assms(1)])
  show "cirq_ok (ofi_cirque_commit q)"
    using assms used_commit [OF assms] by (simp add: cirq_ok_def ofi_cirque_commit_def)
  show "ofi_cirque_tindex (ofi_cirque_commit q) = ofi_cirque_windex q"
    by (simp add: ofi_cirque_tindex_def ofi_cirque_windex_def ofi_cirque_commit_def)
qed

lemma slots_discard:
  assumes "cirq_ok q" and "unat (ofi_cirque_usedcnt q) \<noteq> 0"
  shows "cirq_slots q = ofi_cirque_rindex q # cirq_slots (ofi_cirque_discard q)" and "cirq_ok (ofi_cirque_discard q)"
proof -
  have "(unat (rcnt q + 1) + n) mod unat (cirq_size q) = (unat (rcnt q) + Suc n) mod unat (cirq_size q)" for n
    using size_divides [OF assms(1), of "rcnt q" 1] by (metis (no_types) add.assoc mod_add_left_eq plus_1_eq_Suc unsigned_1)
  then have "cirq_slots (ofi_cirque_discard q) = tl (cirq_slots q)"
    using used_discard [OF assms(2)] by (intro nth_equalityI) (simp_all add: nth_tl cirq_slots_def ofi_cirque_discard_def less_diff_conv)
  moreover have "cirq_slots q \<noteq> []" using assms(2) by (metis length_0_conv slots_length)
  ultimately show "cirq_slots q = ofi_cirque_rindex q # cirq_slots (ofi_cirque_discard q)"
    using rindex_head [OF assms] by (metis list.collapse)
  show "cirq_ok (ofi_cirque_discard q)"
    using assms used_discard [OF assms(2)] by (auto simp: cirq_ok_def ofi_cirque_discard_def)
qed

lemma tail_slot:
  assumes "cirq_ok q" and "unat (ofi_cirque_usedcnt q) \<noteq> 0"
  shows "ofi_cirque_tindex q = last (cirq_slots q)"
proof -
  let ?u = "unat (ofi_cirque_usedcnt q)"
  have "1 \<le> wcnt q - rcnt q" using assms(2) by (simp add: word_le_nat_alt unat_eq_0 Suc_le_eq unat_gt_0 ofi_cirque_usedcnt_def)
  then have u: "unat (wcnt q - rcnt q - 1) = ?u - 1" by (subst unat_sub) (simp_all add: ofi_cirque_usedcnt_def)
  have "unat (wcnt q - 1) mod unat (cirq_size q) = (unat (rcnt q) + (?u - 1)) mod unat (cirq_size q)"
    using size_divides [OF assms(1), of "rcnt q" "wcnt q - rcnt q - 1"] by (simp add: u)
  then show ?thesis using assms by (simp add: ofi_cirque_tindex_def cirq_index cirq_slots_def last_map)
qed

text \<open>Writing to the slots does not move them.\<close>

lemma buf_update [simp]:
  "cirq_slots (q\<lparr>cirq_buf := b\<rparr>) = cirq_slots q" "ofi_cirque_usedcnt (q\<lparr>cirq_buf := b\<rparr>) = ofi_cirque_usedcnt q"
  "ofi_cirque_tindex (q\<lparr>cirq_buf := b\<rparr>) = ofi_cirque_tindex q" "ofi_cirque_windex (q\<lparr>cirq_buf := b\<rparr>) = ofi_cirque_windex q"
  "ofi_cirque_commit (q\<lparr>cirq_buf := b\<rparr>) = ofi_cirque_commit q\<lparr>cirq_buf := b\<rparr>"
  by (simp_all add: cirq_slots_def ofi_cirque_usedcnt_def ofi_cirque_tindex_def ofi_cirque_windex_def ofi_cirque_commit_def)

lemma ok_update: "cirq_ok q \<Longrightarrow> length b = length (cirq_buf q) \<Longrightarrow> cirq_ok (q\<lparr>cirq_buf := b\<rparr>)"
  by (simp add: cirq_ok_def)

section \<open>What the queue holds\<close>

datatype completion = Done fi_cq_tagged_entry fi_addr | Failed fi_cq_err_entry

definition is_aux :: "util_cq \<Rightarrow> nat \<Rightarrow> bool" where
  "is_aux cq i \<longleftrightarrow> te_flags (cirq_buf (cirq cq) ! i) AND UTIL_FLAG_AUX \<noteq> 0"

definition slot_comp :: "util_cq \<Rightarrow> nat \<Rightarrow> completion" where
  "slot_comp cq i = Done (cirq_buf (cirq cq) ! i) (slot_src cq i)"

definition aux_comp :: "util_cq \<Rightarrow> util_cq_aux_entry \<Rightarrow> completion" where
  "aux_comp cq ax =
     (if er_err (ax_comp ax) = 0 then Done (fi_cq_tagged_entry.truncate (ax_comp ax)) (aux_src cq ax) else Failed (ax_comp ax))"

text \<open>
  \<open>holds cq is axs cs\<close>: the slots \<open>is\<close> and the auxiliary entries \<open>axs\<close> stand for the completions
  \<open>cs\<close>.  A marked slot has at least one entry, and may have several.
\<close>

inductive holds :: "util_cq \<Rightarrow> nat list \<Rightarrow> util_cq_aux_entry list \<Rightarrow> completion list \<Rightarrow> bool" for cq where
  holds_nil: "holds cq [] [] []"
| holds_plain: "\<not> is_aux cq i \<Longrightarrow> holds cq is axs cs \<Longrightarrow> holds cq (i # is) axs (slot_comp cq i # cs)"
| holds_last: "is_aux cq i \<Longrightarrow> ax_slot a = i \<Longrightarrow> holds cq is axs cs \<Longrightarrow> holds cq (i # is) (a # axs) (aux_comp cq a # cs)"
| holds_more: "is_aux cq i \<Longrightarrow> ax_slot a = i \<Longrightarrow> holds cq (i # is) axs cs \<Longrightarrow> holds cq (i # is) (a # axs) (aux_comp cq a # cs)"

inductive_cases holds_nilE: "holds cq [] axs cs"
inductive_cases holds_consE: "holds cq (i # is) axs cs"

definition cq_holds :: "util_cq \<Rightarrow> completion list \<Rightarrow> bool" where
  "cq_holds cq cs \<longleftrightarrow>
     cirq_ok (cirq cq) \<and> (\<forall>ss. cq_srcs cq = Some ss \<longrightarrow> length ss = length (cirq_buf (cirq cq))) \<and>
     holds cq (cirq_slots (cirq cq)) (aux_queue cq) cs \<and>
     (unat (ofi_cirque_usedcnt (cirq cq)) = unat (cirq_size (cirq cq)) \<longrightarrow> is_aux cq (last (cirq_slots (cirq cq))))"

lemma holds_slots: "holds cq is axs cs \<Longrightarrow> ax_slot ` set axs \<subseteq> set is"
  by (induction rule: holds.induct) auto

lemma holds_cong:
  assumes "holds cq is axs cs" and "cq_srcs cq' = None \<longleftrightarrow> cq_srcs cq = None"
    and "\<And>i. i \<in> set is \<Longrightarrow> is_aux cq' i = is_aux cq i \<and> (\<not> is_aux cq i \<longrightarrow> slot_comp cq' i = slot_comp cq i)"
  shows "holds cq' is axs cs"
proof -
  have ax: "aux_comp cq' a = aux_comp cq a" for a using assms(2) by (auto simp: aux_comp_def aux_src_def split: option.splits)
  show ?thesis using assms(1,3)
  proof (induction rule: holds.induct)
    case (holds_plain i "is" axs cs)
    then have "\<not> is_aux cq' i" "slot_comp cq' i = slot_comp cq i" "holds cq' is axs cs" by auto
    then show ?case using holds.holds_plain [of cq' i "is" axs cs] by simp
  qed (auto intro: holds.intros simp: ax [symmetric])
qed

lemma holds_snoc_plain: "holds cq is axs cs \<Longrightarrow> \<not> is_aux cq i \<Longrightarrow> holds cq (is @ [i]) axs (cs @ [slot_comp cq i])"
  by (induction rule: holds.induct) (auto intro: holds.intros)

lemma holds_snoc_aux:
  "holds cq is axs cs \<Longrightarrow> is_aux cq i \<Longrightarrow> ax_slot a = i \<Longrightarrow> holds cq (is @ [i]) (axs @ [a]) (cs @ [aux_comp cq a])"
  by (induction rule: holds.induct) (auto intro: holds.intros)

lemma holds_share:
  "holds cq is axs cs \<Longrightarrow> is \<noteq> [] \<Longrightarrow> is_aux cq (last is) \<Longrightarrow> ax_slot a = last is \<Longrightarrow> holds cq is (axs @ [a]) (cs @ [aux_comp cq a])"
proof (induction rule: holds.induct)
  case (holds_last i b "is" axs cs)
  show ?case
  proof (cases "is = []")
    case True
    with holds_last.hyps have "axs = []" "cs = []" by (auto elim: holds_nilE)
    then show ?thesis using True holds_last holds.holds_more [OF holds_last.hyps(1,2)] holds.holds_last [OF _ _ holds_nil, of cq i a] by simp
  next
    case False
    then show ?thesis using holds_last by (auto intro: holds.holds_last)
  qed
qed (auto intro: holds.intros split: if_splits)

lemma holds_empty: "cq_holds cq cs \<Longrightarrow> ofi_cirque_isempty (cirq cq) \<longleftrightarrow> cs = []"
proof -
  assume "cq_holds cq cs"
  then have h: "holds cq (cirq_slots (cirq cq)) (aux_queue cq) cs" by (simp add: cq_holds_def)
  have "ofi_cirque_isempty (cirq cq) \<longleftrightarrow> cirq_slots (cirq cq) = []" by (simp add: isempty_iff length_0_conv [symmetric] del: length_0_conv)
  also have "\<dots> \<longleftrightarrow> cs = []" using h by (cases rule: holds.cases) auto
  finally show ?thesis .
qed

section \<open>Writing\<close>

definition aux_value :: "util_cq \<Rightarrow> fi_cq_err_entry \<Rightarrow> fi_addr \<Rightarrow> completion" where
  "aux_value cq c src =
     (if er_err c = 0 then Done (fi_cq_tagged_entry.truncate c) (if cq_srcs cq = None then FI_ADDR_NOTAVAIL else src) else Failed c)"

definition mark_slot :: "util_comp_cirq \<Rightarrow> nat \<Rightarrow> util_comp_cirq" where
  "mark_slot q t = q\<lparr>cirq_buf := (cirq_buf q)[t := (cirq_buf q ! t)\<lparr>te_flags := UTIL_FLAG_AUX\<rparr>]\<rparr>"

text \<open>A queue with one more auxiliary entry at the marked slot \<open>t\<close>.\<close>

definition add_aux :: "util_comp_cirq \<Rightarrow> nat \<Rightarrow> fi_cq_err_entry \<Rightarrow> fi_addr \<Rightarrow> util_cq \<Rightarrow> util_cq" where
  "add_aux q t c src cq = cq\<lparr>cirq := mark_slot q t, aux_queue := aux_queue cq @ [\<lparr>ax_slot = t, ax_comp = c, ax_src = src\<rparr>]\<rparr>"

lemma add_aux_frame:
  assumes "cirq_buf q = cirq_buf (cirq cq)" and "t < length (cirq_buf q)"
  shows "is_aux (add_aux q t c src cq) t"
    and "i \<noteq> t \<Longrightarrow> is_aux (add_aux q t c src cq) i = is_aux cq i \<and> slot_comp (add_aux q t c src cq) i = slot_comp cq i"
    and "aux_comp (add_aux q t c src cq) \<lparr>ax_slot = t, ax_comp = c, ax_src = src\<rparr> = aux_value cq c src"
  using assms by (auto simp: is_aux_def slot_comp_def slot_src_def aux_comp_def aux_value_def aux_src_def add_aux_def mark_slot_def split: option.splits)

lemma add_aux_holds:
  assumes "cq_holds cq cs" and "cirq_ok q" and "cirq_buf q = cirq_buf (cirq cq)" and "last (cirq_slots q) = t" and "cirq_slots q \<noteq> []"
    and "holds (add_aux q t c src cq) (cirq_slots q) (aux_queue cq @ [\<lparr>ax_slot = t, ax_comp = c, ax_src = src\<rparr>]) cs'"
  shows "cq_holds (add_aux q t c src cq) cs'"
proof -
  have "t < length (cirq_buf q)" using slots_bound [OF assms(2)] assms(4,5) by auto
  from add_aux_frame(1) [OF assms(3) this] ok_update [OF assms(2)] show ?thesis
    using assms by (simp add: cq_holds_def add_aux_def mark_slot_def)
qed

lemma holds_add_shared:
  assumes "cq_holds cq cs" and "unat (ofi_cirque_usedcnt (cirq cq)) = unat (cirq_size (cirq cq))"
  shows "cq_holds (add_aux (cirq cq) (ofi_cirque_tindex (cirq cq)) c src cq) (cs @ [aux_value cq c src])"
proof -
  let ?q = "cirq cq" and ?t = "ofi_cirque_tindex (cirq cq)"
  let ?cq = "add_aux ?q ?t c src cq"
  have o: "cirq_ok ?q" "holds cq (cirq_slots ?q) (aux_queue cq) cs" "is_aux cq (last (cirq_slots ?q))" using assms by (auto simp: cq_holds_def)
  have u: "unat (ofi_cirque_usedcnt ?q) \<noteq> 0" using assms(2) cirq_positive [OF o(1)] by simp
  then have ne: "cirq_slots ?q \<noteq> []" by (metis length_0_conv slots_length)
  have t: "?t = last (cirq_slots ?q)" using tail_slot [OF o(1) u] .
  then have "?t < length (cirq_buf ?q)" using slots_bound [OF o(1)] ne by simp
  note fr = add_aux_frame [OF refl this, where c = c and src = src]
  have "cq_srcs ?cq = None \<longleftrightarrow> cq_srcs cq = None" by (simp add: add_aux_def)
  from holds_cong [OF o(2) this] have "holds ?cq (cirq_slots ?q) (aux_queue cq) cs" using fr(1,2) o(3) t by metis
  from holds_share [OF this ne] have "holds ?cq (cirq_slots ?q) (aux_queue cq @ [\<lparr>ax_slot = ?t, ax_comp = c, ax_src = src\<rparr>]) (cs @ [aux_value cq c src])"
    using fr(1,3) t by (metis util_cq_aux_entry.select_convs(1))
  then show ?thesis using add_aux_holds [OF assms(1) o(1) refl] t ne by simp
qed

lemma holds_add_slot:
  assumes "cq_holds cq cs" and "unat (ofi_cirque_usedcnt (cirq cq)) < unat (cirq_size (cirq cq))"
  shows "cq_holds (add_aux (ofi_cirque_commit (cirq cq)) (ofi_cirque_windex (cirq cq)) c src cq) (cs @ [aux_value cq c src])"
proof -
  let ?q = "ofi_cirque_commit (cirq cq)" and ?t = "ofi_cirque_windex (cirq cq)"
  let ?cq = "add_aux ?q ?t c src cq"
  have o: "cirq_ok (cirq cq)" "holds cq (cirq_slots (cirq cq)) (aux_queue cq) cs" using assms by (auto simp: cq_holds_def)
  note cm = slots_commit [OF o(1) assms(2)] and free = windex_free [OF o(1) assms(2)]
  have b: "cirq_buf ?q = cirq_buf (cirq cq)" by (simp add: ofi_cirque_commit_def)
  note fr = add_aux_frame [OF b, where t = ?t and c = c and src = src]
  have lt: "?t < length (cirq_buf ?q)" using free(2) b by simp
  have "cq_srcs ?cq = None \<longleftrightarrow> cq_srcs cq = None" by (simp add: add_aux_def)
  from holds_cong [OF o(2) this] have "holds ?cq (cirq_slots (cirq cq)) (aux_queue cq) cs" using fr(2) [OF lt] free(1) by metis
  from holds_snoc_aux [OF this fr(1) [OF lt], of "\<lparr>ax_slot = ?t, ax_comp = c, ax_src = src\<rparr>"]
  have "holds ?cq (cirq_slots ?q) (aux_queue cq @ [\<lparr>ax_slot = ?t, ax_comp = c, ax_src = src\<rparr>]) (cs @ [aux_value cq c src])"
    by (simp add: cm(1) fr(3) [OF lt])
  then show ?thesis using add_aux_holds [OF assms(1) cm(2) b] by (simp add: cm(1))
qed

lemma holds_insert_aux:
  assumes "cq_holds cq cs"
  shows "cq_holds (util_cq_insert_aux c src cq) (cs @ [aux_value cq c src])"
proof -
  have ok: "cirq_ok (cirq cq)" using assms by (simp add: cq_holds_def)
  show ?thesis
  proof (cases "ofi_cirque_isfull (cirq cq)")
    case True
    then show ?thesis using holds_add_shared [OF assms] isfull_iff [OF ok]
      by (simp add: util_cq_insert_aux_def add_aux_def mark_slot_def Let_def)
  next
    case False
    then have "unat (ofi_cirque_usedcnt (cirq cq)) < unat (cirq_size (cirq cq))" using isfull_iff [OF ok] ok by (auto simp: cirq_ok_def)
    then show ?thesis using holds_add_slot [OF assms] slots_commit(3) [OF ok] False
      by (simp add: util_cq_insert_aux_def add_aux_def mark_slot_def Let_def)
  qed
qed

lemma holds_write_entry:
  assumes "cq_holds cq cs" and "ofi_cirque_freecnt (cirq cq) > 1" and "te_flags e AND UTIL_FLAG_AUX = 0"
    and "cq0 = cq\<lparr>cq_srcs := ss\<rparr>" and "ss = cq_srcs cq \<or> (\<exists>xs. cq_srcs cq = Some xs \<and> ss = Some (xs[ofi_cirque_windex (cirq cq) := src]))"
  shows "cq_holds (ofi_cq_write_entry e cq0) (cs @ [Done e (slot_src cq0 (ofi_cirque_windex (cirq cq)))])"
proof -
  let ?q = "cirq cq"
  define w where "w = ofi_cirque_windex ?q"
  define q2 where "q2 = ofi_cirque_commit ?q\<lparr>cirq_buf := (cirq_buf ?q)[w := e]\<rparr>"
  define cq' where "cq' = cq0\<lparr>cirq := q2\<rparr>"
  have cq': "ofi_cq_write_entry e cq0 = cq'" by (simp add: ofi_cq_write_entry_def Let_def cq'_def q2_def w_def assms(4))
  have o: "cirq_ok ?q" "holds cq (cirq_slots ?q) (aux_queue cq) cs" "\<forall>ss. cq_srcs cq = Some ss \<longrightarrow> length ss = length (cirq_buf ?q)"
    using assms(1) by (auto simp: cq_holds_def)
  have room: "Suc (unat (ofi_cirque_usedcnt ?q)) < unat (cirq_size ?q)" using assms(2) free_used [OF o(1)] by (simp add: word_less_nat_alt)
  then have room': "unat (ofi_cirque_usedcnt ?q) < unat (cirq_size ?q)" by simp
  note cm = slots_commit [OF o(1) room'] and fr = windex_free [OF o(1) room', folded w_def]
  have len: "length (cirq_buf q2) = length (cirq_buf ?q)" by (simp add: q2_def)
  have keep: "is_aux cq' i = is_aux cq i \<and> slot_comp cq' i = slot_comp cq i" if "i \<noteq> w" for i
    using that assms(5) by (auto simp: is_aux_def slot_comp_def slot_src_def cq'_def q2_def assms(4) w_def split: option.splits)
  have "cq_srcs cq' = None \<longleftrightarrow> cq_srcs cq = None" using assms(5) by (auto simp: cq'_def assms(4))
  from holds_cong [OF o(2) this] have "holds cq' (cirq_slots ?q) (aux_queue cq) cs" using keep fr(1) by metis
  moreover have "\<not> is_aux cq' w" using fr(2) assms(3) by (simp add: is_aux_def cq'_def q2_def)
  moreover have "slot_comp cq' w = Done e (slot_src cq0 w)" using fr(2) by (simp add: slot_comp_def cq'_def q2_def slot_src_def)
  ultimately have "holds cq' (cirq_slots ?q @ [w]) (aux_queue cq) (cs @ [Done e (slot_src cq0 w)])"
    using holds_snoc_plain [of cq' "cirq_slots ?q" "aux_queue cq" cs w] by simp
  moreover have "cirq_ok q2" "cirq_slots q2 = cirq_slots ?q @ [w]" using cm ok_update [OF cm(2)] by (simp_all add: q2_def w_def ofi_cirque_commit_def)
  moreover have "unat (ofi_cirque_usedcnt q2) \<noteq> unat (cirq_size q2)" using used_commit [OF o(1) room'] room by (simp add: q2_def ofi_cirque_commit_def)
  ultimately show ?thesis unfolding cq' w_def [symmetric] using o(3) len assms(5)
    by (auto simp: cq_holds_def cq'_def assms(4))
qed

section \<open>Reading\<close>

fun failed :: "completion \<Rightarrow> bool" where
  "failed (Done e s) = False"
| "failed (Failed e) = True"

fun out_of :: "fi_cq_format \<Rightarrow> completion \<Rightarrow> cq_out \<times> fi_addr" where
  "out_of f (Done e s) = (read_entry f e, s)"
| "out_of f (Failed e) = (read_entry f e, 0)"

definition same_kind :: "util_cq \<Rightarrow> util_cq \<Rightarrow> bool" where
  "same_kind cq cq' \<longleftrightarrow> cq_format cq' = cq_format cq \<and> (cq_srcs cq' = None \<longleftrightarrow> cq_srcs cq = None)"

lemma head_slot_aux:
  assumes "cq_holds cq cs" and "\<not> ofi_cirque_isempty (cirq cq)"
  shows "te_flags (ofi_cirque_head (cirq cq)) AND UTIL_FLAG_AUX \<noteq> 0 \<longleftrightarrow> is_aux cq (ofi_cirque_rindex (cirq cq))"
  by (simp add: is_aux_def ofi_cirque_head_def)

lemma holds_moved:
  assumes "holds cq is axs cs" and "cirq_buf (cirq cq') = cirq_buf (cirq cq)" and "cq_srcs cq' = cq_srcs cq"
  shows "holds cq' is axs cs"
  using assms by (intro holds_cong [OF assms(1)]) (simp_all add: is_aux_def slot_comp_def slot_src_def)

lemma holds_discard:
  assumes "cq_holds cq cs" and "unat (ofi_cirque_usedcnt (cirq cq)) \<noteq> 0" and "holds cq (cirq_slots (ofi_cirque_discard (cirq cq))) axs cs'"
    and "cq' = cq\<lparr>cirq := ofi_cirque_discard (cirq cq), aux_queue := axs, cq_err_data := d\<rparr>"
  shows "cq_holds cq' cs' \<and> same_kind cq cq'"
proof -
  have o: "cirq_ok (cirq cq)" "\<forall>ss. cq_srcs cq = Some ss \<longrightarrow> length ss = length (cirq_buf (cirq cq))" using assms(1) by (auto simp: cq_holds_def)
  note sd = slots_discard(2) [OF o(1) assms(2)] and u = used_discard [OF assms(2)]
  have "unat (ofi_cirque_usedcnt (cirq cq)) \<le> unat (cirq_size (cirq cq))" using o(1) by (simp add: cirq_ok_def)
  then have "unat (ofi_cirque_usedcnt (cirq cq)) - Suc 0 \<noteq> unat (cirq_size (cirq cq))" using assms(2) by linarith
  moreover have "cirq_size (ofi_cirque_discard (cirq cq)) = cirq_size (cirq cq)" "cirq_buf (ofi_cirque_discard (cirq cq)) = cirq_buf (cirq cq)"
    by (simp_all add: ofi_cirque_discard_def)
  moreover have "holds cq' (cirq_slots (ofi_cirque_discard (cirq cq))) axs cs'"
    by (rule holds_moved [OF assms(3)]) (simp_all add: assms(4) ofi_cirque_discard_def)
  ultimately show ?thesis using sd u o(2) assms(2) by (simp add: cq_holds_def assms(4) same_kind_def)
qed

lemma holds_plain_head:
  assumes "cq_holds cq cs" and "\<not> ofi_cirque_isempty (cirq cq)" and "\<not> is_aux cq (ofi_cirque_rindex (cirq cq))"
  shows "\<exists>cs'. cs = slot_comp cq (ofi_cirque_rindex (cirq cq)) # cs' \<and> cq_holds (cq\<lparr>cirq := ofi_cirque_discard (cirq cq)\<rparr>) cs' \<and>
    same_kind cq (cq\<lparr>cirq := ofi_cirque_discard (cirq cq)\<rparr>)"
proof -
  have u: "unat (ofi_cirque_usedcnt (cirq cq)) \<noteq> 0" using assms(2) by (simp add: isempty_iff)
  have "holds cq (ofi_cirque_rindex (cirq cq) # cirq_slots (ofi_cirque_discard (cirq cq))) (aux_queue cq) cs"
    using assms(1) slots_discard(1) [OF _ u] by (simp add: cq_holds_def)
  then obtain cs' where "cs = slot_comp cq (ofi_cirque_rindex (cirq cq)) # cs'"
    "holds cq (cirq_slots (ofi_cirque_discard (cirq cq))) (aux_queue cq) cs'" using assms(3) by (auto elim: holds_consE)
  then show ?thesis using holds_discard [OF assms(1) u, of "aux_queue cq" cs' _ "cq_err_data cq"] by simp
qed

lemma holds_aux_head:
  assumes "cq_holds cq cs" and "\<not> ofi_cirque_isempty (cirq cq)" and "is_aux cq (ofi_cirque_rindex (cirq cq))"
  shows "\<exists>a axs cs'. aux_queue cq = a # axs \<and> ax_slot a = ofi_cirque_rindex (cirq cq) \<and> cs = aux_comp cq a # cs' \<and>
    cq_holds (drop_aux (cq\<lparr>cq_err_data := d\<rparr>)) cs' \<and> same_kind cq (drop_aux (cq\<lparr>cq_err_data := d\<rparr>)) \<and>
    unat (ofi_cirque_usedcnt (cirq cq)) \<le> Suc (unat (ofi_cirque_usedcnt (cirq (drop_aux (cq\<lparr>cq_err_data := d\<rparr>)))))"
proof -
  let ?r = "ofi_cirque_rindex (cirq cq)" and ?is = "cirq_slots (ofi_cirque_discard (cirq cq))"
  have u: "unat (ofi_cirque_usedcnt (cirq cq)) \<noteq> 0" using assms(2) by (simp add: isempty_iff)
  have sl: "cirq_slots (cirq cq) = ?r # ?is" and ok: "cirq_ok (cirq cq)" using assms(1) slots_discard(1) [OF _ u] by (simp_all add: cq_holds_def)
  have nr: "?r \<notin> set ?is" using slots_distinct [OF ok] sl by simp
  have h: "holds cq (?r # ?is) (aux_queue cq) cs" using assms(1) sl by (simp add: cq_holds_def)
  then obtain a axs cs' where a: "aux_queue cq = a # axs" "ax_slot a = ?r" "cs = aux_comp cq a # cs'"
    and n: "holds cq ?is axs cs' \<or> holds cq (?r # ?is) axs cs'" using assms(3) by (auto elim: holds_consE)
  show ?thesis
  proof (cases "holds cq ?is axs cs'")
    case True
    have "drop_aux (cq\<lparr>cq_err_data := d\<rparr>) = cq\<lparr>cirq := ofi_cirque_discard (cirq cq), aux_queue := axs, cq_err_data := d\<rparr>"
      using holds_slots [OF True] nr by (auto simp: drop_aux_def a(1) Let_def split: list.splits)
    then show ?thesis using a holds_discard [OF assms(1) u True] used_discard [OF u] by simp
  next
    case False
    with n have m: "holds cq (?r # ?is) axs cs'" by simp
    then obtain b bxs where "axs = b # bxs" "ax_slot b = ?r" using assms(3) by (auto elim: holds_consE)
    then have e: "drop_aux (cq\<lparr>cq_err_data := d\<rparr>) = cq\<lparr>aux_queue := axs, cq_err_data := d\<rparr>" by (simp add: drop_aux_def a(1) Let_def)
    have "holds (cq\<lparr>aux_queue := axs, cq_err_data := d\<rparr>) (?r # ?is) axs cs'" by (rule holds_moved [OF m]) simp_all
    then show ?thesis unfolding e using a assms(1) sl by (simp add: cq_holds_def same_kind_def is_aux_def)
  qed
qed


lemma out_aux: "er_err (ax_comp a) = 0 \<Longrightarrow> out_of f (aux_comp cq a) = (read_entry f (ax_comp a), aux_src cq a)"
  by (cases f) (simp_all add: aux_comp_def fi_cq_tagged_entry.defs)

lemma same_kind_trans: "same_kind a b \<Longrightarrow> same_kind b c \<Longrightarrow> same_kind a c"
  by (simp add: same_kind_def)

lemma read_loop_spec:
  assumes "cq_holds cq cs" and "k \<le> unat (ofi_cirque_usedcnt (cirq cq))"
  shows "\<exists>n cq'. n \<le> k \<and> n \<le> length cs \<and>
    read_loop k i cq = Some (if n < k \<and> i + n = 0 then - FI_EAVAIL else int (i + n), map (out_of (cq_format cq)) (take n cs), cq') \<and>
    cq_holds cq' (drop n cs) \<and> same_kind cq cq' \<and> (\<forall>c \<in> set (take n cs). \<not> failed c) \<and> (n < k \<longrightarrow> (\<exists>e r. drop n cs = Failed e # r))"
  using assms
proof (induction k arbitrary: i cq cs)
  case 0
  then show ?case by (intro exI [of _ 0] exI [of _ cq]) (simp add: same_kind_def)
next
  case (Suc k)
  have ne: "\<not> ofi_cirque_isempty (cirq cq)" using Suc.prems(2) by (simp add: isempty_iff)
  note hd = head_slot_aux [OF Suc.prems(1) ne]
  show ?case
  proof (cases "is_aux cq (ofi_cirque_rindex (cirq cq))")
    case False
    let ?cq1 = "cq\<lparr>cirq := ofi_cirque_discard (cirq cq)\<rparr>"
    from holds_plain_head [OF Suc.prems(1) ne False] obtain cs' where c: "cs = slot_comp cq (ofi_cirque_rindex (cirq cq)) # cs'"
      "cq_holds ?cq1 cs'" "same_kind cq ?cq1" by blast
    have "k \<le> unat (ofi_cirque_usedcnt (cirq ?cq1))" using Suc.prems(2) used_discard [of "cirq cq"] ne by (simp add: isempty_iff)
    from Suc.IH [OF c(2) this, of "Suc i"] obtain n cq' where n: "n \<le> k" "n \<le> length cs'"
      "read_loop k (Suc i) ?cq1 = Some (int (Suc i + n), map (out_of (cq_format cq)) (take n cs'), cq')"
      "cq_holds cq' (drop n cs')" "same_kind ?cq1 cq'" "\<forall>c \<in> set (take n cs'). \<not> failed c" "n < k \<longrightarrow> (\<exists>e r. drop n cs' = Failed e # r)"
      by auto
    have "read_loop (Suc k) i cq = Some (int (i + Suc n), map (out_of (cq_format cq)) (take (Suc n) cs), cq')"
      using n(3) hd False by (simp add: c(1) slot_comp_def ofi_cirque_head_def Let_def)
    then show ?thesis using n same_kind_trans [OF c(3) n(5)] c(1) by (intro exI [of _ "Suc n"] exI [of _ cq']) (simp add: slot_comp_def)
  next
    case True
    let ?cq1 = "drop_aux cq"
    have cq: "cq\<lparr>cq_err_data := cq_err_data cq\<rparr> = cq" by simp
    from holds_aux_head [OF Suc.prems(1) ne True, of "cq_err_data cq", unfolded cq] obtain a axs cs' where a: "aux_queue cq = a # axs"
      "ax_slot a = ofi_cirque_rindex (cirq cq)" "cs = aux_comp cq a # cs'" "cq_holds ?cq1 cs'" "same_kind cq ?cq1"
      "unat (ofi_cirque_usedcnt (cirq cq)) \<le> Suc (unat (ofi_cirque_usedcnt (cirq ?cq1)))" by blast
    show ?thesis
    proof (cases "er_err (ax_comp a) = 0")
      case err: False
      then show ?thesis using a hd True Suc.prems(1)
        by (intro exI [of _ 0] exI [of _ cq]) (auto simp: Let_def aux_comp_def same_kind_def)
    next
      case okc: True
      have "k \<le> unat (ofi_cirque_usedcnt (cirq ?cq1))" using Suc.prems(2) a(6) by simp
      from Suc.IH [OF a(4) this, of "Suc i"] obtain n cq' where n: "n \<le> k" "n \<le> length cs'"
        "read_loop k (Suc i) ?cq1 = Some (int (Suc i + n), map (out_of (cq_format cq)) (take n cs'), cq')"
        "cq_holds cq' (drop n cs')" "same_kind ?cq1 cq'" "\<forall>c \<in> set (take n cs'). \<not> failed c" "n < k \<longrightarrow> (\<exists>e r. drop n cs' = Failed e # r)"
        using a(5) by (auto simp: same_kind_def)
      have "read_loop (Suc k) i cq = Some (int (i + Suc n), map (out_of (cq_format cq)) (take (Suc n) cs), cq')"
        using n(3) hd True okc a(1,2) by (simp add: a(3) out_aux Let_def)
      moreover have "\<not> failed (aux_comp cq a)" using okc by (simp add: aux_comp_def)
      ultimately show ?thesis using n same_kind_trans [OF a(5) n(5)] a(3) by (intro exI [of _ "Suc n"] exI [of _ cq']) simp
    qed
  qed
qed

lemma read_entries_spec:
  assumes "cq_holds cq cs"
  shows "\<exists>n cq'. n \<le> count \<and> n \<le> length cs \<and>
    ofi_cq_read_entries count cq = Some (if cs = [] then - FI_EAGAIN else if count \<noteq> 0 \<and> failed (hd cs) then - FI_EAVAIL else int n,
      map (out_of (cq_format cq)) (take n cs), cq') \<and>
    cq_holds cq' (drop n cs) \<and> same_kind cq cq' \<and> (\<forall>c \<in> set (take n cs). \<not> failed c) \<and>
    (cs \<noteq> [] \<and> count \<noteq> 0 \<and> \<not> failed (hd cs) \<longrightarrow> n \<noteq> 0)"
proof -
  let ?cq = "cq\<lparr>cq_err_data := None\<rparr>"
  define k where "k = min count (unat (ofi_cirque_usedcnt (cirq cq)))"
  have h: "cq_holds ?cq cs" using assms holds_moved [of cq _ _ _ ?cq] by (simp add: cq_holds_def is_aux_def)
  have sk: "same_kind cq ?cq" by (simp add: same_kind_def)
  show ?thesis
  proof (cases "cs = []")
    case True
    then show ?thesis using holds_empty [OF assms] h sk by (intro exI [of _ 0] exI [of _ ?cq]) (simp add: ofi_cq_read_entries_def Let_def)
  next
    case False
    then have ne: "\<not> ofi_cirque_isempty (cirq cq)" using holds_empty [OF assms] by simp
    then have k: "k = 0 \<longleftrightarrow> count = 0" "k \<le> count" by (auto simp: isempty_iff min_def k_def)
    have "k \<le> unat (ofi_cirque_usedcnt (cirq ?cq))" by (simp add: k_def)
    from read_loop_spec [OF h this, of 0] obtain n cq' where n: "n \<le> k" "n \<le> length cs"
      "read_loop k 0 ?cq = Some (if n < k \<and> 0 + n = 0 then - FI_EAVAIL else int (0 + n), map (out_of (cq_format ?cq)) (take n cs), cq')"
      "cq_holds cq' (drop n cs)" "same_kind ?cq cq'" "\<forall>c \<in> set (take n cs). \<not> failed c" "n < k \<longrightarrow> (\<exists>e r. drop n cs = Failed e # r)" by blast
    have f: "failed (hd cs) \<and> count \<noteq> 0 \<longleftrightarrow> n < k \<and> n = 0"
      using n(1,6,7) k False by (cases cs; cases n) auto
    then show ?thesis using n same_kind_trans [OF sk n(5)] ne False k
      by (intro exI [of _ n] exI [of _ cq']) (auto simp: ofi_cq_read_entries_def Let_def k_def [symmetric])
  qed
qed

text \<open>What an error entry says apart from its data buffer and the source a newer client gets.\<close>

definition err_core :: "fi_cq_err_entry \<Rightarrow> fi_cq_err_entry" where
  "err_core e = e\<lparr>er_data := [], er_src_addr := 0\<rparr>"

lemma readerr_spec:
  assumes "cq_holds cq cs"
  shows "\<exists>r ub' cq'. ofi_cq_readerr api ok ub cq = Some (r, ub', cq') \<and> same_kind cq cq' \<and>
    (if cs \<noteq> [] \<and> failed (hd cs)
     then r = 1 \<and> (\<exists>e rest. cs = Failed e # rest \<and> err_core ub' = err_core e \<and> cq_holds cq' rest) \<or>
          r = - FI_ENOMEM \<and> \<not> ok \<and> cq_holds cq' cs
     else r = - FI_EAGAIN \<and> cq_holds cq' cs)"
proof -
  let ?cq = "cq\<lparr>cq_err_data := None\<rparr>"
  have h: "cq_holds ?cq cs" using assms holds_moved [of cq _ _ _ ?cq] by (simp add: cq_holds_def is_aux_def)
  have sk: "same_kind cq ?cq" by (simp add: same_kind_def)
  show ?thesis
  proof (cases "ofi_cirque_isempty (cirq cq) \<or> \<not> is_aux cq (ofi_cirque_rindex (cirq cq))")
    case True
    then have "ofi_cq_readerr api ok ub cq = Some (- FI_EAGAIN, ub, ?cq)" by (auto simp: ofi_cq_readerr_def is_aux_def ofi_cirque_head_def Let_def)
    moreover have "\<not> (cs \<noteq> [] \<and> failed (hd cs))"
      using True holds_empty [OF assms] holds_plain_head [OF assms] by (auto simp: slot_comp_def)
    ultimately show ?thesis using h sk by auto
  next
    case False
    then have ne: "\<not> ofi_cirque_isempty (cirq cq)" and aux: "is_aux cq (ofi_cirque_rindex (cirq cq))" by auto
    note pop = holds_aux_head [OF assms ne aux]
    obtain a axs cs' where a: "aux_queue cq = a # axs" "ax_slot a = ofi_cirque_rindex (cirq cq)" "cs = aux_comp cq a # cs'" using pop by blast
    have d: "cq_holds (drop_aux (cq\<lparr>cq_err_data := d\<rparr>)) cs' \<and> same_kind cq (drop_aux (cq\<lparr>cq_err_data := d\<rparr>))" for d
      using pop [of d] a by auto
    have hd: "te_flags (ofi_cirque_head (cirq cq)) AND UTIL_FLAG_AUX \<noteq> 0" using head_slot_aux [OF assms ne] aux by simp
    show ?thesis
    proof (cases "er_err (ax_comp a) = 0")
      case True
      then show ?thesis using a ne hd h sk by (simp add: ofi_cq_readerr_def aux_comp_def Let_def)
    next
      case err: False
      let ?e = "ax_comp a" and ?b = "ofi_cq_err_memcpy api ub (ax_comp a)"
      have c: "cs = Failed ?e # cs'" using a(3) err by (simp add: aux_comp_def)
      have core: "err_core (?b\<lparr>er_data := x\<rparr>) = err_core ?e" "err_core ?b = err_core ?e" for x
        by (simp_all add: err_core_def ofi_cq_err_memcpy_def Let_def)
      show ?thesis
      proof (cases "er_data ?e \<noteq> [] \<and> (er_data ub = [] \<or> api < FI_VERSION 1 5)")
        case True
        then have "ofi_cq_readerr api ok ub cq = (if \<not> ok then Some (- FI_ENOMEM, ?b, ?cq)
            else Some (1, ?b\<lparr>er_data := er_data ?e\<rparr>, drop_aux (cq\<lparr>cq_err_data := Some (er_data ?e)\<rparr>)))"
          using a ne hd err unfolding ofi_cq_readerr_def Let_def by simp
        then show ?thesis using c core d [of "Some (er_data ?e)"] h sk by (cases ok) auto
      next
        case False
        then have "ofi_cq_readerr api ok ub cq = Some (1, ?b, drop_aux ?cq)"
          using a ne hd err unfolding ofi_cq_readerr_def Let_def by auto
        then show ?thesis using c core d [of None] by auto
      qed
    qed
  qed
qed

section \<open>Opening\<close>

lemma hi_bit_bounds: "0 < n \<Longrightarrow> 2 ^ hi_bit n \<le> n \<and> n < 2 ^ Suc (hi_bit n)"
proof (induction n rule: hi_bit.induct)
  case (1 n)
  show ?case
  proof (cases "n < 2")
    case True
    then show ?thesis using 1(2) by (simp add: hi_bit.simps)
  next
    case False
    from 1(1) [OF this] False have "2 ^ hi_bit (n div 2) \<le> n div 2 \<and> n div 2 < 2 ^ Suc (hi_bit (n div 2))" by simp
    then show ?thesis using False by (auto simp: hi_bit.simps [of n])
  qed
qed

text \<open>Rounding up gives the power of two the indices need, for any size up to the largest one.\<close>

lemma roundup_power:
  assumes "n \<noteq> 0" and "unat n \<le> 2 ^ 63"
  shows "\<exists>k < 64. unat (roundup_power_of_two n) = 2 ^ k \<and> roundup_power_of_two n - 1 = mask k \<and> unat n \<le> 2 ^ k"
proof (cases "n < 2")
  case True
  have "unat n \<noteq> 0" using assms(1) by (simp add: unat_eq_0)
  moreover have "unat n < 2" using True by (simp add: word_less_nat_alt)
  ultimately have "unat n = unat (1 :: u64)" by simp
  then have "n = 1" by (simp only: unsigned_word_eqI)
  then show ?thesis by (intro exI [of _ 0]) (simp add: roundup_power_of_two_def word_less_nat_alt)
next
  case False
  define k where "k = hi_bit (unat (n - 1))"
  have n2: "2 \<le> unat n" using False by (simp add: word_less_nat_alt)
  have u: "unat (n - 1) = unat n - 1" using n2 by (subst unat_sub) (simp_all add: word_le_nat_alt)
  have b: "2 ^ k \<le> unat n - 1" "unat n - 1 < 2 ^ Suc k" using hi_bit_bounds [of "unat n - 1"] n2 by (simp_all add: k_def u)
  have "(2 :: nat) ^ k < 2 ^ 63" using b(1) assms(2) n2 by linarith
  from power_less_imp_less_exp [OF _ this] have k: "Suc k < 64" by simp
  have r: "roundup_power_of_two n = 2 ^ Suc k" using False by (simp add: roundup_power_of_two_def k_def push_bit_eq_mult)
  have "(2 :: nat) ^ Suc k < 2 ^ 64" using k by (intro power_strict_increasing) simp_all
  then have "unat (of_nat (2 ^ Suc k) :: u64) = 2 ^ Suc k" by (simp only: unat_of_nat take_bit_nat_eq_self len_bit0 len_num1 mult_1_right) (simp add: take_bit_nat_eq_self)
  then have "unat (2 ^ Suc k :: u64) = 2 ^ Suc k" by simp
  then show ?thesis using k r b(2) by (intro exI [of _ "Suc k"]) (auto simp: mask_eq_exp_minus_1)
qed


lemma open_holds:
  assumes "util_init_peer_cq oks source attr = Inr cq" and "unat (at_size attr) \<le> 2 ^ 63"
  shows "cq_holds cq [] \<and> (cq_srcs cq = None \<longleftrightarrow> \<not> source)"
proof -
  let ?n = "if at_size attr = 0 then UTIL_DEF_CQ_SIZE else at_size attr"
  define r where "r = roundup_power_of_two ?n"
  have c: "cirq cq = \<lparr>cirq_size = r, size_mask = r - 1, rcnt = 0, wcnt = 0, cirq_buf = replicate (unat r) zero_entry\<rparr>" "aux_queue cq = []"
    "cq_srcs cq = (if source then Some (replicate (unat r) 0) else None)"
    using assms(1) by (auto simp: util_init_peer_cq_def util_comp_cirq_create_def Let_def r_def split: prod.splits option.splits if_splits)
  have "?n \<noteq> 0" "unat ?n \<le> 2 ^ 63" using assms(2) by auto
  from roundup_power [OF this] obtain k where k: "k < 64" "unat r = 2 ^ k" "r - 1 = mask k" by (auto simp: r_def)
  have e: "cirq_slots (cirq cq) = []" "unat (ofi_cirque_usedcnt (cirq cq)) = 0"
    by (simp_all add: cirq_slots_def ofi_cirque_usedcnt_def c(1))
  then show ?thesis using k c holds_nil by (auto simp: cq_holds_def cirq_ok_def ofi_cirque_usedcnt_def)
qed

lemma overflow_spec:
  assumes "cq_holds cq cs" and "\<not> ofi_cirque_freecnt (cirq cq) > 1"
  shows "\<exists>ret cq'. ofi_cq_write_overflow ok e src cq = Some (ret, cq') \<and> same_kind cq cq' \<and>
    (if ok then ret = 0 \<and> cq_holds cq' (cs @ [Done e (if cq_srcs cq = None then FI_ADDR_NOTAVAIL else src)]) else ret = - FI_ENOMEM \<and> cq' = cq)"
proof -
  let ?c = "fi_cq_tagged_entry.extend e \<lparr>er_olen = 0, er_err = 0, er_prov_errno = 0, er_data = [], er_src_addr = 0\<rparr>"
  have "aux_value cq ?c src = Done e (if cq_srcs cq = None then FI_ADDR_NOTAVAIL else src)"
    by (simp add: aux_value_def fi_cq_tagged_entry.defs)
  then show ?thesis using holds_insert_aux [OF assms(1), of ?c src] assms(2)
    by (auto simp: ofi_cq_write_overflow_def same_kind_def util_cq_insert_aux_def Let_def)
qed

lemma write_spec:
  assumes "cq_holds cq cs" and "te_flags e AND UTIL_FLAG_AUX = 0"
  shows "\<exists>ret cq'. ofi_cq_write ok e cq = Some (ret, cq') \<and> same_kind cq cq' \<and>
    (ret = 0 \<and> (\<exists>s. cq_holds cq' (cs @ [Done e s])) \<or> ret = - FI_ENOMEM \<and> \<not> ok \<and> cq' = cq)"
proof (cases "ofi_cirque_freecnt (cirq cq) > 1")
  case True
  then show ?thesis using holds_write_entry [OF assms(1) True assms(2), of cq "cq_srcs cq"]
    by (auto simp: ofi_cq_write_def same_kind_def ofi_cq_write_entry_def Let_def)
next
  case False
  from overflow_spec [OF assms(1) False, of ok e FI_ADDR_NOTAVAIL] False show ?thesis by (cases ok) (auto simp: ofi_cq_write_def)
qed

lemma write_src_spec:
  assumes "cq_holds cq cs" and "te_flags e AND UTIL_FLAG_AUX = 0" and "cq_srcs cq \<noteq> None"
  shows "\<exists>ret cq'. ofi_cq_write_src ok e src cq = Some (ret, cq') \<and> same_kind cq cq' \<and>
    (ret = 0 \<and> cq_holds cq' (cs @ [Done e src]) \<or> ret = - FI_ENOMEM \<and> \<not> ok \<and> cq' = cq)"
proof (cases "ofi_cirque_freecnt (cirq cq) > 1")
  case True
  obtain ss where ss: "cq_srcs cq = Some ss" using assms(3) by blast
  let ?w = "ofi_cirque_windex (cirq cq)"
  let ?cq = "cq\<lparr>cq_srcs := Some (ss[?w := src])\<rparr>"
  have o: "cirq_ok (cirq cq)" "length ss = length (cirq_buf (cirq cq))" using assms(1) ss by (auto simp: cq_holds_def)
  have "unat (ofi_cirque_usedcnt (cirq cq)) < unat (cirq_size (cirq cq))" using True free_used [OF o(1)] by (simp add: word_less_nat_alt)
  from windex_free(2) [OF o(1) this] o(2) have "slot_src ?cq ?w = src" by (simp add: slot_src_def)
  then show ?thesis using holds_write_entry [OF assms(1) True assms(2), of ?cq "Some (ss[?w := src])"] ss True
    by (auto simp: ofi_cq_write_src_def ofi_cq_write_src_entry_def same_kind_def ofi_cq_write_entry_def Let_def)
next
  case False
  from overflow_spec [OF assms(1) False, of ok e src] False assms(3) show ?thesis by (cases ok) (auto simp: ofi_cq_write_src_def)
qed

lemma error_spec:
  assumes "cq_holds cq cs" and "er_err e \<noteq> 0"
  shows "\<exists>ret cq'. ofi_cq_write_error ok okd e cq = Some (ret, cq') \<and> same_kind cq cq' \<and>
    (ret = 0 \<and> cq_holds cq' (cs @ [Failed e]) \<or> ret = - FI_ENOMEM \<and> \<not> (ok \<and> okd) \<and> cq' = cq)"
proof -
  have "aux_value cq e 0 = Failed e" using assms(2) by (simp add: aux_value_def)
  with holds_insert_aux [OF assms(1), of e 0] assms(2) show ?thesis
    by (auto simp: ofi_cq_write_error_def util_cq_insert_error_def same_kind_def util_cq_insert_aux_def Let_def)
qed

section \<open>The queue in use\<close>

text \<open>
  A completion as its writer gave it, with the source if it gave one, and a result as the reader got
  it.  They agree if the reader got the fields of its format and, where the queue keeps sources, the
  source that was given.
\<close>

datatype cq_written = Wrote fi_cq_tagged_entry "fi_addr option" | WroteError fi_cq_err_entry
datatype cq_got = Got cq_out fi_addr | GotError fi_cq_err_entry

fun agrees :: "fi_cq_format \<Rightarrow> bool \<Rightarrow> cq_written \<Rightarrow> cq_got \<Rightarrow> bool" where
  "agrees f keeps (Wrote e s) (Got out src) \<longleftrightarrow> out = read_entry f e \<and> (keeps \<longrightarrow> s = None \<or> s = Some src)"
| "agrees f keeps (WroteError e) (GotError e') \<longleftrightarrow> err_core e' = err_core e"
| "agrees f keeps _ _ \<longleftrightarrow> False"

inductive cq_run :: "util_cq \<Rightarrow> cq_written list \<Rightarrow> cq_got list \<Rightarrow> bool" where
  run_open: "util_init_peer_cq oks source attr = Inr cq \<Longrightarrow> unat (at_size attr) \<le> 2 ^ 63 \<Longrightarrow> cq_run cq [] []"
| run_write: "cq_run cq w g \<Longrightarrow> te_flags e AND UTIL_FLAG_AUX = 0 \<Longrightarrow> ofi_cq_write ok e cq = Some (ret, cq') \<Longrightarrow>
    cq_run cq' (w @ (if ret = 0 then [Wrote e None] else [])) g"
| run_write_src: "cq_run cq w g \<Longrightarrow> te_flags e AND UTIL_FLAG_AUX = 0 \<Longrightarrow> cq_srcs cq \<noteq> None \<Longrightarrow>
    ofi_cq_write_src ok e src cq = Some (ret, cq') \<Longrightarrow> cq_run cq' (w @ (if ret = 0 then [Wrote e (Some src)] else [])) g"
| run_error: "cq_run cq w g \<Longrightarrow> er_err e \<noteq> 0 \<Longrightarrow> ofi_cq_write_error ok okd e cq = Some (ret, cq') \<Longrightarrow>
    cq_run cq' (w @ (if ret = 0 then [WroteError e] else [])) g"
| run_read: "cq_run cq w g \<Longrightarrow> ofi_cq_read_entries n cq = Some (r, os, cq') \<Longrightarrow> cq_run cq' w (g @ map (\<lambda>(out, src). Got out src) os)"
| run_readerr: "cq_run cq w g \<Longrightarrow> ofi_cq_readerr api ok ub cq = Some (r, ub', cq') \<Longrightarrow>
    cq_run cq' w (g @ (if r = 1 then [GotError ub'] else []))"

text \<open>What a queued completion was written as.\<close>

fun stored :: "bool \<Rightarrow> cq_written \<Rightarrow> completion \<Rightarrow> bool" where
  "stored keeps (Wrote e s) (Done e' s') \<longleftrightarrow> e' = e \<and> (keeps \<longrightarrow> s = None \<or> s = Some s')"
| "stored keeps (WroteError e) (Failed e') \<longleftrightarrow> e' = e"
| "stored keeps _ _ \<longleftrightarrow> False"

definition in_step :: "util_cq \<Rightarrow> cq_written list \<Rightarrow> cq_got list \<Rightarrow> completion list \<Rightarrow> bool" where
  "in_step cq w g cs \<longleftrightarrow>
     cq_holds cq cs \<and> length w = length g + length cs \<and>
     list_all2 (agrees (cq_format cq) (cq_srcs cq \<noteq> None)) (take (length g) w) g \<and>
     list_all2 (stored (cq_srcs cq \<noteq> None)) (drop (length g) w) cs"

lemma in_step_write:
  assumes "in_step cq w g cs" and "cq_holds cq' (cs @ [c])" and "stored (cq_srcs cq \<noteq> None) x c" and "same_kind cq cq'"
  shows "in_step cq' (w @ [x]) g (cs @ [c])"
  using assms by (auto simp: in_step_def same_kind_def list_all2_appendI)

lemma stored_agrees: "stored k x c \<Longrightarrow> \<not> failed c \<Longrightarrow> agrees f k x (case out_of f c of (out, src) \<Rightarrow> Got out src)"
  by (cases x; cases c) auto

lemma in_step_read:
  assumes "in_step cq w g (xs @ ys)" and "cq_holds cq' ys" and "same_kind cq cq'"
    and "list_all2 (\<lambda>c o'. \<forall>x. stored (cq_srcs cq \<noteq> None) x c \<longrightarrow> agrees (cq_format cq) (cq_srcs cq \<noteq> None) x o') xs os"
  shows "in_step cq' w (g @ os) ys"
proof -
  let ?k = "cq_srcs cq \<noteq> None" and ?f = "cq_format cq"
  have l: "length os = length xs" using assms(4) by (simp add: list_all2_lengthD)
  have s: "list_all2 (stored ?k) (drop (length g) w) (xs @ ys)" using assms(1) by (simp add: in_step_def)
  then have a: "list_all2 (stored ?k) (take (length xs) (drop (length g) w)) xs" and b: "list_all2 (stored ?k) (drop (length xs + length g) w) ys"
    using list_all2_takeI [OF s, of "length xs"] list_all2_dropI [OF s, of "length xs"] by simp_all
  from a assms(4) have "list_all2 (agrees ?f ?k) (take (length xs) (drop (length g) w)) os"
    by (auto simp: list_all2_conv_all_nth)
  then have "list_all2 (agrees ?f ?k) (take (length g) w @ take (length xs) (drop (length g) w)) (g @ os)"
    using assms(1) by (intro list_all2_appendI) (simp_all add: in_step_def)
  then have "list_all2 (agrees ?f ?k) (take (length g + length xs) w) (g @ os)" by (simp add: take_add)
  then show ?thesis using assms b l by (auto simp: in_step_def same_kind_def add.commute)
qed


lemma run_in_step: "cq_run cq w g \<Longrightarrow> \<exists>cs. in_step cq w g cs"
proof (induction rule: cq_run.induct)
  case (run_open oks source attr cq)
  from open_holds [OF this] show ?case by (auto simp: in_step_def)
next
  case (run_write cq w g e ok ret cq')
  then obtain cs where cs: "in_step cq w g cs" by blast
  then have "cq_holds cq cs" by (simp add: in_step_def)
  from write_spec [OF this run_write(2), of ok] run_write(3) consider s where "ret = 0" "cq_holds cq' (cs @ [Done e s])" "same_kind cq cq'"
    | "ret \<noteq> 0" "cq' = cq" by auto
  then show ?case
  proof cases
    case 1
    then show ?thesis using in_step_write [OF cs 1(2) _ 1(3), of "Wrote e None"] by auto
  qed (use cs in auto)
next
  case (run_write_src cq w g e ok src ret cq')
  then obtain cs where cs: "in_step cq w g cs" by blast
  then have "cq_holds cq cs" by (simp add: in_step_def)
  from write_src_spec [OF this run_write_src(2,3), of ok src] run_write_src(4)
  consider "ret = 0" "cq_holds cq' (cs @ [Done e src])" "same_kind cq cq'" | "ret \<noteq> 0" "cq' = cq" by auto
  then show ?case
  proof cases
    case 1
    then show ?thesis using in_step_write [OF cs 1(2) _ 1(3), of "Wrote e (Some src)"] by auto
  qed (use cs in auto)
next
  case (run_error cq w g e ok okd ret cq')
  then obtain cs where cs: "in_step cq w g cs" by blast
  then have "cq_holds cq cs" by (simp add: in_step_def)
  from error_spec [OF this run_error(2), of ok okd] run_error(3)
  consider "ret = 0" "cq_holds cq' (cs @ [Failed e])" "same_kind cq cq'" | "ret \<noteq> 0" "cq' = cq" by auto
  then show ?case
  proof cases
    case 1
    then show ?thesis using in_step_write [OF cs 1(2) _ 1(3), of "WroteError e"] by auto
  qed (use cs in auto)
next
  case (run_read cq w g n r os cq')
  then obtain cs where cs: "in_step cq w g cs" by blast
  then have "cq_holds cq cs" by (simp add: in_step_def)
  from read_entries_spec [OF this, of n] run_read(2) obtain m where m: "os = map (out_of (cq_format cq)) (take m cs)"
    "cq_holds cq' (drop m cs)" "same_kind cq cq'" "\<forall>c \<in> set (take m cs). \<not> failed c" by auto
  have "in_step cq w g (take m cs @ drop m cs)" using cs by simp
  moreover have "list_all2 (\<lambda>c o'. \<forall>x. stored (cq_srcs cq \<noteq> None) x c \<longrightarrow> agrees (cq_format cq) (cq_srcs cq \<noteq> None) x o')
      (take m cs) (map (\<lambda>(out, src). Got out src) os)"
    using m(4) stored_agrees unfolding m(1) by (fastforce simp: list_all2_conv_all_nth in_set_conv_nth)
  ultimately show ?case using in_step_read m(2,3) by blast
next
  case (run_readerr cq w g api ok ub r ub' cq')
  then obtain cs where cs: "in_step cq w g cs" by blast
  then have h: "cq_holds cq cs" by (simp add: in_step_def)
  note sp = readerr_spec [OF h, of api ok ub]
  show ?case
  proof (cases "r = 1")
    case True
    with sp run_readerr(2) obtain e rest where e: "cs = Failed e # rest" "err_core ub' = err_core e" "cq_holds cq' rest" "same_kind cq cq'"
      by (auto split: if_splits)
    have "agrees (cq_format cq) (cq_srcs cq \<noteq> None) x (GotError ub')" if "stored (cq_srcs cq \<noteq> None) x (Failed e)" for x
      using that e(2) by (cases x) auto
    then have "in_step cq' w (g @ [GotError ub']) rest" using cs e by (intro in_step_read [of cq w g "[Failed e]"]) simp_all
    then show ?thesis using True by auto
  next
    case False
    with sp run_readerr(2) have "cq_holds cq' cs" "same_kind cq cq'" by (auto split: if_splits)
    then show ?thesis using cs False by (auto simp: in_step_def same_kind_def)
  qed
qed

text \<open>A queue of two slots that takes two completions and an error, which do not fit, and is read once.\<close>

definition small_attr :: fi_cq_attr where
  "small_attr = \<lparr>at_size = 2, at_flags = 0, at_format = Some FI_CQ_FORMAT_TAGGED, at_wait_obj = Some FI_WAIT_NONE,
     at_wait_cond = Some FI_CQ_COND_NONE, at_wait_set = False\<rparr>"

definition small_entry :: "nat \<Rightarrow> fi_cq_tagged_entry" where
  "small_entry c = \<lparr>te_context = c, te_flags = 8, te_len = 5, te_buf = 0, te_data = 0, te_tag = 9\<rparr>"

definition small_error :: fi_cq_err_entry where
  "small_error = fi_cq_tagged_entry.extend (small_entry 3) \<lparr>er_olen = 0, er_err = 5, er_prov_errno = 0, er_data = [], er_src_addr = 0\<rparr>"

definition small_ring :: "u64 \<Rightarrow> u64 \<Rightarrow> util_comp_cirq" where
  "small_ring r w = \<lparr>cirq_size = 2, size_mask = 1, rcnt = r, wcnt = w, cirq_buf = [if w = 0 then zero_entry else small_entry 1,
     if w = 2 then zero_entry\<lparr>te_flags := UTIL_FLAG_AUX\<rparr> else zero_entry]\<rparr>"

definition small_cq :: "u64 \<Rightarrow> u64 \<Rightarrow> util_cq_aux_entry list \<Rightarrow> util_cq" where
  "small_cq r w axs = \<lparr>cirq = small_ring r w, cq_srcs = None, aux_queue = axs, cq_format = FI_CQ_FORMAT_TAGGED, cq_err_data = None, cq_users = 0\<rparr>"

definition small_aux :: "util_cq_aux_entry list" where
  "small_aux = [\<lparr>ax_slot = 1, ax_comp = fi_cq_tagged_entry.extend (small_entry 2)
       \<lparr>er_olen = 0, er_err = 0, er_prov_errno = 0, er_data = [], er_src_addr = 0\<rparr>, ax_src = FI_ADDR_NOTAVAIL\<rparr>,
     \<lparr>ax_slot = 1, ax_comp = small_error, ax_src = 0\<rparr>]"

lemmas cirque_eval = ofi_cirque_freecnt_def ofi_cirque_usedcnt_def ofi_cirque_isempty_def ofi_cirque_isfull_def ofi_cirque_rindex_def
  ofi_cirque_windex_def ofi_cirque_tindex_def ofi_cirque_head_def ofi_cirque_commit_def ofi_cirque_discard_def

lemma replicate_two: "replicate 2 x = [x, x]"
  by (simp add: numeral_2_eq_2)

lemma read_loop_two: "read_loop 2 = read_loop (Suc (Suc 0))"
  by (simp add: numeral_2_eq_2)

lemma small_open: "util_init_peer_cq (True, True, True) False small_attr = Inr (small_cq 0 0 [])"
  by (simp add: util_init_peer_cq_def util_comp_cirq_create_def roundup_power_of_two_def small_attr_def small_cq_def small_ring_def
      hi_bit.simps word_less_nat_alt replicate_two Let_def)

lemma small_write_1: "ofi_cq_write True (small_entry 1) (small_cq 0 0 []) = Some (0, small_cq 0 1 [])"
  by (simp add: ofi_cq_write_def ofi_cq_write_entry_def cirque_eval small_cq_def small_ring_def Let_def)

lemma small_write_2: "ofi_cq_write True (small_entry 2) (small_cq 0 1 []) = Some (0, small_cq 0 2 (take 1 small_aux))"
  by (simp add: ofi_cq_write_def ofi_cq_write_overflow_def util_cq_insert_aux_def cirque_eval small_cq_def small_ring_def small_aux_def Let_def)

lemma small_write_3: "ofi_cq_write_error True True small_error (small_cq 0 2 (take 1 small_aux)) = Some (0, small_cq 0 2 small_aux)"
  by (simp add: ofi_cq_write_error_def util_cq_insert_error_def util_cq_insert_aux_def cirque_eval small_cq_def small_ring_def small_aux_def
      small_error_def fi_cq_tagged_entry.defs Let_def)

lemma small_read: "ofi_cq_read_entries 5 (small_cq 0 2 small_aux) =
    Some (2, [(CqTaggedEntry 1 8 5 0 0 9, FI_ADDR_NOTAVAIL), (CqTaggedEntry 2 8 5 0 0 9, FI_ADDR_NOTAVAIL)], small_cq 1 2 (drop 1 small_aux))"
  by (simp add: ofi_cq_read_entries_def cirque_eval small_cq_def small_ring_def small_aux_def small_entry_def slot_src_def aux_src_def
      drop_aux_def zero_entry_def fi_cq_tagged_entry.defs read_loop_two Let_def)

lemma small_run:
  "cq_run (small_cq 1 2 (drop 1 small_aux)) [Wrote (small_entry 1) None, Wrote (small_entry 2) None, WroteError small_error]
     [Got (CqTaggedEntry 1 8 5 0 0 9) FI_ADDR_NOTAVAIL, Got (CqTaggedEntry 2 8 5 0 0 9) FI_ADDR_NOTAVAIL]"
proof -
  have "cq_run (small_cq 0 0 []) [] []" by (rule run_open [OF small_open]) (simp add: small_attr_def)
  from run_write [OF this _ small_write_1] have "cq_run (small_cq 0 1 []) [Wrote (small_entry 1) None] []" by (simp add: small_entry_def)
  from run_write [OF this _ small_write_2]
  have "cq_run (small_cq 0 2 (take 1 small_aux)) [Wrote (small_entry 1) None, Wrote (small_entry 2) None] []" by (simp add: small_entry_def)
  from run_error [OF this _ small_write_3] have "cq_run (small_cq 0 2 small_aux)
      [Wrote (small_entry 1) None, Wrote (small_entry 2) None, WroteError small_error] []" by (simp add: small_error_def fi_cq_tagged_entry.defs)
  from run_read [OF this small_read] show ?thesis by simp
qed

text \<open>
  C34.  Completions are read as they were written.  In any use of a completion queue of any size, of
  plain and sourced writes, errors, reads of any length and error reads, with overflows and with
  counters that wrap, what the reader got so far is what was written first, in order and each
  once: the fields of the queue's format, the source where one was given and the queue keeps it,
  and errors as errors.
\<close>

theorem cq_fifo:
  assumes "cq_run cq w g"
  shows "length g \<le> length w \<and> list_all2 (agrees (cq_format cq) (cq_srcs cq \<noteq> None)) (take (length g) w) g"
  using run_in_step [OF assms] by (auto simp: in_step_def)

theorem cq_fifo_witness:
  "agrees FI_CQ_FORMAT_TAGGED False (Wrote (small_entry 2) None) (Got (CqTaggedEntry 2 8 5 0 0 9) FI_ADDR_NOTAVAIL) \<and>
   cq_run (small_cq 1 2 (drop 1 small_aux)) [Wrote (small_entry 1) None, Wrote (small_entry 2) None, WroteError small_error]
     [Got (CqTaggedEntry 1 8 5 0 0 9) FI_ADDR_NOTAVAIL, Got (CqTaggedEntry 2 8 5 0 0 9) FI_ADDR_NOTAVAIL]"
  using cq_fifo [OF small_run] small_run by (simp add: small_cq_def)

text \<open>
  C35.  Nothing written is stuck in the queue.  At any time, a read of at least one entry runs without
  a failed assertion: it says that there is nothing exactly when everything written has been read;
  it announces an error exactly when an error is next, and an error read then returns it unless
  memory for its data is short; otherwise it returns at least one completion.
\<close>

theorem cq_read_progress:
  assumes "cq_run cq w g" and "0 < n"
  shows "\<exists>r os cq'. ofi_cq_read_entries n cq = Some (r, os, cq') \<and>
    (if length g = length w then r = - FI_EAGAIN \<and> os = []
     else case w ! length g of
            WroteError e \<Rightarrow> r = - FI_EAVAIL \<and> os = [] \<and> (\<exists>ub' cq''. ofi_cq_readerr api True ub cq = Some (1, ub', cq'') \<and> err_core ub' = err_core e)
          | Wrote e s \<Rightarrow> r = int (length os) \<and> os \<noteq> [] \<and> fst (hd os) = read_entry (cq_format cq) e)"
proof -
  from run_in_step [OF assms(1)] obtain cs where cs: "cq_holds cq cs" "length w = length g + length cs"
    "list_all2 (stored (cq_srcs cq \<noteq> None)) (drop (length g) w) cs" by (auto simp: in_step_def)
  from read_entries_spec [OF cs(1), of n] obtain m cq' where m: "m \<le> length cs"
    "ofi_cq_read_entries n cq = Some (if cs = [] then - FI_EAGAIN else if n \<noteq> 0 \<and> failed (hd cs) then - FI_EAVAIL else int m,
      map (out_of (cq_format cq)) (take m cs), cq')" "\<forall>c \<in> set (take m cs). \<not> failed c" "cs \<noteq> [] \<and> n \<noteq> 0 \<and> \<not> failed (hd cs) \<longrightarrow> m \<noteq> 0" by blast
  show ?thesis
  proof (cases cs)
    case Nil
    then show ?thesis using cs(2) m by simp
  next
    case (Cons c rest)
    have x: "drop (length g) w = w ! length g # drop (Suc (length g)) w" using cs(2) Cons by (simp add: Cons_nth_drop_Suc)
    then have st: "stored (cq_srcs cq \<noteq> None) (w ! length g) c" using cs(3) Cons by simp
    show ?thesis
    proof (cases c)
      case (Failed e)
      then have "w ! length g = WroteError e" using st by (cases "w ! length g") auto
      moreover have "m = 0" using m(1,3) Cons Failed by (cases m) auto
      moreover obtain ub' cq'' where "ofi_cq_readerr api True ub cq = Some (1, ub', cq'')" "err_core ub' = err_core e"
        using readerr_spec [OF cs(1), of api True ub] Cons Failed by auto
      ultimately show ?thesis using m(2) cs(2) Cons Failed assms(2) by auto
    next
      case (Done e s)
      then obtain s' where "w ! length g = Wrote e s'" using st by (cases "w ! length g") auto
      moreover have "m \<noteq> 0" using m(4) Cons Done assms(2) by simp
      then obtain k where "m = Suc k" by (cases m) auto
      ultimately show ?thesis using m(1,2) cs(2) Cons Done assms(2) by auto
    qed
  qed
qed


theorem cq_read_progress_witness:
  "\<exists>cq'. ofi_cq_read_entries 1 (small_cq 1 2 (drop 1 small_aux)) = Some (- FI_EAVAIL, [], cq') \<and>
     (\<exists>ub' cq''. ofi_cq_readerr (FI_VERSION 2 0) True small_error (small_cq 1 2 (drop 1 small_aux)) = Some (1, ub', cq'') \<and> er_err ub' = 5)"
proof -
  have "er_err ub' = 5" if "err_core ub' = err_core small_error" for ub'
  proof -
    from that have "er_err (err_core ub') = er_err (err_core small_error)" by simp
    then show ?thesis by (simp add: err_core_def small_error_def fi_cq_tagged_entry.defs)
  qed
  with cq_read_progress [OF small_run, of 1 "FI_VERSION 2 0" small_error] show ?thesis by (auto simp: nth_Cons')
qed

end
