(* ===== verification/Rds_Completion.thy ===== *)
theory Rds_Completion
  imports Rds_Core Rds_Testbed Util_Cq_Fifo
begin

text \<open>
  The completions of the provider in the completion queue.  The model of the data path writes a
  completion as an event at the end of a log; here the two writers of \<^verbatim>\<open>rds_msg.c\<close> are stated over
  the utility layer's queue, and the log is shown to be what such a queue holds or has delivered.
\<close>

section \<open>The writers over the queue\<close>

definition comp_entry :: "nat \<Rightarrow> u64 \<Rightarrow> nat \<Rightarrow> u64 \<Rightarrow> u64 \<Rightarrow> fi_cq_tagged_entry" where
  "comp_entry context flags len data tag =
     \<lparr>te_context = context, te_flags = flags, te_len = len, te_buf = 0, te_data = data, te_tag = tag\<rparr>"

definition comp_error :: "nat \<Rightarrow> u64 \<Rightarrow> nat \<Rightarrow> u64 \<Rightarrow> u64 \<Rightarrow> int \<Rightarrow> fi_cq_err_entry" where
  "comp_error context flags len data tag err =
     fi_cq_tagged_entry.extend (comp_entry context flags len data tag)
       \<lparr>er_olen = 0, er_err = (if err < 0 then - err else err), er_prov_errno = 0, er_data = [], er_src_addr = 0\<rparr>"

text \<open>\<open>ok\<close> is the allocation a write to a full queue makes; its failure is not seen by the caller.\<close>

definition cq_write_tx :: "bool \<Rightarrow> nat \<Rightarrow> u64 \<Rightarrow> nat \<Rightarrow> int \<Rightarrow> util_cq option \<Rightarrow> util_cq option option" where
  "cq_write_tx ok context flags len err cq =
     (case cq of
        None \<Rightarrow> Some None
      | Some q \<Rightarrow>
          map_option (Some \<circ> snd)
            (if err \<noteq> 0 then ofi_cq_write_error ok True (comp_error context flags len 0 0 err) q
             else ofi_cq_write ok (comp_entry context flags len 0 0) q))"

definition cq_write_rx ::
  "bool \<Rightarrow> u64 \<Rightarrow> nat \<Rightarrow> u64 \<Rightarrow> nat \<Rightarrow> u64 \<Rightarrow> u64 \<Rightarrow> fi_addr \<Rightarrow> int \<Rightarrow> util_cq option \<Rightarrow> util_cq option option" where
  "cq_write_rx ok caps context flags len data tag src err cq =
     (case cq of
        None \<Rightarrow> Some None
      | Some q \<Rightarrow>
          map_option (Some \<circ> snd)
            (if err \<noteq> 0 then ofi_cq_write_error ok True (comp_error context flags len data tag err) q
             else if has_flag caps FI_SOURCE then ofi_cq_write_src ok (comp_entry context flags len data tag) src q
             else ofi_cq_write ok (comp_entry context flags len data tag) q))"

section \<open>The log as an abstraction of the queue\<close>

definition entry_written :: "cq_entry \<Rightarrow> cq_written" where
  "entry_written c =
     (if cq_err c \<noteq> 0 then WroteError (comp_error (cq_context c) (cq_flags c) (cq_len c) (cq_data c) (cq_tag c) (cq_err c))
      else Wrote (comp_entry (cq_context c) (cq_flags c) (cq_len c) (cq_data c) (cq_tag c)) (cq_src c))"

fun event_written :: "cq_event \<Rightarrow> cq_written" where
  "event_written (TxComp c) = entry_written c"
| "event_written (RxComp c) = entry_written c"

text \<open>
  One queue serves both directions.  It was opened by the utility layer and used since; everything
  the endpoint has logged was written to it, and \<open>g\<close> is what the application has read so far.
\<close>

definition logged :: "rds_ep \<Rightarrow> util_cq \<Rightarrow> cq_got list \<Rightarrow> bool" where
  "logged ep q g \<longleftrightarrow> tx_cq ep \<and> rx_cq ep \<and> (has_flag (ep_caps ep) FI_SOURCE \<longrightarrow> cq_srcs q \<noteq> None) \<and>
     cq_run q (map event_written (cq_log ep)) g"

lemma run_keeps_srcs:
  assumes "cq_run q w g" and "ofi_cq_write ok e q = Some (r, q') \<and> te_flags e AND UTIL_FLAG_AUX = 0 \<or>
    ofi_cq_write_error ok okd er q = Some (r, q') \<and> er_err er \<noteq> 0 \<or>
    ofi_cq_write_src ok e src q = Some (r, q') \<and> te_flags e AND UTIL_FLAG_AUX = 0 \<and> cq_srcs q \<noteq> None"
  shows "cq_srcs q' = None \<longleftrightarrow> cq_srcs q = None"
proof -
  from run_in_step [OF assms(1)] obtain cs where "cq_holds q cs" by (auto simp: in_step_def)
  from assms(2) write_spec [OF this, of e ok] error_spec [OF this, of er ok okd] write_src_spec [OF this, of e ok src]
  show ?thesis by (auto simp: same_kind_def)
qed

definition good_entry :: "nat \<Rightarrow> u64 \<Rightarrow> nat \<Rightarrow> u64 \<Rightarrow> u64 \<Rightarrow> fi_addr option \<Rightarrow> cq_entry" where
  "good_entry context flags len data tag src =
     \<lparr>cq_context = context, cq_flags = flags, cq_len = len, cq_data = data, cq_tag = tag, cq_src = src, cq_err = 0\<rparr>"

definition bad_entry :: "nat \<Rightarrow> u64 \<Rightarrow> nat \<Rightarrow> u64 \<Rightarrow> u64 \<Rightarrow> int \<Rightarrow> cq_entry" where
  "bad_entry context flags len data tag err =
     \<lparr>cq_context = context, cq_flags = flags, cq_len = len, cq_data = data, cq_tag = tag, cq_src = None,
      cq_err = (if err < 0 then - err else err)\<rparr>"

lemma entry_written_good:
  "entry_written (good_entry context flags len data tag src) = Wrote (comp_entry context flags len data tag) src"
  by (simp add: entry_written_def good_entry_def)

lemma entry_written_bad:
  "err \<noteq> 0 \<Longrightarrow> entry_written (bad_entry context flags len data tag err) = WroteError (comp_error context flags len data tag err)"
  by (simp add: entry_written_def bad_entry_def comp_error_def)

lemma logged_append:
  assumes "logged ep q g" and "cq_run q' (map event_written (cq_log ep) @ [event_written ev]) g" and "cq_srcs q' = None \<longleftrightarrow> cq_srcs q = None"
  shows "logged (cq_push ev ep) q' g"
  using assms by (simp add: logged_def cq_push_def)

lemma logged_push:
  assumes "logged ep q g"
  shows "te_flags e AND UTIL_FLAG_AUX = 0 \<Longrightarrow> event_written ev = Wrote e None \<Longrightarrow>
      \<exists>q'. ofi_cq_write True e q = Some (0, q') \<and> logged (cq_push ev ep) q' g"
    and "er_err er \<noteq> 0 \<Longrightarrow> event_written ev = WroteError er \<Longrightarrow>
      \<exists>q'. ofi_cq_write_error True True er q = Some (0, q') \<and> logged (cq_push ev ep) q' g"
    and "te_flags e AND UTIL_FLAG_AUX = 0 \<Longrightarrow> has_flag (ep_caps ep) FI_SOURCE \<Longrightarrow> event_written ev = Wrote e (Some src) \<Longrightarrow>
      \<exists>q'. ofi_cq_write_src True e src q = Some (0, q') \<and> logged (cq_push ev ep) q' g"
proof -
  have run: "cq_run q (map event_written (cq_log ep)) g" using assms by (simp add: logged_def)
  from run_in_step [OF run] obtain cs where h: "cq_holds q cs" by (auto simp: in_step_def)
  note app = logged_append [OF assms, where ev = ev]
  {
    assume f: "te_flags e AND UTIL_FLAG_AUX = 0" and ev: "event_written ev = Wrote e None"
    from write_spec [OF h f, of True] obtain q' where q': "ofi_cq_write True e q = Some (0, q')" by auto
    with app [of q'] run_write [OF run f q'] run_keeps_srcs [OF run disjI1 [OF conjI [OF q' f]]] ev
    show "\<exists>q'. ofi_cq_write True e q = Some (0, q') \<and> logged (cq_push ev ep) q' g" by simp
  next
    assume f: "er_err er \<noteq> 0" and ev: "event_written ev = WroteError er"
    from error_spec [OF h f, of True True] obtain q' where q': "ofi_cq_write_error True True er q = Some (0, q')" by auto
    with app [of q'] run_error [OF run f q'] run_keeps_srcs [OF run disjI2 [OF disjI1 [OF conjI [OF q' f]]]] ev
    show "\<exists>q'. ofi_cq_write_error True True er q = Some (0, q') \<and> logged (cq_push ev ep) q' g" by simp
  next
    assume f: "te_flags e AND UTIL_FLAG_AUX = 0" and c: "has_flag (ep_caps ep) FI_SOURCE" and ev: "event_written ev = Wrote e (Some src)"
    from c assms have s: "cq_srcs q \<noteq> None" by (simp add: logged_def)
    from write_src_spec [OF h f s, of True src] obtain q' where q': "ofi_cq_write_src True e src q = Some (0, q')" by auto
    with app [of q'] run_write_src [OF run f s q'] run_keeps_srcs [OF run disjI2 [OF disjI2 [OF conjI [OF q' conjI [OF f s]]]]] ev
    show "\<exists>q'. ofi_cq_write_src True e src q = Some (0, q') \<and> logged (cq_push ev ep) q' g" by simp
  }
qed



end
