(* ===== verification/Util_Av_Count.thy ===== *)
theory Util_Av_Count
  imports Util_Av "HOL-Library.Multiset"
begin

text \<open>
  The address vector counts references.  Seen from outside it is a multiset of addresses: an
  insertion adds one occurrence, a removal takes one away, and an address keeps its index as long
  as an occurrence is left.
\<close>

section \<open>Removal of several addresses\<close>

text \<open>The array is walked from its end; the result is the error of the lowest index that failed.\<close>

fun remove_loop :: "fi_addr list \<Rightarrow> int \<Rightarrow> util_av \<Rightarrow> int \<times> util_av" where
  "remove_loop [] err av = (err, av)"
| "remove_loop (i # is) err av =
     (case ofi_av_remove_addr av i of (ret, av') \<Rightarrow> remove_loop is (if ret \<noteq> 0 then ret else err) av')"

definition ofi_ip_av_remove :: "util_av \<Rightarrow> fi_addr list \<Rightarrow> u64 \<Rightarrow> int \<times> util_av" where
  "ofi_ip_av_remove av is flags = (if flags \<noteq> 0 then (- FI_EINVAL, av) else remove_loop (rev is) 0 av)"

definition ofi_ip_av_is_valid :: "util_av \<Rightarrow> fi_addr \<Rightarrow> bool" where
  "ofi_ip_av_is_valid av i \<longleftrightarrow> av_entries av i \<noteq> None"

section \<open>The multiset of addresses\<close>

text \<open>The index the entry pool hands out is one it has not handed out yet.\<close>

definition fresh_index :: "util_av \<Rightarrow> fi_addr option \<Rightarrow> bool" where
  "fresh_index av ibuf \<longleftrightarrow> (\<forall>i. ibuf = Some i \<longrightarrow> av_entries av i = None \<and> i \<noteq> FI_ADDR_NOTAVAIL)"

inductive av_reach :: "util_av \<Rightarrow> sock_ip multiset \<Rightarrow> bool" where
  av_start: "av_reach av_empty {#}"
| av_insert: "av_reach av M \<Longrightarrow> fresh_index av ibuf \<Longrightarrow> ofi_av_insert_addr ibuf av a = (ret, i, av') \<Longrightarrow>
    av_reach av' (if ret = 0 then add_mset a M else M)"
| av_insert_at: "av_reach av M \<Longrightarrow> i \<noteq> FI_ADDR_NOTAVAIL \<Longrightarrow> ofi_av_insert_addr_at ibuf av a i = Some (ret, av') \<Longrightarrow>
    av_reach av' (if ret = 0 \<and> a \<notin># M then add_mset a M else M)"
| av_remove: "av_reach av M \<Longrightarrow> ofi_av_remove_addr av i = (ret, av') \<Longrightarrow>
    av_reach av' (if ret = 0 then M - {#the (ofi_av_get_addr av i)#} else M)"

definition refs :: "util_av \<Rightarrow> sock_ip \<Rightarrow> int" where
  "refs av a = (case av_hash av a of None \<Rightarrow> 0 | Some i \<Rightarrow> ave_use_cnt (the (av_entries av i)))"

definition av_counts :: "util_av \<Rightarrow> sock_ip multiset \<Rightarrow> bool" where
  "av_counts av M \<longleftrightarrow> av_inv av \<and> (\<forall>a. int (count M a) = refs av a)"

lemma hash_entry: "av_inv av \<Longrightarrow> av_hash av a = Some i \<Longrightarrow> \<exists>e. av_entries av i = Some e \<and> ave_addr e = a \<and> 0 < ave_use_cnt e"
  unfolding av_inv_def by blast

lemma entry_hash: "av_inv av \<Longrightarrow> av_entries av i = Some e \<Longrightarrow> av_hash av (ave_addr e) = Some i"
  unfolding av_inv_def by blast

lemma entry_index: "av_inv av \<Longrightarrow> av_entries av i = Some e \<Longrightarrow> i \<noteq> FI_ADDR_NOTAVAIL"
  unfolding av_inv_def by force

lemma hash_inj: "av_inv av \<Longrightarrow> av_hash av a = Some i \<Longrightarrow> av_hash av b = Some i \<Longrightarrow> a = b"
  using hash_entry [of av a i] hash_entry [of av b i] by auto

lemma refs_fresh:
  assumes "av_inv av" and "av_entries av j = None"
  shows "refs (av\<lparr>av_entries := (av_entries av)(j \<mapsto> \<lparr>ave_addr = a, ave_use_cnt = 1\<rparr>), av_hash := (av_hash av)(a \<mapsto> j)\<rparr>) b =
    (if b = a then 1 else refs av b)"
proof -
  have "av_hash av b \<noteq> Some j" using hash_entry [OF assms(1), of b j] assms(2) by auto
  then show ?thesis by (auto simp: refs_def split: option.split)
qed

lemma refs_update:
  assumes "av_inv av" and "av_entries av i = Some e"
  shows "refs (av\<lparr>av_entries := (av_entries av)(i \<mapsto> e\<lparr>ave_use_cnt := n\<rparr>)\<rparr>) b = (if b = ave_addr e then n else refs av b)"
proof -
  have h: "av_hash av (ave_addr e) = Some i" by (rule entry_hash [OF assms])
  show ?thesis
  proof (cases "b = ave_addr e")
    case False
    then have "av_hash av b \<noteq> Some i" using hash_inj [OF assms(1) h] by blast
    then show ?thesis using False by (auto simp: refs_def split: option.split)
  qed (simp add: refs_def h)
qed

lemma refs_drop:
  assumes "av_inv av" and "av_entries av i = Some e"
  shows "refs (av\<lparr>av_hash := (av_hash av)(ave_addr e := None), av_entries := (av_entries av)(i := None)\<rparr>) b =
    (if b = ave_addr e then 0 else refs av b)"
proof -
  have h: "av_hash av (ave_addr e) = Some i" by (rule entry_hash [OF assms])
  show ?thesis
  proof (cases "b = ave_addr e")
    case False
    then have "av_hash av b \<noteq> Some i" using hash_inj [OF assms(1) h] by blast
    then show ?thesis using False by (auto simp: refs_def split: option.split)
  qed (simp add: refs_def)
qed

lemma refs_entry: "av_inv av \<Longrightarrow> av_entries av i = Some e \<Longrightarrow> refs av (ave_addr e) = ave_use_cnt e"
  by (frule (1) entry_hash) (simp add: refs_def)

lemma refs_pos: "av_inv av \<Longrightarrow> av_hash av a = Some i \<Longrightarrow> 0 < refs av a"
  by (drule (1) hash_entry) (auto simp: refs_entry refs_def)

lemma counts_mem: "av_counts av M \<Longrightarrow> a \<in># M \<longleftrightarrow> av_hash av a \<noteq> None"
proof -
  assume c: "av_counts av M"
  then have "int (count M a) = refs av a" and inv: "av_inv av" by (simp_all add: av_counts_def)
  moreover have "refs av a = 0" if "av_hash av a = None" using that by (simp add: refs_def)
  moreover have "0 < refs av a" if "av_hash av a \<noteq> None" using that refs_pos [OF inv] by blast
  ultimately show ?thesis by (cases "av_hash av a = None") (simp_all add: not_in_iff count_inI)
qed

lemma counts_insert_new:
  assumes "av_counts av M" and "av_hash av a = None" and "av_entries av j = None" and "j \<noteq> FI_ADDR_NOTAVAIL"
  shows "av_counts (av\<lparr>av_entries := (av_entries av)(j \<mapsto> \<lparr>ave_addr = a, ave_use_cnt = 1\<rparr>), av_hash := (av_hash av)(a \<mapsto> j)\<rparr>) (add_mset a M)"
    (is "av_counts ?av _")
proof -
  have inv: "av_inv av" using assms(1) by (simp add: av_counts_def)
  have "av_inv (snd (snd (ofi_av_insert_addr (Some j) av a)))"
    by (rule av_inv_insert_addr [OF inv]) (use assms(3,4) in auto)
  moreover have "snd (snd (ofi_av_insert_addr (Some j) av a)) = ?av" using assms(2) by (simp add: ofi_av_insert_addr_def)
  moreover have "refs av a = 0" using assms(2) by (simp add: refs_def)
  ultimately show ?thesis using assms(1) by (auto simp: av_counts_def refs_fresh [OF inv assms(3)])
qed

lemma counts_insert:
  assumes "av_counts av M" and "fresh_index av ibuf" and ins: "ofi_av_insert_addr ibuf av a = (ret, i, av')"
  shows "av_counts av' (if ret = 0 then add_mset a M else M)"
proof (cases "av_hash av a")
  case None
  show ?thesis
  proof (cases ibuf)
    case (Some j)
    have "av_entries av j = None \<and> j \<noteq> FI_ADDR_NOTAVAIL" using assms(2) Some unfolding fresh_index_def by blast
    with counts_insert_new [OF assms(1) None] show ?thesis
      using ins unfolding ofi_av_insert_addr_def None Some option.case prod.inject by fastforce
  qed (use ins None assms(1) in \<open>auto simp: ofi_av_insert_addr_def\<close>)
next
  case (Some j)
  have inv: "av_inv av" using assms(1) by (simp add: av_counts_def)
  obtain e where e: "av_entries av j = Some e" "ave_addr e = a" using hash_entry [OF inv Some] by blast
  let ?av = "av\<lparr>av_entries := (av_entries av)(j \<mapsto> e\<lparr>ave_use_cnt := ave_use_cnt e + 1\<rparr>)\<rparr>"
  have r: "ofi_av_insert_addr None av a = (0, j, ?av)" "ofi_av_insert_addr ibuf av a = (0, j, ?av)"
    unfolding ofi_av_insert_addr_def using Some e by simp_all
  have "av_inv (snd (snd (ofi_av_insert_addr None av a)))" by (rule av_inv_insert_addr [OF inv]) auto
  then have "av_inv ?av" unfolding r by simp
  then have "av_counts ?av (add_mset a M)"
    using assms(1) refs_entry [OF inv e(1)] by (auto simp: av_counts_def refs_update [OF inv e(1)] e(2))
  then show ?thesis using ins unfolding r(2) by auto
qed

lemma counts_insert_at:
  assumes "av_counts av M" and "i \<noteq> FI_ADDR_NOTAVAIL" and ins: "ofi_av_insert_addr_at ibuf av a i = Some (ret, av')"
  shows "av_counts av' (if ret = 0 \<and> a \<notin># M then add_mset a M else M)"
proof (cases "av_hash av a")
  case None
  show ?thesis
  proof (cases "av_entries av i")
    case fresh: None
    have "a \<notin># M" using counts_mem [OF assms(1)] None by simp
    with counts_insert_new [OF assms(1) None fresh assms(2)] show ?thesis
      using ins assms(1) unfolding ofi_av_insert_addr_at_def None fresh option.case by (auto split: if_splits)
  qed (use ins None assms(1) in \<open>auto simp: ofi_av_insert_addr_at_def\<close>)
next
  case (Some j)
  then have "a \<in># M" using counts_mem [OF assms(1)] by simp
  moreover have "av' = av" using ins unfolding ofi_av_insert_addr_at_def Some option.case by (simp split: if_splits)
  ultimately show ?thesis using assms(1) by simp
qed

lemma counts_remove:
  assumes "av_counts av M" and rem: "ofi_av_remove_addr av i = (ret, av')"
  shows "av_counts av' (if ret = 0 then M - {#the (ofi_av_get_addr av i)#} else M)"
proof (cases "av_entries av i")
  case None
  then show ?thesis using assms by (auto simp: ofi_av_remove_addr_def)
next
  case (Some e)
  have inv: "av_inv av" and c: "\<And>b. int (count M b) = refs av b" using assms(1) by (simp_all add: av_counts_def)
  have g: "the (ofi_av_get_addr av i) = ave_addr e" by (simp add: ofi_av_get_addr_def Some)
  have ce: "int (count M (ave_addr e)) = ave_use_cnt e" using c refs_entry [OF inv Some] by simp
  have inv': "av_inv av'" using av_inv_remove_addr [OF inv, of i] unfolding rem by simp
  have pos: "0 < ave_use_cnt e" using refs_pos [OF inv entry_hash [OF inv Some]] refs_entry [OF inv Some] by simp
  have "ret = 0 \<and> refs av' b = (if b = ave_addr e then ave_use_cnt e - 1 else refs av b)" for b
    using rem unfolding ofi_av_remove_addr_def Some option.case
    by (auto simp: refs_update [OF inv Some] refs_drop [OF inv Some] split: if_splits)
  moreover have "int (count (M - {#ave_addr e#}) b) = (if b = ave_addr e then ave_use_cnt e - 1 else refs av b)" for b
    using c [of b] ce pos by (cases "b = ave_addr e") (auto simp: of_nat_diff)
  ultimately show ?thesis using inv' unfolding g av_counts_def by simp
qed

lemma reach_counts: "av_reach av M \<Longrightarrow> av_counts av M"
proof (induction rule: av_reach.induct)
  case av_start
  then show ?case by (simp add: av_counts_def av_inv_empty) (simp add: av_empty_def refs_def)
qed (blast intro: counts_insert counts_insert_at counts_remove)+

text \<open>A removal of an array of indices is a run of single removals, and only takes references away.\<close>

lemma remove_loop_reach:
  "av_reach av M \<Longrightarrow> \<exists>N. av_reach (snd (remove_loop is err av)) N \<and> N \<subseteq># M"
proof (induction "is" arbitrary: av M err)
  case (Cons i "is")
  obtain ret av' where r: "ofi_av_remove_addr av i = (ret, av')" by fastforce
  let ?M = "if ret = 0 then M - {#the (ofi_av_get_addr av i)#} else M"
  obtain N where N: "av_reach (snd (remove_loop is (if ret \<noteq> 0 then ret else err) av')) N" "N \<subseteq># ?M"
    using Cons.IH [OF av_remove [OF Cons.prems r]] by blast
  have "?M \<subseteq># M" by simp
  with N(2) have "N \<subseteq># M" by (rule subset_mset.order_trans)
  with N(1) show ?case by (auto simp: r)
qed auto

lemma ip_remove_reach: "av_reach av M \<Longrightarrow> \<exists>N. av_reach (snd (ofi_ip_av_remove av is flags)) N \<and> N \<subseteq># M"
  by (cases "flags = 0") (auto simp: ofi_ip_av_remove_def remove_loop_reach)


lemma two_references: "\<exists>av. av_reach av {#9, 9#}"
proof -
  obtain i av1 where 1: "ofi_av_insert_addr (Some 1) av_empty 9 = (0, i, av1)" by (simp add: ofi_av_insert_addr_def av_empty_def)
  have "av_reach av1 {#9#}" using av_insert [OF av_start _ 1] by (simp add: fresh_index_def av_empty_def)
  moreover obtain j av2 where "ofi_av_insert_addr None av1 9 = (0, j, av2)" using 1 by (auto simp: ofi_av_insert_addr_def av_empty_def)
  ultimately show ?thesis using av_insert [of av1 "{#9#}" None 9 0 j av2] by (auto simp: fresh_index_def)
qed


end
