(* ===== verification/Ofi_Bufpool.thy ===== *)
theory Ofi_Bufpool
  imports Util_Cq
begin

text \<open>
  The buffer pools of \<^verbatim>\<open>prov/util/src/util_buf.c\<close> and \<^verbatim>\<open>include/ofi_mem.h\<close>.  A pool
  grows by regions of \<^verbatim>\<open>chunk_cnt\<close> buffers, each preceded by a header.  A plain pool keeps one
  stack of free buffers.  An indexed pool keeps a sorted list of free buffers per region and a sorted list of
  the regions that have any, so that it can hand out the lowest free index.

  A pointer to a buffer is its address and a pointer to a region is its position in
  \<^verbatim>\<open>region_table\<close>.  A doubly linked list is the list of what it links; an entry that is not on a list
  links to itself.  What the operating system and the callback of the pool answer while a region is
  created is a record of type \<open>region_env\<close>.
\<close>

section \<open>Definitions\<close>

definition size_t :: "nat \<Rightarrow> nat" where
  "size_t n = n mod size_max"

definition size_sub :: "nat \<Rightarrow> nat \<Rightarrow> nat" where
  "size_sub m n = size_t (m + (size_max - n))"

definition ofi_get_aligned_size :: "nat \<Rightarrow> nat \<Rightarrow> nat" where
  "ofi_get_aligned_size n alignment =
     (if n mod alignment = 0 then n else size_t ((n div alignment + 1) * alignment))"

text \<open>The size of a header without the debugging fields.\<close>

abbreviation (input) hdr_size :: nat where "hdr_size \<equiv> 32"
abbreviation (input) OFI_BUFPOOL_REGION_CHUNK_CNT :: nat where "OFI_BUFPOOL_REGION_CHUNK_CNT \<equiv> 16"

text \<open>
  The bits of \<^verbatim>\<open>flags\<close> are one Boolean each.  The bits that say whether memory is cleared and whether
  debug builds count buffers, and the callbacks that fill in new buffers and that are told of a region's end, have no
  effect on the state of the pool and are left out.
\<close>

record ofi_bufpool_attr =
  pa_size :: nat
  pa_alignment :: nat
  pa_max_cnt :: nat
  pa_chunk_cnt :: nat
  pa_indexed :: bool
  pa_hugepages :: bool
  pa_nonshared :: bool

record ofi_bufpool_region =
  rg_free :: "addr list"
  rg_alloc :: addr
  rg_mem :: addr
  rg_mapped :: bool

text \<open>The link of a header is only asked whether it points to itself, which marks a buffer in use.\<close>

record ofi_bufpool_hdr =
  bh_region :: nat
  bh_index :: nat
  bh_self :: bool

record ofi_bufpool =
  bp_entries :: "addr list"
  bp_free_regions :: "nat list"
  bp_entry_size :: nat
  bp_entry_cnt :: nat
  bp_regions :: "ofi_bufpool_region list"
  bp_alloc_size :: nat
  bp_region_size :: nat
  bp_attr :: ofi_bufpool_attr
  bp_hdrs :: "addr \<Rightarrow> ofi_bufpool_hdr option"

abbreviation chunk_cnt :: "ofi_bufpool \<Rightarrow> nat" where "chunk_cnt p \<equiv> pa_chunk_cnt (bp_attr p)"
abbreviation region_cnt :: "ofi_bufpool \<Rightarrow> nat" where "region_cnt p \<equiv> length (bp_regions p)"

text \<open>Answers of the system: \<open>Inl\<close> carries the code of a failure.\<close>

record region_env =
  re_calloc :: bool
  re_hugepage_size :: int
  re_hugepage :: "nat \<Rightarrow> int + addr"
  re_page_size :: int
  re_syserr :: int
  re_mmap :: "nat \<Rightarrow> int + addr"
  re_memalign :: "nat \<Rightarrow> nat \<Rightarrow> int + addr"
  re_alloc_fn :: int
  re_realloc :: bool

text \<open>Memory for a region: huge pages, else mapped pages, else the heap.  What was refused once is not tried again.\<close>

definition region_memalign :: "region_env \<Rightarrow> ofi_bufpool \<Rightarrow> (int + addr \<times> bool) \<times> ofi_bufpool" where
  "region_memalign env p =
     (case re_memalign env (unat (roundup_power_of_two (of_nat (pa_alignment (bp_attr p))))) (bp_alloc_size p) of
        Inl err \<Rightarrow> (Inl err, p)
      | Inr a \<Rightarrow> (Inr (a, False), p))"

definition region_mmap :: "region_env \<Rightarrow> ofi_bufpool \<Rightarrow> (int + addr \<times> bool) \<times> ofi_bufpool" where
  "region_mmap env p =
     (if \<not> pa_nonshared (bp_attr p) then region_memalign env p
      else if re_page_size env < 0 then (Inl (- re_syserr env), p)
      else
        let p1 = p\<lparr>bp_alloc_size := ofi_get_aligned_size (bp_alloc_size p) (nat (re_page_size env))\<rparr>
        in (case re_mmap env (bp_alloc_size p1) of
              Inr a \<Rightarrow> (Inr (a, True), p1\<lparr>bp_region_size := size_sub (bp_alloc_size p1) (bp_entry_size p1)\<rparr>)
            | Inl err \<Rightarrow>
                if err \<noteq> - FI_ENOSYS then (Inl err, p1)
                else region_memalign env
                  (p1\<lparr>bp_attr := (bp_attr p1)\<lparr>pa_nonshared := False,
                     pa_alignment := ofi_get_aligned_size (pa_alignment (bp_attr p1)) (nat (re_page_size env))\<rparr>\<rparr>)))"

definition hugepages_fit :: "region_env \<Rightarrow> ofi_bufpool \<Rightarrow> bool" where
  "hugepages_fit env p \<longleftrightarrow> 0 < re_hugepage_size env \<and> nat (re_hugepage_size env) \<le> bp_alloc_size p"

definition no_hugepages :: "ofi_bufpool \<Rightarrow> ofi_bufpool" where
  "no_hugepages p = p\<lparr>bp_attr := (bp_attr p)\<lparr>pa_hugepages := False, pa_nonshared := True\<rparr>\<rparr>"

definition ofi_bufpool_region_alloc :: "region_env \<Rightarrow> ofi_bufpool \<Rightarrow> (int + addr \<times> bool) \<times> ofi_bufpool" where
  "ofi_bufpool_region_alloc env p =
     (if \<not> pa_hugepages (bp_attr p) then region_mmap env p
      else if hugepages_fit env p then
        let alloc_size = ofi_get_aligned_size (bp_alloc_size p) (nat (re_hugepage_size env))
        in (case re_hugepage env alloc_size of
              Inr a \<Rightarrow> (Inr (a, True), p\<lparr>bp_alloc_size := alloc_size, bp_region_size := size_sub alloc_size (bp_entry_size p)\<rparr>)
            | Inl _ \<Rightarrow> region_mmap env (no_hugepages p))
      else region_mmap env (no_hugepages p))"

text \<open>How a region is given back: \<open>Some n\<close> unmaps \<open>n\<close> bytes, \<open>None\<close> frees.\<close>

definition ofi_bufpool_region_free :: "ofi_bufpool \<Rightarrow> ofi_bufpool_region \<Rightarrow> addr \<times> nat option" where
  "ofi_bufpool_region_free p r = (rg_alloc r, if rg_mapped r then Some (bp_alloc_size p) else None)"

definition ofi_bufpool_destroy :: "ofi_bufpool \<Rightarrow> (addr \<times> nat option) list" where
  "ofi_bufpool_destroy p = map (ofi_bufpool_region_free p) (bp_regions p)"

definition with_region :: "nat \<Rightarrow> (ofi_bufpool_region \<Rightarrow> ofi_bufpool_region) \<Rightarrow> ofi_bufpool \<Rightarrow> ofi_bufpool" where
  "with_region r f p = p\<lparr>bp_regions := (bp_regions p)[r := f (bp_regions p ! r)]\<rparr>"

text \<open>One turn of the loop that writes the headers of a new region.\<close>

definition grow_entry :: "nat \<Rightarrow> nat \<Rightarrow> ofi_bufpool \<Rightarrow> ofi_bufpool" where
  "grow_entry r i p =
     (let buf = rg_mem (bp_regions p ! r) + i * bp_entry_size p;
          p1 = p\<lparr>bp_hdrs := (bp_hdrs p)(buf \<mapsto> \<lparr>bh_region = r, bh_index = bp_entry_cnt p + i, bh_self = False\<rparr>)\<rparr>
      in if pa_indexed (bp_attr p) then with_region r (\<lambda>rg. rg\<lparr>rg_free := rg_free rg @ [buf]\<rparr>) p1
         else p1\<lparr>bp_entries := bp_entries p1 @ [buf]\<rparr>)"

definition grow_region :: "addr \<Rightarrow> bool \<Rightarrow> ofi_bufpool \<Rightarrow> ofi_bufpool" where
  "grow_region a mapped p =
     (let r = region_cnt p;
          p1 = p\<lparr>bp_regions := bp_regions p @
                  [\<lparr>rg_free = [], rg_alloc = a, rg_mem = a + bp_entry_size p, rg_mapped = mapped\<rparr>]\<rparr>;
          p2 = fold (grow_entry r) [0..<chunk_cnt p] p1;
          p3 = (if pa_indexed (bp_attr p) then p2\<lparr>bp_free_regions := bp_free_regions p2 @ [r]\<rparr> else p2)
      in p3\<lparr>bp_entry_cnt := bp_entry_cnt p3 + chunk_cnt p\<rparr>)"

text \<open>The result is \<open>None\<close> for \<open>0\<close>, and otherwise the code.\<close>

definition ofi_bufpool_grow :: "region_env \<Rightarrow> ofi_bufpool \<Rightarrow> int option \<times> ofi_bufpool" where
  "ofi_bufpool_grow env p =
     (if pa_max_cnt (bp_attr p) \<noteq> 0 \<and> pa_max_cnt (bp_attr p) \<le> bp_entry_cnt p then (Some (- FI_ENOMEM), p)
      else if \<not> re_calloc env then (Some (- FI_ENOMEM), p)
      else
        (case ofi_bufpool_region_alloc env p of
           (Inl err, p1) \<Rightarrow> (Some err, p1)
         | (Inr (a, mapped), p1) \<Rightarrow>
             if re_alloc_fn env \<noteq> 0 then (Some (re_alloc_fn env), p1)
             else if region_cnt p1 mod OFI_BUFPOOL_REGION_CHUNK_CNT = 0 \<and> \<not> re_realloc env then (Some (- FI_ENOMEM), p1)
             else (None, grow_region a mapped p1)))"

definition bufpool_init :: "nat \<Rightarrow> ofi_bufpool_attr \<Rightarrow> ofi_bufpool" where
  "bufpool_init page_size attr =
     (let entry_sz = size_t (pa_size attr + hdr_size);
          alignment = (if pa_alignment attr = 0 then entry_sz else pa_alignment attr);
          entry_size = ofi_get_aligned_size entry_sz alignment;
          chunk = (if pa_chunk_cnt attr = 0 then (if entry_size < page_size then 64 else 16) else pa_chunk_cnt attr);
          alloc_size = size_t ((chunk + 1) * entry_size)
      in \<lparr>bp_entries = [], bp_free_regions = [], bp_entry_size = entry_size, bp_entry_cnt = 0, bp_regions = [],
          bp_alloc_size = alloc_size, bp_region_size = size_sub alloc_size entry_size,
          bp_attr = attr\<lparr>pa_alignment := alignment, pa_chunk_cnt := chunk\<rparr>, bp_hdrs = (\<lambda>_. None)\<rparr>)"

definition ofi_bufpool_create_attr :: "bool \<Rightarrow> nat \<Rightarrow> ofi_bufpool_attr \<Rightarrow> int + ofi_bufpool" where
  "ofi_bufpool_create_attr calloc page_size attr =
     (if \<not> calloc then Inl (- FI_ENOMEM) else Inr (bufpool_init page_size attr))"

text \<open>Reading a header.\<close>

definition ofi_buf_is_valid :: "ofi_bufpool \<Rightarrow> addr \<Rightarrow> bool" where
  "ofi_buf_is_valid p buf = (case bp_hdrs p buf of Some h \<Rightarrow> bh_self h | None \<Rightarrow> False)"

definition ofi_buf_index :: "ofi_bufpool \<Rightarrow> addr \<Rightarrow> nat" where
  "ofi_buf_index p buf = (case bp_hdrs p buf of Some h \<Rightarrow> bh_index h | None \<Rightarrow> 0)"

definition ofi_buf_region :: "ofi_bufpool \<Rightarrow> addr \<Rightarrow> nat" where
  "ofi_buf_region p buf = (case bp_hdrs p buf of Some h \<Rightarrow> bh_region h | None \<Rightarrow> 0)"

definition set_self :: "bool \<Rightarrow> addr \<Rightarrow> ofi_bufpool \<Rightarrow> ofi_bufpool" where
  "set_self b buf p = p\<lparr>bp_hdrs := (bp_hdrs p)(buf := map_option (bh_self_update (\<lambda>_. b)) (bp_hdrs p buf))\<rparr>"

definition buf_at :: "ofi_bufpool \<Rightarrow> nat \<Rightarrow> addr" where
  "buf_at p index = rg_mem (bp_regions p ! (index div chunk_cnt p)) + (index mod chunk_cnt p) * bp_entry_size p"

definition ofi_bufpool_ibuf_is_valid :: "ofi_bufpool \<Rightarrow> nat \<Rightarrow> bool" where
  "ofi_bufpool_ibuf_is_valid p index \<longleftrightarrow>
     index div chunk_cnt p < region_cnt p \<and> ofi_buf_is_valid p (buf_at p index)"

text \<open>An operation that returns \<open>None\<close> has run into one of its assertions.\<close>

definition ofi_bufpool_get_ibuf :: "ofi_bufpool \<Rightarrow> nat \<Rightarrow> addr option" where
  "ofi_bufpool_get_ibuf p index = (if ofi_bufpool_ibuf_is_valid p index then Some (buf_at p index) else None)"

fun dlist_insert_order :: "('a \<Rightarrow> nat) \<Rightarrow> 'a \<Rightarrow> 'a list \<Rightarrow> 'a list" where
  "dlist_insert_order key x [] = [x]"
| "dlist_insert_order key x (y # ys) = (if key x < key y then x # y # ys else y # dlist_insert_order key x ys)"

definition ofi_buf_alloc :: "region_env \<Rightarrow> ofi_bufpool \<Rightarrow> addr option \<times> ofi_bufpool" where
  "ofi_buf_alloc env p =
     (case (if bp_entries p = [] then ofi_bufpool_grow env p else (None, p)) of (ret, p1) \<Rightarrow>
        if ret \<noteq> None then (None, p1)
        else let buf = hd (bp_entries p1) in (Some buf, set_self True buf (p1\<lparr>bp_entries := tl (bp_entries p1)\<rparr>)))"

definition ofi_buf_free :: "addr \<Rightarrow> ofi_bufpool \<Rightarrow> ofi_bufpool option" where
  "ofi_buf_free buf p =
     (if \<not> ofi_buf_is_valid p buf then None
      else Some (set_self False buf (p\<lparr>bp_entries := buf # bp_entries p\<rparr>)))"

text \<open>The end of the two indexed allocations: a region with nothing left leaves the list of regions.\<close>

definition drop_full :: "nat \<Rightarrow> ofi_bufpool \<Rightarrow> ofi_bufpool" where
  "drop_full r p =
     (if rg_free (bp_regions p ! r) = [] then p\<lparr>bp_free_regions := remove1 r (bp_free_regions p)\<rparr> else p)"

definition take_buf :: "nat \<Rightarrow> addr \<Rightarrow> ofi_bufpool \<Rightarrow> ofi_bufpool" where
  "take_buf r buf p =
     drop_full r (set_self True buf (with_region r (\<lambda>rg. rg\<lparr>rg_free := remove1 buf (rg_free rg)\<rparr>) p))"

definition ofi_ibuf_alloc :: "region_env \<Rightarrow> ofi_bufpool \<Rightarrow> addr option \<times> ofi_bufpool" where
  "ofi_ibuf_alloc env p =
     (case (if bp_free_regions p = [] then ofi_bufpool_grow env p else (None, p)) of (ret, p1) \<Rightarrow>
        if ret \<noteq> None then (None, p1)
        else
          let r = hd (bp_free_regions p1);
              buf = hd (rg_free (bp_regions p1 ! r))
          in (Some buf, take_buf r buf p1))"

text \<open>The loop of the allocation at a given index; \<open>env n\<close> answers for the region that becomes number \<open>n\<close>.\<close>

lemma with_region_cnt [simp]: "region_cnt (with_region r f p) = region_cnt p"
  by (simp add: with_region_def)

lemma grow_entries_cnt [simp]: "region_cnt (fold (grow_entry r) is p) = region_cnt p"
  by (induction "is" arbitrary: p) (simp_all add: grow_entry_def Let_def)

lemma region_alloc_cnt: "ofi_bufpool_region_alloc env p = (x, p') \<Longrightarrow> bp_regions p' = bp_regions p"
  unfolding ofi_bufpool_region_alloc_def region_mmap_def region_memalign_def no_hugepages_def Let_def
  by (auto split: if_splits sum.splits)

lemma grow_region_cnt [simp]: "region_cnt (grow_region a m p) = Suc (region_cnt p)"
  by (simp add: grow_region_def Let_def)

lemma grow_cnt: "ofi_bufpool_grow env p = (None, p') \<Longrightarrow> region_cnt p' = Suc (region_cnt p)"
  by (auto simp: ofi_bufpool_grow_def dest: region_alloc_cnt split: if_splits sum.splits prod.splits)

function grow_to :: "(nat \<Rightarrow> region_env) \<Rightarrow> nat \<Rightarrow> ofi_bufpool \<Rightarrow> int option \<times> ofi_bufpool" where
  "grow_to env r p =
     (if r < region_cnt p then (None, p)
      else (case ofi_bufpool_grow (env (region_cnt p)) p of
              (Some err, p') \<Rightarrow> (Some err, p')
            | (None, p') \<Rightarrow> grow_to env r p'))"
  by pat_completeness auto
termination
  by (relation "measure (\<lambda>(env, r, p). Suc r - region_cnt p)") (auto dest!: grow_cnt [OF sym])

declare grow_to.simps [simp del]

definition ofi_ibuf_alloc_at :: "(nat \<Rightarrow> region_env) \<Rightarrow> nat \<Rightarrow> ofi_bufpool \<Rightarrow> (addr option \<times> ofi_bufpool) option" where
  "ofi_ibuf_alloc_at env index p =
     (let r = index div chunk_cnt p
      in (case grow_to env r p of
            (Some err, p1) \<Rightarrow> Some (None, p1)
          | (None, p1) \<Rightarrow>
              let buf = buf_at p1 index
              in if ofi_buf_is_valid p1 buf then None else Some (Some buf, take_buf r buf p1)))"

definition ofi_ibuf_free :: "addr \<Rightarrow> ofi_bufpool \<Rightarrow> ofi_bufpool option" where
  "ofi_ibuf_free buf p =
     (if \<not> ofi_buf_is_valid p buf then None
      else
        let r = ofi_buf_region p buf;
            p1 = set_self False buf (with_region r (\<lambda>rg. rg\<lparr>rg_free := dlist_insert_order (ofi_buf_index p) buf (rg_free rg)\<rparr>) p)
        in Some (if r \<in> set (bp_free_regions p1) then p1
                 else p1\<lparr>bp_free_regions := dlist_insert_order id r (bp_free_regions p1)\<rparr>))"

end
