(* ===== verification/Ofi_Bufpool_Inv.thy ===== *)
theory Ofi_Bufpool_Inv
  imports Ofi_Bufpool
begin

text \<open>
  The invariant of an indexed buffer pool.  It is stated with the set of indices in use: the free lists are
  the increasing enumerations of the other indices, the headers carry their index, and the regions
  do not overlap.  Every operation keeps it, and an allocation takes the lowest index not in use.
\<close>

section \<open>The invariant\<close>

definition extent :: "ofi_bufpool \<Rightarrow> ofi_bufpool_region \<Rightarrow> addr set" where
  "extent p rg = {rg_alloc rg ..< rg_alloc rg + (chunk_cnt p + 1) * bp_entry_size p}"

text \<open>The bytes of an entry: the header and what follows it up to the next header.\<close>

definition entry_bytes :: "ofi_bufpool \<Rightarrow> nat \<Rightarrow> addr set" where
  "entry_bytes p i = {buf_at p i - hdr_size ..< buf_at p i - hdr_size + bp_entry_size p}"

definition pool_shape :: "ofi_bufpool \<Rightarrow> bool" where
  "pool_shape p \<longleftrightarrow> pa_indexed (bp_attr p) \<and> 0 < chunk_cnt p \<and> hdr_size \<le> bp_entry_size p \<and>
     bp_entry_cnt p = region_cnt p * chunk_cnt p \<and> (chunk_cnt p + 1) * bp_entry_size p \<le> bp_alloc_size p \<and>
     (\<forall>rg \<in> set (bp_regions p). rg_mem rg = rg_alloc rg + bp_entry_size p \<and> extent p rg \<subseteq> {..<size_max}) \<and>
     (\<forall>r < region_cnt p. \<forall>s < region_cnt p. r \<noteq> s \<longrightarrow> extent p (bp_regions p ! r) \<inter> extent p (bp_regions p ! s) = {})"

definition free_ids :: "ofi_bufpool \<Rightarrow> nat set \<Rightarrow> nat \<Rightarrow> nat list" where
  "free_ids p U r = filter (\<lambda>i. i \<notin> U) [r * chunk_cnt p ..< Suc r * chunk_cnt p]"

definition pool_inv :: "ofi_bufpool \<Rightarrow> nat set \<Rightarrow> bool" where
  "pool_inv p U \<longleftrightarrow> pool_shape p \<and> U \<subseteq> {..<bp_entry_cnt p} \<and>
     (\<forall>r < region_cnt p. rg_free (bp_regions p ! r) = map (buf_at p) (free_ids p U r)) \<and>
     bp_free_regions p = filter (\<lambda>r. free_ids p U r \<noteq> []) [0..<region_cnt p] \<and>
     (\<forall>i < bp_entry_cnt p. bp_hdrs p (buf_at p i) = Some \<lparr>bh_region = i div chunk_cnt p, bh_index = i, bh_self = (i \<in> U)\<rparr>)"

text \<open>
  What is relied on of the system: memory it hands out is below the end of the address space and
  does not overlap memory the pool still holds, and rounding up to its page sizes does not wrap.
\<close>

definition fresh_memory :: "ofi_bufpool \<Rightarrow> addr \<Rightarrow> nat \<Rightarrow> bool" where
  "fresh_memory p a n \<longleftrightarrow> a + n \<le> size_max \<and> (\<forall>rg \<in> set (bp_regions p). {a..<a + n} \<inter> extent p rg = {})"

definition env_ok :: "region_env \<Rightarrow> ofi_bufpool \<Rightarrow> bool" where
  "env_ok env p \<longleftrightarrow>
     (\<forall>n a. re_hugepage env n = Inr a \<longrightarrow> fresh_memory p a n) \<and>
     (\<forall>n a. re_mmap env n = Inr a \<longrightarrow> fresh_memory p a n) \<and>
     (\<forall>al n a. re_memalign env al n = Inr a \<longrightarrow> fresh_memory p a n) \<and>
     re_page_size env \<noteq> 0 \<and>
     bp_alloc_size p + nat (re_page_size env) \<le> size_max \<and> bp_alloc_size p + nat (re_hugepage_size env) \<le> size_max"

section \<open>Where buffers are\<close>

lemma region_of: "pool_shape p \<Longrightarrow> i < bp_entry_cnt p \<Longrightarrow> i div chunk_cnt p < region_cnt p"
  by (auto simp: pool_shape_def less_mult_imp_div_less)

lemma block_div: "0 < c \<Longrightarrow> r * c \<le> i \<and> i < Suc r * c \<longleftrightarrow> i div c = (r :: nat)"
  using dividend_less_div_times [of c i] by (auto intro!: div_nat_eqI simp: mult.commute)

lemma region_bounds: "pool_shape p \<Longrightarrow> i \<in> {r * chunk_cnt p ..< Suc r * chunk_cnt p} \<longleftrightarrow> i div chunk_cnt p = r"
  by (simp add: pool_shape_def block_div [of _ r i, simplified])

lemma region_ids: "pool_shape p \<Longrightarrow> i div chunk_cnt p = r \<Longrightarrow> r < region_cnt p \<Longrightarrow> i < bp_entry_cnt p"
  by (auto simp: pool_shape_def div_less_iff_less_mult)

lemma buf_at_place:
  assumes "pool_shape p" and "i < bp_entry_cnt p"
  shows "buf_at p i = rg_alloc (bp_regions p ! (i div chunk_cnt p)) + (i mod chunk_cnt p + 1) * bp_entry_size p"
  using assms region_of [OF assms] by (simp add: buf_at_def pool_shape_def algebra_simps)

lemma entry_in_extent:
  assumes p: "pool_shape p" and i: "i < bp_entry_cnt p"
  shows "entry_bytes p i \<subseteq> extent p (bp_regions p ! (i div chunk_cnt p))"
proof -
  let ?c = "chunk_cnt p" and ?e = "bp_entry_size p"
  have "i mod ?c < ?c" and e: "hdr_size \<le> ?e" using p by (simp_all add: pool_shape_def)
  then have "(i mod ?c + 1) * ?e \<le> ?c * ?e" by (intro mult_right_mono) simp_all
  moreover have "?e \<le> (i mod ?c + 1) * ?e" by simp
  ultimately show ?thesis unfolding entry_bytes_def extent_def buf_at_place [OF p i] using e
    by (auto simp: algebra_simps)
qed

lemma buf_in_extent:
  assumes p: "pool_shape p" and i: "i < bp_entry_cnt p"
  shows "buf_at p i \<in> extent p (bp_regions p ! (i div chunk_cnt p))"
proof -
  let ?c = "chunk_cnt p" and ?e = "bp_entry_size p"
  have "i mod ?c < ?c" and e: "hdr_size \<le> ?e" using p by (simp_all add: pool_shape_def)
  then have "(i mod ?c + 1) * ?e < (?c + 1) * ?e" by (intro mult_strict_right_mono) simp_all
  then show ?thesis unfolding extent_def buf_at_place [OF p i] by simp
qed

lemma entry_slots_apart: "m < n \<Longrightarrow> m * e + e \<le> n * (e :: nat)"
  using mult_right_mono [of "Suc m" n e] by simp

lemma entries_apart:
  assumes p: "pool_shape p" and i: "i < bp_entry_cnt p" and j: "j < bp_entry_cnt p" and "i \<noteq> j"
  shows "entry_bytes p i \<inter> entry_bytes p j = {}"
proof (cases "i div chunk_cnt p = j div chunk_cnt p")
  case True
  let ?e = "bp_entry_size p" and ?m = "i mod chunk_cnt p" and ?n = "j mod chunk_cnt p"
  have e: "hdr_size \<le> ?e" using p by (simp add: pool_shape_def)
  have "?m \<noteq> ?n" using True \<open>i \<noteq> j\<close> by (metis div_mult_mod_eq)
  then consider "?m * ?e + ?e \<le> ?n * ?e" | "?n * ?e + ?e \<le> ?m * ?e" using entry_slots_apart by (metis nat_neq_iff)
  then show ?thesis
    using e unfolding entry_bytes_def buf_at_place [OF p i] buf_at_place [OF p j] True
    by cases (auto simp: algebra_simps)
next
  case False
  then have "extent p (bp_regions p ! (i div chunk_cnt p)) \<inter> extent p (bp_regions p ! (j div chunk_cnt p)) = {}"
    using p region_of [OF p i] region_of [OF p j] by (simp add: pool_shape_def)
  then show ?thesis using entry_in_extent [OF p i] entry_in_extent [OF p j] by blast
qed

lemma buf_at_inj: "pool_shape p \<Longrightarrow> inj_on (buf_at p) {..<bp_entry_cnt p}"
proof (rule inj_onI)
  fix i j
  assume p: "pool_shape p" and ij: "i \<in> {..<bp_entry_cnt p}" "j \<in> {..<bp_entry_cnt p}" "buf_at p i = buf_at p j"
  have "entry_bytes p i \<noteq> {}" "entry_bytes p i = entry_bytes p j"
    using p ij(3) by (simp_all add: entry_bytes_def pool_shape_def)
  then show "i = j" using entries_apart [OF p, of i j] ij(1,2) by auto
qed

text \<open>The address space bounds the number of entries.\<close>

lemma entries_below:
  assumes p: "pool_shape p"
  shows "bp_entry_cnt p * bp_entry_size p \<le> size_max"
proof -
  let ?E = "\<lambda>r. extent p (bp_regions p ! r)"
  have "card (\<Union>r<region_cnt p. ?E r) = (\<Sum>r<region_cnt p. card (?E r))"
    by (rule card_UN_disjoint) (use p in \<open>auto simp: pool_shape_def extent_def\<close>)
  also have "\<dots> = region_cnt p * ((chunk_cnt p + 1) * bp_entry_size p)" by (simp add: extent_def)
  finally have c: "card (\<Union>r<region_cnt p. ?E r) = region_cnt p * ((chunk_cnt p + 1) * bp_entry_size p)" .
  have "(\<Union>r<region_cnt p. ?E r) \<subseteq> {..<size_max}" using p by (fastforce simp: pool_shape_def)
  then have "card (\<Union>r<region_cnt p. ?E r) \<le> size_max" using card_mono [of "{..<size_max}"] by fastforce
  moreover have "bp_entry_cnt p * bp_entry_size p \<le> region_cnt p * ((chunk_cnt p + 1) * bp_entry_size p)"
    using p by (simp add: pool_shape_def algebra_simps)
  ultimately show ?thesis using c by linarith
qed

section \<open>Growth\<close>

text \<open>Allocating memory changes only how the next region will be allocated.\<close>

definition resized :: "ofi_bufpool \<Rightarrow> ofi_bufpool \<Rightarrow> bool" where
  "resized p q \<longleftrightarrow> bp_alloc_size p \<le> bp_alloc_size q \<and> bp_regions q = bp_regions p \<and> bp_entry_size q = bp_entry_size p \<and>
     bp_entry_cnt q = bp_entry_cnt p \<and> bp_free_regions q = bp_free_regions p \<and> bp_hdrs q = bp_hdrs p \<and>
     chunk_cnt q = chunk_cnt p \<and> pa_indexed (bp_attr q) = pa_indexed (bp_attr p)"

lemma resized_fields:
  assumes "resized p q"
  shows "bp_alloc_size p \<le> bp_alloc_size q" "bp_regions q = bp_regions p" "bp_entry_size q = bp_entry_size p"
    "bp_entry_cnt q = bp_entry_cnt p" "bp_free_regions q = bp_free_regions p" "bp_hdrs q = bp_hdrs p"
    "chunk_cnt q = chunk_cnt p" "pa_indexed (bp_attr q) = pa_indexed (bp_attr p)"
  using assms by (simp_all add: resized_def)

lemma resized_buf_at: "resized p q \<Longrightarrow> buf_at q i = buf_at p i"
  by (simp add: buf_at_def resized_fields)

lemma resized_extent: "resized p q \<Longrightarrow> extent q rg = extent p rg"
  by (simp add: extent_def resized_fields)

lemma resized_shape: "resized p q \<Longrightarrow> pool_shape p \<Longrightarrow> pool_shape q"
  by (auto simp: pool_shape_def resized_fields resized_extent intro: order_trans [OF _ resized_fields(1)])

lemma resized_inv: "resized p q \<Longrightarrow> pool_inv p U \<Longrightarrow> pool_inv q U"
  by (simp add: pool_inv_def resized_shape resized_fields resized_buf_at free_ids_def)

lemma aligned_size_ge: "0 < a \<Longrightarrow> n + a \<le> size_max \<Longrightarrow> n \<le> ofi_get_aligned_size n a"
proof -
  assume a: "0 < a" and w: "n + a \<le> size_max"
  have q: "n div a * a + n mod a = n" by (rule div_mult_mod_eq)
  have m: "n mod a < a" using a by simp
  show ?thesis
  proof (cases "n mod a = 0")
    case False
    then have "n div a * a + a < size_max" using q w by linarith
    then have "ofi_get_aligned_size n a = n div a * a + a"
      using False by (simp add: ofi_get_aligned_size_def size_t_def)
    then show ?thesis using q m by linarith
  qed (simp add: ofi_get_aligned_size_def)
qed

lemma resized_env: "resized p q \<Longrightarrow> bp_alloc_size q = bp_alloc_size p \<Longrightarrow> env_ok env p \<Longrightarrow> env_ok env q"
  by (simp add: env_ok_def fresh_memory_def resized_fields resized_extent)

definition alloc_gives :: "ofi_bufpool \<Rightarrow> (int + addr \<times> bool) \<times> ofi_bufpool \<Rightarrow> bool" where
  "alloc_gives p res \<longleftrightarrow> resized p (snd res) \<and>
     (\<forall>a m. fst res = Inr (a, m) \<longrightarrow> fresh_memory p a (bp_alloc_size (snd res)))"

lemma memalign_gives:
  assumes "resized p q" and "\<And>al n a. re_memalign env al n = Inr a \<Longrightarrow> fresh_memory p a n"
  shows "alloc_gives p (region_memalign env q)"
  using assms by (auto simp: region_memalign_def alloc_gives_def split: sum.split)

lemma mmap_gives:
  assumes env: "env_ok env p" and q: "resized p q" "bp_alloc_size q = bp_alloc_size p"
  shows "alloc_gives p (region_mmap env q)"
proof -
  have mem: "\<And>al n a. re_memalign env al n = Inr a \<Longrightarrow> fresh_memory p a n"
    and mm: "\<And>n a. re_mmap env n = Inr a \<Longrightarrow> fresh_memory p a n"
    using env by (simp_all add: env_ok_def)
  let ?n = "ofi_get_aligned_size (bp_alloc_size q) (nat (re_page_size env))"
  have "bp_alloc_size q \<le> ?n" if "0 \<le> re_page_size env"
    by (rule aligned_size_ge) (use env q that in \<open>auto simp: env_ok_def\<close>)
  then have big: "bp_alloc_size p \<le> ?n" if "0 \<le> re_page_size env" using q(2) that by simp
  have heap: "alloc_gives p (region_memalign env (q\<lparr>bp_alloc_size := ?n, bp_attr := (bp_attr q)\<lparr>pa_nonshared := False, pa_alignment := al\<rparr>\<rparr>))"
    if "0 \<le> re_page_size env" for al
    by (rule memalign_gives [OF _ mem]) (use big [OF that] q(1) in \<open>simp_all add: resized_def\<close>)
  consider "\<not> pa_nonshared (bp_attr q)" | "pa_nonshared (bp_attr q)" "re_page_size env < 0"
    | a where "pa_nonshared (bp_attr q)" "0 \<le> re_page_size env" "re_mmap env ?n = Inr a"
    | e where "pa_nonshared (bp_attr q)" "0 \<le> re_page_size env" "re_mmap env ?n = Inl e"
    by (metis linorder_not_less sum.exhaust)
  then show ?thesis
  proof cases
    case 1
    then show ?thesis using memalign_gives [OF q(1) mem] by (simp add: region_mmap_def)
  next
    case 2
    then show ?thesis using q(1) by (simp add: region_mmap_def alloc_gives_def)
  next
    case 3
    then show ?thesis using mm big q(1) by (simp add: region_mmap_def alloc_gives_def resized_def Let_def)
  next
    case 4
    then show ?thesis using big heap q(1) by (simp add: region_mmap_def alloc_gives_def [of _ "(Inl e, _)"] resized_def Let_def)
  qed
qed

lemma region_alloc_gives:
  assumes env: "env_ok env p"
  shows "alloc_gives p (ofi_bufpool_region_alloc env p)"
proof -
  have fallback: "alloc_gives p (region_mmap env (no_hugepages p))"
    by (rule mmap_gives [OF env]) (simp_all add: no_hugepages_def resized_def)
  let ?n = "ofi_get_aligned_size (bp_alloc_size p) (nat (re_hugepage_size env))"
  have "bp_alloc_size p \<le> ?n" if "hugepages_fit env p"
    by (rule aligned_size_ge) (use env that in \<open>auto simp: env_ok_def hugepages_fit_def\<close>)
  then have "alloc_gives p (Inr (a, True), p\<lparr>bp_alloc_size := ?n, bp_region_size := s\<rparr>)"
    if "hugepages_fit env p" "re_hugepage env ?n = Inr a" for a s
    using that env by (simp add: alloc_gives_def resized_def env_ok_def)
  then show ?thesis
    using mmap_gives [OF env, of p] fallback
    unfolding ofi_bufpool_region_alloc_def Let_def by (auto simp: resized_def split: sum.split)
qed

text \<open>The loop over the headers of a new region.\<close>

lemma grow_entries:
  assumes "pa_indexed (bp_attr p)" and "r < region_cnt p" and "0 < bp_entry_size p"
  shows "\<exists>H. fold (grow_entry r) [0..<k] p =
      p\<lparr>bp_regions := (bp_regions p)[r := (bp_regions p ! r)\<lparr>rg_free := rg_free (bp_regions p ! r) @
          map (\<lambda>i. rg_mem (bp_regions p ! r) + i * bp_entry_size p) [0..<k]\<rparr>], bp_hdrs := H\<rparr> \<and>
    (\<forall>i<k. H (rg_mem (bp_regions p ! r) + i * bp_entry_size p) = Some \<lparr>bh_region = r, bh_index = bp_entry_cnt p + i, bh_self = False\<rparr>) \<and>
    (\<forall>b. (\<forall>i<k. b \<noteq> rg_mem (bp_regions p ! r) + i * bp_entry_size p) \<longrightarrow> H b = bp_hdrs p b)"
proof (induction k)
  case 0
  show ?case by (intro exI [of _ "bp_hdrs p"]) simp
next
  case (Suc k)
  let ?b = "\<lambda>i. rg_mem (bp_regions p ! r) + i * bp_entry_size p"
  let ?h = "\<lambda>i. \<lparr>bh_region = r, bh_index = bp_entry_cnt p + i, bh_self = False\<rparr>"
  obtain H where f: "fold (grow_entry r) [0..<k] p =
      p\<lparr>bp_regions := (bp_regions p)[r := (bp_regions p ! r)\<lparr>rg_free := rg_free (bp_regions p ! r) @ map ?b [0..<k]\<rparr>], bp_hdrs := H\<rparr>"
    and H: "\<forall>i<k. H (?b i) = Some (?h i)" "\<forall>b. (\<forall>i<k. b \<noteq> ?b i) \<longrightarrow> H b = bp_hdrs p b"
    using Suc.IH by blast
  have ne: "?b i \<noteq> ?b k" if "i < k" for i using that assms(3) by simp
  show ?case
  proof (intro exI [of _ "H(?b k \<mapsto> ?h k)"] conjI allI impI)
    show "fold (grow_entry r) [0..<Suc k] p = p\<lparr>bp_regions := (bp_regions p)[r := (bp_regions p ! r)\<lparr>rg_free := rg_free (bp_regions p ! r) @
          map ?b [0..<Suc k]\<rparr>], bp_hdrs := H(?b k \<mapsto> ?h k)\<rparr>"
      using assms(1,2) by (simp add: f grow_entry_def with_region_def Let_def)
  next
    fix i assume "i < Suc k"
    then show "(H(?b k \<mapsto> ?h k)) (?b i) = Some (?h i)" using H(1) ne by (cases "i = k") auto
  next
    fix b assume "\<forall>i<Suc k. b \<noteq> ?b i"
    then show "(H(?b k \<mapsto> ?h k)) b = bp_hdrs p b" using H(2) by auto
  qed
qed

lemma grow_region_fields:
  assumes p: "pool_shape p"
  shows "bp_entry_cnt (grow_region a m p) = bp_entry_cnt p + chunk_cnt p" "chunk_cnt (grow_region a m p) = chunk_cnt p"
    "bp_entry_size (grow_region a m p) = bp_entry_size p" "bp_alloc_size (grow_region a m p) = bp_alloc_size p"
    "pa_indexed (bp_attr (grow_region a m p))" "bp_free_regions (grow_region a m p) = bp_free_regions p @ [region_cnt p]"
    "bp_regions (grow_region a m p) = bp_regions p @
       [\<lparr>rg_free = map (\<lambda>i. a + bp_entry_size p + i * bp_entry_size p) [0..<chunk_cnt p], rg_alloc = a,
         rg_mem = a + bp_entry_size p, rg_mapped = m\<rparr>]"
    "i < chunk_cnt p \<Longrightarrow> bp_hdrs (grow_region a m p) (a + bp_entry_size p + i * bp_entry_size p) =
       Some \<lparr>bh_region = region_cnt p, bh_index = bp_entry_cnt p + i, bh_self = False\<rparr>"
    "(\<And>i. i < chunk_cnt p \<Longrightarrow> b \<noteq> a + bp_entry_size p + i * bp_entry_size p) \<Longrightarrow> bp_hdrs (grow_region a m p) b = bp_hdrs p b"
proof -
  let ?p = "p\<lparr>bp_regions := bp_regions p @ [\<lparr>rg_free = [], rg_alloc = a, rg_mem = a + bp_entry_size p, rg_mapped = m\<rparr>]\<rparr>"
  have "pa_indexed (bp_attr ?p)" "region_cnt p < region_cnt ?p" "0 < bp_entry_size ?p" and ind: "pa_indexed (bp_attr p)"
    using p by (simp_all add: pool_shape_def)
  from grow_entries [OF this(1-3), of "chunk_cnt p"] obtain H where
    f: "fold (grow_entry (region_cnt p)) [0..<chunk_cnt p] ?p = p\<lparr>bp_regions := bp_regions p @
       [\<lparr>rg_free = map (\<lambda>i. a + bp_entry_size p + i * bp_entry_size p) [0..<chunk_cnt p], rg_alloc = a,
         rg_mem = a + bp_entry_size p, rg_mapped = m\<rparr>], bp_hdrs := H\<rparr>"
    and H: "\<forall>i<chunk_cnt p. H (a + bp_entry_size p + i * bp_entry_size p) =
       Some \<lparr>bh_region = region_cnt p, bh_index = bp_entry_cnt p + i, bh_self = False\<rparr>"
      "\<forall>b. (\<forall>i<chunk_cnt p. b \<noteq> a + bp_entry_size p + i * bp_entry_size p) \<longrightarrow> H b = bp_hdrs p b"
    by (auto simp: nth_append)
  note g = grow_region_def [of a m p, unfolded Let_def f]
  show "bp_entry_cnt (grow_region a m p) = bp_entry_cnt p + chunk_cnt p" "chunk_cnt (grow_region a m p) = chunk_cnt p"
    "bp_entry_size (grow_region a m p) = bp_entry_size p" "bp_alloc_size (grow_region a m p) = bp_alloc_size p"
    "pa_indexed (bp_attr (grow_region a m p))" "bp_free_regions (grow_region a m p) = bp_free_regions p @ [region_cnt p]"
    "bp_regions (grow_region a m p) = bp_regions p @
       [\<lparr>rg_free = map (\<lambda>i. a + bp_entry_size p + i * bp_entry_size p) [0..<chunk_cnt p], rg_alloc = a,
         rg_mem = a + bp_entry_size p, rg_mapped = m\<rparr>]"
    by (simp_all add: g ind)
  have h: "bp_hdrs (grow_region a m p) = H" by (simp add: g ind)
  show "i < chunk_cnt p \<Longrightarrow> bp_hdrs (grow_region a m p) (a + bp_entry_size p + i * bp_entry_size p) =
       Some \<lparr>bh_region = region_cnt p, bh_index = bp_entry_cnt p + i, bh_self = False\<rparr>"
    "(\<And>i. i < chunk_cnt p \<Longrightarrow> b \<noteq> a + bp_entry_size p + i * bp_entry_size p) \<Longrightarrow> bp_hdrs (grow_region a m p) b = bp_hdrs p b"
    unfolding h using H by blast+
qed

lemma grow_region_old:
  assumes p: "pool_shape p" and i: "i < bp_entry_cnt p"
  shows "buf_at (grow_region a m p) i = buf_at p i"
  using region_of [OF p i] by (simp add: buf_at_def grow_region_fields [OF p] nth_append)

lemma grow_region_new:
  assumes p: "pool_shape p" and i: "i < chunk_cnt p"
  shows "buf_at (grow_region a m p) (bp_entry_cnt p + i) = a + bp_entry_size p + i * bp_entry_size p"
proof -
  have "(bp_entry_cnt p + i) div chunk_cnt p = region_cnt p" "(bp_entry_cnt p + i) mod chunk_cnt p = i"
    using p i by (simp_all add: pool_shape_def)
  then show ?thesis by (simp add: buf_at_def grow_region_fields [OF p] nth_append)
qed

lemma grow_region_shape:
  assumes p: "pool_shape p" and a: "fresh_memory p a (bp_alloc_size p)"
  shows "pool_shape (grow_region a m p)"
proof -
  let ?g = "grow_region a m p"
  have ext: "extent ?g rg = extent p rg" for rg by (simp add: extent_def grow_region_fields [OF p])
  have sub: "extent p \<lparr>rg_free = l, rg_alloc = a, rg_mem = b, rg_mapped = m\<rparr> \<subseteq> {a..<a + bp_alloc_size p}" for l b
    using p by (auto simp: extent_def pool_shape_def)
  have low: "{a..<a + bp_alloc_size p} \<subseteq> {..<size_max}" using a by (auto simp: fresh_memory_def)
  have new: "extent p \<lparr>rg_free = l, rg_alloc = a, rg_mem = b, rg_mapped = m\<rparr> \<inter> extent p (bp_regions p ! r) = {}"
    if "r < region_cnt p" for r l b
    using a sub that nth_mem unfolding fresh_memory_def by blast
  show ?thesis
    unfolding pool_shape_def ext
  proof (intro conjI)
    show "\<forall>r<region_cnt ?g. \<forall>s<region_cnt ?g. r \<noteq> s \<longrightarrow> extent p (bp_regions ?g ! r) \<inter> extent p (bp_regions ?g ! s) = {}"
      using p new by (auto simp: grow_region_fields [OF p] pool_shape_def nth_append less_Suc_eq Int_commute)
    show "\<forall>rg\<in>set (bp_regions ?g). rg_mem rg = rg_alloc rg + bp_entry_size ?g \<and> extent p rg \<subseteq> {..<size_max}"
      using p order_trans [OF sub low] by (simp add: grow_region_fields [OF p] pool_shape_def)
  qed (use p in \<open>simp_all add: grow_region_fields [OF p] pool_shape_def\<close>)
qed

lemma free_ids_new:
  assumes p: "pool_shape p" and U: "U \<subseteq> {..<bp_entry_cnt p}"
  shows "free_ids p U (region_cnt p) = map (\<lambda>i. bp_entry_cnt p + i) [0..<chunk_cnt p]"
proof -
  have "filter (\<lambda>i. i \<notin> U) [bp_entry_cnt p..<bp_entry_cnt p + chunk_cnt p] = [bp_entry_cnt p..<bp_entry_cnt p + chunk_cnt p]"
    using U by (intro filter_True) auto
  then show ?thesis using p by (simp add: free_ids_def pool_shape_def map_add_upt add.commute)
qed

lemma grow_region_hdr_old:
  assumes p: "pool_shape p" and a: "fresh_memory p a (bp_alloc_size p)" and i: "i < bp_entry_cnt p"
  shows "bp_hdrs (grow_region a m p) (buf_at p i) = bp_hdrs p (buf_at p i)"
proof (rule grow_region_fields(9) [OF p])
  fix k assume k: "k < chunk_cnt p"
  have "(k + 1) * bp_entry_size p < (chunk_cnt p + 1) * bp_entry_size p"
    using k p by (intro mult_strict_right_mono) (simp_all add: pool_shape_def)
  also have "\<dots> \<le> bp_alloc_size p" using p unfolding pool_shape_def by blast
  finally have "a + bp_entry_size p + k * bp_entry_size p \<in> {a..<a + bp_alloc_size p}" by simp
  moreover have "{a..<a + bp_alloc_size p} \<inter> extent p (bp_regions p ! (i div chunk_cnt p)) = {}"
    using a region_of [OF p i] by (simp add: fresh_memory_def)
  ultimately show "buf_at p i \<noteq> a + bp_entry_size p + k * bp_entry_size p" using buf_in_extent [OF p i] by (metis disjoint_iff)
qed

lemma grow_region_inv:
  assumes inv: "pool_inv p U" and a: "fresh_memory p a (bp_alloc_size p)"
  shows "pool_inv (grow_region a m p) U"
proof -
  let ?g = "grow_region a m p"
  from inv have p: "pool_shape p" and U: "U \<subseteq> {..<bp_entry_cnt p}" by (simp_all add: pool_inv_def)
  note fields = grow_region_fields [OF p] and new = free_ids_new [OF p U]
  have ids: "free_ids ?g U r = free_ids p U r" for r by (simp add: free_ids_def fields)
  have c: "bp_entry_cnt p = region_cnt p * chunk_cnt p" "0 < chunk_cnt p" using p by (simp_all add: pool_shape_def)
  have old: "buf_at ?g i = buf_at p i" if "i \<in> set (free_ids p U r)" "r < region_cnt p" for i r
    using that region_ids [OF p] region_bounds [OF p, of i r] by (intro grow_region_old [OF p]) (simp add: free_ids_def)
  show ?thesis
    unfolding pool_inv_def ids
  proof (intro conjI allI impI)
    fix r assume "r < region_cnt ?g"
    then consider "r < region_cnt p" | "r = region_cnt p" by fastforce
    then show "rg_free (bp_regions ?g ! r) = map (buf_at ?g) (free_ids p U r)"
    proof cases
      case 1
      then show ?thesis using inv old by (auto simp: pool_inv_def fields nth_append)
    next
      case 2
      then show ?thesis using grow_region_new [OF p] by (simp add: fields new)
    qed
  next
    fix i assume "i < bp_entry_cnt ?g"
    then consider "i < bp_entry_cnt p" | k where "i = bp_entry_cnt p + k" "k < chunk_cnt p"
      by (metis add_less_cancel_left fields(1) le_iff_add not_less)
    then show "bp_hdrs ?g (buf_at ?g i) = Some \<lparr>bh_region = i div chunk_cnt ?g, bh_index = i, bh_self = (i \<in> U)\<rparr>"
    proof cases
      case 1
      then show ?thesis using inv by (simp add: pool_inv_def grow_region_old [OF p] grow_region_hdr_old [OF p a] fields)
    next
      case 2
      then have "i \<notin> U" using U by auto
      moreover have "i div chunk_cnt p = region_cnt p" using 2 c by simp
      ultimately show ?thesis using grow_region_new [OF p 2(2)] fields(8) [OF 2(2)] by (simp add: 2(1) fields(2))
    qed
  next
    show "pool_shape ?g" by (rule grow_region_shape [OF p a])
    show "U \<subseteq> {..<bp_entry_cnt ?g}" using U by (auto simp: fields)
    show "bp_free_regions ?g = filter (\<lambda>r. free_ids p U r \<noteq> []) [0..<region_cnt ?g]"
      using inv c by (simp add: pool_inv_def fields new)
  qed
qed

lemma grow_inv:
  assumes inv: "pool_inv p U" and env: "env_ok env p" and g: "ofi_bufpool_grow env p = (ret, q)"
  shows "pool_inv q U" "chunk_cnt q = chunk_cnt p" "bp_entry_size q = bp_entry_size p"
    "i < bp_entry_cnt p \<Longrightarrow> buf_at q i = buf_at p i"
    "bp_entry_cnt q = (if ret = None then bp_entry_cnt p + chunk_cnt p else bp_entry_cnt p)"
proof -
  obtain x p1 where x: "ofi_bufpool_region_alloc env p = (x, p1)" by fastforce
  from region_alloc_gives [OF env] have res: "resized p p1"
    and mem: "\<And>a m. x = Inr (a, m) \<Longrightarrow> fresh_memory p a (bp_alloc_size p1)" by (simp_all add: x alloc_gives_def)
  have inv1: "pool_inv p1 U" by (rule resized_inv [OF res inv])
  then have p1: "pool_shape p1" by (simp add: pool_inv_def)
  consider "q = p" "ret \<noteq> None" | "q = p1" "ret \<noteq> None" | a m where "x = Inr (a, m)" "q = grow_region a m p1" "ret = None"
    using g by (auto simp: ofi_bufpool_grow_def x split: if_splits sum.splits)
  then have "pool_inv q U \<and> chunk_cnt q = chunk_cnt p \<and> bp_entry_size q = bp_entry_size p \<and>
     (i < bp_entry_cnt p \<longrightarrow> buf_at q i = buf_at p i) \<and>
     bp_entry_cnt q = (if ret = None then bp_entry_cnt p + chunk_cnt p else bp_entry_cnt p)"
  proof cases
    case 1
    then show ?thesis using inv by auto
  next
    case 2
    then show ?thesis using inv1 res by (auto simp: resized_fields resized_buf_at)
  next
    case 3
    have "fresh_memory p1 a (bp_alloc_size p1)"
      using mem [OF 3(1)] res by (simp add: fresh_memory_def resized_fields resized_extent)
    from grow_region_inv [OF inv1 this] 3(2,3) show ?thesis
      using res grow_region_old [OF p1] by (simp add: grow_region_fields [OF p1] resized_fields resized_buf_at)
  qed
  then show "pool_inv q U" "chunk_cnt q = chunk_cnt p" "bp_entry_size q = bp_entry_size p"
    "i < bp_entry_cnt p \<Longrightarrow> buf_at q i = buf_at p i"
    "bp_entry_cnt q = (if ret = None then bp_entry_cnt p + chunk_cnt p else bp_entry_cnt p)" by blast+
qed

section \<open>Taking a buffer\<close>

lemma remove1_map_inj:
  "inj_on f (insert i (set xs)) \<Longrightarrow> remove1 (f i) (map f xs) = map f (remove1 i xs)"
proof (induction xs)
  case (Cons x xs)
  have "inj_on f (insert i (set xs))" by (rule inj_on_subset [OF Cons.prems]) auto
  moreover have "f x = f i \<longleftrightarrow> x = i" using Cons.prems by (auto simp: inj_on_def)
  ultimately show ?case using Cons.IH by auto
qed simp

lemma remove1_filter_distinct: "distinct xs \<Longrightarrow> remove1 i (filter P xs) = filter (\<lambda>x. P x \<and> i \<noteq> x) xs"
  by (simp add: distinct_remove1_removeAll removeAll_filter_not_eq conj_commute)

lemma free_ids_mem: "pool_shape p \<Longrightarrow> i \<in> set (free_ids p U r) \<longleftrightarrow> i \<notin> U \<and> i div chunk_cnt p = r"
  using region_bounds [of p i r] by (auto simp: free_ids_def)

lemma free_ids_insert: "remove1 i (free_ids p U r) = free_ids p (insert i U) r"
  unfolding free_ids_def by (subst remove1_filter_distinct [OF distinct_upt], rule filter_cong) auto

lemma free_ids_insert_other:
  "pool_shape p \<Longrightarrow> i div chunk_cnt p \<noteq> r \<Longrightarrow> free_ids p (insert i U) r = free_ids p U r"
  by (metis free_ids_insert free_ids_mem remove1_idem)

lemma relist_mem [simp]: "rg_mem ((xs[r := (xs ! r)\<lparr>rg_free := l\<rparr>]) ! j) = rg_mem (xs ! j)"
  by (cases "r < length xs"; cases "r = j") (simp_all add: list_update_beyond)

lemma relist_alloc [simp]: "rg_alloc ((xs[r := (xs ! r)\<lparr>rg_free := l\<rparr>]) ! j) = rg_alloc (xs ! j)"
  by (cases "r < length xs"; cases "r = j") (simp_all add: list_update_beyond)

text \<open>A change of free lists and headers leaves the places of the buffers alone.\<close>

definition relisted :: "ofi_bufpool \<Rightarrow> ofi_bufpool \<Rightarrow> bool" where
  "relisted p q \<longleftrightarrow> bp_attr q = bp_attr p \<and> bp_entry_size q = bp_entry_size p \<and> bp_entry_cnt q = bp_entry_cnt p \<and>
     bp_alloc_size q = bp_alloc_size p \<and> (\<exists>r l. bp_regions q = (bp_regions p)[r := (bp_regions p ! r)\<lparr>rg_free := l\<rparr>])"

lemma relisted_fields:
  assumes "relisted p q"
  shows "bp_attr q = bp_attr p" "bp_entry_size q = bp_entry_size p" "bp_entry_cnt q = bp_entry_cnt p"
    "bp_alloc_size q = bp_alloc_size p" "region_cnt q = region_cnt p" "buf_at q = buf_at p"
    "rg_mem (bp_regions q ! j) = rg_mem (bp_regions p ! j)" "rg_alloc (bp_regions q ! j) = rg_alloc (bp_regions p ! j)"
    "free_ids q = free_ids p"
proof -
  obtain r l where r: "bp_regions q = (bp_regions p)[r := (bp_regions p ! r)\<lparr>rg_free := l\<rparr>]"
    using assms unfolding relisted_def by blast
  show a: "bp_attr q = bp_attr p" "bp_entry_size q = bp_entry_size p" "bp_entry_cnt q = bp_entry_cnt p"
    "bp_alloc_size q = bp_alloc_size p" using assms unfolding relisted_def by blast+
  show "region_cnt q = region_cnt p" unfolding r by simp
  show m: "rg_mem (bp_regions q ! j) = rg_mem (bp_regions p ! j)" "rg_alloc (bp_regions q ! j) = rg_alloc (bp_regions p ! j)" for j
    unfolding r by simp_all
  show "buf_at q = buf_at p" by (simp add: buf_at_def fun_eq_iff a m)
  show "free_ids q = free_ids p" by (simp add: free_ids_def fun_eq_iff a)
qed

lemma relisted_shape: "relisted p q \<Longrightarrow> pool_shape p \<Longrightarrow> pool_shape q"
proof -
  assume q: "relisted p q" and p: "pool_shape p"
  have "extent q (bp_regions q ! r) = extent p (bp_regions p ! r)" for r by (simp add: extent_def relisted_fields [OF q])
  then show ?thesis using p unfolding pool_shape_def all_set_conv_all_nth relisted_fields [OF q] by simp
qed

lemma take_buf_fields:
  "relisted p (take_buf r b p)"
  "bp_hdrs (take_buf r b p) = (bp_hdrs p)(b := map_option (bh_self_update (\<lambda>_. True)) (bp_hdrs p b))"
  "bp_regions (take_buf r b p) = (bp_regions p)[r := (bp_regions p ! r)\<lparr>rg_free := remove1 b (rg_free (bp_regions p ! r))\<rparr>]"
  "r < region_cnt p \<Longrightarrow> bp_free_regions (take_buf r b p) =
     (if remove1 b (rg_free (bp_regions p ! r)) = [] then remove1 r (bp_free_regions p) else bp_free_regions p)"
  by (auto simp: relisted_def take_buf_def drop_full_def set_self_def with_region_def)

lemma take_buf_inv:
  assumes inv: "pool_inv p U" and i: "i < bp_entry_cnt p" "i \<notin> U"
  shows "pool_inv (take_buf (i div chunk_cnt p) (buf_at p i) p) (insert i U)" (is "pool_inv ?q _")
proof -
  let ?r = "i div chunk_cnt p"
  from inv have p: "pool_shape p" by (simp add: pool_inv_def)
  note same = relisted_fields [OF take_buf_fields(1) [of p ?r "buf_at p i"]]
  have r: "?r < region_cnt p" by (rule region_of [OF p i(1)])
  have "insert i (set (free_ids p U ?r)) \<subseteq> {..<bp_entry_cnt p}"
    using i(1) r region_ids [OF p] free_ids_mem [OF p] by auto
  from remove1_map_inj [OF inj_on_subset [OF buf_at_inj [OF p] this]]
  have "remove1 (buf_at p i) (map (buf_at p) (free_ids p U ?r)) = map (buf_at p) (free_ids p (insert i U) ?r)"
    unfolding free_ids_insert .
  then have l: "remove1 (buf_at p i) (rg_free (bp_regions p ! ?r)) = map (buf_at p) (free_ids p (insert i U) ?r)"
    using inv r by (simp add: pool_inv_def)
  have inj: "buf_at p j = buf_at p i \<longleftrightarrow> j = i" if "j < bp_entry_cnt p" for j
    using inj_on_eq_iff [OF buf_at_inj [OF p]] that i(1) by simp
  show ?thesis
    unfolding pool_inv_def same
  proof (intro conjI allI impI)
    show "pool_shape ?q" by (rule relisted_shape [OF take_buf_fields(1) p])
    show "insert i U \<subseteq> {..<bp_entry_cnt p}" using inv i(1) by (simp add: pool_inv_def)
    fix s assume s: "s < region_cnt p"
    then have "rg_free (bp_regions ?q ! s) = (if s = ?r then map (buf_at p) (free_ids p (insert i U) ?r) else rg_free (bp_regions p ! s))"
      using l by (simp add: take_buf_fields)
    then show "rg_free (bp_regions ?q ! s) = map (buf_at p) (free_ids p (insert i U) s)"
      using inv s free_ids_insert_other [OF p] by (auto simp: pool_inv_def)
  next
    have ne: "free_ids p U ?r \<noteq> []" using free_ids_mem [OF p, of i U ?r] i(2) by auto
    note regs = take_buf_fields(4) [OF r, of "buf_at p i", unfolded l map_is_Nil_conv]
    show "bp_free_regions ?q = filter (\<lambda>s. free_ids p (insert i U) s \<noteq> []) [0..<region_cnt p]"
    proof (cases "free_ids p (insert i U) ?r = []")
      case True
      then have "free_ids p (insert i U) s \<noteq> [] \<longleftrightarrow> free_ids p U s \<noteq> [] \<and> ?r \<noteq> s" for s
        using free_ids_insert_other [OF p, of i s U] by (cases "s = ?r") auto
      then show ?thesis using inv True by (simp only: regs pool_inv_def remove1_filter_distinct [OF distinct_upt] if_True simp_thms)
    next
      case False
      then have "free_ids p (insert i U) s \<noteq> [] \<longleftrightarrow> free_ids p U s \<noteq> []" for s
        using free_ids_insert_other [OF p, of i s U] ne by (cases "s = ?r") auto
      then show ?thesis using inv False by (simp only: regs pool_inv_def if_False simp_thms)
    qed
  next
    fix j assume j: "j < bp_entry_cnt p"
    then show "bp_hdrs ?q (buf_at p j) = Some \<lparr>bh_region = j div chunk_cnt p, bh_index = j, bh_self = (j \<in> insert i U)\<rparr>"
      using inv inj [OF j] by (auto simp: take_buf_fields pool_inv_def)
  qed
qed

end
