(* ===== verification/Ofi_Bufpool_Run.thy ===== *)
theory Ofi_Bufpool_Run
  imports Ofi_Bufpool_Inv
begin

text \<open>
  The operations of an indexed pool over its invariant, and what a user of the pool sees after any
  sequence of them: a set of indices, with every allocation taking the lowest one that is free.
\<close>

section \<open>Reading a pool\<close>

lemma hdr_at:
  "pool_inv p U \<Longrightarrow> i < bp_entry_cnt p \<Longrightarrow>
   bp_hdrs p (buf_at p i) = Some \<lparr>bh_region = i div chunk_cnt p, bh_index = i, bh_self = (i \<in> U)\<rparr>"
  by (simp add: pool_inv_def)

lemma reads:
  assumes "pool_inv p U" and "i < bp_entry_cnt p"
  shows "ofi_buf_index p (buf_at p i) = i" "ofi_buf_region p (buf_at p i) = i div chunk_cnt p"
    "ofi_buf_is_valid p (buf_at p i) \<longleftrightarrow> i \<in> U"
  by (simp_all add: ofi_buf_index_def ofi_buf_region_def ofi_buf_is_valid_def hdr_at [OF assms])

lemma used_below: "pool_inv p U \<Longrightarrow> i \<in> U \<Longrightarrow> i < bp_entry_cnt p"
  by (auto simp: pool_inv_def)

lemma inv_shape: "pool_inv p U \<Longrightarrow> pool_shape p"
  by (simp add: pool_inv_def)

lemma valid_iff_used:
  assumes "pool_inv p U"
  shows "ofi_bufpool_ibuf_is_valid p i \<longleftrightarrow> i \<in> U"
proof (cases "i < bp_entry_cnt p")
  case True
  then show ?thesis using reads(3) [OF assms True] region_of [OF inv_shape [OF assms] True]
    by (simp add: ofi_bufpool_ibuf_is_valid_def)
next
  case False
  then show ?thesis using region_ids [OF inv_shape [OF assms], of i] used_below [OF assms]
    by (auto simp: ofi_bufpool_ibuf_is_valid_def)
qed

section \<open>Giving a buffer back\<close>

lemma insert_order_map:
  assumes "\<And>j. j \<in> insert i (set xs) \<Longrightarrow> key (f j) = j" and "i \<notin> set xs"
  shows "dlist_insert_order key (f i) (map f xs) = map f (insort i xs)"
  using assms by (induction xs) (auto simp: less_le)

lemma ids_increase: "distinct (free_ids p U r)" "sorted (free_ids p U r)"
  unfolding free_ids_def by (rule distinct_filter [OF distinct_upt], rule sorted_wrt_filter [OF sorted_upt])

lemma free_ids_remove:
  assumes p: "pool_shape p" and i: "i \<in> U" "i div chunk_cnt p = r"
  shows "free_ids p (U - {i}) r = insort i (free_ids p U r)"
proof (rule sorted_distinct_set_unique)
  have new: "i \<notin> set (free_ids p U r)" using i(1) by (simp add: free_ids_mem [OF p])
  show "set (free_ids p (U - {i}) r) = set (insort i (free_ids p U r))"
    unfolding set_insort_key set_eq_iff insert_iff free_ids_mem [OF p] using i by blast
  show "distinct (insort i (free_ids p U r))" using new ids_increase(1) by (simp add: distinct_insort)
  show "sorted (insort i (free_ids p U r))" unfolding sorted_insort by (rule ids_increase)
qed (rule ids_increase)+

lemma free_ids_remove_other:
  "pool_shape p \<Longrightarrow> i div chunk_cnt p \<noteq> r \<Longrightarrow> free_ids p (U - {i}) r = free_ids p U r"
  unfolding free_ids_def by (rule filter_cong [OF refl]) (use region_bounds [of p i r] in auto)

lemma filter_insort:
  assumes "i \<in> set xs" "sorted xs" "distinct xs" "\<not> P i"
  shows "insort i (filter P xs) = filter (\<lambda>x. P x \<or> x = i) (xs :: nat list)"
  by (rule sorted_distinct_set_unique)
    (use assms in \<open>auto simp: set_insort_key distinct_insort sorted_insort sorted_wrt_filter\<close>)

definition give_buf :: "nat \<Rightarrow> nat \<Rightarrow> ofi_bufpool \<Rightarrow> ofi_bufpool" where
  "give_buf i r p =
     (let p1 = set_self False (buf_at p i) (with_region r (\<lambda>rg. rg\<lparr>rg_free := dlist_insert_order (ofi_buf_index p) (buf_at p i) (rg_free rg)\<rparr>) p)
      in if r \<in> set (bp_free_regions p1) then p1 else p1\<lparr>bp_free_regions := dlist_insert_order id r (bp_free_regions p1)\<rparr>)"

lemma give_buf_fields:
  "relisted p (give_buf i r p)"
  "bp_hdrs (give_buf i r p) = (bp_hdrs p)(buf_at p i := map_option (bh_self_update (\<lambda>_. False)) (bp_hdrs p (buf_at p i)))"
  "bp_regions (give_buf i r p) = (bp_regions p)[r := (bp_regions p ! r)\<lparr>rg_free := dlist_insert_order (ofi_buf_index p) (buf_at p i) (rg_free (bp_regions p ! r))\<rparr>]"
  "bp_free_regions (give_buf i r p) =
     (if r \<in> set (bp_free_regions p) then bp_free_regions p else dlist_insert_order id r (bp_free_regions p))"
  by (auto simp: relisted_def give_buf_def set_self_def with_region_def Let_def)

lemma ibuf_free_inv:
  assumes inv: "pool_inv p U" and i: "i \<in> U"
  shows "ofi_ibuf_free (buf_at p i) p = Some (give_buf i (i div chunk_cnt p) p)"
    and "pool_inv (give_buf i (i div chunk_cnt p) p) (U - {i})" (is "pool_inv ?q _")
proof -
  let ?r = "i div chunk_cnt p"
  note p = inv_shape [OF inv] and ic = used_below [OF inv i]
  note same = relisted_fields [OF give_buf_fields(1) [of p i ?r]]
  have r: "?r < region_cnt p" by (rule region_of [OF p ic])
  show "ofi_ibuf_free (buf_at p i) p = Some (give_buf i ?r p)"
    using i by (simp add: ofi_ibuf_free_def give_buf_def reads [OF inv ic] Let_def)
  have key: "ofi_buf_index p (buf_at p j) = j" if "j \<in> insert i (set (free_ids p U ?r))" for j
    using that ic r region_ids [OF p] free_ids_mem [OF p] by (auto intro: reads(1) [OF inv])
  have "dlist_insert_order (ofi_buf_index p) (buf_at p i) (map (buf_at p) (free_ids p U ?r)) = map (buf_at p) (free_ids p (U - {i}) ?r)"
    unfolding free_ids_remove [OF p i refl]
    by (rule insert_order_map) (use key i free_ids_mem [OF p] in auto)
  then have l: "dlist_insert_order (ofi_buf_index p) (buf_at p i) (rg_free (bp_regions p ! ?r)) = map (buf_at p) (free_ids p (U - {i}) ?r)"
    using inv r by (simp add: pool_inv_def)
  have inj: "buf_at p j = buf_at p i \<longleftrightarrow> j = i" if "j < bp_entry_cnt p" for j
    using inj_on_eq_iff [OF buf_at_inj [OF p]] that ic by simp
  show "pool_inv ?q (U - {i})"
    unfolding pool_inv_def same
  proof (intro conjI allI impI)
    show "pool_shape ?q" by (rule relisted_shape [OF give_buf_fields(1) p])
    show "U - {i} \<subseteq> {..<bp_entry_cnt p}" using inv by (auto simp: pool_inv_def)
    fix s assume s: "s < region_cnt p"
    then have "rg_free (bp_regions ?q ! s) = (if s = ?r then map (buf_at p) (free_ids p (U - {i}) ?r) else rg_free (bp_regions p ! s))"
      using l by (simp add: give_buf_fields)
    then show "rg_free (bp_regions ?q ! s) = map (buf_at p) (free_ids p (U - {i}) s)"
      using inv s free_ids_remove_other [OF p] by (auto simp: pool_inv_def)
  next
    have "free_ids p (U - {i}) s \<noteq> [] \<longleftrightarrow> free_ids p U s \<noteq> [] \<or> s = ?r" for s
      using free_ids_remove_other [OF p, of i s U] free_ids_remove [OF p i refl] by (cases "s = ?r") auto
    then have f: "filter (\<lambda>s. free_ids p (U - {i}) s \<noteq> []) [0..<region_cnt p] =
        filter (\<lambda>s. free_ids p U s \<noteq> [] \<or> s = ?r) [0..<region_cnt p]" by simp
    have regs: "bp_free_regions p = filter (\<lambda>s. free_ids p U s \<noteq> []) [0..<region_cnt p]" using inv by (simp add: pool_inv_def)
    show "bp_free_regions ?q = filter (\<lambda>s. free_ids p (U - {i}) s \<noteq> []) [0..<region_cnt p]"
    proof (cases "free_ids p U ?r = []")
      case True
      then have "dlist_insert_order id ?r (map id (bp_free_regions p)) = map id (insort ?r (bp_free_regions p))"
        using insert_order_map [of ?r "bp_free_regions p" id id] by (auto simp: regs)
      then show ?thesis using True r filter_insort [of ?r "[0..<region_cnt p]" "\<lambda>s. free_ids p U s \<noteq> []"]
        unfolding f give_buf_fields(4) by (simp add: regs)
    next
      case False
      then have "(\<lambda>s. free_ids p U s \<noteq> [] \<or> s = ?r) = (\<lambda>s. free_ids p U s \<noteq> [])" by auto
      then show ?thesis using False r unfolding f give_buf_fields(4) by (simp add: regs)
    qed
  next
    fix j assume j: "j < bp_entry_cnt p"
    then show "bp_hdrs ?q (buf_at p j) = Some \<lparr>bh_region = j div chunk_cnt p, bh_index = j, bh_self = (j \<in> U - {i})\<rparr>"
      using inv inj [OF j] hdr_at [OF inv j] by (auto simp: give_buf_fields)
  qed
qed

section \<open>Allocating\<close>

lemma hd_filter_upt:
  assumes "filter P [a..<b] \<noteq> []"
  shows "P (hd (filter P [a..<b]))" "a \<le> hd (filter P [a..<b])" "hd (filter P [a..<b]) < b"
    "a \<le> j \<Longrightarrow> j < hd (filter P [a..<b]) \<Longrightarrow> \<not> P j"
proof -
  let ?h = "hd (filter P [a..<b])"
  have h: "?h \<in> set (filter P [a..<b])" by (rule hd_in_set [OF assms])
  then show "P ?h" "a \<le> ?h" and b: "?h < b" by simp_all
  show "\<not> P j" if "a \<le> j" "j < ?h"
  proof
    assume "P j"
    with that b have "j \<in> set (filter P [a..<b])" by simp
    moreover have "sorted (filter P [a..<b])" by (rule sorted_wrt_filter [OF sorted_upt])
    ultimately have "?h \<le> j" by (cases "filter P [a..<b]") auto
    with that(2) show False by simp
  qed
qed

lemma full_iff:
  assumes inv: "pool_inv p U"
  shows "bp_free_regions p = [] \<longleftrightarrow> U = {..<bp_entry_cnt p}"
proof -
  note p = inv_shape [OF inv]
  have "bp_free_regions p = [] \<longleftrightarrow> (\<forall>r<region_cnt p. free_ids p U r = [])"
    using inv by (auto simp: pool_inv_def filter_empty_conv)
  also have "\<dots> \<longleftrightarrow> (\<forall>i<bp_entry_cnt p. i \<in> U)"
  proof (intro iffI allI impI)
    fix i assume e: "\<forall>r<region_cnt p. free_ids p U r = []" and "i < bp_entry_cnt p"
    then have "free_ids p U (i div chunk_cnt p) = []" using region_of [OF p] by blast
    then show "i \<in> U" using free_ids_mem [OF p, of i U "i div chunk_cnt p"] by simp
  next
    fix r assume e: "\<forall>i<bp_entry_cnt p. i \<in> U" and r: "r < region_cnt p"
    have "set (free_ids p U r) = {}" using e region_ids [OF p _ r] unfolding free_ids_mem [OF p] set_eq_iff by blast
    then show "free_ids p U r = []" by simp
  qed
  finally show ?thesis using used_below [OF inv] by blast
qed

lemma lowest_free:
  assumes inv: "pool_inv p U" and ne: "bp_free_regions p \<noteq> []"
  shows "\<exists>i. i = (LEAST i. i \<notin> U) \<and> i \<notin> U \<and> i < bp_entry_cnt p \<and> hd (bp_free_regions p) = i div chunk_cnt p \<and>
    hd (rg_free (bp_regions p ! hd (bp_free_regions p))) = buf_at p i"
proof -
  note p = inv_shape [OF inv]
  let ?r = "hd (bp_free_regions p)"
  have regs: "bp_free_regions p = filter (\<lambda>r. free_ids p U r \<noteq> []) [0..<region_cnt p]" using inv by (simp add: pool_inv_def)
  note least_r = hd_filter_upt [OF ne [unfolded regs], folded regs]
  let ?i = "hd (free_ids p U ?r)"
  note least_i = hd_filter_upt [OF least_r(1) [unfolded free_ids_def], folded free_ids_def]
  have "?i \<in> set (free_ids p U ?r)" by (rule hd_in_set [OF least_r(1)])
  then have i: "?i \<notin> U" "?i div chunk_cnt p = ?r" by (simp_all add: free_ids_mem [OF p])
  have "j \<in> U" if "j < ?i" for j
  proof (cases "j div chunk_cnt p = ?r")
    case True
    then have "?r * chunk_cnt p \<le> j" using region_bounds [OF p, of j ?r] by simp
    with least_i(4) that show ?thesis by blast
  next
    case False
    have "j div chunk_cnt p \<le> ?i div chunk_cnt p" using that by (simp add: div_le_mono)
    with False i(2) have "j div chunk_cnt p < ?r" by simp
    then have "free_ids p U (j div chunk_cnt p) = []" using least_r(4) by blast
    then show ?thesis using free_ids_mem [OF p, of j U "j div chunk_cnt p"] by simp
  qed
  then have "?i = (LEAST i. i \<notin> U)" using i(1) by (intro Least_equality [symmetric]) (auto simp: not_less [symmetric])
  moreover have "?i < bp_entry_cnt p" by (rule region_ids [OF p i(2) least_r(3)])
  moreover have "hd (rg_free (bp_regions p ! ?r)) = buf_at p ?i"
    using inv least_r(1,3) by (simp add: pool_inv_def hd_map)
  ultimately show ?thesis using i by metis
qed

text \<open>A pool that has grown still has every buffer at its place.\<close>

definition extends :: "ofi_bufpool \<Rightarrow> ofi_bufpool \<Rightarrow> bool" where
  "extends p q \<longleftrightarrow> chunk_cnt q = chunk_cnt p \<and> bp_entry_size q = bp_entry_size p \<and> bp_entry_cnt p \<le> bp_entry_cnt q \<and>
     (\<forall>i < bp_entry_cnt p. buf_at q i = buf_at p i)"

lemma extends_refl: "extends p p"
  by (simp add: extends_def)

lemma extends_trans: "extends p q \<Longrightarrow> extends q r \<Longrightarrow> extends p r"
  unfolding extends_def by auto

lemma extends_take: "extends p q \<Longrightarrow> extends p (take_buf r b q)"
  unfolding extends_def relisted_fields [OF take_buf_fields(1)] .

lemma extends_grow:
  assumes "pool_inv p U" and "env_ok env p" and "ofi_bufpool_grow env p = (ret, q)"
  shows "extends p q"
  using grow_inv(2-5) [OF assms] by (simp add: extends_def)

lemma ibuf_alloc_inv:
  assumes inv: "pool_inv p U" and env: "env_ok env p" and al: "ofi_ibuf_alloc env p = (res, q)"
  shows "extends p q \<and>
    (case res of None \<Rightarrow> U = {..<bp_entry_cnt p} \<and> pool_inv q U
     | Some b \<Rightarrow> \<exists>i. i = (LEAST i. i \<notin> U) \<and> i \<notin> U \<and> b = buf_at q i \<and> pool_inv q (insert i U))"
proof -
  obtain ret p1 where r: "(if bp_free_regions p = [] then ofi_bufpool_grow env p else (None, p)) = (ret, p1)" by fastforce
  have inv1: "pool_inv p1 U" and ext: "extends p p1"
    using r inv grow_inv(1) [OF inv env] extends_grow [OF inv env] extends_refl by (auto split: if_splits)
  note al' = al [unfolded ofi_ibuf_alloc_def r prod.case Let_def]
  show ?thesis
  proof (cases ret)
    case (Some e)
    then have "bp_free_regions p = []" using r by (auto split: if_splits)
    then show ?thesis using al' Some inv1 ext full_iff [OF inv] by auto
  next
    case None
    have "bp_free_regions p1 \<noteq> []"
    proof (cases "bp_free_regions p = []")
      case True
      then have "bp_entry_cnt p1 = bp_entry_cnt p + chunk_cnt p" using r None grow_inv(5) [OF inv env] by simp
      moreover have "U \<subseteq> {..<bp_entry_cnt p}" "0 < chunk_cnt p" using inv by (auto simp: pool_inv_def pool_shape_def)
      ultimately have "bp_entry_cnt p \<in> {..<bp_entry_cnt p1}" "bp_entry_cnt p \<notin> U" by auto
      then have "U \<noteq> {..<bp_entry_cnt p1}" by blast
      then show ?thesis using full_iff [OF inv1] by blast
    qed (use r in auto)
    from lowest_free [OF inv1 this] obtain i where i: "i = (LEAST i. i \<notin> U)" "i \<notin> U" "i < bp_entry_cnt p1"
      "hd (bp_free_regions p1) = i div chunk_cnt p1"
      "hd (rg_free (bp_regions p1 ! (i div chunk_cnt p1))) = buf_at p1 i" by metis
    have "res = Some (buf_at p1 i)" and q: "q = take_buf (i div chunk_cnt p1) (buf_at p1 i) p1"
      using al' None i(4,5) by simp_all
    moreover have "buf_at q i = buf_at p1 i" unfolding q relisted_fields(6) [OF take_buf_fields(1)] ..
    moreover have "pool_inv q (insert i U)" unfolding q by (rule take_buf_inv [OF inv1 i(3,2)])
    moreover have "extends p q" unfolding q by (rule extends_take [OF ext])
    ultimately show ?thesis using i(1,2) by auto
  qed
qed

text \<open>Growing to a given region, with the answers of the system at every growth.\<close>

fun grown :: "(nat \<Rightarrow> region_env) \<Rightarrow> nat \<Rightarrow> ofi_bufpool \<Rightarrow> ofi_bufpool" where
  "grown env 0 p = p"
| "grown env (Suc k) p = grown env k (snd (ofi_bufpool_grow (env (region_cnt p)) p))"

definition envs_ok :: "(nat \<Rightarrow> region_env) \<Rightarrow> ofi_bufpool \<Rightarrow> bool" where
  "envs_ok env p \<longleftrightarrow> (\<forall>k. env_ok (env (region_cnt (grown env k p))) (grown env k p))"

lemma envs_now: "envs_ok env p \<Longrightarrow> env_ok (env (region_cnt p)) p"
  unfolding envs_ok_def by (metis grown.simps(1))

lemma envs_next: "envs_ok env p \<Longrightarrow> ofi_bufpool_grow (env (region_cnt p)) p = (ret, q) \<Longrightarrow> envs_ok env q"
  unfolding envs_ok_def by (metis grown.simps(2) snd_conv)

lemma grow_to_inv:
  "pool_inv p U \<Longrightarrow> envs_ok env p \<Longrightarrow> grow_to env r p = (ret, q) \<Longrightarrow>
   pool_inv q U \<and> extends p q \<and> (ret = None \<longrightarrow> r < region_cnt q)"
proof (induction env r p rule: grow_to.induct)
  case (1 env r p)
  obtain ret1 p1 where g: "ofi_bufpool_grow (env (region_cnt p)) p = (ret1, p1)" by fastforce
  note step = grow_inv(1) [OF 1(2) envs_now [OF 1(3)] g] and ext = extends_grow [OF 1(2) envs_now [OF 1(3)] g]
  show ?case
  proof (cases "r < region_cnt p")
    case True
    then show ?thesis using 1(2,4) by (simp add: grow_to.simps [of env r p] extends_refl)
  next
    case far: False
    show ?thesis
    proof (cases ret1)
      case None
      then have "grow_to env r p1 = (ret, q)" using 1(4) far g by (simp add: grow_to.simps [of env r p])
      with 1(1) [OF far g [symmetric] None step envs_next [OF 1(3) g]] ext show ?thesis using extends_trans by blast
    next
      case (Some e)
      then show ?thesis using 1(4) far g step ext by (auto simp: grow_to.simps [of env r p])
    qed
  qed
qed

lemma ibuf_alloc_at_inv:
  assumes inv: "pool_inv p U" and env: "envs_ok env p"
  shows "case ofi_ibuf_alloc_at env i p of
      None \<Rightarrow> i \<in> U
    | Some (None, q) \<Rightarrow> i \<notin> U \<and> extends p q \<and> pool_inv q U
    | Some (Some b, q) \<Rightarrow> i \<notin> U \<and> extends p q \<and> b = buf_at q i \<and> pool_inv q (insert i U)"
proof -
  let ?r = "i div chunk_cnt p"
  obtain ret p1 where g: "grow_to env ?r p = (ret, p1)" by fastforce
  from grow_to_inv [OF inv env g] have inv1: "pool_inv p1 U" and ext: "extends p p1" and r: "ret = None \<Longrightarrow> ?r < region_cnt p1" by blast+
  have c: "chunk_cnt p1 = chunk_cnt p" using ext by (simp add: extends_def)
  have near: "grow_to env ?r p = (None, p)" if "i \<in> U"
    using region_of [OF inv_shape [OF inv] used_below [OF inv that]] by (simp add: grow_to.simps [of env ?r p])
  show ?thesis
  proof (cases ret)
    case None
    have i: "i < bp_entry_cnt p1" by (rule region_ids [OF inv_shape [OF inv1] _ r [OF None]]) (simp add: c)
    show ?thesis
    proof (cases "i \<in> U")
      case True
      then show ?thesis using g None reads(3) [OF inv1 i] by (simp add: ofi_ibuf_alloc_at_def Let_def)
    next
      case False
      have "buf_at (take_buf ?r (buf_at p1 i) p1) i = buf_at p1 i" unfolding relisted_fields(6) [OF take_buf_fields(1)] ..
      then show ?thesis using g None False reads(3) [OF inv1 i] take_buf_inv [OF inv1 i False] extends_take [OF ext] c
        by (simp add: ofi_ibuf_alloc_at_def Let_def)
    qed
  next
    case (Some e)
    then have "i \<notin> U" using near g by auto
    then show ?thesis using g Some inv1 ext by (simp add: ofi_ibuf_alloc_at_def Let_def)
  qed
qed

section \<open>Plain pools and destruction\<close>

text \<open>A plain pool hands out the buffer that was released last.\<close>

lemma buf_free_alloc:
  "ofi_buf_free b p = Some q \<Longrightarrow>
   \<exists>p'. ofi_buf_alloc env q = (Some b, p') \<and> bp_entries p' = bp_entries p \<and> bp_hdrs p' b = bp_hdrs p b"
  by (cases "bp_hdrs p b")
    (auto simp: ofi_buf_free_def ofi_buf_alloc_def ofi_buf_is_valid_def set_self_def split: if_splits)

text \<open>Destroying a pool gives back as many regions as it has, no address twice.\<close>

lemma destroy_once:
  assumes "pool_inv p U"
  shows "distinct (map fst (ofi_bufpool_destroy p))"
proof -
  note p = inv_shape [OF assms]
  have e: "rg_alloc (bp_regions p ! r) \<in> extent p (bp_regions p ! r)" for r using p by (simp add: extent_def pool_shape_def)
  have "rg_alloc (bp_regions p ! r) \<noteq> rg_alloc (bp_regions p ! s)" if "r < region_cnt p" "s < region_cnt p" "r \<noteq> s" for r s
  proof -
    have "extent p (bp_regions p ! r) \<inter> extent p (bp_regions p ! s) = {}" using p that unfolding pool_shape_def by blast
    then show ?thesis using e [of r] e [of s] by (metis disjoint_iff)
  qed
  then show ?thesis by (simp add: ofi_bufpool_destroy_def ofi_bufpool_region_free_def distinct_conv_nth)
qed

section \<open>Any sequence of operations\<close>

text \<open>The sizes of the pool are below the modulus of \<^verbatim>\<open>size_t\<close>.\<close>

definition pool_fits :: "nat \<Rightarrow> ofi_bufpool_attr \<Rightarrow> bool" where
  "pool_fits page attr \<longleftrightarrow> pa_indexed attr \<and> pa_size attr + hdr_size + pa_alignment attr < size_max \<and>
     (let p = bufpool_init page attr in (chunk_cnt p + 1) * bp_entry_size p < size_max)"

lemma create_inv:
  assumes fits: "pool_fits page attr"
  shows "pool_inv (bufpool_init page attr) {}"
proof -
  let ?p = "bufpool_init page attr"
  have sz: "size_t (pa_size attr + hdr_size) = pa_size attr + hdr_size" using fits by (simp add: pool_fits_def size_t_def)
  have "pa_size attr + hdr_size \<le> bp_entry_size ?p"
  proof (cases "pa_alignment attr = 0")
    case True
    then show ?thesis unfolding bufpool_init_def Let_def sz by (simp add: ofi_get_aligned_size_def)
  next
    case False
    then have "pa_size attr + hdr_size \<le> ofi_get_aligned_size (pa_size attr + hdr_size) (pa_alignment attr)"
      using fits by (intro aligned_size_ge) (simp_all add: pool_fits_def)
    then show ?thesis using False unfolding bufpool_init_def Let_def sz by simp
  qed
  moreover have "0 < chunk_cnt ?p" "pa_indexed (bp_attr ?p) = pa_indexed attr" "bp_regions ?p = []" "bp_entry_cnt ?p = 0" "bp_free_regions ?p = []"
    by (simp_all add: bufpool_init_def Let_def)
  moreover have "bp_alloc_size ?p = size_t ((chunk_cnt ?p + 1) * bp_entry_size ?p)"
    by (simp add: bufpool_init_def Let_def)
  moreover have "size_t ((chunk_cnt ?p + 1) * bp_entry_size ?p) = (chunk_cnt ?p + 1) * bp_entry_size ?p"
    using fits unfolding pool_fits_def Let_def size_t_def by (intro mod_less) blast
  moreover have "pa_indexed attr" using fits by (simp add: pool_fits_def)
  ultimately show ?thesis by (simp add: pool_inv_def pool_shape_def)
qed

inductive pool_reach :: "ofi_bufpool \<Rightarrow> nat set \<Rightarrow> bool" where
  pool_start: "pool_fits page attr \<Longrightarrow> ofi_bufpool_create_attr calloc page attr = Inr p \<Longrightarrow> pool_reach p {}"
| pool_alloc: "pool_reach p U \<Longrightarrow> env_ok env p \<Longrightarrow> ofi_ibuf_alloc env p = (res, q) \<Longrightarrow>
    pool_reach q (case res of None \<Rightarrow> U | Some b \<Rightarrow> insert (ofi_buf_index q b) U)"
| pool_alloc_at: "pool_reach p U \<Longrightarrow> envs_ok env p \<Longrightarrow> ofi_ibuf_alloc_at env i p = Some (res, q) \<Longrightarrow>
    pool_reach q (if res = None then U else insert i U)"
| pool_free: "pool_reach p U \<Longrightarrow> ofi_bufpool_get_ibuf p i = Some b \<Longrightarrow> ofi_ibuf_free b p = Some q \<Longrightarrow>
    pool_reach q (U - {i})"

lemma get_ibuf_used: "pool_inv p U \<Longrightarrow> ofi_bufpool_get_ibuf p i = (if i \<in> U then Some (buf_at p i) else None)"
  by (simp add: ofi_bufpool_get_ibuf_def valid_iff_used)

lemma pool_reach_inv: "pool_reach p U \<Longrightarrow> pool_inv p U"
proof (induction rule: pool_reach.induct)
  case (pool_start page attr calloc p)
  then show ?case using create_inv by (auto simp: ofi_bufpool_create_attr_def split: if_splits)
next
  case (pool_alloc p U env res q)
  from ibuf_alloc_inv [OF pool_alloc.IH pool_alloc.hyps(2,3)] show ?case
    by (auto split: option.splits simp: reads(1) used_below)
next
  case (pool_alloc_at p U env i res q)
  from ibuf_alloc_at_inv [OF pool_alloc_at.IH pool_alloc_at.hyps(2), of i] pool_alloc_at.hyps(3) show ?case
    by (cases res) auto
next
  case (pool_free p U i b q)
  then have "i \<in> U" "b = buf_at p i" by (auto simp: get_ibuf_used split: if_splits)
  with ibuf_free_inv [OF pool_free.IH] pool_free.hyps(3) show ?case by auto
qed

text \<open>
  C38.  After any sequence of allocations, allocations at a given index and releases, an indexed
  pool is a set of indices in use.  Exactly these are valid; each has one buffer, whose header
  leads back to the index and which can be released; the bytes of different buffers, headers included,
  do not overlap.  An allocation returns the lowest index that is not in use and moves
  no buffer, or it fails because every index is in use and the pool could not grow.
\<close>

theorem pool_lowest_index:
  assumes "pool_reach p U" and "env_ok env p"
  shows "(\<forall>i. ofi_bufpool_ibuf_is_valid p i \<longleftrightarrow> i \<in> U) \<and>
    (\<forall>i\<in>U. \<exists>b q. ofi_bufpool_get_ibuf p i = Some b \<and> ofi_buf_index p b = i \<and> ofi_ibuf_free b p = Some q) \<and>
    (\<forall>i\<in>U. \<forall>j\<in>U. i \<noteq> j \<longrightarrow> entry_bytes p i \<inter> entry_bytes p j = {}) \<and>
    (case ofi_ibuf_alloc env p of
       (None, q) \<Rightarrow> U = {..<bp_entry_cnt p} \<and> pool_reach q U
     | (Some b, q) \<Rightarrow> ofi_buf_index q b = (LEAST i. i \<notin> U) \<and> pool_reach q (insert (LEAST i. i \<notin> U) U) \<and>
         (\<forall>i\<in>U. ofi_bufpool_get_ibuf q i = ofi_bufpool_get_ibuf p i))"
proof -
  from pool_reach_inv [OF assms(1)] have inv: "pool_inv p U" .
  obtain res q where al: "ofi_ibuf_alloc env p = (res, q)" by fastforce
  note step = ibuf_alloc_inv [OF inv assms(2) al] pool_alloc [OF assms al]
  have "case res of None \<Rightarrow> U = {..<bp_entry_cnt p} \<and> pool_reach q U
     | Some b \<Rightarrow> ofi_buf_index q b = (LEAST i. i \<notin> U) \<and> pool_reach q (insert (LEAST i. i \<notin> U) U) \<and>
         (\<forall>i\<in>U. ofi_bufpool_get_ibuf q i = ofi_bufpool_get_ibuf p i)"
  proof (cases res)
    case (Some b)
    from step Some obtain i where i: "i = (LEAST i. i \<notin> U)" "b = buf_at q i" "pool_inv q (insert i U)" by auto
    then have x: "ofi_buf_index q b = i" using reads(1) used_below by blast
    have "ofi_bufpool_get_ibuf q j = ofi_bufpool_get_ibuf p j" if "j \<in> U" for j
      using that step(1) used_below [OF inv that] by (simp add: get_ibuf_used [OF inv] get_ibuf_used [OF i(3)] extends_def)
    then show ?thesis using step(2) Some x unfolding i(1) by simp
  qed (use step in simp)
  moreover have "\<exists>b q. ofi_bufpool_get_ibuf p i = Some b \<and> ofi_buf_index p b = i \<and> ofi_ibuf_free b p = Some q" if "i \<in> U" for i
    using that get_ibuf_used [OF inv, of i] reads(1) [OF inv used_below [OF inv that]] ibuf_free_inv(1) [OF inv that] by auto
  moreover have "entry_bytes p i \<inter> entry_bytes p j = {}" if "i \<in> U" "j \<in> U" "i \<noteq> j" for i j
    by (rule entries_apart [OF inv_shape [OF inv] used_below [OF inv that(1)] used_below [OF inv that(2)] that(3)])
  ultimately show ?thesis using al valid_iff_used [OF inv] by (simp split: option.split)
qed

text \<open>A pool of two entries per region, and a system that hands out memory at one address.\<close>

definition small_pool :: ofi_bufpool where
  "small_pool = bufpool_init 4096 \<lparr>pa_size = 64, pa_alignment = 16, pa_max_cnt = 0, pa_chunk_cnt = 2,
     pa_indexed = True, pa_hugepages = False, pa_nonshared = False\<rparr>"

definition heap_env :: "addr \<Rightarrow> region_env" where
  "heap_env a = \<lparr>re_calloc = True, re_hugepage_size = - 38, re_hugepage = (\<lambda>n. Inl (- 38)), re_page_size = 4096, re_syserr = 0,
     re_mmap = (\<lambda>n. Inl (- 38)), re_memalign = (\<lambda>al n. if n \<le> 4096 then Inr a else Inl (- 12)), re_alloc_fn = 0, re_realloc = True\<rparr>"

lemma small_pool_fields: "small_pool = \<lparr>bp_entries = [], bp_free_regions = [], bp_entry_size = 96, bp_entry_cnt = 0, bp_regions = [],
     bp_alloc_size = 288, bp_region_size = 192, bp_attr = \<lparr>pa_size = 64, pa_alignment = 16, pa_max_cnt = 0, pa_chunk_cnt = 2,
     pa_indexed = True, pa_hugepages = False, pa_nonshared = False\<rparr>, bp_hdrs = (\<lambda>_. None)\<rparr>"
  by (simp add: small_pool_def bufpool_init_def ofi_get_aligned_size_def size_t_def size_sub_def)

lemma small_pool_start: "pool_reach small_pool {}" and small_pool_env: "env_ok (heap_env 4096) small_pool"
proof -
  show "pool_reach small_pool {}" unfolding small_pool_def
    by (rule pool_start [of 4096 _ True, unfolded ofi_bufpool_create_attr_def if_False not_True_eq_False, OF _ refl])
      (simp add: pool_fits_def small_pool_fields [unfolded small_pool_def])
  show "env_ok (heap_env 4096) small_pool"
    by (auto simp: env_ok_def heap_env_def fresh_memory_def small_pool_fields split: if_splits)
qed

theorem pool_lowest_index_witness:
  "\<exists>b q. pool_reach small_pool {} \<and> env_ok (heap_env 4096) small_pool \<and>
     ofi_ibuf_alloc (heap_env 4096) small_pool = (Some b, q) \<and> ofi_buf_index q b = 0 \<and> pool_reach q {0}"
proof -
  obtain b q where al: "ofi_ibuf_alloc (heap_env 4096) small_pool = (Some b, q)"
    by (simp add: ofi_ibuf_alloc_def ofi_bufpool_grow_def ofi_bufpool_region_alloc_def region_mmap_def region_memalign_def
        heap_env_def small_pool_fields Let_def)
  from pool_lowest_index [OF small_pool_start small_pool_env] al small_pool_start small_pool_env show ?thesis by auto
qed

end
