(* ===== verification/Util_Av_Pool.thy ===== *)
theory Util_Av_Pool
  imports Util_Av_Count Ofi_Bufpool_Run
begin

text \<open>
  The address vector together with the indexed pool its entries come from.  \<open>Util_Av\<close> takes what the pool
  answers as an argument; here the calls of \<^verbatim>\<open>util_av.c\<close> are run on the pool itself.  A
  simulation shows that the pool's answers are always the ones the multiset view of \<open>Util_Av_Count\<close>
  relies on.
\<close>

section \<open>Definitions\<close>

text \<open>The attributes of the entry pool; 64 is the size of \<^verbatim>\<open>struct util_av_entry\<close>.\<close>

definition util_av_pool_attr :: "nat \<Rightarrow> nat \<Rightarrow> u64 \<Rightarrow> u64 \<Rightarrow> ofi_bufpool_attr" where
  "util_av_pool_attr addrlen context_len cnt ofi_universe_size =
     (let offset = (if addrlen mod 8 \<noteq> 0 then 8 - addrlen mod 8 else 0);
          orig_size = roundup_power_of_two (if cnt \<noteq> 0 then cnt else ofi_universe_size)
      in \<lparr>pa_size = size_t (addrlen + offset + context_len + 64), pa_alignment = 16, pa_max_cnt = 0,
          pa_chunk_cnt = unat orig_size, pa_indexed = True, pa_hugepages = False, pa_nonshared = False\<rparr>)"

definition av_pool_insert :: "region_env \<Rightarrow> sock_ip \<Rightarrow> util_av \<Rightarrow> ofi_bufpool \<Rightarrow> int \<times> fi_addr \<times> util_av \<times> ofi_bufpool" where
  "av_pool_insert env a av p =
     (let (b, q) = (if av_hash av a = None then ofi_ibuf_alloc env p else (None, p));
          (ret, i, av') = ofi_av_insert_addr (map_option (\<lambda>b. of_nat (ofi_buf_index q b)) b) av a
      in (ret, i, av', q))"

definition av_pool_insert_at :: "(nat \<Rightarrow> region_env) \<Rightarrow> sock_ip \<Rightarrow> fi_addr \<Rightarrow> util_av \<Rightarrow> ofi_bufpool \<Rightarrow> (int \<times> util_av \<times> ofi_bufpool) option" where
  "av_pool_insert_at env a i av p =
     (case (if av_hash av a = None then ofi_ibuf_alloc_at env (unat i) p else Some (None, p)) of
        None \<Rightarrow> None
      | Some (b, q) \<Rightarrow> map_option (\<lambda>(ret, av'). (ret, av', q)) (ofi_av_insert_addr_at (b \<noteq> None) av a i))"

definition av_pool_remove :: "fi_addr \<Rightarrow> util_av \<Rightarrow> ofi_bufpool \<Rightarrow> (int \<times> util_av \<times> ofi_bufpool) option" where
  "av_pool_remove i av p =
     (if \<not> ofi_bufpool_ibuf_is_valid p (unat i) then Some (- FI_EINVAL, av, p)
      else (case ofi_bufpool_get_ibuf p (unat i) of
              None \<Rightarrow> None
            | Some b \<Rightarrow>
                (case ofi_av_remove_addr av i of (ret, av') \<Rightarrow>
                   if av_entries av' i \<noteq> None then Some (ret, av', p)
                   else map_option (\<lambda>q. (ret, av', q)) (ofi_ibuf_free b p))))"

inductive av_pool_reach :: "util_av \<Rightarrow> ofi_bufpool \<Rightarrow> sock_ip multiset \<Rightarrow> bool" where
  open_vector: "pool_fits page (util_av_pool_attr addrlen clen cnt usize) \<Longrightarrow>
    ofi_bufpool_create_attr calloc page (util_av_pool_attr addrlen clen cnt usize) = Inr p \<Longrightarrow> av_pool_reach av_empty p {#}"
| insert_addr: "av_pool_reach av p M \<Longrightarrow> env_ok env p \<Longrightarrow> av_pool_insert env a av p = (ret, i, av', q) \<Longrightarrow>
    av_pool_reach av' q (if ret = 0 then add_mset a M else M)"
| insert_addr_at: "av_pool_reach av p M \<Longrightarrow> envs_ok env p \<Longrightarrow> av_pool_insert_at env a i av p = Some (ret, av', q) \<Longrightarrow>
    av_pool_reach av' q (if ret = 0 \<and> a \<notin># M then add_mset a M else M)"
| remove_addr: "av_pool_reach av p M \<Longrightarrow> av_pool_remove i av p = Some (ret, av', q) \<Longrightarrow>
    av_pool_reach av' q (if ret = 0 then M - {#the (ofi_av_get_addr av i)#} else M)"

section \<open>The simulation\<close>

definition av_ids :: "util_av \<Rightarrow> nat set" where
  "av_ids av = unat ` dom (av_entries av)"

lemma av_ids_mem [simp]: "unat i \<in> av_ids av \<longleftrightarrow> av_entries av i \<noteq> None"
  by (auto simp: av_ids_def word_unat_eq_iff [symmetric])

lemma av_ids_fresh: "av_ids (av\<lparr>av_entries := (av_entries av)(i \<mapsto> e), av_hash := h\<rparr>) = insert (unat i) (av_ids av)"
  by (auto simp: av_ids_def)

lemma av_ids_update: "av_entries av i = Some e0 \<Longrightarrow> av_ids (av\<lparr>av_entries := (av_entries av)(i \<mapsto> e)\<rparr>) = av_ids av"
  by (auto simp: av_ids_def)

lemma av_ids_drop: "av_ids (av\<lparr>av_hash := h, av_entries := (av_entries av)(i := None)\<rparr>) = av_ids av - {unat i}"
  by (auto simp: av_ids_def word_unat_eq_iff [symmetric] split: if_splits)

text \<open>An index of the pool fits the type of a fabric address and is not the reserved one.\<close>

lemma pool_index_word:
  assumes inv: "pool_inv p U" and "i \<in> U"
  shows "unat (of_nat i :: fi_addr) = i" "(of_nat i :: fi_addr) \<noteq> FI_ADDR_NOTAVAIL"
proof -
  have "bp_entry_cnt p * 32 \<le> bp_entry_cnt p * bp_entry_size p" using inv by (simp add: pool_inv_def pool_shape_def)
  also have "\<dots> \<le> 18446744073709551616" by (rule entries_below [OF inv_shape [OF inv]])
  finally have i: "i < 576460752303423488" using used_below [OF assms] by linarith
  then show u: "unat (of_nat i :: fi_addr) = i" by (simp add: unsigned_of_nat take_bit_nat_eq_self)
  show "(of_nat i :: fi_addr) \<noteq> FI_ADDR_NOTAVAIL"
  proof
    assume "(of_nat i :: fi_addr) = FI_ADDR_NOTAVAIL"
    then have "i = unat (- 1 :: fi_addr)" using u by simp
    then show False using i by (simp add: unsigned_minus_1_eq_mask mask_eq_exp_minus_1)
  qed
qed

definition av_linked :: "util_av \<Rightarrow> ofi_bufpool \<Rightarrow> bool" where
  "av_linked av p \<longleftrightarrow> pool_inv p (av_ids av)"

lemma insert_known:
  assumes "av_inv av" and "av_hash av a = Some j" and "ofi_av_insert_addr ibuf av a = (ret, i, av')"
  shows "ret = 0 \<and> av_ids av' = av_ids av"
  using assms hash_entry [OF assms(1,2)] by (auto simp: ofi_av_insert_addr_def av_ids_update)

lemma insert_unknown:
  assumes "av_hash av a = None"
  shows "ofi_av_insert_addr None av a = (- FI_ENOMEM, FI_ADDR_NOTAVAIL, av)"
    "ofi_av_insert_addr (Some j) av a = (0, j, av\<lparr>av_entries := (av_entries av)(j \<mapsto> \<lparr>ave_addr = a, ave_use_cnt = 1\<rparr>), av_hash := (av_hash av)(a \<mapsto> j)\<rparr>)"
  by (simp_all add: ofi_av_insert_addr_def assms)

text \<open>What the pool answers to an insertion of a new address.\<close>

lemma insert_new:
  assumes lk: "av_linked av p" and env: "env_ok env p" and new: "av_hash av a = None"
    and ins: "av_pool_insert env a av p = (ret, i, av', q)"
  shows "av_linked av' q"
    "\<exists>ibuf. fresh_index av ibuf \<and> ofi_av_insert_addr ibuf av a = (ret, i, av')"
    "if ret = 0 then unat i = (LEAST n. n \<notin> av_ids av) \<and> av_entries av i = None else ret = - FI_ENOMEM \<and> av' = av"
proof -
  obtain b where al: "ofi_ibuf_alloc env p = (b, q)"
    and f: "ofi_av_insert_addr (map_option (\<lambda>b. of_nat (ofi_buf_index q b)) b) av a = (ret, i, av')"
    using ins by (simp add: av_pool_insert_def new split: prod.splits)
  note step = ibuf_alloc_inv [OF lk [unfolded av_linked_def] env al]
  have "av_linked av' q \<and> (\<exists>ibuf. fresh_index av ibuf \<and> ofi_av_insert_addr ibuf av a = (ret, i, av')) \<and>
    (if ret = 0 then unat i = (LEAST n. n \<notin> av_ids av) \<and> av_entries av i = None else ret = - FI_ENOMEM \<and> av' = av)"
  proof (cases b)
    case None
    then have e: "ret = - FI_ENOMEM" "av' = av" using f by (simp_all add: insert_unknown [OF new])
    have "fresh_index av None" by (simp add: fresh_index_def)
    moreover have "ofi_av_insert_addr None av a = (ret, i, av')" using f None by simp
    moreover have "av_linked av' q" using step unfolding None e(2) av_linked_def option.case by blast
    ultimately show ?thesis unfolding e by auto
  next
    case (Some buf)
    from step Some obtain k where k: "k = (LEAST n. n \<notin> av_ids av)" "k \<notin> av_ids av" "buf = buf_at q k" "pool_inv q (insert k (av_ids av))" by auto
    have x: "ofi_buf_index q buf = k" using k(3,4) reads(1) used_below by blast
    have w: "unat (of_nat k :: fi_addr) = k" "(of_nat k :: fi_addr) \<noteq> FI_ADDR_NOTAVAIL" using pool_index_word [OF k(4)] by simp_all
    have free: "av_entries av (of_nat k) = None" using k(2) av_ids_mem [of "of_nat k" av] unfolding w(1) by simp
    have g: "ofi_av_insert_addr (Some (of_nat k)) av a = (ret, i, av')" using f Some x by simp
    then have r: "ret = 0" "i = of_nat k" "av_ids av' = insert k (av_ids av)"
      using w(1) by (auto simp: insert_unknown [OF new] av_ids_fresh)
    have "fresh_index av (Some (of_nat k))" using free w(2) by (simp add: fresh_index_def)
    moreover have "av_linked av' q" using k(4) by (simp add: av_linked_def r(3))
    moreover have "unat i = (LEAST n. n \<notin> av_ids av)" "av_entries av i = None" unfolding r(2) w(1) by (rule k(1), rule free)
    ultimately show ?thesis using g r(1) by auto
  qed
  then show "av_linked av' q"
    "\<exists>ibuf. fresh_index av ibuf \<and> ofi_av_insert_addr ibuf av a = (ret, i, av')"
    "if ret = 0 then unat i = (LEAST n. n \<notin> av_ids av) \<and> av_entries av i = None else ret = - FI_ENOMEM \<and> av' = av" by blast+
qed

lemma insert_simulates:
  assumes "av_reach av M" and "av_linked av p" and "env_ok env p" and ins: "av_pool_insert env a av p = (ret, i, av', q)"
  shows "av_reach av' (if ret = 0 then add_mset a M else M) \<and> av_linked av' q"
proof (cases "av_hash av a")
  case None
  from insert_new [OF assms(2,3) None ins] av_insert [OF assms(1)] show ?thesis by blast
next
  case (Some j)
  have inv: "av_inv av" using reach_counts [OF assms(1)] by (simp add: av_counts_def)
  have "q = p" and f: "ofi_av_insert_addr None av a = (ret, i, av')"
    using ins Some by (auto simp: av_pool_insert_def split: prod.splits)
  moreover have "fresh_index av None" by (simp add: fresh_index_def)
  ultimately show ?thesis using av_insert [OF assms(1) _ f] insert_known [OF inv Some f] assms(2) by (simp add: av_linked_def)
qed

lemma insert_at_asserts:
  assumes lk: "av_linked av p" and env: "envs_ok env p"
  shows "av_pool_insert_at env a i av p = None \<longleftrightarrow> av_hash av a = None \<and> av_entries av i \<noteq> None"
proof -
  note step = ibuf_alloc_at_inv [OF lk [unfolded av_linked_def] env, of "unat i", unfolded av_ids_mem]
  show ?thesis
  proof (cases "av_hash av a")
    case None
    then show ?thesis using step unfolding av_pool_insert_at_def ofi_av_insert_addr_at_def
      by (cases "ofi_ibuf_alloc_at env (unat i) p") (auto split: option.splits if_splits)
  qed (auto simp: av_pool_insert_at_def ofi_av_insert_addr_at_def)
qed

lemma insert_at_simulates:
  assumes reach: "av_reach av M" and lk: "av_linked av p" and env: "envs_ok env p"
    and ins: "av_pool_insert_at env a i av p = Some (ret, av', q)"
  shows "av_reach av' (if ret = 0 \<and> a \<notin># M then add_mset a M else M) \<and> av_linked av' q"
proof (cases "av_hash av a")
  case None
  obtain b where al: "ofi_ibuf_alloc_at env (unat i) p = Some (b, q)" and f: "ofi_av_insert_addr_at (b \<noteq> None) av a i = Some (ret, av')"
    using ins None by (auto simp: av_pool_insert_at_def split: option.splits)
  note step = ibuf_alloc_at_inv [OF lk [unfolded av_linked_def] env, of "unat i", unfolded al option.case prod.case]
  have free: "av_entries av i = None" using f None by (simp add: ofi_av_insert_addr_at_def split: if_splits)
  show ?thesis
  proof (cases b)
    case no: None
    then have "ret \<noteq> 0" "av' = av" using f None free by (simp_all add: ofi_av_insert_addr_at_def)
    then show ?thesis using reach step no by (simp add: av_linked_def)
  next
    case (Some buf)
    have "av_ids av' = insert (unat i) (av_ids av)" using f None free Some by (auto simp: ofi_av_insert_addr_at_def av_ids_fresh)
    with step Some have lk': "pool_inv q (av_ids av')" "unat i \<in> av_ids av'" by simp_all
    from pool_index_word(2) [OF this] have "i \<noteq> FI_ADDR_NOTAVAIL" by simp
    from av_insert_at [OF reach this f] lk'(1) show ?thesis by (simp add: av_linked_def)
  qed
next
  case (Some j)
  have "a \<in># M" using counts_mem [OF reach_counts [OF reach]] Some by simp
  moreover have "av' = av" "q = p" using ins Some by (auto simp: av_pool_insert_at_def ofi_av_insert_addr_at_def split: if_splits)
  ultimately show ?thesis using reach lk by simp
qed

lemma remove_simulates:
  assumes reach: "av_reach av M" and lk: "av_linked av p"
  shows "\<exists>ret av' q. av_pool_remove i av p = Some (ret, av', q) \<and> ofi_av_remove_addr av i = (ret, av') \<and> av_linked av' q"
proof (cases "av_entries av i")
  case None
  then have "\<not> ofi_bufpool_ibuf_is_valid p (unat i)" using valid_iff_used [OF lk [unfolded av_linked_def]] by simp
  then show ?thesis using None lk by (simp add: av_pool_remove_def ofi_av_remove_addr_def)
next
  case (Some e)
  note inv = lk [unfolded av_linked_def]
  have used: "unat i \<in> av_ids av" using Some by simp
  have g: "ofi_bufpool_ibuf_is_valid p (unat i)" "ofi_bufpool_get_ibuf p (unat i) = Some (buf_at p (unat i))"
    using used by (simp_all only: valid_iff_used [OF inv] get_ibuf_used [OF inv] if_True)
  show ?thesis
  proof (cases "ave_use_cnt e - 1 = 0")
    case True
    then have rm: "ofi_av_remove_addr av i = (0, av\<lparr>av_hash := (av_hash av)(ave_addr e := None), av_entries := (av_entries av)(i := None)\<rparr>)"
      using Some by (simp add: ofi_av_remove_addr_def)
    show ?thesis using ibuf_free_inv [OF inv used] by (simp add: av_pool_remove_def g rm av_linked_def av_ids_drop)
  next
    case False
    then have rm: "ofi_av_remove_addr av i = (0, av\<lparr>av_entries := (av_entries av)(i \<mapsto> e\<lparr>ave_use_cnt := ave_use_cnt e - 1\<rparr>)\<rparr>)"
      using Some by (simp add: ofi_av_remove_addr_def)
    show ?thesis using inv by (simp add: av_pool_remove_def g rm av_linked_def av_ids_update [OF Some])
  qed
qed

lemma pool_reach_simulates: "av_pool_reach av p M \<Longrightarrow> av_reach av M \<and> av_linked av p"
proof (induction rule: av_pool_reach.induct)
  case (open_vector page addrlen clen cnt usize calloc p)
  then have "pool_inv p {}" using create_inv by (auto simp: ofi_bufpool_create_attr_def split: if_splits)
  moreover have "av_ids av_empty = {}" by (simp add: av_ids_def av_empty_def)
  ultimately show ?case by (simp add: av_start av_linked_def)
next
  case (insert_addr av p M env a ret i av' q)
  then show ?case using insert_simulates by blast
next
  case (insert_addr_at av p M env a i ret av' q)
  then show ?case using insert_at_simulates by blast
next
  case (remove_addr av p M i ret av' q)
  then show ?case using remove_simulates [of av M p i] av_remove [of av M i] by auto
qed

text \<open>
  C37.  After any sequence of insertions and removals on an address vector and its own entry pool, the vector is
  one the multiset view covers, and the indices with an address are exactly the ones the pool has handed
  out.  An address that is not in the vector gets the lowest free index and leaves every other
  address where it is, or the call returns \<^verbatim>\<open>-FI_ENOMEM\<close> and changes nothing.  Removing any index
  reaches no assertion of the pool.  Inserting at a given index reaches one exactly when
  the index holds another address.
\<close>

theorem av_on_pool:
  assumes "av_pool_reach av p M" and "env_ok env p" and "envs_ok envs p"
  shows "av_reach av M \<and> (\<forall>i. ofi_ip_av_is_valid av i \<longleftrightarrow> ofi_bufpool_ibuf_is_valid p (unat i)) \<and>
    (a \<notin># M \<longrightarrow>
       (case av_pool_insert env a av p of (ret, i, av', q) \<Rightarrow>
          if ret = 0 then unat i = (LEAST n. \<not> ofi_bufpool_ibuf_is_valid p n) \<and> ofi_av_get_addr av' i = Some a \<and>
            (\<forall>j. j \<noteq> i \<longrightarrow> ofi_av_get_addr av' j = ofi_av_get_addr av j)
          else ret = - FI_ENOMEM \<and> av' = av)) \<and>
    av_pool_remove i av p \<noteq> None \<and>
    (av_pool_insert_at envs a i av p = None \<longleftrightarrow> a \<notin># M \<and> ofi_ip_av_is_valid av i)"
proof -
  from pool_reach_simulates [OF assms(1)] have reach: "av_reach av M" and lk: "av_linked av p" by simp_all
  have mem: "a \<in># M \<longleftrightarrow> av_hash av a \<noteq> None" by (rule counts_mem [OF reach_counts [OF reach]])
  have v: "ofi_bufpool_ibuf_is_valid p n \<longleftrightarrow> n \<in> av_ids av" for n by (rule valid_iff_used [OF lk [unfolded av_linked_def]])
  obtain ret k av' q where ins: "av_pool_insert env a av p = (ret, k, av', q)" by (metis prod_cases4)
  have "if ret = 0 then unat k = (LEAST n. n \<notin> av_ids av) \<and> ofi_av_get_addr av' k = Some a \<and>
      (\<forall>j. j \<noteq> k \<longrightarrow> ofi_av_get_addr av' j = ofi_av_get_addr av j) else ret = - FI_ENOMEM \<and> av' = av" if new: "av_hash av a = None"
  proof -
    note i = insert_new [OF lk assms(2) new ins]
    from i(2) obtain ibuf where f: "ofi_av_insert_addr ibuf av a = (ret, k, av')" by blast
    show ?thesis using i(3) f by (cases ibuf) (auto simp: insert_unknown [OF new] ofi_av_get_addr_def)
  qed
  then have "a \<notin># M \<longrightarrow> (case av_pool_insert env a av p of (ret, i, av', q) \<Rightarrow>
      if ret = 0 then unat i = (LEAST n. \<not> ofi_bufpool_ibuf_is_valid p n) \<and> ofi_av_get_addr av' i = Some a \<and>
        (\<forall>j. j \<noteq> i \<longrightarrow> ofi_av_get_addr av' j = ofi_av_get_addr av j)
      else ret = - FI_ENOMEM \<and> av' = av)"
    unfolding ins prod.case v mem by blast
  moreover have "av_pool_remove i av p \<noteq> None" using remove_simulates [OF reach lk, of i] by auto
  ultimately show ?thesis using reach mem insert_at_asserts [OF lk assms(3)] by (simp add: v ofi_ip_av_is_valid_def)
qed

text \<open>A vector for two addresses per region, and a system that has no memory left.\<close>

definition small_av_pool :: ofi_bufpool where
  "small_av_pool = bufpool_init 4096 (util_av_pool_attr 16 0 2 256)"

definition no_memory :: region_env where
  "no_memory = (heap_env 0)\<lparr>re_memalign := (\<lambda>al n. Inl (- 12))\<rparr>"

lemma small_av_pool_fields: "small_av_pool = \<lparr>bp_entries = [], bp_free_regions = [], bp_entry_size = 112, bp_entry_cnt = 0, bp_regions = [],
     bp_alloc_size = 336, bp_region_size = 224, bp_attr = \<lparr>pa_size = 80, pa_alignment = 16, pa_max_cnt = 0, pa_chunk_cnt = 2,
     pa_indexed = True, pa_hugepages = False, pa_nonshared = False\<rparr>, bp_hdrs = (\<lambda>_. None)\<rparr>"
  by (simp add: small_av_pool_def util_av_pool_attr_def roundup_power_of_two_def hi_bit.simps bufpool_init_def
      ofi_get_aligned_size_def size_t_def size_sub_def)

lemma small_av_start: "av_pool_reach av_empty small_av_pool {#}"
  unfolding small_av_pool_def
  by (rule open_vector [of 4096 _ _ _ _ True, unfolded ofi_bufpool_create_attr_def if_False not_True_eq_False, OF _ refl])
    (simp add: pool_fits_def small_av_pool_fields [unfolded small_av_pool_def], simp add: util_av_pool_attr_def size_t_def)

lemma small_av_env: "env_ok (heap_env 4096) small_av_pool"
  by (auto simp: env_ok_def heap_env_def fresh_memory_def small_av_pool_fields split: if_splits)

lemma small_av_full: "envs_ok (\<lambda>_. no_memory) small_av_pool"
proof -
  have "snd (ofi_bufpool_grow no_memory small_av_pool) = small_av_pool"
    by (simp add: ofi_bufpool_grow_def ofi_bufpool_region_alloc_def region_mmap_def region_memalign_def no_memory_def heap_env_def small_av_pool_fields)
  then have "grown (\<lambda>_. no_memory) k small_av_pool = small_av_pool" for k by (induction k) simp_all
  moreover have "env_ok no_memory small_av_pool" by (simp add: env_ok_def no_memory_def heap_env_def small_av_pool_fields)
  ultimately show ?thesis by (simp add: envs_ok_def)
qed

theorem av_on_pool_witness:
  "\<exists>i av q. av_pool_reach av_empty small_av_pool {#} \<and> env_ok (heap_env 4096) small_av_pool \<and> envs_ok (\<lambda>_. no_memory) small_av_pool \<and>
     av_pool_insert (heap_env 4096) 9 av_empty small_av_pool = (0, i, av, q) \<and> ofi_av_get_addr av i = Some 9 \<and>
     av_pool_insert_at (\<lambda>_. no_memory) 9 5 av_empty small_av_pool \<noteq> None"
proof -
  obtain i av q where ins: "av_pool_insert (heap_env 4096) 9 av_empty small_av_pool = (0, i, av, q)"
    by (simp add: av_pool_insert_def ofi_ibuf_alloc_def ofi_bufpool_grow_def ofi_bufpool_region_alloc_def region_mmap_def region_memalign_def
        heap_env_def small_av_pool_fields Let_def av_empty_def ofi_av_insert_addr_def)
  from av_on_pool [OF small_av_start small_av_env small_av_full, of 9 5] ins show ?thesis
    using small_av_start small_av_env small_av_full by (auto simp: ofi_ip_av_is_valid_def av_empty_def)
qed

section \<open>A vector whose size wraps\<close>

text \<open>
  The size of a region is computed in \<^verbatim>\<open>size_t\<close> from the count the application asks for.  For a count of
  \<open>2 ^ 60\<close> it wraps to the size of one entry, while the pool will write the headers of all of them.
\<close>

theorem vector_size_wraps:
  "let p = bufpool_init 4096 (util_av_pool_attr 16 0 (2 ^ 60) 256)
   in bp_entry_size p = 112 \<and> bp_alloc_size p = 112 \<and> chunk_cnt p = 2 ^ 60"
  by (simp add: util_av_pool_attr_def roundup_power_of_two_def hi_bit.simps bufpool_init_def
      ofi_get_aligned_size_def size_t_def Let_def)

end
