(* ===== verification/Util_Objects.thy ===== *)
theory Util_Objects
  imports Util_Cq Rds_Ep "HOL-Library.Monad_Syntax"
begin

text \<open>
  The objects of the utility layer and the references between them: the fabric, its domains and
  event queues, the address vectors, completion queues, counters and endpoints of a domain, and
  the memory regions of the RDS provider (\<^verbatim>\<open>util_fabric.c\<close>, \<^verbatim>\<open>util_eq.c\<close>, \<^verbatim>\<open>util_domain.c\<close>,
  \<^verbatim>\<open>util_av.c\<close>, \<^verbatim>\<open>util_cq.c\<close>, \<^verbatim>\<open>util_cntr.c\<close>, \<^verbatim>\<open>util_ep.c\<close> and the provider's \<^verbatim>\<open>rds_fabric.c\<close>,
  \<^verbatim>\<open>rds_domain.c\<close>, \<^verbatim>\<open>rds_cq.c\<close>, \<^verbatim>\<open>rds_ep.c\<close>, \<^verbatim>\<open>rds_mr.c\<close>).  An object is named by a number, a store
  maps the live ones to their contents, and following a pointer to an object that was freed is
  \<open>None\<close>.  The name a new object gets, and the results of allocations, locks, wait objects and
  attribute checks, are arguments; reference counts do not overflow.
\<close>

section \<open>The objects\<close>

type_synonym oid = nat

record fabric_obj =
  fb_ref :: int
  fb_domains :: "oid list"

record eq_obj =
  eq_ref :: int
  eq_fabric :: oid

record domain_obj =
  dm_ref :: int
  dm_fabric :: oid
  dm_eq :: "oid option"
  dm_caps :: u64
  dm_reg_ep :: "oid option"
  dm_cache :: bool

record av_obj =
  ao_ref :: int
  ao_domain :: oid
  ao_eps :: "oid list"

record cq_obj =
  co_ref :: int
  co_domain :: oid
  co_eps :: "oid list"
  co_store :: "util_cq option"

record cntr_obj =
  no_ref :: int
  no_domain :: oid
  no_eps :: "oid list"

text \<open>The counters of an endpoint are the array indexed by \<^verbatim>\<open>CNTR_TX\<close> to \<^verbatim>\<open>CNTR_REM_WR\<close>.\<close>

record ep_obj =
  eo_ref :: int
  eo_domain :: oid
  eo_caps :: u64
  eo_bound :: bool
  eo_tx_cq :: "oid option"
  eo_rx_cq :: "oid option"
  eo_cntrs :: "oid option list"
  eo_cntr_enabled :: bool
  eo_av :: "oid option"
  eo_eq :: "oid option"
  eo_tx_op_flags :: u64
  eo_rx_op_flags :: u64
  eo_tx_msg_flags :: u64
  eo_rx_msg_flags :: u64

record objects =
  fabrics :: "oid \<Rightarrow> fabric_obj option"
  eqs :: "oid \<Rightarrow> eq_obj option"
  domains :: "oid \<Rightarrow> domain_obj option"
  avs :: "oid \<Rightarrow> av_obj option"
  cqs :: "oid \<Rightarrow> cq_obj option"
  cntrs :: "oid \<Rightarrow> cntr_obj option"
  eps :: "oid \<Rightarrow> ep_obj option"
  mrs :: "oid \<Rightarrow> oid option"

definition no_objects :: objects where
  "no_objects = \<lparr>fabrics = (\<lambda>_. None), eqs = (\<lambda>_. None), domains = (\<lambda>_. None), avs = (\<lambda>_. None), cqs = (\<lambda>_. None),
     cntrs = (\<lambda>_. None), eps = (\<lambda>_. None), mrs = (\<lambda>_. None)\<rparr>"

text \<open>\<^verbatim>\<open>ofi_atomic_inc32\<close> and \<^verbatim>\<open>ofi_atomic_dec32\<close> on the reference count of the object a pointer leads to.\<close>

datatype kind = Fabric | Eq | Domain | Av | Cq | Cntr

definition add_ref :: "kind \<Rightarrow> oid \<Rightarrow> int \<Rightarrow> objects \<Rightarrow> objects option" where
  "add_ref x i n w =
     (case x of
        Fabric \<Rightarrow> map_option (\<lambda>p. w\<lparr>fabrics := (fabrics w)(i \<mapsto> p\<lparr>fb_ref := fb_ref p + n\<rparr>)\<rparr>) (fabrics w i)
      | Eq \<Rightarrow> map_option (\<lambda>p. w\<lparr>eqs := (eqs w)(i \<mapsto> p\<lparr>eq_ref := eq_ref p + n\<rparr>)\<rparr>) (eqs w i)
      | Domain \<Rightarrow> map_option (\<lambda>p. w\<lparr>domains := (domains w)(i \<mapsto> p\<lparr>dm_ref := dm_ref p + n\<rparr>)\<rparr>) (domains w i)
      | Av \<Rightarrow> map_option (\<lambda>p. w\<lparr>avs := (avs w)(i \<mapsto> p\<lparr>ao_ref := ao_ref p + n\<rparr>)\<rparr>) (avs w i)
      | Cq \<Rightarrow> map_option (\<lambda>p. w\<lparr>cqs := (cqs w)(i \<mapsto> p\<lparr>co_ref := co_ref p + n\<rparr>)\<rparr>) (cqs w i)
      | Cntr \<Rightarrow> map_option (\<lambda>p. w\<lparr>cntrs := (cntrs w)(i \<mapsto> p\<lparr>no_ref := no_ref p + n\<rparr>)\<rparr>) (cntrs w i))"

text \<open>The lists of endpoints hanging off a queue, a counter or an address vector.\<close>

definition upd_list :: "kind \<Rightarrow> oid \<Rightarrow> (oid list \<Rightarrow> oid list) \<Rightarrow> objects \<Rightarrow> objects option" where
  "upd_list x i f w =
     (case x of
        Fabric \<Rightarrow> map_option (\<lambda>p. w\<lparr>fabrics := (fabrics w)(i \<mapsto> p\<lparr>fb_domains := f (fb_domains p)\<rparr>)\<rparr>) (fabrics w i)
      | Av \<Rightarrow> map_option (\<lambda>p. w\<lparr>avs := (avs w)(i \<mapsto> p\<lparr>ao_eps := f (ao_eps p)\<rparr>)\<rparr>) (avs w i)
      | Cq \<Rightarrow> map_option (\<lambda>p. w\<lparr>cqs := (cqs w)(i \<mapsto> p\<lparr>co_eps := f (co_eps p)\<rparr>)\<rparr>) (cqs w i)
      | Cntr \<Rightarrow> map_option (\<lambda>p. w\<lparr>cntrs := (cntrs w)(i \<mapsto> p\<lparr>no_eps := f (no_eps p)\<rparr>)\<rparr>) (cntrs w i)
      | _ \<Rightarrow> None)"

definition list_of :: "kind \<Rightarrow> oid \<Rightarrow> objects \<Rightarrow> oid list option" where
  "list_of x i w =
     (case x of
        Fabric \<Rightarrow> map_option fb_domains (fabrics w i)
      | Av \<Rightarrow> map_option ao_eps (avs w i)
      | Cq \<Rightarrow> map_option co_eps (cqs w i)
      | Cntr \<Rightarrow> map_option no_eps (cntrs w i)
      | _ \<Rightarrow> None)"

definition fid_list_insert2 :: "bool \<Rightarrow> kind \<Rightarrow> oid \<Rightarrow> oid \<Rightarrow> objects \<Rightarrow> (int \<times> objects) option" where
  "fid_list_insert2 ok x i e w =
     do {
       l \<leftarrow> list_of x i w;
       if e \<in> set l then Some (0, w)
       else if \<not> ok then Some (- FI_ENOMEM, w)
       else do { w1 \<leftarrow> upd_list x i (\<lambda>l. l @ [e]) w; Some (0, w1) }
     }"

definition fid_list_remove2 :: "kind \<Rightarrow> oid \<Rightarrow> oid \<Rightarrow> objects \<Rightarrow> objects option" where
  "fid_list_remove2 x i e w = upd_list x i (remove1 e) w"

section \<open>Fabric and event queue\<close>

text \<open>\<open>ok\<close>, \<open>chk\<close> and \<open>name\<close>: the allocation of the object, the attribute check, the copy of the name.\<close>

definition rds_fabric :: "bool \<Rightarrow> int \<Rightarrow> bool \<Rightarrow> oid \<Rightarrow> objects \<Rightarrow> int \<times> objects" where
  "rds_fabric ok chk name i w =
     (if \<not> ok then (- FI_ENOMEM, w)
      else if chk \<noteq> 0 then (chk, w)
      else if \<not> name then (- FI_ENOMEM, w)
      else (0, w\<lparr>fabrics := (fabrics w)(i \<mapsto> \<lparr>fb_ref = 0, fb_domains = []\<rparr>)\<rparr>))"

definition rds_fabric_close :: "oid \<Rightarrow> objects \<Rightarrow> (int \<times> objects) option" where
  "rds_fabric_close i w =
     do {
       f \<leftarrow> fabrics w i;
       if fb_ref f \<noteq> 0 then Some (- FI_EBUSY, w) else Some (0, w\<lparr>fabrics := (fabrics w)(i := None)\<rparr>)
     }"

record fi_eq_attr =
  qa_flags :: u64
  qa_wait_obj :: "fi_wait_obj option"
  qa_wait_set :: bool

definition util_verify_eq_attr :: "fi_eq_attr \<Rightarrow> int" where
  "util_verify_eq_attr attr =
     (if qa_wait_obj attr = None then - FI_EINVAL
      else if qa_wait_obj attr = Some FI_WAIT_SET \<and> \<not> qa_wait_set attr then - FI_EINVAL
      else if qa_flags attr AND NOT (FI_AFFINITY OR FI_WRITE OR FI_PEER) \<noteq> 0 then - FI_EINVAL
      else 0)"

text \<open>Whether a wait object is opened for the new object, and whether it has one at all.\<close>

definition opens_wait :: "fi_wait_obj option \<Rightarrow> bool" where
  "opens_wait wo \<longleftrightarrow> wo \<noteq> Some FI_WAIT_NONE \<and> wo \<noteq> Some FI_WAIT_SET"

definition has_wait :: "fi_wait_obj option \<Rightarrow> bool" where
  "has_wait wo \<longleftrightarrow> wo \<noteq> Some FI_WAIT_NONE"

definition ofi_eq_cleanup :: "oid \<Rightarrow> objects \<Rightarrow> (int \<times> objects) option" where
  "ofi_eq_cleanup i w =
     do {
       q \<leftarrow> eqs w i;
       if eq_ref q \<noteq> 0 then Some (- FI_EBUSY, w)
       else do { w1 \<leftarrow> add_ref Fabric (eq_fabric q) (- 1) w; Some (0, w1) }
     }"

definition util_eq_close :: "oid \<Rightarrow> objects \<Rightarrow> (int \<times> objects) option" where
  "util_eq_close i w =
     do {
       (ret, w1) \<leftarrow> ofi_eq_cleanup i w;
       Some (if ret \<noteq> 0 then (ret, w1) else (0, w1\<lparr>eqs := (eqs w1)(i := None)\<rparr>))
     }"

definition ofi_eq_create :: "bool \<Rightarrow> int \<Rightarrow> int \<Rightarrow> fi_eq_attr \<Rightarrow> oid \<Rightarrow> oid \<Rightarrow> objects \<Rightarrow> (int \<times> objects) option" where
  "ofi_eq_create ok wait poll attr f i w =
     (if \<not> ok then Some (- FI_ENOMEM, w)
      else let chk = util_verify_eq_attr attr
           in if chk \<noteq> 0 then Some (chk, w)
              else if opens_wait (qa_wait_obj attr) \<and> wait \<noteq> 0 then Some (wait, w)
              else do {
                w1 \<leftarrow> add_ref Fabric f 1 (w\<lparr>eqs := (eqs w)(i \<mapsto> \<lparr>eq_ref = 0, eq_fabric = f\<rparr>)\<rparr>);
                if has_wait (qa_wait_obj attr) \<and> poll \<noteq> 0
                then do { (_, w2) \<leftarrow> ofi_eq_cleanup i w1; Some (poll, w2\<lparr>eqs := (eqs w2)(i := None)\<rparr>) }
                else Some (0, w1)
              })"

section \<open>Domain\<close>

text \<open>Unlinking a domain that was never linked follows the null pointers of its list entry.\<close>

definition ofi_domain_close :: "oid \<Rightarrow> objects \<Rightarrow> (int \<times> objects) option" where
  "ofi_domain_close i w =
     do {
       d \<leftarrow> domains w i;
       if dm_ref d \<noteq> 0 then Some (- FI_EBUSY, w)
       else do {
         w1 \<leftarrow> (case dm_eq d of None \<Rightarrow> Some w | Some q \<Rightarrow> add_ref Eq q (- 1) w);
         l \<leftarrow> list_of Fabric (dm_fabric d) w1;
         w2 \<leftarrow> (if i \<in> set l then fid_list_remove2 Fabric (dm_fabric d) i w1 else None);
         w3 \<leftarrow> add_ref Fabric (dm_fabric d) (- 1) w2;
         Some (0, w3)
       }
     }"

text \<open>The cache is torn down before it is known whether the domain can be closed.\<close>

definition rds_domain_close :: "oid \<Rightarrow> objects \<Rightarrow> (int \<times> objects) option" where
  "rds_domain_close i w =
     do {
       d \<leftarrow> domains w i;
       (ret, w1) \<leftarrow> ofi_domain_close i (w\<lparr>domains := (domains w)(i \<mapsto> d\<lparr>dm_cache := False\<rparr>)\<rparr>);
       Some (if ret \<noteq> 0 then (ret, w1) else (0, w1\<lparr>domains := (domains w1)(i := None)\<rparr>))
     }"

text \<open>
  \<open>chk\<close>: the check of the attributes; \<open>lock\<close>, \<open>name\<close> and \<open>rmap\<close>: the lock, the copy of the name and
  the map of memory regions; \<open>cache\<close>: whether the cache could be opened.
\<close>

definition rds_domain_open ::
  "int \<Rightarrow> bool \<Rightarrow> int \<Rightarrow> bool \<Rightarrow> int \<Rightarrow> bool \<Rightarrow> u64 \<Rightarrow> oid \<Rightarrow> oid \<Rightarrow> objects \<Rightarrow> (int \<times> objects) option" where
  "rds_domain_open chk ok lock name rmap cache caps f i w =
     (if chk \<noteq> 0 then Some (chk, w)
      else if \<not> ok then Some (- FI_ENOMEM, w)
      else if lock \<noteq> 0 then Some (lock, w)
      else if \<not> name then Some (- FI_ENOMEM, w)
      else let w1 = w\<lparr>domains := (domains w)(i \<mapsto>
                 \<lparr>dm_ref = 0, dm_fabric = f, dm_eq = None, dm_caps = caps, dm_reg_ep = None, dm_cache = False\<rparr>)\<rparr>
           in if rmap \<noteq> 0
              then do { (_, w2) \<leftarrow> ofi_domain_close i w1; Some (rmap, w2\<lparr>domains := (domains w2)(i := None)\<rparr>) }
              else do {
                w2 \<leftarrow> upd_list Fabric f (\<lambda>l. l @ [i]) w1;
                w3 \<leftarrow> add_ref Fabric f 1 w2;
                d \<leftarrow> domains w3 i;
                Some (0, w3\<lparr>domains := (domains w3)(i \<mapsto> d\<lparr>dm_cache := cache\<rparr>)\<rparr>)
              })"

definition ofi_domain_bind :: "oid \<Rightarrow> oid option \<Rightarrow> u64 \<Rightarrow> objects \<Rightarrow> (int \<times> objects) option" where
  "ofi_domain_bind i q flags w =
     do {
       d \<leftarrow> domains w i;
       if flags \<noteq> 0 then Some (- FI_EBADFLAGS, w)
       else (case q of
               None \<Rightarrow> Some (- FI_EINVAL, w)
             | Some q \<Rightarrow>
                 if dm_eq d \<noteq> None then Some (- FI_EINVAL, w)
                 else do {
                   w1 \<leftarrow> add_ref Eq q 1 (w\<lparr>domains := (domains w)(i \<mapsto> d\<lparr>dm_eq := Some q\<rparr>)\<rparr>);
                   Some (0, w1)
                 })
     }"

section \<open>Address vector, completion queue and counter\<close>

datatype fi_av_type = FI_AV_UNSPEC | FI_AV_MAP | FI_AV_TABLE

text \<open>The domain of the provider leaves the type open; \<open>named\<close> says that a shared vector is asked for.\<close>

record fi_av_attr =
  va_type :: "fi_av_type option"
  va_named :: bool
  va_flags :: u64

definition util_verify_av_attr :: "fi_av_type \<Rightarrow> fi_av_attr \<Rightarrow> int" where
  "util_verify_av_attr dtype attr =
     (if va_type attr \<noteq> Some FI_AV_MAP \<and> va_type attr \<noteq> Some FI_AV_TABLE then - FI_EINVAL
      else if dtype \<noteq> FI_AV_UNSPEC \<and> va_type attr \<noteq> Some dtype then - FI_EINVAL
      else if va_named attr then - FI_ENOSYS
      else if va_flags attr AND NOT (FI_COMPLETION OR FI_READ OR 0x800000000000000 OR FI_PEER) \<noteq> 0 then - FI_EINVAL
      else 0)"

text \<open>
  \<open>lock1\<close>, \<open>lock2\<close> and \<open>pool\<close> are the results of the two locks and of the entry pool.  The reference
  on the domain is taken before the pool is made, and kept if that fails.
\<close>

definition ofi_ip_av_create ::
  "bool \<Rightarrow> int \<Rightarrow> int \<Rightarrow> int \<Rightarrow> fi_av_type \<Rightarrow> fi_av_attr \<Rightarrow> oid \<Rightarrow> oid \<Rightarrow> objects \<Rightarrow> (int \<times> objects) option" where
  "ofi_ip_av_create ok lock1 lock2 pool dtype attr d i w =
     (let attr1 = (if va_type attr = Some FI_AV_UNSPEC then attr\<lparr>va_type := Some FI_AV_MAP\<rparr> else attr);
          chk = util_verify_av_attr dtype attr1
      in if \<not> ok then Some (- FI_ENOMEM, w)
         else if chk \<noteq> 0 then Some (chk, w)
         else if lock1 \<noteq> 0 then Some (lock1, w)
         else if lock2 \<noteq> 0 then Some (lock2, w)
         else do {
           w1 \<leftarrow> add_ref Domain d 1 w;
           if pool \<noteq> 0 then Some (pool, w1)
           else Some (0, w1\<lparr>avs := (avs w1)(i \<mapsto> \<lparr>ao_ref = 0, ao_domain = d, ao_eps = []\<rparr>)\<rparr>)
         })"

definition ip_av_close :: "oid \<Rightarrow> objects \<Rightarrow> (int \<times> objects) option" where
  "ip_av_close i w =
     do {
       a \<leftarrow> avs w i;
       if ao_ref a \<noteq> 0 then Some (- FI_EBUSY, w)
       else do { w1 \<leftarrow> add_ref Domain (ao_domain a) (- 1) w; Some (0, w1\<lparr>avs := (avs w1)(i := None)\<rparr>) }
     }"

text \<open>The results of the locks, of the storage's allocations, of the wait object and of adding the queue to it.\<close>

record cq_env =
  qe_calloc :: bool
  qe_lock1 :: int
  qe_lock2 :: int
  qe_storage :: "bool \<times> bool \<times> bool"
  qe_wait :: int
  qe_poll :: int

definition rds_cq_open :: "cq_env \<Rightarrow> fi_cq_attr \<Rightarrow> oid \<Rightarrow> oid \<Rightarrow> objects \<Rightarrow> (int \<times> objects) option" where
  "rds_cq_open qe attr d i w =
     (let chk = ofi_check_cq_attr attr
      in if \<not> qe_calloc qe then Some (- FI_ENOMEM, w)
         else if chk \<noteq> 0 then Some (chk, w)
         else if qe_lock1 qe \<noteq> 0 then Some (qe_lock1 qe, w)
         else if qe_lock2 qe \<noteq> 0 then Some (qe_lock2 qe, w)
         else do {
           dm \<leftarrow> domains w d;
           case (if at_flags attr AND FI_PEER \<noteq> 0 then Inr None
                 else (case util_init_peer_cq (qe_storage qe) (has_flag (dm_caps dm) FI_SOURCE) attr of
                         Inl e \<Rightarrow> Inl e | Inr q \<Rightarrow> Inr (Some q))) of
             Inl e \<Rightarrow> Some (e, w)
           | Inr store \<Rightarrow>
               if opens_wait (at_wait_obj attr) \<and> qe_wait qe \<noteq> 0 then Some (qe_wait qe, w)
               else if has_wait (at_wait_obj attr) \<and> qe_poll qe \<noteq> 0 then Some (qe_poll qe, w)
               else do {
                 w1 \<leftarrow> add_ref Domain d 1 w;
                 Some (0, w1\<lparr>cqs := (cqs w1)(i \<mapsto> \<lparr>co_ref = 0, co_domain = d, co_eps = [], co_store = store\<rparr>)\<rparr>)
               }
         })"

definition rds_cq_close :: "oid \<Rightarrow> objects \<Rightarrow> (int \<times> objects) option" where
  "rds_cq_close i w =
     do {
       q \<leftarrow> cqs w i;
       if co_ref q \<noteq> 0 then Some (- FI_EBUSY, w)
       else do { w1 \<leftarrow> add_ref Domain (co_domain q) (- 1) w; Some (0, w1\<lparr>cqs := (cqs w1)(i := None)\<rparr>) }
     }"

text \<open>The endpoints a read of the queue drives; each is dereferenced.\<close>

definition ofi_cq_progress :: "oid \<Rightarrow> objects \<Rightarrow> (oid list \<times> objects) option" where
  "ofi_cq_progress i w =
     do {
       q \<leftarrow> cqs w i;
       if list_all (\<lambda>e. eps w e \<noteq> None) (co_eps q) then Some (co_eps q, w) else None
     }"

record fi_cntr_attr =
  na_flags :: u64
  na_wait_obj :: "fi_wait_obj option"
  na_wait_set :: bool

definition ofi_check_cntr_attr :: "fi_cntr_attr \<Rightarrow> int" where
  "ofi_check_cntr_attr attr =
     (if na_flags attr \<noteq> 0 \<and> na_flags attr \<noteq> FI_PEER then - FI_EINVAL
      else (case na_wait_obj attr of
              None \<Rightarrow> - FI_EINVAL
            | Some FI_WAIT_MUTEX_COND \<Rightarrow> - FI_EINVAL
            | Some FI_WAIT_SET \<Rightarrow> if \<not> na_wait_set attr then - FI_EINVAL else 0
            | _ \<Rightarrow> 0))"

definition ofi_cntr_cleanup :: "oid \<Rightarrow> objects \<Rightarrow> (int \<times> objects) option" where
  "ofi_cntr_cleanup i w =
     do {
       c \<leftarrow> cntrs w i;
       if no_ref c \<noteq> 0 then Some (- FI_EBUSY, w)
       else do { w1 \<leftarrow> add_ref Domain (no_domain c) (- 1) w; Some (0, w1) }
     }"

definition util_cntr_close :: "oid \<Rightarrow> objects \<Rightarrow> (int \<times> objects) option" where
  "util_cntr_close i w =
     do {
       (ret, w1) \<leftarrow> ofi_cntr_cleanup i w;
       Some (if ret \<noteq> 0 then (ret, w1) else (0, w1\<lparr>cntrs := (cntrs w1)(i := None)\<rparr>))
     }"

text \<open>\<open>wait\<close>, \<open>peer\<close>, \<open>lock\<close> and \<open>poll\<close> are the results of the calls of the initialisation, in their order.\<close>

definition rds_cntr_open ::
  "bool \<Rightarrow> int \<Rightarrow> int \<Rightarrow> int \<Rightarrow> int \<Rightarrow> fi_cntr_attr \<Rightarrow> oid \<Rightarrow> oid \<Rightarrow> objects \<Rightarrow> (int \<times> objects) option" where
  "rds_cntr_open ok wait peer lock poll attr d i w =
     (let chk = ofi_check_cntr_attr attr
      in if \<not> ok then Some (- FI_ENOMEM, w)
         else if chk \<noteq> 0 then Some (chk, w)
         else if opens_wait (na_wait_obj attr) \<and> wait \<noteq> 0 then Some (wait, w)
         else if na_flags attr AND FI_PEER = 0 \<and> peer \<noteq> 0 then Some (peer, w)
         else if lock \<noteq> 0 then Some (lock, w)
         else do {
           w1 \<leftarrow> add_ref Domain d 1 (w\<lparr>cntrs := (cntrs w)(i \<mapsto> \<lparr>no_ref = 0, no_domain = d, no_eps = []\<rparr>)\<rparr>);
           if has_wait (na_wait_obj attr) \<and> poll \<noteq> 0
           then do { (_, w2) \<leftarrow> ofi_cntr_cleanup i w1; Some (poll, w2\<lparr>cntrs := (cntrs w2)(i := None)\<rparr>) }
           else Some (0, w1)
         })"

definition ofi_cntr_progress :: "oid \<Rightarrow> objects \<Rightarrow> (oid list \<times> objects) option" where
  "ofi_cntr_progress i w =
     do {
       c \<leftarrow> cntrs w i;
       if list_all (\<lambda>e. eps w e \<noteq> None) (no_eps c) then Some (no_eps c, w) else None
     }"

section \<open>Endpoint\<close>

definition set_tx_cq :: "oid \<Rightarrow> u64 \<Rightarrow> ep_obj \<Rightarrow> ep_obj" where
  "set_tx_cq c flags ep =
     (if has_flag flags FI_SELECTIVE_COMPLETION then ep\<lparr>eo_tx_cq := Some c\<rparr>
      else ep\<lparr>eo_tx_cq := Some c, eo_tx_op_flags := eo_tx_op_flags ep OR FI_COMPLETION, eo_tx_msg_flags := FI_COMPLETION\<rparr>)"

definition set_rx_cq :: "oid \<Rightarrow> u64 \<Rightarrow> ep_obj \<Rightarrow> ep_obj" where
  "set_rx_cq c flags ep =
     (if has_flag flags FI_SELECTIVE_COMPLETION then ep\<lparr>eo_rx_cq := Some c\<rparr>
      else ep\<lparr>eo_rx_cq := Some c, eo_rx_op_flags := eo_rx_op_flags ep OR FI_COMPLETION, eo_rx_msg_flags := FI_COMPLETION\<rparr>)"

definition ofi_ep_bind_cq :: "bool \<Rightarrow> oid \<Rightarrow> oid \<Rightarrow> u64 \<Rightarrow> objects \<Rightarrow> (int \<times> objects) option" where
  "ofi_ep_bind_cq ok e c flags w =
     do {
       ep \<leftarrow> eps w e;
       let chk = ofi_check_bind_cq_flags (eo_tx_cq ep \<noteq> None) (eo_rx_cq ep \<noteq> None) flags;
       if chk \<noteq> 0 then Some (chk, w)
       else do {
         w1 \<leftarrow> (if has_flag flags FI_SEND then add_ref Cq c 1 (w\<lparr>eps := (eps w)(e \<mapsto> set_tx_cq c flags ep)\<rparr>) else Some w);
         ep1 \<leftarrow> eps w1 e;
         w2 \<leftarrow> (if has_flag flags FI_RECV then add_ref Cq c 1 (w1\<lparr>eps := (eps w1)(e \<mapsto> set_rx_cq c flags ep1)\<rparr>) else Some w1);
         if has_flag flags (FI_SEND OR FI_RECV) then fid_list_insert2 ok Cq c e w2 else Some (0, w2)
       }
     }"

definition ofi_ep_bind_eq :: "oid \<Rightarrow> oid \<Rightarrow> objects \<Rightarrow> (int \<times> objects) option" where
  "ofi_ep_bind_eq e q w =
     do {
       ep \<leftarrow> eps w e;
       w1 \<leftarrow> (case eo_eq ep of None \<Rightarrow> Some w | Some q' \<Rightarrow> add_ref Eq q' (- 1) w);
       w2 \<leftarrow> add_ref Eq q 1 (w1\<lparr>eps := (eps w1)(e \<mapsto> ep\<lparr>eo_eq := Some q\<rparr>)\<rparr>);
       Some (0, w2)
     }"

definition ofi_ep_bind_av :: "oid \<Rightarrow> oid \<Rightarrow> objects \<Rightarrow> (int \<times> objects) option" where
  "ofi_ep_bind_av e a w =
     do {
       ep \<leftarrow> eps w e;
       if eo_av ep \<noteq> None then Some (- FI_EINVAL, w)
       else do {
         w1 \<leftarrow> add_ref Av a 1 (w\<lparr>eps := (eps w)(e \<mapsto> ep\<lparr>eo_av := Some a\<rparr>)\<rparr>);
         w2 \<leftarrow> upd_list Av a (\<lambda>l. l @ [e]) w1;
         Some (0, w2)
       }
     }"

text \<open>The flag of each slot of the counter array, in the order of the array.\<close>

definition cntr_flags :: "u64 list" where
  "cntr_flags = [FI_SEND, FI_RECV, FI_READ, FI_WRITE, FI_REMOTE_READ, FI_REMOTE_WRITE]"

definition CNTR_CNT :: nat where
  "CNTR_CNT = 6"

fun bind_cntrs :: "(nat \<times> u64) list \<Rightarrow> oid \<Rightarrow> oid \<Rightarrow> u64 \<Rightarrow> objects \<Rightarrow> objects option" where
  "bind_cntrs [] e c flags w = Some w"
| "bind_cntrs ((i, f) # fs) e c flags w =
     (if has_flag flags f
      then do {
        ep \<leftarrow> eps w e;
        w1 \<leftarrow> add_ref Cntr c 1 (w\<lparr>eps := (eps w)(e \<mapsto> ep\<lparr>eo_cntrs := (eo_cntrs ep)[i := Some c]\<rparr>)\<rparr>);
        bind_cntrs fs e c flags w1
      }
      else bind_cntrs fs e c flags w)"

definition ofi_ep_bind_cntr :: "bool \<Rightarrow> oid \<Rightarrow> oid \<Rightarrow> u64 \<Rightarrow> objects \<Rightarrow> (int \<times> objects) option" where
  "ofi_ep_bind_cntr ok e c flags w =
     do {
       ep \<leftarrow> eps w e;
       if flags AND NOT (FI_SEND OR FI_RECV OR FI_READ OR FI_WRITE OR FI_REMOTE_READ OR FI_REMOTE_WRITE) \<noteq> 0
       then Some (- FI_EBADFLAGS, w)
       else if list_ex (\<lambda>(i, f). has_flag flags f \<and> eo_cntrs ep ! i \<noteq> None) (enumerate 0 cntr_flags)
       then Some (- FI_EINVAL, w)
       else do {
         w1 \<leftarrow> bind_cntrs (enumerate 0 cntr_flags) e c flags w;
         ep1 \<leftarrow> eps w1 e;
         fid_list_insert2 ok Cntr c e (w1\<lparr>eps := (eps w1)(e \<mapsto> ep1\<lparr>eo_cntr_enabled := True\<rparr>)\<rparr>)
       }
     }"

datatype bind_fid = BindCq oid | BindEq oid | BindAv oid | BindCntr oid | BindOther

text \<open>No object at all is \<open>None\<close>.\<close>

definition ofi_ep_bind_valid :: "bind_fid option \<Rightarrow> u64 \<Rightarrow> int" where
  "ofi_ep_bind_valid bfid flags =
     (case bfid of
        None \<Rightarrow> - FI_EINVAL
      | Some (BindCq _) \<Rightarrow> if flags AND NOT (FI_SEND OR FI_RECV OR FI_SELECTIVE_COMPLETION) \<noteq> 0 then - FI_EBADFLAGS else 0
      | Some (BindCntr _) \<Rightarrow>
          if flags AND NOT (FI_SEND OR FI_RECV OR FI_READ OR FI_WRITE OR FI_REMOTE_READ OR FI_REMOTE_WRITE) \<noteq> 0
          then - FI_EBADFLAGS else 0
      | _ \<Rightarrow> if flags \<noteq> 0 then - FI_EBADFLAGS else 0)"

definition ofi_ep_bind :: "bool \<Rightarrow> oid \<Rightarrow> bind_fid option \<Rightarrow> u64 \<Rightarrow> objects \<Rightarrow> (int \<times> objects) option" where
  "ofi_ep_bind ok e bfid flags w =
     (let chk = ofi_ep_bind_valid bfid flags
      in if chk \<noteq> 0 then Some (chk, w)
         else (case bfid of
                 Some (BindCq c) \<Rightarrow> ofi_ep_bind_cq ok e c flags w
               | Some (BindEq q) \<Rightarrow> ofi_ep_bind_eq e q w
               | Some (BindAv a) \<Rightarrow> ofi_ep_bind_av e a w
               | Some (BindCntr c) \<Rightarrow> ofi_ep_bind_cntr ok e c flags w
               | _ \<Rightarrow> Some (- FI_EINVAL, w)))"

definition unbind :: "kind \<Rightarrow> oid \<Rightarrow> oid option \<Rightarrow> objects \<Rightarrow> objects option" where
  "unbind x e p w =
     (case p of
        None \<Rightarrow> Some w
      | Some i \<Rightarrow> do { w1 \<leftarrow> fid_list_remove2 x i e w; add_ref x i (- 1) w1 })"

fun unbind_cntrs :: "oid \<Rightarrow> oid option list \<Rightarrow> objects \<Rightarrow> objects option" where
  "unbind_cntrs e [] w = Some w"
| "unbind_cntrs e (p # ps) w = do { w1 \<leftarrow> unbind Cntr e p w; unbind_cntrs e ps w1 }"

definition ofi_endpoint_close :: "oid \<Rightarrow> objects \<Rightarrow> objects option" where
  "ofi_endpoint_close e w =
     do {
       ep \<leftarrow> eps w e;
       w1 \<leftarrow> unbind Cq e (eo_tx_cq ep) w;
       w2 \<leftarrow> unbind Cq e (eo_rx_cq ep) w1;
       w3 \<leftarrow> unbind_cntrs e (eo_cntrs ep) w2;
       w4 \<leftarrow> unbind Av e (eo_av ep) w3;
       w5 \<leftarrow> (case eo_eq ep of None \<Rightarrow> Some w4 | Some q \<Rightarrow> add_ref Eq q (- 1) w4);
       add_ref Domain (eo_domain ep) (- 1) w5
     }"

text \<open>
  \<open>chk\<close>: the check of the attributes; \<open>lock\<close> and \<open>cmask\<close>: the lock and the mask of a collective
  endpoint; \<open>rest\<close>: the first failure among the buffers and the socket.  A failure of the lock or of
  the mask is returned without giving the references back.
\<close>

definition free_ep :: "oid \<Rightarrow> objects \<Rightarrow> objects" where
  "free_ep e w = w\<lparr>eps := (eps w)(e := None)\<rparr>"

definition new_ep :: "u64 \<Rightarrow> u64 \<Rightarrow> u64 \<Rightarrow> bool \<Rightarrow> oid \<Rightarrow> ep_obj" where
  "new_ep caps txf rxf bound d =
     \<lparr>eo_ref = 0, eo_domain = d, eo_caps = caps, eo_bound = bound, eo_tx_cq = None, eo_rx_cq = None,
      eo_cntrs = replicate CNTR_CNT None, eo_cntr_enabled = False, eo_av = None, eo_eq = None,
      eo_tx_op_flags = txf, eo_rx_op_flags = rxf, eo_tx_msg_flags = 0, eo_rx_msg_flags = 0\<rparr>"

abbreviation (input) FI_COLLECTIVE :: u64 where "FI_COLLECTIVE \<equiv> 0x40"

definition rds_endpoint_open ::
  "bool \<Rightarrow> int \<Rightarrow> int \<Rightarrow> bool \<Rightarrow> int \<Rightarrow> u64 \<Rightarrow> u64 \<Rightarrow> u64 \<Rightarrow> bool \<Rightarrow> oid \<Rightarrow> oid \<Rightarrow> objects \<Rightarrow> (int \<times> objects) option" where
  "rds_endpoint_open ok chk lock cmask rest caps txf rxf bound d i w =
     (if \<not> ok then Some (- FI_ENOMEM, w)
      else if chk \<noteq> 0 then Some (chk, w)
      else do {
        w1 \<leftarrow> add_ref Domain d 1 (w\<lparr>eps := (eps w)(i \<mapsto> new_ep caps txf rxf bound d)\<rparr>);
        dm \<leftarrow> domains w1 d;
        (_, w2) \<leftarrow> (case dm_eq dm of None \<Rightarrow> Some (0, w1) | Some q \<Rightarrow> ofi_ep_bind_eq i q w1);
        if lock \<noteq> 0 then Some (lock, free_ep i w2)
        else if has_flag caps FI_COLLECTIVE \<and> \<not> cmask then Some (- FI_ENOMEM, free_ep i w2)
        else if rest \<noteq> 0 then do { w3 \<leftarrow> ofi_endpoint_close i w2; Some (rest, free_ep i w3) }
        else Some (0, w2)
      })"

definition rds_ep_close_objects :: "oid \<Rightarrow> objects \<Rightarrow> (int \<times> objects) option" where
  "rds_ep_close_objects e w =
     do {
       ep \<leftarrow> eps w e;
       if eo_ref ep \<noteq> 0 then Some (- FI_EBUSY, w)
       else do {
         d \<leftarrow> domains w (eo_domain ep);
         let d1 = (if dm_reg_ep d = Some e then d\<lparr>dm_reg_ep := None\<rparr> else d);
         w1 \<leftarrow> ofi_endpoint_close e (w\<lparr>domains := (domains w)(eo_domain ep \<mapsto> d1)\<rparr>);
         Some (0, free_ep e w1)
       }
     }"

text \<open>Naming an endpoint (with the result of \<^verbatim>\<open>bind\<close>), and enabling it, which lends its socket to the domain.\<close>

definition ep_setname :: "nat \<Rightarrow> oid \<Rightarrow> objects \<Rightarrow> (int \<times> objects) option" where
  "ep_setname errno e w =
     do {
       ep \<leftarrow> eps w e;
       Some (if errno \<noteq> 0 then (- int errno, w) else (0, w\<lparr>eps := (eps w)(e \<mapsto> ep\<lparr>eo_bound := True\<rparr>)\<rparr>))
     }"

definition ep_enable :: "oid \<Rightarrow> objects \<Rightarrow> (int \<times> objects) option" where
  "ep_enable e w =
     do {
       ep \<leftarrow> eps w e;
       if ofi_needs_rx (eo_caps ep) \<and> eo_rx_cq ep = None \<or> ofi_needs_tx (eo_caps ep) \<and> eo_tx_cq ep = None
       then Some (- FI_ENOCQ, w)
       else if eo_av ep = None then Some (- FI_ENOAV, w)
       else if \<not> eo_bound ep then Some (- FI_EOPBADSTATE, w)
       else do {
         d \<leftarrow> domains w (eo_domain ep);
         Some (0, if dm_reg_ep d = None then w\<lparr>domains := (domains w)(eo_domain ep \<mapsto> d\<lparr>dm_reg_ep := Some e\<rparr>)\<rparr> else w)
       }
     }"

section \<open>Memory regions of the application\<close>

text \<open>
  A region keeps a pointer to the endpoint whose socket registered it, and takes no reference on it.
  \<open>n\<close> is the number of buffers described, \<open>ok\<close> the result of the registration.
\<close>

definition mr_open :: "nat \<Rightarrow> bool \<Rightarrow> oid \<Rightarrow> oid \<Rightarrow> objects \<Rightarrow> (int \<times> objects) option" where
  "mr_open n ok d i w =
     (if n \<noteq> 1 then Some (- FI_EINVAL, w)
      else do {
        dm \<leftarrow> domains w d;
        case dm_reg_ep dm of
          None \<Rightarrow> Some (- FI_EOPBADSTATE, w)
        | Some e \<Rightarrow> do {
            _ \<leftarrow> eps w e;
            Some (if \<not> ok then (- FI_ENOMEM, w) else (0, w\<lparr>mrs := (mrs w)(i \<mapsto> e)\<rparr>))
          }
      })"

definition mr_close :: "oid \<Rightarrow> objects \<Rightarrow> (int \<times> objects) option" where
  "mr_close m w =
     do {
       e \<leftarrow> mrs w m;
       _ \<leftarrow> eps w e;
       Some (0, w\<lparr>mrs := (mrs w)(m := None)\<rparr>)
     }"

end
