(* ===== verification/Util_Objects_Inv.thy ===== *)
theory Util_Objects_Inv
  imports Util_Objects
begin

text \<open>
  The reference counts of the objects.  Every count is at least the number of pointers the live
  objects hold to its object, and exactly that number unless an initialisation failed half way; so
  an object is freed only when nothing points to it, and no call follows a pointer to a freed
  object.
\<close>

section \<open>Counting pointers\<close>

definition val :: "('a \<Rightarrow> int) \<Rightarrow> 'a option \<Rightarrow> int" where
  "val f p = (case p of None \<Rightarrow> 0 | Some x \<Rightarrow> f x)"

lemma val_simps [simp]: "val f None = 0" "val f (Some x) = f x"
  by (simp_all add: val_def)

definition cnt :: "('a \<Rightarrow> int) \<Rightarrow> (oid \<Rightarrow> 'a option) \<Rightarrow> int" where
  "cnt f m = (\<Sum>k \<in> dom m. f (the (m k)))"

lemma cnt_val: "finite A \<Longrightarrow> dom m \<subseteq> A \<Longrightarrow> cnt f m = (\<Sum>k \<in> A. val f (m k))"
  unfolding cnt_def by (rule sum.mono_neutral_cong_left) (auto simp: val_def split: option.split)

lemma cnt_upd:
  assumes "finite (dom m)"
  shows "cnt f (m(k := v)) = cnt f m + val f v - val f (m k)"
proof -
  let ?A = "insert k (dom m)"
  have fin: "finite ?A" using assms by simp
  have "cnt f (m(k := v)) = (\<Sum>i \<in> ?A. val f ((m(k := v)) i))" by (rule cnt_val [OF fin]) auto
  also have "\<dots> = val f v + (\<Sum>i \<in> ?A - {k}. val f ((m(k := v)) i))" by (subst sum.remove [OF fin, of k]) auto
  also have "(\<Sum>i \<in> ?A - {k}. val f ((m(k := v)) i)) = (\<Sum>i \<in> ?A - {k}. val f (m i))" by (rule sum.cong) auto
  finally have new: "cnt f (m(k := v)) = val f v + (\<Sum>i \<in> ?A - {k}. val f (m i))" .
  have "cnt f m = (\<Sum>i \<in> ?A. val f (m i))" by (rule cnt_val [OF fin]) auto
  also have "\<dots> = val f (m k) + (\<Sum>i \<in> ?A - {k}. val f (m i))" by (rule sum.remove [OF fin]) simp
  finally show ?thesis using new by simp
qed

lemma cnt_nonneg: "(\<And>x. 0 \<le> f x) \<Longrightarrow> 0 \<le> cnt f m"
  by (simp add: cnt_def sum_nonneg)

lemma cnt_member:
  assumes "finite (dom m)" and "\<And>x. 0 \<le> f x" and "m k = Some x"
  shows "f x \<le> cnt f m"
proof -
  have "f (the (m k)) \<le> (\<Sum>k \<in> dom m. f (the (m k)))" using assms by (intro member_le_sum) auto
  then show ?thesis using assms(3) by (simp add: cnt_def)
qed

definition pt :: "oid \<Rightarrow> oid option \<Rightarrow> int" where
  "pt i p = of_bool (p = Some i)"

definition ep_refs :: "kind \<Rightarrow> oid \<Rightarrow> ep_obj \<Rightarrow> int" where
  "ep_refs x i e =
     (case x of
        Fabric \<Rightarrow> 0
      | Eq \<Rightarrow> pt i (eo_eq e)
      | Domain \<Rightarrow> of_bool (eo_domain e = i)
      | Av \<Rightarrow> pt i (eo_av e)
      | Cq \<Rightarrow> pt i (eo_tx_cq e) + pt i (eo_rx_cq e)
      | Cntr \<Rightarrow> sum_list (map (pt i) (eo_cntrs e)))"

definition dom_refs :: "kind \<Rightarrow> oid \<Rightarrow> domain_obj \<Rightarrow> int" where
  "dom_refs x i d = (case x of Fabric \<Rightarrow> of_bool (dm_fabric d = i) | Eq \<Rightarrow> pt i (dm_eq d) | _ \<Rightarrow> 0)"

definition up :: "kind \<Rightarrow> kind \<Rightarrow> oid \<Rightarrow> oid \<Rightarrow> int" where
  "up y x i j = of_bool (x = y \<and> j = i)"

definition refs :: "objects \<Rightarrow> kind \<Rightarrow> oid \<Rightarrow> int" where
  "refs w x i =
     cnt (ep_refs x i) (eps w) + cnt (dom_refs x i) (domains w) + cnt (\<lambda>q. up Fabric x i (eq_fabric q)) (eqs w) +
     cnt (\<lambda>a. up Domain x i (ao_domain a)) (avs w) + cnt (\<lambda>q. up Domain x i (co_domain q)) (cqs w) +
     cnt (\<lambda>c. up Domain x i (no_domain c)) (cntrs w)"

definition refcnt :: "objects \<Rightarrow> kind \<Rightarrow> oid \<Rightarrow> int" where
  "refcnt w x i =
     (case x of
        Fabric \<Rightarrow> val fb_ref (fabrics w i)
      | Eq \<Rightarrow> val eq_ref (eqs w i)
      | Domain \<Rightarrow> val dm_ref (domains w i)
      | Av \<Rightarrow> val ao_ref (avs w i)
      | Cq \<Rightarrow> val co_ref (cqs w i)
      | Cntr \<Rightarrow> val no_ref (cntrs w i))"

definition live :: "objects \<Rightarrow> kind \<Rightarrow> oid \<Rightarrow> bool" where
  "live w x i =
     (case x of
        Fabric \<Rightarrow> fabrics w i \<noteq> None
      | Eq \<Rightarrow> eqs w i \<noteq> None
      | Domain \<Rightarrow> domains w i \<noteq> None
      | Av \<Rightarrow> avs w i \<noteq> None
      | Cq \<Rightarrow> cqs w i \<noteq> None
      | Cntr \<Rightarrow> cntrs w i \<noteq> None)"

definition stores_finite :: "objects \<Rightarrow> bool" where
  "stores_finite w \<longleftrightarrow>
     finite (dom (eps w)) \<and> finite (dom (domains w)) \<and> finite (dom (eqs w)) \<and> finite (dom (avs w)) \<and>
     finite (dom (cqs w)) \<and> finite (dom (cntrs w))"

text \<open>\<open>D\<close> is what the counts are ahead of the pointers in the middle of a call.\<close>

definition counts :: "bool \<Rightarrow> (kind \<Rightarrow> oid \<Rightarrow> int) \<Rightarrow> objects \<Rightarrow> bool" where
  "counts exact D w \<longleftrightarrow>
     stores_finite w \<and>
     (\<forall>x i. refs w x i + D x i \<le> refcnt w x i \<and> (exact \<longrightarrow> refs w x i + D x i = refcnt w x i))"

lemma countsI:
  assumes "counts exact D w" and "stores_finite w'"
    and "\<And>x i. refs w' x i + D' x i = refs w x i + D x i + (refcnt w' x i - refcnt w x i)"
  shows "counts exact D' w'"
  unfolding counts_def
proof (intro conjI allI impI)
  fix x i
  have "refs w x i + D x i \<le> refcnt w x i" "exact \<Longrightarrow> refs w x i + D x i = refcnt w x i"
    using assms(1) by (simp_all add: counts_def)
  with assms(3) [of x i] show "refs w' x i + D' x i \<le> refcnt w' x i"
    "exact \<Longrightarrow> refs w' x i + D' x i = refcnt w' x i" by linarith+
qed (rule assms(2))

lemma counts_cong: "counts exact D w \<Longrightarrow> (\<And>x i. D' x i = D x i) \<Longrightarrow> counts exact D' w"
  by (simp add: counts_def)

lemma counts_weak: "counts exact D w \<Longrightarrow> (\<And>x i. D' x i \<le> D x i) \<Longrightarrow> counts False D' w"
  unfolding counts_def by (metis add_left_mono order_trans)

lemma counts_finite: "counts exact D w \<Longrightarrow> stores_finite w"
  by (simp add: counts_def)

section \<open>The effect of an update on the counts\<close>

definition at :: "kind \<Rightarrow> oid \<Rightarrow> int \<Rightarrow> kind \<Rightarrow> oid \<Rightarrow> int" where
  "at x i n y j = (if y = x \<and> j = i then n else 0)"

lemma refs_put_ep:
  "stores_finite w \<Longrightarrow> refs (w\<lparr>eps := (eps w)(e := v)\<rparr>) x i = refs w x i + val (ep_refs x i) v - val (ep_refs x i) (eps w e)"
  by (simp add: refs_def stores_finite_def cnt_upd)

lemma refs_put_domain:
  "stores_finite w \<Longrightarrow>
   refs (w\<lparr>domains := (domains w)(d := v)\<rparr>) x i = refs w x i + val (dom_refs x i) v - val (dom_refs x i) (domains w d)"
  by (simp add: refs_def stores_finite_def cnt_upd)

lemma refs_put_eq:
  "stores_finite w \<Longrightarrow>
   refs (w\<lparr>eqs := (eqs w)(d := v)\<rparr>) x i =
     refs w x i + val (\<lambda>q. up Fabric x i (eq_fabric q)) v - val (\<lambda>q. up Fabric x i (eq_fabric q)) (eqs w d)"
  by (simp add: refs_def stores_finite_def cnt_upd)

lemma refs_put_av:
  "stores_finite w \<Longrightarrow>
   refs (w\<lparr>avs := (avs w)(d := v)\<rparr>) x i =
     refs w x i + val (\<lambda>q. up Domain x i (ao_domain q)) v - val (\<lambda>q. up Domain x i (ao_domain q)) (avs w d)"
  by (simp add: refs_def stores_finite_def cnt_upd)

lemma refs_put_cq:
  "stores_finite w \<Longrightarrow>
   refs (w\<lparr>cqs := (cqs w)(d := v)\<rparr>) x i =
     refs w x i + val (\<lambda>q. up Domain x i (co_domain q)) v - val (\<lambda>q. up Domain x i (co_domain q)) (cqs w d)"
  by (simp add: refs_def stores_finite_def cnt_upd)

lemma refs_put_cntr:
  "stores_finite w \<Longrightarrow>
   refs (w\<lparr>cntrs := (cntrs w)(d := v)\<rparr>) x i =
     refs w x i + val (\<lambda>q. up Domain x i (no_domain q)) v - val (\<lambda>q. up Domain x i (no_domain q)) (cntrs w d)"
  by (simp add: refs_def stores_finite_def cnt_upd)

lemma refs_put_fabric: "refs (w\<lparr>fabrics := m\<rparr>) x i = refs w x i"
  by (simp add: refs_def)

lemmas refs_put = refs_put_ep refs_put_domain refs_put_eq refs_put_av refs_put_cq refs_put_cntr refs_put_fabric

lemma finite_put [simp]:
  "stores_finite w \<Longrightarrow> stores_finite (w\<lparr>eps := (eps w)(i := v1)\<rparr>)"
  "stores_finite w \<Longrightarrow> stores_finite (w\<lparr>domains := (domains w)(i := v2)\<rparr>)"
  "stores_finite w \<Longrightarrow> stores_finite (w\<lparr>eqs := (eqs w)(i := v3)\<rparr>)"
  "stores_finite w \<Longrightarrow> stores_finite (w\<lparr>avs := (avs w)(i := v4)\<rparr>)"
  "stores_finite w \<Longrightarrow> stores_finite (w\<lparr>cqs := (cqs w)(i := v5)\<rparr>)"
  "stores_finite w \<Longrightarrow> stores_finite (w\<lparr>cntrs := (cntrs w)(i := v6)\<rparr>)"
  "stores_finite w \<Longrightarrow> stores_finite (w\<lparr>fabrics := m\<rparr>)"
  "stores_finite w \<Longrightarrow> stores_finite (w\<lparr>mrs := n\<rparr>)"
  by (simp_all add: stores_finite_def)

lemma add_ref_live: "live w x i \<Longrightarrow> \<exists>w'. add_ref x i n w = Some w'"
  by (cases x) (auto simp: live_def add_ref_def)

lemma counts_add_ref:
  assumes "counts exact D w" and "add_ref x i n w = Some w'"
  shows "counts exact (\<lambda>y j. D y j + at x i n y j) w'"
proof (rule countsI [OF assms(1)])
  note fin = counts_finite [OF assms(1)]
  show "stores_finite w'" using assms(2) fin by (cases x) (auto simp: add_ref_def)
  fix y j
  show "refs w' y j + (D y j + at x i n y j) = refs w y j + D y j + (refcnt w' y j - refcnt w y j)"
    using assms(2) fin by (cases x; cases y) (auto simp: add_ref_def at_def refs_put refcnt_def dom_refs_def)
qed

lemma counts_put_ep:
  assumes "counts exact D w"
  shows "counts exact (\<lambda>x i. D x i - val (ep_refs x i) v + val (ep_refs x i) (eps w e)) (w\<lparr>eps := (eps w)(e := v)\<rparr>)"
proof (rule countsI [OF assms])
  note fin = counts_finite [OF assms]
  show "stores_finite (w\<lparr>eps := (eps w)(e := v)\<rparr>)" using fin by simp
qed (use counts_finite [OF assms] in \<open>auto simp: refs_put refcnt_def split: kind.split\<close>)

lemma counts_put_domain:
  assumes "counts exact D w" and "val dm_ref v = val dm_ref (domains w d)"
  shows "counts exact (\<lambda>x i. D x i - val (dom_refs x i) v + val (dom_refs x i) (domains w d)) (w\<lparr>domains := (domains w)(d := v)\<rparr>)"
proof (rule countsI [OF assms(1)])
  note fin = counts_finite [OF assms(1)]
  show "stores_finite (w\<lparr>domains := (domains w)(d := v)\<rparr>)" using fin by simp
qed (use counts_finite [OF assms(1)] assms(2) in \<open>auto simp: refs_put refcnt_def split: kind.split\<close>)

lemma counts_put_up:
  assumes "counts exact D w"
  shows "val eq_ref v1 = val eq_ref (eqs w k) \<Longrightarrow>
      counts exact (\<lambda>x i. D x i - val (\<lambda>q. up Fabric x i (eq_fabric q)) v1 + val (\<lambda>q. up Fabric x i (eq_fabric q)) (eqs w k))
        (w\<lparr>eqs := (eqs w)(k := v1)\<rparr>)"
    and "val ao_ref v2 = val ao_ref (avs w k) \<Longrightarrow>
      counts exact (\<lambda>x i. D x i - val (\<lambda>q. up Domain x i (ao_domain q)) v2 + val (\<lambda>q. up Domain x i (ao_domain q)) (avs w k))
        (w\<lparr>avs := (avs w)(k := v2)\<rparr>)"
    and "val co_ref v3 = val co_ref (cqs w k) \<Longrightarrow>
      counts exact (\<lambda>x i. D x i - val (\<lambda>q. up Domain x i (co_domain q)) v3 + val (\<lambda>q. up Domain x i (co_domain q)) (cqs w k))
        (w\<lparr>cqs := (cqs w)(k := v3)\<rparr>)"
    and "val no_ref v4 = val no_ref (cntrs w k) \<Longrightarrow>
      counts exact (\<lambda>x i. D x i - val (\<lambda>q. up Domain x i (no_domain q)) v4 + val (\<lambda>q. up Domain x i (no_domain q)) (cntrs w k))
        (w\<lparr>cntrs := (cntrs w)(k := v4)\<rparr>)"
    and "val fb_ref v5 = val fb_ref (fabrics w k) \<Longrightarrow> counts exact D (w\<lparr>fabrics := (fabrics w)(k := v5)\<rparr>)"
  by ((rule countsI [OF assms], use counts_finite [OF assms] in simp,
       use counts_finite [OF assms] in \<open>auto simp: refs_put refcnt_def split: kind.split\<close>)+)

lemma counts_upd_list: "counts exact D w \<Longrightarrow> upd_list x i f w = Some w' \<Longrightarrow> counts exact D w'"
  by (rule countsI, assumption)
    (auto simp: upd_list_def refs_put refcnt_def counts_finite split: kind.splits)

lemma refs_nonneg: "0 \<le> refs w x i"
proof -
  have "0 \<le> ep_refs x i e" for e by (auto simp: ep_refs_def pt_def intro!: sum_list_nonneg split: kind.split)
  moreover have "0 \<le> dom_refs x i d" for d by (auto simp: dom_refs_def pt_def split: kind.split)
  moreover have "0 \<le> up y x i j" for y j by (simp add: up_def)
  ultimately show ?thesis unfolding refs_def by (intro add_nonneg_nonneg cnt_nonneg)
qed

section \<open>The lists and the other pointers\<close>

definition dview :: "objects \<Rightarrow> oid \<Rightarrow> (oid \<times> oid option \<times> oid option) option" where
  "dview w d = map_option (\<lambda>d. (dm_fabric d, dm_eq d, dm_reg_ep d)) (domains w d)"

definition lists_ok :: "objects \<Rightarrow> bool" where
  "lists_ok w \<longleftrightarrow>
     (\<forall>x i l. x \<noteq> Fabric \<and> list_of x i w = Some l \<longrightarrow>
        distinct l \<and> (\<forall>e \<in> set l. \<exists>ep. eps w e = Some ep \<and> 0 < ep_refs x i ep))"

definition domains_ok :: "objects \<Rightarrow> bool" where
  "domains_ok w \<longleftrightarrow>
     (\<forall>i l. list_of Fabric i w = Some l \<longrightarrow> distinct l \<and> set l = {d. \<exists>r. dview w d = Some (i, r)})"

definition lent_ok :: "objects \<Rightarrow> bool" where
  "lent_ok w \<longleftrightarrow> (\<forall>d f q e. dview w d = Some (f, q, Some e) \<longrightarrow> (\<exists>ep. eps w e = Some ep \<and> eo_domain ep = d))"

definition eps_ok :: "objects \<Rightarrow> bool" where
  "eps_ok w \<longleftrightarrow> (\<forall>e ep. eps w e = Some ep \<longrightarrow> eo_ref ep = 0 \<and> length (eo_cntrs ep) = CNTR_CNT)"

definition linked :: "objects \<Rightarrow> bool" where
  "linked w \<longleftrightarrow> lists_ok w \<and> domains_ok w \<and> lent_ok w \<and> eps_ok w"

definition obj_inv :: "bool \<Rightarrow> objects \<Rightarrow> bool" where
  "obj_inv exact w \<longleftrightarrow> counts exact (\<lambda>_ _. 0) w \<and> linked w"

lemma add_ref_point:
  assumes "add_ref x i n w = Some w'"
  shows "eps w' = eps w \<and> mrs w' = mrs w \<and> list_of y j w' = list_of y j w \<and> dview w' d = dview w d \<and> live w' y j = live w y j"
proof (cases x)
  case Fabric
  then obtain p where "fabrics w i = Some p" "w' = w\<lparr>fabrics := (fabrics w)(i \<mapsto> p\<lparr>fb_ref := fb_ref p + n\<rparr>)\<rparr>" using assms by (auto simp: add_ref_def)
  then show ?thesis by (cases y) (simp_all add: list_of_def dview_def live_def)
next
  case Eq
  then obtain p where "eqs w i = Some p" "w' = w\<lparr>eqs := (eqs w)(i \<mapsto> p\<lparr>eq_ref := eq_ref p + n\<rparr>)\<rparr>" using assms by (auto simp: add_ref_def)
  then show ?thesis by (cases y) (simp_all add: list_of_def dview_def live_def)
next
  case Domain
  then obtain p where "domains w i = Some p" "w' = w\<lparr>domains := (domains w)(i \<mapsto> p\<lparr>dm_ref := dm_ref p + n\<rparr>)\<rparr>" using assms by (auto simp: add_ref_def)
  then show ?thesis by (cases y) (simp_all add: list_of_def dview_def live_def)
next
  case Av
  then obtain p where "avs w i = Some p" "w' = w\<lparr>avs := (avs w)(i \<mapsto> p\<lparr>ao_ref := ao_ref p + n\<rparr>)\<rparr>" using assms by (auto simp: add_ref_def)
  then show ?thesis by (cases y) (simp_all add: list_of_def dview_def live_def)
next
  case Cq
  then obtain p where "cqs w i = Some p" "w' = w\<lparr>cqs := (cqs w)(i \<mapsto> p\<lparr>co_ref := co_ref p + n\<rparr>)\<rparr>" using assms by (auto simp: add_ref_def)
  then show ?thesis by (cases y) (simp_all add: list_of_def dview_def live_def)
next
  case Cntr
  then obtain p where "cntrs w i = Some p" "w' = w\<lparr>cntrs := (cntrs w)(i \<mapsto> p\<lparr>no_ref := no_ref p + n\<rparr>)\<rparr>" using assms by (auto simp: add_ref_def)
  then show ?thesis by (cases y) (simp_all add: list_of_def dview_def live_def)
qed

lemma add_ref_view:
  assumes "add_ref x i n w = Some w'"
  shows "eps w' = eps w" "mrs w' = mrs w" "list_of y j w' = list_of y j w" "dview w' = dview w" "live w' = live w"
  using add_ref_point [OF assms] by (blast, blast, blast, (intro ext, blast)+)

lemma upd_list_point:
  assumes "upd_list x i f w = Some w'"
  shows "eps w' = eps w \<and> mrs w' = mrs w \<and> dview w' d = dview w d \<and> live w' y j = live w y j \<and>
    list_of y j w' = (if y = x \<and> j = i then map_option f (list_of y j w) else list_of y j w)"
proof (cases x)
  case Fabric
  then obtain p where "fabrics w i = Some p" "w' = w\<lparr>fabrics := (fabrics w)(i \<mapsto> p\<lparr>fb_domains := f (fb_domains p)\<rparr>)\<rparr>" using assms by (auto simp: upd_list_def)
  then show ?thesis using Fabric by (cases y) (simp_all add: list_of_def dview_def live_def)
next
  case Av
  then obtain p where "avs w i = Some p" "w' = w\<lparr>avs := (avs w)(i \<mapsto> p\<lparr>ao_eps := f (ao_eps p)\<rparr>)\<rparr>" using assms by (auto simp: upd_list_def)
  then show ?thesis using Av by (cases y) (simp_all add: list_of_def dview_def live_def)
next
  case Cq
  then obtain p where "cqs w i = Some p" "w' = w\<lparr>cqs := (cqs w)(i \<mapsto> p\<lparr>co_eps := f (co_eps p)\<rparr>)\<rparr>" using assms by (auto simp: upd_list_def)
  then show ?thesis using Cq by (cases y) (simp_all add: list_of_def dview_def live_def)
next
  case Cntr
  then obtain p where "cntrs w i = Some p" "w' = w\<lparr>cntrs := (cntrs w)(i \<mapsto> p\<lparr>no_eps := f (no_eps p)\<rparr>)\<rparr>" using assms by (auto simp: upd_list_def)
  then show ?thesis using Cntr by (cases y) (simp_all add: list_of_def dview_def live_def)
qed (use assms in \<open>simp_all add: upd_list_def\<close>)

lemma upd_list_view:
  assumes "upd_list x i f w = Some w'"
  shows "eps w' = eps w" "mrs w' = mrs w" "dview w' = dview w" "live w' = live w"
    "list_of y j w' = (if y = x \<and> j = i then map_option f (list_of y j w) else list_of y j w)"
  using upd_list_point [OF assms] by (blast, blast, (intro ext, blast)+, blast)

lemma list_of_put [simp]:
  "list_of y j (w\<lparr>eps := m1\<rparr>) = list_of y j w"
  "list_of y j (w\<lparr>domains := m2\<rparr>) = list_of y j w"
  "list_of y j (w\<lparr>eqs := m3\<rparr>) = list_of y j w"
  "list_of y j (w\<lparr>mrs := m4\<rparr>) = list_of y j w"
  "list_of y j (w\<lparr>avs := (avs w)(k := v5)\<rparr>) = (if y = Av \<and> j = k then map_option ao_eps v5 else list_of y j w)"
  "list_of y j (w\<lparr>cqs := (cqs w)(k := v6)\<rparr>) = (if y = Cq \<and> j = k then map_option co_eps v6 else list_of y j w)"
  "list_of y j (w\<lparr>cntrs := (cntrs w)(k := v7)\<rparr>) = (if y = Cntr \<and> j = k then map_option no_eps v7 else list_of y j w)"
  "list_of y j (w\<lparr>fabrics := (fabrics w)(k := v8)\<rparr>) = (if y = Fabric \<and> j = k then map_option fb_domains v8 else list_of y j w)"
  by (auto simp: list_of_def split: kind.split)

lemma dview_put [simp]:
  "dview (w\<lparr>eps := m1\<rparr>) = dview w" "dview (w\<lparr>eqs := m3\<rparr>) = dview w" "dview (w\<lparr>mrs := m4\<rparr>) = dview w"
  "dview (w\<lparr>avs := m5\<rparr>) = dview w" "dview (w\<lparr>cqs := m6\<rparr>) = dview w" "dview (w\<lparr>cntrs := m7\<rparr>) = dview w"
  "dview (w\<lparr>fabrics := m8\<rparr>) = dview w"
  by (simp_all add: dview_def fun_eq_iff)

lemma live_put [simp]:
  "live (w\<lparr>eps := m1\<rparr>) = live w" "live (w\<lparr>mrs := m4\<rparr>) = live w"
  by (simp_all add: live_def fun_eq_iff split: kind.split)

lemma linked_keep:
  assumes "linked w" and "eps w' = eps w" and "dview w' = dview w"
    and "\<And>y j l. list_of y j w' = Some l \<Longrightarrow> list_of y j w = Some l \<or> l = [] \<and> y \<noteq> Fabric"
  shows "linked w'"
proof -
  have "lists_ok w'"
    unfolding lists_ok_def
  proof (intro allI impI)
    fix x i l
    assume x: "x \<noteq> Fabric \<and> list_of x i w' = Some l"
    show "distinct l \<and> (\<forall>e \<in> set l. \<exists>ep. eps w' e = Some ep \<and> 0 < ep_refs x i ep)"
    proof (cases "l = []")
      case False
      then have "list_of x i w = Some l" using assms(4) x by blast
      with assms(1) x show ?thesis unfolding linked_def lists_ok_def assms(2) by blast
    qed simp
  qed
  moreover have "domains_ok w'"
    using assms(1) assms(4) [of Fabric] unfolding linked_def domains_ok_def assms(3) by blast
  moreover have "lent_ok w'" "eps_ok w'" using assms(1) by (simp_all add: linked_def lent_ok_def eps_ok_def assms(2,3))
  ultimately show ?thesis by (simp add: linked_def)
qed

lemma ep_refs_nonneg: "0 \<le> ep_refs x i e"
  by (auto simp: ep_refs_def pt_def intro!: sum_list_nonneg split: kind.split)

lemma dom_refs_nonneg: "0 \<le> dom_refs x i d"
  by (auto simp: dom_refs_def pt_def split: kind.split)

lemma up_nonneg: "0 \<le> up y x i j"
  by (simp add: up_def)

lemma refs_parts:
  assumes "stores_finite w"
  shows "eps w k = Some e \<Longrightarrow> ep_refs x i e \<le> refs w x i"
    and "domains w k = Some d \<Longrightarrow> dom_refs x i d \<le> refs w x i"
    and "eqs w k = Some q \<Longrightarrow> up Fabric x i (eq_fabric q) \<le> refs w x i"
    and "avs w k = Some a \<Longrightarrow> up Domain x i (ao_domain a) \<le> refs w x i"
    and "cqs w k = Some c \<Longrightarrow> up Domain x i (co_domain c) \<le> refs w x i"
    and "cntrs w k = Some n \<Longrightarrow> up Domain x i (no_domain n) \<le> refs w x i"
proof -
  have p: "0 \<le> cnt (ep_refs x i) (eps w)" "0 \<le> cnt (dom_refs x i) (domains w)"
    "0 \<le> cnt (\<lambda>q. up Fabric x i (eq_fabric q)) (eqs w)" "0 \<le> cnt (\<lambda>a. up Domain x i (ao_domain a)) (avs w)"
    "0 \<le> cnt (\<lambda>q. up Domain x i (co_domain q)) (cqs w)" "0 \<le> cnt (\<lambda>c. up Domain x i (no_domain c)) (cntrs w)"
    by (intro cnt_nonneg ep_refs_nonneg dom_refs_nonneg up_nonneg)+
  note fin = assms [unfolded stores_finite_def]
  show "ep_refs x i e \<le> refs w x i" if "eps w k = Some e"
    using cnt_member [of "eps w" "ep_refs x i", OF _ ep_refs_nonneg that] fin p unfolding refs_def by linarith
  show "dom_refs x i d \<le> refs w x i" if "domains w k = Some d"
    using cnt_member [of "domains w" "dom_refs x i", OF _ dom_refs_nonneg that] fin p unfolding refs_def by linarith
  show "up Fabric x i (eq_fabric q) \<le> refs w x i" if "eqs w k = Some q"
    using cnt_member [of "eqs w" "\<lambda>q. up Fabric x i (eq_fabric q)", OF _ up_nonneg that] fin p unfolding refs_def by linarith
  show "up Domain x i (ao_domain a) \<le> refs w x i" if "avs w k = Some a"
    using cnt_member [of "avs w" "\<lambda>q. up Domain x i (ao_domain q)", OF _ up_nonneg that] fin p unfolding refs_def by linarith
  show "up Domain x i (co_domain c) \<le> refs w x i" if "cqs w k = Some c"
    using cnt_member [of "cqs w" "\<lambda>q. up Domain x i (co_domain q)", OF _ up_nonneg that] fin p unfolding refs_def by linarith
  show "up Domain x i (no_domain n) \<le> refs w x i" if "cntrs w k = Some n"
    using cnt_member [of "cntrs w" "\<lambda>q. up Domain x i (no_domain q)", OF _ up_nonneg that] fin p unfolding refs_def by linarith
qed

lemma refcnt_dead: "\<not> live w x i \<Longrightarrow> refcnt w x i = 0"
  by (auto simp: live_def refcnt_def split: kind.splits)

lemma refs_live: "obj_inv exact w \<Longrightarrow> 0 < refs w x i \<Longrightarrow> live w x i"
proof (rule ccontr)
  assume "obj_inv exact w" and "0 < refs w x i" and "\<not> live w x i"
  moreover from this have "refs w x i \<le> refcnt w x i" by (simp add: obj_inv_def counts_def)
  ultimately show False using refcnt_dead [of w x i] by simp
qed

section \<open>Calls on a fabric, an event queue, a vector, a queue and a counter\<close>

text \<open>A call is safe when it follows no pointer to a freed object and keeps the invariant.\<close>

definition safe :: "bool \<Rightarrow> (int \<times> objects) option \<Rightarrow> bool" where
  "safe exact r \<longleftrightarrow> (\<exists>ret w. r = Some (ret, w) \<and> obj_inv exact w)"

lemma safe_Some [simp]: "safe exact (Some (ret, w)) \<longleftrightarrow> obj_inv exact w"
  by (auto simp: safe_def)

lemma inv_counts: "obj_inv exact w \<Longrightarrow> counts exact (\<lambda>_ _. 0) w"
  by (simp add: obj_inv_def)

lemma inv_linked: "obj_inv exact w \<Longrightarrow> linked w"
  by (simp add: obj_inv_def)

lemma inv_finite: "obj_inv exact w \<Longrightarrow> stores_finite w"
  by (rule counts_finite [OF inv_counts])

lemma obj_invI: "counts exact D w \<Longrightarrow> (\<And>x i. D x i = 0) \<Longrightarrow> linked w \<Longrightarrow> obj_inv exact w"
  unfolding obj_inv_def by (auto intro: counts_cong)

lemma pointer_live:
  assumes "obj_inv exact w"
  shows "eps w k = Some e \<Longrightarrow> 0 < ep_refs x i e \<Longrightarrow> live w x i"
    and "domains w k = Some d \<Longrightarrow> 0 < dom_refs x i d \<Longrightarrow> live w x i"
    and "eqs w k = Some q \<Longrightarrow> live w Fabric (eq_fabric q)"
    and "avs w k = Some a \<Longrightarrow> live w Domain (ao_domain a)"
    and "cqs w k = Some c \<Longrightarrow> live w Domain (co_domain c)"
    and "cntrs w k = Some n \<Longrightarrow> live w Domain (no_domain n)"
proof -
  note pos = refs_live [OF assms] and le = refs_parts [OF inv_finite [OF assms]]
  show "eps w k = Some e \<Longrightarrow> 0 < ep_refs x i e \<Longrightarrow> live w x i" using pos le(1) [of k e x i] by (meson less_le_trans)
  show "domains w k = Some d \<Longrightarrow> 0 < dom_refs x i d \<Longrightarrow> live w x i" using pos le(2) [of k d x i] by (meson less_le_trans)
  show "eqs w k = Some q \<Longrightarrow> live w Fabric (eq_fabric q)"
    using pos [of Fabric "eq_fabric q"] le(3) [of k q Fabric "eq_fabric q"] by (simp add: up_def)
  show "avs w k = Some a \<Longrightarrow> live w Domain (ao_domain a)"
    using pos [of Domain "ao_domain a"] le(4) [of k a Domain "ao_domain a"] by (simp add: up_def)
  show "cqs w k = Some c \<Longrightarrow> live w Domain (co_domain c)"
    using pos [of Domain "co_domain c"] le(5) [of k c Domain "co_domain c"] by (simp add: up_def)
  show "cntrs w k = Some n \<Longrightarrow> live w Domain (no_domain n)"
    using pos [of Domain "no_domain n"] le(6) [of k n Domain "no_domain n"] by (simp add: up_def)
qed

lemma no_domain_of:
  assumes "obj_inv exact w" and "\<not> live w Fabric i"
  shows "dview w d \<noteq> Some (i, r)"
proof
  assume "dview w d = Some (i, r)"
  then obtain dm where "domains w d = Some dm" "dm_fabric dm = i" by (auto simp: dview_def)
  then show False using pointer_live(2) [OF assms(1), of d dm Fabric i] assms(2) by (simp add: dom_refs_def)
qed

lemma safe_fabric:
  assumes "obj_inv exact w" and "fabrics w i = None"
  shows "obj_inv exact (snd (rds_fabric ok chk name i w))"
proof -
  let ?w = "w\<lparr>fabrics := (fabrics w)(i \<mapsto> \<lparr>fb_ref = 0, fb_domains = []\<rparr>)\<rparr>"
  have "counts exact (\<lambda>_ _. 0) ?w" by (rule counts_put_up(5) [OF inv_counts [OF assms(1)]]) (simp add: assms(2))
  moreover have "linked ?w"
  proof -
    have "domains_ok ?w"
      using no_domain_of [OF assms(1), of i] inv_linked [OF assms(1)] assms(2) by (auto simp: domains_ok_def linked_def live_def)
    moreover have "lists_ok ?w" "lent_ok ?w" "eps_ok ?w"
      using inv_linked [OF assms(1)] by (auto simp: linked_def lists_ok_def lent_ok_def eps_ok_def)
    ultimately show ?thesis by (simp add: linked_def)
  qed
  ultimately have "obj_inv exact ?w" by (simp add: obj_inv_def)
  then show ?thesis using assms(1) by (simp add: rds_fabric_def)
qed

lemma safe_fabric_close:
  assumes "obj_inv exact w" and "live w Fabric i"
  shows "safe exact (rds_fabric_close i w)"
proof -
  obtain f where f: "fabrics w i = Some f" using assms(2) by (auto simp: live_def)
  let ?w = "w\<lparr>fabrics := (fabrics w)(i := None)\<rparr>"
  have "obj_inv exact ?w" if "fb_ref f = 0"
  proof (rule obj_invI)
    show "counts exact (\<lambda>_ _. 0) ?w" by (rule counts_put_up(5) [OF inv_counts [OF assms(1)]]) (simp add: f that)
    show "linked ?w" by (rule linked_keep [OF inv_linked [OF assms(1)]]) (auto split: if_splits)
  qed simp
  then show ?thesis using assms(1) by (simp add: rds_fabric_close_def f)
qed

lemma at_up:
  "at y d 1 x j - up y x j d = 0" "at y d (- 1) x j + up y x j d = 0" "- up y x j d + at y d 1 x j = 0"
  by (auto simp: at_def up_def)

lemma add_ref_domain:
  assumes "add_ref Domain d n w = Some w'"
  shows "avs w' = avs w" "cqs w' = cqs w" "cntrs w' = cntrs w" "eqs w' = eqs w" "fabrics w' = fabrics w"
  using assms by (auto simp: add_ref_def)

lemma add_ref_fabric:
  assumes "add_ref Fabric f n w = Some w'"
  shows "eqs w' = eqs w" "domains w' = domains w"
  using assms by (auto simp: add_ref_def)

lemma linked_add_ref: "add_ref x i n w = Some w' \<Longrightarrow> linked w' \<longleftrightarrow> linked w"
  by (simp add: linked_def lists_ok_def domains_ok_def lent_ok_def eps_ok_def add_ref_view)

lemma live_add_ref: "live w x i \<Longrightarrow> \<exists>w'. add_ref x i n w = Some w' \<and> live w' = live w"
  using add_ref_live [of w x i n] add_ref_view(5) by blast

lemma inv_eq_freed:
  assumes inv: "obj_inv exact w" and q: "eqs w i = Some q" and "eq_ref q = 0"
  obtains w1 where "add_ref Fabric (eq_fabric q) (- 1) w = Some w1" and "obj_inv exact (w1\<lparr>eqs := (eqs w1)(i := None)\<rparr>)"
proof -
  obtain w1 where w1: "add_ref Fabric (eq_fabric q) (- 1) w = Some w1" using add_ref_live [OF pointer_live(3) [OF inv q]] by blast
  have "obj_inv exact (w1\<lparr>eqs := (eqs w1)(i := None)\<rparr>)"
  proof (rule obj_invI)
    show "counts exact (\<lambda>x j. at Fabric (eq_fabric q) (- 1) x j + up Fabric x j (eq_fabric q)) (w1\<lparr>eqs := (eqs w1)(i := None)\<rparr>)"
      using counts_put_up(1) [OF counts_add_ref [OF inv_counts [OF inv] w1], of None i] by (simp add: add_ref_fabric [OF w1] q assms(3))
    show "linked (w1\<lparr>eqs := (eqs w1)(i := None)\<rparr>)"
      by (rule linked_keep [of w1]) (use inv_linked [OF inv] linked_add_ref [OF w1] in auto)
  qed (simp add: add_ref_fabric [OF w1] q at_up)
  with w1 show thesis by (rule that)
qed

lemma safe_eq_close:
  assumes "obj_inv exact w" and "live w Eq i"
  shows "safe exact (util_eq_close i w)"
proof -
  obtain q where q: "eqs w i = Some q" using assms(2) by (auto simp: live_def)
  show ?thesis
  proof (cases "eq_ref q = 0")
    case True
    from inv_eq_freed [OF assms(1) q True] obtain w1 where
      "add_ref Fabric (eq_fabric q) (- 1) w = Some w1" and "obj_inv exact (w1\<lparr>eqs := (eqs w1)(i := None)\<rparr>)" .
    then show ?thesis using True by (simp add: util_eq_close_def ofi_eq_cleanup_def q)
  qed (use assms(1) in \<open>simp add: util_eq_close_def ofi_eq_cleanup_def q\<close>)
qed

lemma inv_eq_opened:
  assumes inv: "obj_inv exact w" and "live w Fabric f" and free: "eqs w i = None"
  obtains w1 where "add_ref Fabric f 1 (w\<lparr>eqs := (eqs w)(i \<mapsto> \<lparr>eq_ref = 0, eq_fabric = f\<rparr>)\<rparr>) = Some w1" and "obj_inv exact w1"
    and "eqs w1 i = Some \<lparr>eq_ref = 0, eq_fabric = f\<rparr>"
proof -
  let ?w = "w\<lparr>eqs := (eqs w)(i \<mapsto> \<lparr>eq_ref = 0, eq_fabric = f\<rparr>)\<rparr>"
  have "live ?w Fabric f" using assms(2) by (simp add: live_def)
  then obtain w1 where w1: "add_ref Fabric f 1 ?w = Some w1" using add_ref_live by blast
  have "counts exact (\<lambda>x j. 0 - up Fabric x j f + 0) ?w"
    using counts_put_up(1) [OF inv_counts [OF inv], of "Some \<lparr>eq_ref = 0, eq_fabric = f\<rparr>" i] free by simp
  from counts_add_ref [OF this w1] have "counts exact (\<lambda>x j. 0 - up Fabric x j f + 0 + at Fabric f 1 x j) w1" .
  moreover have "linked w1"
    unfolding linked_add_ref [OF w1] by (rule linked_keep [OF inv_linked [OF inv]]) auto
  ultimately have "obj_inv exact w1" by (intro obj_invI) (auto simp: at_up)
  with w1 add_ref_fabric(1) [OF w1] show thesis using that by simp
qed

lemma safe_eq_create:
  assumes "obj_inv exact w" and "live w Fabric f" and "eqs w i = None"
  shows "safe exact (ofi_eq_create ok wait poll attr f i w)"
proof -
  from inv_eq_opened [OF assms] obtain w1 where w1: "add_ref Fabric f 1 (w\<lparr>eqs := (eqs w)(i \<mapsto> \<lparr>eq_ref = 0, eq_fabric = f\<rparr>)\<rparr>) = Some w1"
    "obj_inv exact w1" "eqs w1 i = Some \<lparr>eq_ref = 0, eq_fabric = f\<rparr>" .
  from inv_eq_freed [OF w1(2,3)] obtain w2 where w2: "add_ref Fabric f (- 1) w1 = Some w2" "obj_inv exact (w2\<lparr>eqs := (eqs w2)(i := None)\<rparr>)" by auto
  show ?thesis using assms(1) w1 w2 by (auto simp: ofi_eq_create_def Let_def ofi_eq_cleanup_def)
qed

lemma obj_inv_weak: "obj_inv exact w \<Longrightarrow> obj_inv (exact \<and> b) w"
  by (auto simp: obj_inv_def counts_def)

lemma safe_weak: "safe exact r \<Longrightarrow> safe (exact \<and> b) r"
  by (auto simp: safe_def intro: obj_inv_weak)

lemma inv_leaked: "obj_inv exact w \<Longrightarrow> add_ref x i 1 w = Some w' \<Longrightarrow> obj_inv False w'"
  unfolding obj_inv_def by (auto simp: linked_add_ref at_def intro: counts_weak [OF counts_add_ref])

lemma add_ref_domain_put:
  "add_ref Domain d n (w\<lparr>cntrs := m\<rparr>) = map_option (\<lambda>w. w\<lparr>cntrs := m\<rparr>) (add_ref Domain d n w)"
  by (cases "domains w d") (simp_all add: add_ref_def)

text \<open>A new object of a domain, and a freed one.\<close>

lemma inv_opened:
  assumes inv: "obj_inv exact w" and w1: "add_ref Domain d 1 w = Some w1"
  shows "avs w i = None \<Longrightarrow> obj_inv exact (w1\<lparr>avs := (avs w1)(i \<mapsto> \<lparr>ao_ref = 0, ao_domain = d, ao_eps = []\<rparr>)\<rparr>)"
    and "cqs w i = None \<Longrightarrow> obj_inv exact (w1\<lparr>cqs := (cqs w1)(i \<mapsto> \<lparr>co_ref = 0, co_domain = d, co_eps = [], co_store = q\<rparr>)\<rparr>)"
    and "cntrs w i = None \<Longrightarrow> obj_inv exact (w1\<lparr>cntrs := (cntrs w1)(i \<mapsto> \<lparr>no_ref = 0, no_domain = d, no_eps = []\<rparr>)\<rparr>)"
proof -
  note c = counts_put_up [OF counts_add_ref [OF inv_counts [OF inv] w1]]
  have l: "linked w1" using inv_linked [OF inv] linked_add_ref [OF w1] by simp
  show "obj_inv exact (w1\<lparr>avs := (avs w1)(i \<mapsto> \<lparr>ao_ref = 0, ao_domain = d, ao_eps = []\<rparr>)\<rparr>)" if "avs w i = None"
  proof (rule obj_invI)
    show "counts exact (\<lambda>x j. at Domain d 1 x j - up Domain x j d) (w1\<lparr>avs := (avs w1)(i \<mapsto> \<lparr>ao_ref = 0, ao_domain = d, ao_eps = []\<rparr>)\<rparr>)"
      using c(2) [of "Some \<lparr>ao_ref = 0, ao_domain = d, ao_eps = []\<rparr>" i] that by (simp add: add_ref_domain [OF w1])
  qed (auto simp: at_up intro: linked_keep [OF l] split: if_splits)
  show "obj_inv exact (w1\<lparr>cqs := (cqs w1)(i \<mapsto> \<lparr>co_ref = 0, co_domain = d, co_eps = [], co_store = q\<rparr>)\<rparr>)" if "cqs w i = None"
  proof (rule obj_invI)
    show "counts exact (\<lambda>x j. at Domain d 1 x j - up Domain x j d)
        (w1\<lparr>cqs := (cqs w1)(i \<mapsto> \<lparr>co_ref = 0, co_domain = d, co_eps = [], co_store = q\<rparr>)\<rparr>)"
      using c(3) [of "Some \<lparr>co_ref = 0, co_domain = d, co_eps = [], co_store = q\<rparr>" i] that by (simp add: add_ref_domain [OF w1])
  qed (auto simp: at_up intro: linked_keep [OF l] split: if_splits)
  show "obj_inv exact (w1\<lparr>cntrs := (cntrs w1)(i \<mapsto> \<lparr>no_ref = 0, no_domain = d, no_eps = []\<rparr>)\<rparr>)" if "cntrs w i = None"
  proof (rule obj_invI)
    show "counts exact (\<lambda>x j. at Domain d 1 x j - up Domain x j d) (w1\<lparr>cntrs := (cntrs w1)(i \<mapsto> \<lparr>no_ref = 0, no_domain = d, no_eps = []\<rparr>)\<rparr>)"
      using c(4) [of "Some \<lparr>no_ref = 0, no_domain = d, no_eps = []\<rparr>" i] that by (simp add: add_ref_domain [OF w1])
  qed (auto simp: at_up intro: linked_keep [OF l] split: if_splits)
qed

lemma inv_freed:
  assumes inv: "obj_inv exact w" and w1: "add_ref Domain d (- 1) w = Some w1"
  shows "avs w i = Some a \<Longrightarrow> ao_domain a = d \<Longrightarrow> ao_ref a = 0 \<Longrightarrow> obj_inv exact (w1\<lparr>avs := (avs w1)(i := None)\<rparr>)"
    and "cqs w i = Some q \<Longrightarrow> co_domain q = d \<Longrightarrow> co_ref q = 0 \<Longrightarrow> obj_inv exact (w1\<lparr>cqs := (cqs w1)(i := None)\<rparr>)"
    and "cntrs w i = Some c \<Longrightarrow> no_domain c = d \<Longrightarrow> no_ref c = 0 \<Longrightarrow> obj_inv exact (w1\<lparr>cntrs := (cntrs w1)(i := None)\<rparr>)"
proof -
  note c = counts_put_up [OF counts_add_ref [OF inv_counts [OF inv] w1]]
  have l: "linked w1" using inv_linked [OF inv] linked_add_ref [OF w1] by simp
  show "obj_inv exact (w1\<lparr>avs := (avs w1)(i := None)\<rparr>)" if "avs w i = Some a" "ao_domain a = d" "ao_ref a = 0"
  proof (rule obj_invI)
    show "counts exact (\<lambda>x j. at Domain d (- 1) x j + up Domain x j d) (w1\<lparr>avs := (avs w1)(i := None)\<rparr>)"
      using c(2) [of None i] that by (simp add: add_ref_domain [OF w1])
  qed (auto simp: at_up intro: linked_keep [OF l] split: if_splits)
  show "obj_inv exact (w1\<lparr>cqs := (cqs w1)(i := None)\<rparr>)" if "cqs w i = Some q" "co_domain q = d" "co_ref q = 0"
  proof (rule obj_invI)
    show "counts exact (\<lambda>x j. at Domain d (- 1) x j + up Domain x j d) (w1\<lparr>cqs := (cqs w1)(i := None)\<rparr>)"
      using c(3) [of None i] that by (simp add: add_ref_domain [OF w1])
  qed (auto simp: at_up intro: linked_keep [OF l] split: if_splits)
  show "obj_inv exact (w1\<lparr>cntrs := (cntrs w1)(i := None)\<rparr>)" if "cntrs w i = Some c" "no_domain c = d" "no_ref c = 0"
  proof (rule obj_invI)
    show "counts exact (\<lambda>x j. at Domain d (- 1) x j + up Domain x j d) (w1\<lparr>cntrs := (cntrs w1)(i := None)\<rparr>)"
      using c(4) [of None i] that by (simp add: add_ref_domain [OF w1])
  qed (auto simp: at_up intro: linked_keep [OF l] split: if_splits)
qed

lemma safe_av_create:
  assumes "obj_inv exact w" and "live w Domain d" and "avs w i = None"
  shows "safe (exact \<and> pool = 0) (ofi_ip_av_create ok lock1 lock2 pool dtype attr d i w)"
proof -
  obtain w1 where w1: "add_ref Domain d 1 w = Some w1" using add_ref_live [OF assms(2)] by blast
  show ?thesis
    using inv_leaked [OF assms(1) w1] inv_opened(1) [OF assms(1) w1 assms(3)] obj_inv_weak [OF assms(1)]
    by (auto simp: ofi_ip_av_create_def Let_def w1)
qed

lemma safe_av_close:
  assumes "obj_inv exact w" and "live w Av i"
  shows "safe exact (ip_av_close i w)"
proof -
  obtain a where a: "avs w i = Some a" using assms(2) by (auto simp: live_def)
  obtain w1 where w1: "add_ref Domain (ao_domain a) (- 1) w = Some w1" using add_ref_live [OF pointer_live(4) [OF assms(1) a]] by blast
  show ?thesis using assms(1) inv_freed(1) [OF assms(1) w1 a] by (simp add: ip_av_close_def a w1)
qed

lemma safe_cq_open:
  assumes "obj_inv exact w" and "live w Domain d" and "cqs w i = None"
  shows "safe exact (rds_cq_open qe attr d i w)"
proof -
  obtain w1 where w1: "add_ref Domain d 1 w = Some w1" using add_ref_live [OF assms(2)] by blast
  obtain dm where dm: "domains w d = Some dm" using assms(2) by (auto simp: live_def)
  show ?thesis
    using assms(1) inv_opened(2) [OF assms(1) w1 assms(3)]
    by (simp add: rds_cq_open_def Let_def w1 dm split: sum.split)
qed

lemma safe_cq_close:
  assumes "obj_inv exact w" and "live w Cq i"
  shows "safe exact (rds_cq_close i w)"
proof -
  obtain q where q: "cqs w i = Some q" using assms(2) by (auto simp: live_def)
  obtain w1 where w1: "add_ref Domain (co_domain q) (- 1) w = Some w1" using add_ref_live [OF pointer_live(5) [OF assms(1) q]] by blast
  show ?thesis using assms(1) inv_freed(2) [OF assms(1) w1 q] by (simp add: rds_cq_close_def q w1)
qed

lemma safe_cntr_close:
  assumes "obj_inv exact w" and "live w Cntr i"
  shows "safe exact (util_cntr_close i w)"
proof -
  obtain c where c: "cntrs w i = Some c" using assms(2) by (auto simp: live_def)
  obtain w1 where w1: "add_ref Domain (no_domain c) (- 1) w = Some w1" using add_ref_live [OF pointer_live(6) [OF assms(1) c]] by blast
  show ?thesis using assms(1) inv_freed(3) [OF assms(1) w1 c] by (simp add: util_cntr_close_def ofi_cntr_cleanup_def c w1)
qed

lemma safe_cntr_open:
  assumes "obj_inv exact w" and "live w Domain d" and "cntrs w i = None"
  shows "safe exact (rds_cntr_open ok wait peer lock poll attr d i w)"
proof -
  obtain w1 where w1: "add_ref Domain d 1 w = Some w1" using add_ref_live [OF assms(2)] by blast
  let ?n = "\<lparr>no_ref = 0, no_domain = d, no_eps = []\<rparr>"
  let ?w = "w1\<lparr>cntrs := (cntrs w1)(i \<mapsto> ?n)\<rparr>"
  have inv: "obj_inv exact ?w" by (rule inv_opened(3) [OF assms(1) w1 assms(3)])
  have o: "add_ref Domain d 1 (w\<lparr>cntrs := (cntrs w)(i \<mapsto> ?n)\<rparr>) = Some ?w" by (simp add: add_ref_domain_put w1 add_ref_domain [OF w1])
  have c: "cntrs ?w i = Some ?n" by simp
  obtain w2 where w2: "add_ref Domain d (- 1) ?w = Some w2" using add_ref_live [OF pointer_live(6) [OF inv c]] by auto
  from inv_freed(3) [OF inv w2 c] have "obj_inv exact (w2\<lparr>cntrs := (cntrs w2)(i := None)\<rparr>)" by simp
  then show ?thesis using assms(1) inv w2 by (simp add: rds_cntr_open_def Let_def o ofi_cntr_cleanup_def)
qed

end
