(* ===== verification/Util_Objects_Domain.thy ===== *)
theory Util_Objects_Domain
  imports Util_Objects_Inv
begin

text \<open>Opening, binding and closing a domain keep the invariant of the reference counts.\<close>

section \<open>Domain\<close>

lemma add_ref_eq: "add_ref Eq q n w = Some w' \<Longrightarrow> domains w' = domains w"
  by (auto simp: add_ref_def)

lemma upd_fabric_list: "upd_list Fabric f g w = Some w' \<Longrightarrow> domains w' = domains w"
  by (auto simp: upd_list_def)

lemma upd_list_live: "live w x i \<Longrightarrow> x \<noteq> Eq \<Longrightarrow> x \<noteq> Domain \<Longrightarrow> \<exists>w'. upd_list x i f w = Some w'"
  by (cases x) (auto simp: live_def upd_list_def)

lemma list_live: "live w x i \<Longrightarrow> x \<noteq> Eq \<Longrightarrow> x \<noteq> Domain \<Longrightarrow> \<exists>l. list_of x i w = Some l"
  by (cases x) (auto simp: live_def list_of_def)

lemma live_put_domain [simp]:
  "live (w\<lparr>domains := (domains w)(i := v)\<rparr>) x j = (if x = Domain \<and> j = i then v \<noteq> None else live w x j)"
  by (auto simp: live_def split: kind.split)

lemma dview_put_domain [simp]:
  "dview (w\<lparr>domains := (domains w)(i := v)\<rparr>) d =
     (if d = i then map_option (\<lambda>d. (dm_fabric d, dm_eq d, dm_reg_ep d)) v else dview w d)"
  by (simp add: dview_def)

text \<open>A domain that changes in neither its count nor its pointers.\<close>

lemma inv_same_domain:
  assumes "obj_inv exact w" and "domains w i = Some d"
    and "dm_ref d' = dm_ref d" "dm_fabric d' = dm_fabric d" "dm_eq d' = dm_eq d" "dm_reg_ep d' = dm_reg_ep d"
  shows "obj_inv exact (w\<lparr>domains := (domains w)(i \<mapsto> d')\<rparr>)"
proof (rule obj_invI)
  have "dom_refs x j d' = dom_refs x j d" for x j by (simp add: dom_refs_def assms split: kind.split)
  then show "counts exact (\<lambda>_ _. 0) (w\<lparr>domains := (domains w)(i \<mapsto> d')\<rparr>)"
    using counts_put_domain [OF inv_counts [OF assms(1)], of "Some d'" i] assms(2,3) by simp
  have "dview (w\<lparr>domains := (domains w)(i \<mapsto> d')\<rparr>) = dview w" by (intro ext) (simp add: dview_def assms)
  then show "linked (w\<lparr>domains := (domains w)(i \<mapsto> d')\<rparr>)" by (intro linked_keep [OF inv_linked [OF assms(1)]]) auto
qed simp

lemma domain_close_unlinked:
  assumes "linked w" and "domains w i = Some d" and "dm_fabric d = f" and "list_of Fabric f w = Some l"
    and "\<And>y j. list_of y j w' = (if y = Fabric \<and> j = f then map_option (remove1 i) (list_of y j w) else list_of y j w)"
    and "eps w' = eps w" and "dview w' = dview w"
  shows "linked (w'\<lparr>domains := (domains w')(i := None)\<rparr>)"
proof -
  let ?w = "w'\<lparr>domains := (domains w')(i := None)\<rparr>"
  note parts = assms(1) [unfolded linked_def]
  have di: "\<exists>r. dview w i = Some (f, r)" using assms(2,3) by (simp add: dview_def)
  have dv: "dview ?w = (dview w)(i := None)" by (intro ext) (simp add: assms(7))
  have "lists_ok ?w" using parts unfolding lists_ok_def by (simp add: assms(5,6))
  moreover have "domains_ok ?w"
    unfolding domains_ok_def
  proof (intro allI impI)
    fix j k
    assume k: "list_of Fabric j ?w = Some k"
    show "distinct k \<and> set k = {d. \<exists>r. dview ?w d = Some (j, r)}"
    proof (cases "j = f")
      case True
      have "distinct l \<and> set l = {d. \<exists>r. dview w d = Some (f, r)}" using parts assms(4) unfolding domains_ok_def by blast
      moreover have "k = remove1 i l" using k True by (simp add: assms(4,5))
      ultimately show ?thesis using True by (auto simp: dv set_remove1_eq)
    next
      case False
      then have "list_of Fabric j w = Some k" using k by (simp add: assms(5))
      then have "distinct k \<and> set k = {d. \<exists>r. dview w d = Some (j, r)}" using parts unfolding domains_ok_def by blast
      then show ?thesis using False di by (auto simp: dv)
    qed
  qed
  moreover have "lent_ok ?w" using parts unfolding lent_ok_def by (auto simp: dv assms(6) split: if_splits)
  moreover have "eps_ok ?w" using parts unfolding eps_ok_def by (simp add: assms(6))
  ultimately show ?thesis by (simp add: linked_def)
qed

lemma ofi_domain_close_free:
  assumes inv: "obj_inv exact w" and d: "domains w i = Some d" and "dm_ref d = 0"
  obtains w' where "ofi_domain_close i w = Some (0, w')" and "obj_inv exact (w'\<lparr>domains := (domains w')(i := None)\<rparr>)"
proof -
  let ?f = "dm_fabric d"
  have lf: "live w Fabric ?f" using pointer_live(2) [OF inv d, of Fabric ?f] by (simp add: dom_refs_def)
  have "\<exists>w1. (case dm_eq d of None \<Rightarrow> Some w | Some q \<Rightarrow> add_ref Eq q (- 1) w) = Some w1 \<and> domains w1 = domains w \<and>
      eps w1 = eps w \<and> dview w1 = dview w \<and> live w1 = live w \<and> (\<forall>y j. list_of y j w1 = list_of y j w) \<and>
      counts exact (\<lambda>x j. - (if x = Eq then pt j (dm_eq d) else 0)) w1"
  proof (cases "dm_eq d")
    case None
    have "counts exact (\<lambda>x j. - (if x = Eq then pt j (dm_eq d) else 0)) w"
      by (rule counts_cong [OF inv_counts [OF inv]]) (simp add: None pt_def)
    then show ?thesis using None by simp
  next
    case (Some q)
    then have "live w Eq q" using pointer_live(2) [OF inv d, of Eq q] by (simp add: dom_refs_def pt_def)
    then obtain w1 where w1: "add_ref Eq q (- 1) w = Some w1" using add_ref_live by blast
    have "counts exact (\<lambda>x j. - (if x = Eq then pt j (dm_eq d) else 0)) w1"
      by (rule counts_cong [OF counts_add_ref [OF inv_counts [OF inv] w1]]) (auto simp: Some pt_def at_def)
    then show ?thesis using Some w1 add_ref_view [OF w1] add_ref_eq [OF w1] by simp
  qed
  then obtain w1 where w1: "(case dm_eq d of None \<Rightarrow> Some w | Some q \<Rightarrow> add_ref Eq q (- 1) w) = Some w1"
    and k1: "domains w1 = domains w" "eps w1 = eps w" "dview w1 = dview w" "live w1 = live w" "\<And>y j. list_of y j w1 = list_of y j w"
    and c1: "counts exact (\<lambda>x j. - (if x = Eq then pt j (dm_eq d) else 0)) w1" by blast
  obtain l where l: "list_of Fabric ?f w = Some l" using list_live [OF lf] by blast
  have "distinct l \<and> set l = {d. \<exists>r. dview w d = Some (?f, r)}"
    using inv_linked [OF inv] l unfolding linked_def domains_ok_def by blast
  then have il: "i \<in> set l" using d by (auto simp: dview_def)
  obtain w2 where w2: "upd_list Fabric ?f (remove1 i) w1 = Some w2" using upd_list_live [of w1 Fabric ?f] lf k1(4) by auto
  note k2 = upd_list_view [OF w2]
  obtain w3 where w3: "add_ref Fabric ?f (- 1) w2 = Some w3" using add_ref_live [of w2 Fabric ?f] lf k1(4) k2(4) by auto
  note k3 = add_ref_view [OF w3] add_ref_fabric [OF w3]
  have d3: "domains w3 i = Some d" using d k1(1) k3(7) upd_fabric_list [OF w2] by simp
  have c3: "counts exact (\<lambda>x j. - (if x = Eq then pt j (dm_eq d) else 0) + at Fabric ?f (- 1) x j) w3"
    by (rule counts_add_ref [OF counts_upd_list [OF c1 w2] w3])
  have "obj_inv exact (w3\<lparr>domains := (domains w3)(i := None)\<rparr>)"
  proof (rule obj_invI)
    show "counts exact (\<lambda>x j. - (if x = Eq then pt j (dm_eq d) else 0) + at Fabric ?f (- 1) x j + dom_refs x j d)
        (w3\<lparr>domains := (domains w3)(i := None)\<rparr>)"
      using counts_put_domain [OF c3, of None i] d3 assms(3) by simp
    show "- (if x = Eq then pt j (dm_eq d) else 0) + at Fabric ?f (- 1) x j + dom_refs x j d = 0" for x j
      by (cases x) (auto simp: dom_refs_def at_def)
    show "linked (w3\<lparr>domains := (domains w3)(i := None)\<rparr>)"
      by (rule domain_close_unlinked [OF inv_linked [OF inv] d refl l]) (auto simp: k1 k2 k3)
  qed
  moreover have "ofi_domain_close i w = Some (0, w3)"
    using w1 w2 w3 l il by (simp add: ofi_domain_close_def d assms(3) fid_list_remove2_def k1(5))
  ultimately show thesis using that by blast
qed

lemma safe_domain_close:
  assumes "obj_inv exact w" and "live w Domain i"
  shows "safe exact (rds_domain_close i w)"
proof -
  obtain d where d: "domains w i = Some d" using assms(2) by (auto simp: live_def)
  let ?d = "d\<lparr>dm_cache := False\<rparr>" and ?w = "w\<lparr>domains := (domains w)(i \<mapsto> d\<lparr>dm_cache := False\<rparr>)\<rparr>"
  have inv: "obj_inv exact ?w" by (rule inv_same_domain [OF assms(1) d]) simp_all
  have di: "domains ?w i = Some ?d" by simp
  show ?thesis
  proof (cases "dm_ref d = 0")
    case True
    then have "dm_ref ?d = 0" by simp
    from ofi_domain_close_free [OF inv di this] obtain w' where "ofi_domain_close i ?w = Some (0, w')"
      "obj_inv exact (w'\<lparr>domains := (domains w')(i := None)\<rparr>)" .
    then show ?thesis by (simp add: rds_domain_close_def d)
  next
    case False
    then show ?thesis using inv by (simp add: rds_domain_close_def d ofi_domain_close_def)
  qed
qed

lemma safe_domain_open:
  assumes inv: "obj_inv exact w" and f: "live w Fabric f" and free: "domains w i = None" and "rmap = 0"
  shows "safe exact (rds_domain_open chk ok lock name rmap cache caps f i w)"
proof -
  let ?d = "\<lparr>dm_ref = 0, dm_fabric = f, dm_eq = None, dm_caps = caps, dm_reg_ep = None, dm_cache = False\<rparr>"
  let ?w = "w\<lparr>domains := (domains w)(i \<mapsto> ?d)\<rparr>"
  have c: "counts exact (\<lambda>x j. - dom_refs x j ?d) ?w"
    using counts_put_domain [OF inv_counts [OF inv], of "Some ?d" i] free by simp
  have "live ?w Fabric f" using f by simp
  then obtain w1 where w1: "upd_list Fabric f (\<lambda>l. l @ [i]) ?w = Some w1" using upd_list_live [of ?w Fabric f] by auto
  note k1 = upd_list_view [OF w1] upd_fabric_list [OF w1]
  obtain w2 where w2: "add_ref Fabric f 1 w1 = Some w2" using add_ref_live [of w1 Fabric f] f k1(4) by auto
  note k2 = add_ref_view [OF w2] add_ref_fabric [OF w2]
  have d2: "domains w2 i = Some ?d" using k1(6) k2(7) by simp
  have dv: "dview w2 = (dview w)(i \<mapsto> (f, None, None))" using k1(3) k2(4) by (intro ext) simp
  have fresh: "dview w i = None" using free by (simp add: dview_def)
  have ls: "list_of y j w2 = (if y = Fabric \<and> j = f then map_option (\<lambda>l. l @ [i]) (list_of y j w) else list_of y j w)" for y j
    using k1(5) k2(3) by simp
  have es: "eps w2 = eps w" using k1(1) k2(1) by simp
  note parts = inv_linked [OF inv, unfolded linked_def]
  have "obj_inv exact w2"
  proof (rule obj_invI)
    show "counts exact (\<lambda>x j. - dom_refs x j ?d + at Fabric f 1 x j) w2" by (rule counts_add_ref [OF counts_upd_list [OF c w1] w2])
    show "- dom_refs x j ?d + at Fabric f 1 x j = 0" for x j by (cases x) (auto simp: dom_refs_def at_def pt_def)
    have "lists_ok w2" using parts unfolding lists_ok_def by (simp add: ls es)
    moreover have "domains_ok w2"
      unfolding domains_ok_def
    proof (intro allI impI)
      fix j k
      assume k: "list_of Fabric j w2 = Some k"
      then obtain l where l: "list_of Fabric j w = Some l" by (auto simp: ls split: if_splits)
      then have "distinct l \<and> set l = {d. \<exists>r. dview w d = Some (j, r)}" using parts unfolding domains_ok_def by blast
      then show "distinct k \<and> set k = {d. \<exists>r. dview w2 d = Some (j, r)}" using k l fresh by (auto simp: ls dv split: if_splits)
    qed
    moreover have "lent_ok w2" using parts unfolding lent_ok_def by (simp add: dv es)
    moreover have "eps_ok w2" using parts unfolding eps_ok_def by (simp add: es)
    ultimately show "linked w2" by (simp add: linked_def)
  qed
  then have "obj_inv exact (w2\<lparr>domains := (domains w2)(i \<mapsto> ?d\<lparr>dm_cache := cache\<rparr>)\<rparr>)" by (rule inv_same_domain [OF _ d2]) simp_all
  then show ?thesis using inv assms(4) by (simp add: rds_domain_open_def Let_def w1 w2 d2)
qed

lemma safe_domain_bind:
  assumes inv: "obj_inv exact w" and "live w Domain i" and "\<And>q. q' = Some q \<Longrightarrow> live w Eq q"
  shows "safe exact (ofi_domain_bind i q' flags w)"
proof -
  obtain d where d: "domains w i = Some d" using assms(2) by (auto simp: live_def)
  show ?thesis
  proof (cases "flags = 0 \<and> dm_eq d = None \<and> q' \<noteq> None")
    case True
    then obtain q where q: "q' = Some q" by auto
    let ?d = "d\<lparr>dm_eq := Some q\<rparr>"
    let ?w = "w\<lparr>domains := (domains w)(i \<mapsto> ?d)\<rparr>"
    obtain w1 where w1: "add_ref Eq q 1 ?w = Some w1" using add_ref_live [of ?w Eq q] assms(3) [OF q] by auto
    have c: "counts exact (\<lambda>x j. - dom_refs x j ?d + dom_refs x j d) ?w"
      using counts_put_domain [OF inv_counts [OF inv], of "Some ?d" i] d by simp
    have "obj_inv exact w1"
    proof (rule obj_invI)
      show "counts exact (\<lambda>x j. - dom_refs x j ?d + dom_refs x j d + at Eq q 1 x j) w1" by (rule counts_add_ref [OF c w1])
      show "- dom_refs x j ?d + dom_refs x j d + at Eq q 1 x j = 0" for x j using True by (cases x) (auto simp: dom_refs_def at_def pt_def)
      have dv: "dview ?w = (dview w)(i \<mapsto> (dm_fabric d, Some q, dm_reg_ep d))" by (intro ext) simp
      note parts = inv_linked [OF inv, unfolded linked_def]
      have "dview w i = Some (dm_fabric d, None, dm_reg_ep d)" using d True by (simp add: dview_def)
      then have "(\<exists>r. dview ?w k = Some (j, r)) \<longleftrightarrow> (\<exists>r. dview w k = Some (j, r))" for j k by (auto simp: dv)
      then have "domains_ok ?w" using parts unfolding domains_ok_def by simp
      moreover have "lent_ok ?w" using parts \<open>dview w i = _\<close> unfolding lent_ok_def by (auto simp: dv split: if_splits)
      moreover have "lists_ok ?w" "eps_ok ?w" using parts unfolding lists_ok_def eps_ok_def by simp_all
      ultimately show "linked w1" unfolding linked_add_ref [OF w1] by (simp add: linked_def)
    qed
    then show ?thesis using True by (simp add: ofi_domain_bind_def d q w1)
  qed (use inv in \<open>auto simp: ofi_domain_bind_def d split: option.split\<close>)
qed

end
