(* ===== verification/Util_Objects_Ep.thy ===== *)
theory Util_Objects_Ep
  imports Util_Objects_Domain
begin

text \<open>Opening, binding, enabling and closing an endpoint keep the invariant of the reference counts.\<close>

section \<open>Binding\<close>

text \<open>An endpoint that keeps its pointers and may gain some.\<close>

lemma linked_put_ep:
  assumes "linked w" and "eps w e = Some ep" and "\<And>x i. x \<noteq> Eq \<Longrightarrow> 0 < ep_refs x i ep \<Longrightarrow> 0 < ep_refs x i ep'"
    and "eo_domain ep' = eo_domain ep" "eo_ref ep' = eo_ref ep" "length (eo_cntrs ep') = length (eo_cntrs ep)"
  shows "linked (w\<lparr>eps := (eps w)(e \<mapsto> ep')\<rparr>)"
proof -
  let ?w = "w\<lparr>eps := (eps w)(e \<mapsto> ep')\<rparr>"
  note parts = assms(1) [unfolded linked_def]
  have keep: "\<exists>ep2. eps ?w k = Some ep2 \<and> 0 < ep_refs x i ep2" if "x \<noteq> Eq" "\<exists>ep1. eps w k = Some ep1 \<and> 0 < ep_refs x i ep1" for x i k
    using that assms(2,3) by auto
  have "lists_ok ?w"
    unfolding lists_ok_def
  proof (intro allI impI)
    fix x i l
    assume x: "x \<noteq> Fabric \<and> list_of x i ?w = Some l"
    then have "x \<noteq> Eq" by (auto simp: list_of_def)
    from x have "distinct l \<and> (\<forall>k \<in> set l. \<exists>ep1. eps w k = Some ep1 \<and> 0 < ep_refs x i ep1)"
      using parts unfolding lists_ok_def list_of_put by blast
    then show "distinct l \<and> (\<forall>k \<in> set l. \<exists>ep2. eps ?w k = Some ep2 \<and> 0 < ep_refs x i ep2)" using keep \<open>x \<noteq> Eq\<close> by blast
  qed
  moreover have "domains_ok ?w" using parts by (simp add: domains_ok_def)
  moreover have "lent_ok ?w"
    unfolding lent_ok_def
  proof (intro allI impI)
    fix d f q k
    assume "dview ?w d = Some (f, q, Some k)"
    then have "dview w d = Some (f, q, Some k)" by simp
    then obtain ep1 where "eps w k = Some ep1" "eo_domain ep1 = d" using parts unfolding lent_ok_def by blast
    then show "\<exists>ep2. eps ?w k = Some ep2 \<and> eo_domain ep2 = d" using assms(2,4) by auto
  qed
  moreover have "eps_ok ?w" using parts assms(2,5,6) by (auto simp: eps_ok_def)
  ultimately show ?thesis by (simp add: linked_def)
qed

lemma inv_bind:
  assumes inv: "obj_inv exact w" and ep: "eps w e = Some ep" and "live w x c"
    and more: "\<And>y j. ep_refs y j ep' = ep_refs y j ep + at x c 1 y j"
    and same: "eo_domain ep' = eo_domain ep" "eo_ref ep' = eo_ref ep" "length (eo_cntrs ep') = length (eo_cntrs ep)"
  shows "\<exists>w1. add_ref x c 1 (w\<lparr>eps := (eps w)(e \<mapsto> ep')\<rparr>) = Some w1 \<and> obj_inv exact w1 \<and> eps w1 = (eps w)(e \<mapsto> ep') \<and>
    live w1 = live w \<and> dview w1 = dview w \<and> (\<forall>y j. list_of y j w1 = list_of y j w) \<and> 0 < ep_refs x c ep'"
proof -
  let ?w = "w\<lparr>eps := (eps w)(e \<mapsto> ep')\<rparr>"
  obtain w1 where w1: "add_ref x c 1 ?w = Some w1" using add_ref_live [of ?w x c] assms(3) by auto
  have c: "counts exact (\<lambda>y j. - ep_refs y j ep' + ep_refs y j ep) ?w"
    using counts_put_ep [OF inv_counts [OF inv], of "Some ep'" e] ep by simp
  have pos: "0 < ep_refs y j ep \<Longrightarrow> 0 < ep_refs y j ep'" for y j
    using more [of y j] ep_refs_nonneg [of y j ep] by (auto simp: at_def split: if_splits)
  have "obj_inv exact w1"
  proof (rule obj_invI)
    show "counts exact (\<lambda>y j. - ep_refs y j ep' + ep_refs y j ep + at x c 1 y j) w1" by (rule counts_add_ref [OF c w1])
    show "linked w1" unfolding linked_add_ref [OF w1] by (rule linked_put_ep [OF inv_linked [OF inv] ep pos same])
  qed (simp add: more)
  moreover have "0 < ep_refs x c ep'" using more [of x c] ep_refs_nonneg [of x c ep] by (simp add: at_def)
  ultimately show ?thesis using w1 add_ref_view [OF w1] by simp
qed

lemma inv_listed:
  assumes inv: "obj_inv exact w" and ep: "eps w e = Some ep" "0 < ep_refs x c ep" and x: "x = Cq \<or> x = Cntr \<or> x = Av"
    and l: "list_of x c w = Some l" "e \<notin> set l" and w1: "upd_list x c (\<lambda>l. l @ [e]) w = Some w1"
  shows "obj_inv exact w1"
proof -
  note k = upd_list_view [OF w1] and parts = inv_linked [OF inv, unfolded linked_def]
  have xf: "x \<noteq> Fabric" using x by auto
  have "lists_ok w1"
    unfolding lists_ok_def
  proof (intro allI impI)
    fix y j m
    assume y: "y \<noteq> Fabric \<and> list_of y j w1 = Some m"
    show "distinct m \<and> (\<forall>k \<in> set m. \<exists>ep. eps w1 k = Some ep \<and> 0 < ep_refs y j ep)"
    proof (cases "y = x \<and> j = c")
      case True
      have "distinct l \<and> (\<forall>k \<in> set l. \<exists>ep. eps w k = Some ep \<and> 0 < ep_refs x c ep)" using parts l xf unfolding lists_ok_def by blast
      moreover have "m = l @ [e]" using True y k(5) l by simp
      ultimately show ?thesis using True l(2) ep k(1) by simp
    next
      case False
      then have "list_of y j w = Some m" using y k(5) [of y j] by (auto split: if_splits)
      then show ?thesis using parts y unfolding lists_ok_def k(1) by blast
    qed
  qed
  moreover have "domains_ok w1" using parts xf by (simp add: domains_ok_def k)
  moreover have "lent_ok w1" "eps_ok w1" using parts by (simp_all add: lent_ok_def eps_ok_def k)
  ultimately show ?thesis unfolding obj_inv_def using counts_upd_list [OF inv_counts [OF inv] w1] by (simp add: linked_def)
qed

lemma safe_list_insert:
  assumes "obj_inv exact w" and "eps w e = Some ep" "0 < ep_refs x c ep" and x: "x = Cq \<or> x = Cntr \<or> x = Av" and lv: "live w x c"
  shows "safe exact (fid_list_insert2 ok x c e w)"
proof -
  have x': "x \<noteq> Eq" "x \<noteq> Domain" using x by auto
  obtain l where l: "list_of x c w = Some l" using list_live [OF lv x'] by blast
  obtain w1 where w1: "upd_list x c (\<lambda>l. l @ [e]) w = Some w1" using upd_list_live [OF lv x'] by blast
  show ?thesis
    using assms(1) inv_listed [OF assms(1-3) x l _ w1] by (simp add: fid_list_insert2_def l w1)
qed

lemma safe_bind_av:
  assumes inv: "obj_inv exact w" and "eps w e \<noteq> None" and lv: "live w Av a"
  shows "safe exact (ofi_ep_bind_av e a w)"
proof -
  obtain ep where ep: "eps w e = Some ep" using assms(2) by blast
  show ?thesis
  proof (cases "eo_av ep")
    case None
    have more: "ep_refs y j (ep\<lparr>eo_av := Some a\<rparr>) = ep_refs y j ep + at Av a 1 y j" for y j
      using None by (cases y) (auto simp: ep_refs_def at_def pt_def)
    from inv_bind [OF inv ep lv more] obtain w1 where w1: "add_ref Av a 1 (w\<lparr>eps := (eps w)(e \<mapsto> ep\<lparr>eo_av := Some a\<rparr>)\<rparr>) = Some w1"
      "obj_inv exact w1" "eps w1 = (eps w)(e \<mapsto> ep\<lparr>eo_av := Some a\<rparr>)" "live w1 = live w" "0 < ep_refs Av a (ep\<lparr>eo_av := Some a\<rparr>)"
      "\<And>y j. list_of y j w1 = list_of y j w" by force
    have lv1: "live w1 Av a" using lv w1(4) by simp
    obtain l where l: "list_of Av a w = Some l" using list_live [OF lv] by blast
    have "e \<notin> set l"
    proof
      assume "e \<in> set l"
      then have "\<exists>ep1. eps w e = Some ep1 \<and> 0 < ep_refs Av a ep1"
        using inv_linked [OF inv] l unfolding linked_def lists_ok_def by blast
      then show False using ep None by (simp add: ep_refs_def pt_def)
    qed
    moreover obtain w2 where w2: "upd_list Av a (\<lambda>l. l @ [e]) w1 = Some w2" using upd_list_live [OF lv1] by blast
    ultimately have "obj_inv exact w2" using inv_listed [OF w1(2) _ w1(5) _ _ _ w2] w1(3,6) l by simp
    then show ?thesis by (simp add: ofi_ep_bind_av_def ep None w1(1) w2)
  qed (use inv in \<open>simp add: ofi_ep_bind_av_def ep\<close>)
qed

lemma safe_bind_eq:
  assumes inv: "obj_inv exact w" and "eps w e = Some ep" and lv: "live w Eq q"
  shows "\<exists>w2. ofi_ep_bind_eq e q w = Some (0, w2) \<and> obj_inv exact w2 \<and> eps w2 = (eps w)(e \<mapsto> ep\<lparr>eo_eq := Some q\<rparr>) \<and>
    dview w2 = dview w \<and> (\<forall>y j. list_of y j w2 = list_of y j w)"
proof -
  note ep = assms(2)
  let ?ep = "ep\<lparr>eo_eq := Some q\<rparr>"
  have "\<exists>w1. (case eo_eq ep of None \<Rightarrow> Some w | Some q' \<Rightarrow> add_ref Eq q' (- 1) w) = Some w1 \<and> eps w1 = eps w \<and> linked w1 \<and>
      live w1 = live w \<and> dview w1 = dview w \<and> (\<forall>y j. list_of y j w1 = list_of y j w) \<and>
      counts exact (\<lambda>x j. - (if x = Eq then pt j (eo_eq ep) else 0)) w1"
  proof (cases "eo_eq ep")
    case None
    have "counts exact (\<lambda>x j. - (if x = Eq then pt j (eo_eq ep) else 0)) w"
      by (rule counts_cong [OF inv_counts [OF inv]]) (simp add: None pt_def)
    then show ?thesis using None inv_linked [OF inv] by simp
  next
    case (Some q')
    then have "live w Eq q'" using pointer_live(1) [OF inv ep, of Eq q'] by (simp add: ep_refs_def pt_def)
    then obtain w1 where w1: "add_ref Eq q' (- 1) w = Some w1" using add_ref_live by blast
    have "counts exact (\<lambda>x j. - (if x = Eq then pt j (eo_eq ep) else 0)) w1"
      by (rule counts_cong [OF counts_add_ref [OF inv_counts [OF inv] w1]]) (auto simp: Some pt_def at_def)
    then show ?thesis using Some w1 add_ref_view [OF w1] linked_add_ref [OF w1] inv_linked [OF inv] by simp
  qed
  then obtain w1 where w1: "(case eo_eq ep of None \<Rightarrow> Some w | Some q' \<Rightarrow> add_ref Eq q' (- 1) w) = Some w1" "eps w1 = eps w" "linked w1"
    "live w1 = live w" "dview w1 = dview w" "\<And>y j. list_of y j w1 = list_of y j w"
    "counts exact (\<lambda>x j. - (if x = Eq then pt j (eo_eq ep) else 0)) w1" by blast
  let ?w = "w1\<lparr>eps := (eps w1)(e \<mapsto> ?ep)\<rparr>"
  obtain w2 where w2: "add_ref Eq q 1 ?w = Some w2" using add_ref_live [of ?w Eq q] lv w1(4) by auto
  have c: "counts exact (\<lambda>x j. - (if x = Eq then pt j (eo_eq ep) else 0) - ep_refs x j ?ep + ep_refs x j ep) ?w"
    using counts_put_ep [OF w1(7), of "Some ?ep" e] ep w1(2) by simp
  have "obj_inv exact w2"
  proof (rule obj_invI)
    show "counts exact (\<lambda>x j. - (if x = Eq then pt j (eo_eq ep) else 0) - ep_refs x j ?ep + ep_refs x j ep + at Eq q 1 x j) w2"
      by (rule counts_add_ref [OF c w2])
    show "- (if x = Eq then pt j (eo_eq ep) else 0) - ep_refs x j ?ep + ep_refs x j ep + at Eq q 1 x j = 0" for x j
      by (cases x) (auto simp: ep_refs_def at_def pt_def)
    have "linked ?w"
    proof (rule linked_put_ep [OF w1(3)])
      show "eps w1 e = Some (ep)" using ep w1(2) by simp
      show "0 < ep_refs x i ?ep" if "x \<noteq> Eq" "0 < ep_refs x i ep" for x i using that by (cases x) (auto simp: ep_refs_def)
    qed simp_all
    then show "linked w2" unfolding linked_add_ref [OF w2] .
  qed
  then show ?thesis using w1 w2 add_ref_view [OF w2] ep by (auto simp: ofi_ep_bind_eq_def)
qed

lemma bind_cq_room:
  assumes "ofi_check_bind_cq_flags has_tx has_rx flags = 0"
  shows "has_flag flags FI_SEND \<Longrightarrow> \<not> has_tx" "has_flag flags FI_RECV \<Longrightarrow> \<not> has_rx"
  using assms by (auto simp: ofi_check_bind_cq_flags_def has_flag_def split: if_splits)

lemma has_flag_or: "has_flag w (a OR b) \<longleftrightarrow> has_flag w a \<or> has_flag w b"
  by (simp add: has_flag_def bit.conj_disj_distrib or_eq_0_iff)

lemma has_send_recv: "has_flag flags 3072 \<longleftrightarrow> has_flag flags FI_SEND \<or> has_flag flags FI_RECV"
  using has_flag_or [of flags 2048 1024] by simp

lemma bind_side:
  assumes "obj_inv exact w" and "eps w e = Some ep" and "live w x c"
    and "\<And>y j. b \<Longrightarrow> ep_refs y j ep' = ep_refs y j ep + at x c 1 y j"
    and "eo_domain ep' = eo_domain ep" "eo_ref ep' = eo_ref ep" "length (eo_cntrs ep') = length (eo_cntrs ep)"
  shows "\<exists>w1. (if b then add_ref x c 1 (w\<lparr>eps := (eps w)(e \<mapsto> ep')\<rparr>) else Some w) = Some w1 \<and> obj_inv exact w1 \<and>
    eps w1 e = Some (if b then ep' else ep) \<and> live w1 = live w \<and> (b \<longrightarrow> 0 < ep_refs x c ep')"
proof (cases b)
  case True
  from inv_bind [OF assms(1-3) assms(4) [OF True] assms(5-7)] True show ?thesis by auto
qed (use assms(1,2) in auto)

lemma set_cq_refs:
  "eo_tx_cq ep = None \<Longrightarrow> ep_refs y j (set_tx_cq c flags ep) = ep_refs y j ep + at Cq c 1 y j"
  "eo_rx_cq ep = None \<Longrightarrow> ep_refs y j (set_rx_cq c flags ep) = ep_refs y j ep + at Cq c 1 y j"
  by (cases y; auto simp: set_tx_cq_def set_rx_cq_def ep_refs_def at_def pt_def)+

lemma set_cq_same:
  "eo_domain (set_tx_cq c flags ep) = eo_domain ep" "eo_ref (set_tx_cq c flags ep) = eo_ref ep"
  "length (eo_cntrs (set_tx_cq c flags ep)) = length (eo_cntrs ep)" "eo_rx_cq (set_tx_cq c flags ep) = eo_rx_cq ep"
  "eo_domain (set_rx_cq c flags ep) = eo_domain ep" "eo_ref (set_rx_cq c flags ep) = eo_ref ep"
  "length (eo_cntrs (set_rx_cq c flags ep)) = length (eo_cntrs ep)"
  by (simp_all add: set_tx_cq_def set_rx_cq_def)

lemma safe_bind_cq:
  assumes inv: "obj_inv exact w" and "eps w e \<noteq> None" and lv: "live w Cq c"
  shows "safe exact (ofi_ep_bind_cq ok e c flags w)"
proof -
  obtain ep where ep: "eps w e = Some ep" using assms(2) by blast
  show ?thesis
  proof (cases "ofi_check_bind_cq_flags (eo_tx_cq ep \<noteq> None) (eo_rx_cq ep \<noteq> None) flags = 0")
    case True
    note room = bind_cq_room [OF True]
    define ep1 where "ep1 = (if has_flag flags FI_SEND then set_tx_cq c flags ep else ep)"
    define ep2 where "ep2 = (if has_flag flags FI_RECV then set_rx_cq c flags ep1 else ep1)"
    have "\<And>y j. has_flag flags FI_SEND \<Longrightarrow> ep_refs y j (set_tx_cq c flags ep) = ep_refs y j ep + at Cq c 1 y j"
      using room(1) by (intro set_cq_refs) blast
    from bind_side [OF inv ep lv this set_cq_same(1-3)]
    obtain w1 where w1: "(if has_flag flags FI_SEND then add_ref Cq c 1 (w\<lparr>eps := (eps w)(e \<mapsto> set_tx_cq c flags ep)\<rparr>) else Some w) = Some w1"
      "obj_inv exact w1" "eps w1 e = Some ep1" "live w1 = live w" "has_flag flags FI_SEND \<Longrightarrow> 0 < ep_refs Cq c (set_tx_cq c flags ep)"
      unfolding ep1_def by blast
    have lv1: "live w1 Cq c" using lv w1(4) by simp
    have "\<And>y j. has_flag flags FI_RECV \<Longrightarrow> ep_refs y j (set_rx_cq c flags ep1) = ep_refs y j ep1 + at Cq c 1 y j"
      using room(2) by (intro set_cq_refs) (auto simp: ep1_def set_cq_same)
    from bind_side [OF w1(2,3) lv1 this set_cq_same(5-7)]
    obtain w2 where w2: "(if has_flag flags FI_RECV then add_ref Cq c 1 (w1\<lparr>eps := (eps w1)(e \<mapsto> set_rx_cq c flags ep1)\<rparr>) else Some w1) = Some w2"
      "obj_inv exact w2" "eps w2 e = Some ep2" "live w2 = live w1" "has_flag flags FI_RECV \<Longrightarrow> 0 < ep_refs Cq c (set_rx_cq c flags ep1)"
      unfolding ep2_def by blast
    have "live w2 Cq c" using lv1 w2(4) by simp
    moreover have "0 < ep_refs Cq c ep2" if "has_flag flags 3072"
      using that w1(5) w2(5) by (cases "has_flag flags FI_RECV") (auto simp: has_send_recv ep2_def ep1_def)
    ultimately have "has_flag flags 3072 \<Longrightarrow> safe exact (fid_list_insert2 ok Cq c e w2)" using safe_list_insert [OF w2(2,3)] by blast
    moreover have "ofi_ep_bind_cq ok e c flags w = (if has_flag flags 3072 then fid_list_insert2 ok Cq c e w2 else Some (0, w2))"
      unfolding ofi_ep_bind_cq_def ep Let_def bind.bind_lunit w1(1) w1(3) w2(1) using True by simp
    ultimately show ?thesis using w2(2) by simp
  qed (use inv in \<open>simp add: ofi_ep_bind_cq_def ep Let_def\<close>)
qed

lemma sum_list_slot:
  "i < length cs \<Longrightarrow> cs ! i = None \<Longrightarrow> sum_list (map (pt j) (cs[i := Some c])) = sum_list (map (pt j) cs) + of_bool (c = j)"
  by (induction cs arbitrary: i) (auto simp: pt_def nth_Cons split: nat.splits)

lemma bind_cntrs_inv:
  assumes "obj_inv exact w" and "eps w e = Some ep" and "live w Cntr c" and "distinct (map fst fs)"
    and "\<And>i f. (i, f) \<in> set fs \<Longrightarrow> i < CNTR_CNT \<and> (has_flag flags f \<longrightarrow> eo_cntrs ep ! i = None)"
  shows "\<exists>w' ep'. bind_cntrs fs e c flags w = Some w' \<and> obj_inv exact w' \<and> eps w' e = Some ep' \<and> live w' = live w \<and>
    (0 < ep_refs Cntr c ep \<or> list_ex (\<lambda>z. has_flag flags (snd z)) fs \<longrightarrow> 0 < ep_refs Cntr c ep')"
  using assms
proof (induction fs arbitrary: w ep)
  case (Cons z fs)
  obtain i f where z: "z = (i, f)" by (cases z)
  have d: "distinct (map fst fs)" and new: "\<And>k g. (k, g) \<in> set fs \<Longrightarrow> k \<noteq> i" using Cons.prems(4) z by force+
  have room: "\<And>k g. (k, g) \<in> set fs \<Longrightarrow> k < CNTR_CNT \<and> (has_flag flags g \<longrightarrow> eo_cntrs ep ! k = None)"
    by (rule Cons.prems(5)) simp
  show ?case
  proof (cases "has_flag flags f")
    case True
    let ?ep = "ep\<lparr>eo_cntrs := (eo_cntrs ep)[i := Some c]\<rparr>"
    have "length (eo_cntrs ep) = CNTR_CNT" using inv_linked [OF Cons.prems(1)] Cons.prems(2) unfolding linked_def eps_ok_def by blast
    then have i: "i < length (eo_cntrs ep)" "eo_cntrs ep ! i = None" using Cons.prems(5) [of i f] True z by simp_all
    have more: "ep_refs y j ?ep = ep_refs y j ep + at Cntr c 1 y j" for y j
      by (cases y) (auto simp: ep_refs_def at_def sum_list_slot [OF i])
    from inv_bind [OF Cons.prems(1-3) more] obtain w1 where w1: "add_ref Cntr c 1 (w\<lparr>eps := (eps w)(e \<mapsto> ?ep)\<rparr>) = Some w1"
      "obj_inv exact w1" "eps w1 = (eps w)(e \<mapsto> ?ep)" "live w1 = live w" "0 < ep_refs Cntr c ?ep" by fastforce
    have e1: "eps w1 e = Some ?ep" and lv: "live w1 Cntr c" using Cons.prems(3) w1(3,4) by simp_all
    have "k < CNTR_CNT \<and> (has_flag flags g \<longrightarrow> eo_cntrs ?ep ! k = None)" if "(k, g) \<in> set fs" for k g
      using room [OF that] new [OF that] by simp
    from Cons.IH [OF w1(2) e1 lv d this] obtain w' ep' where r: "bind_cntrs fs e c flags w1 = Some w'" "obj_inv exact w'"
      "eps w' e = Some ep'" "live w' = live w1" "0 < ep_refs Cntr c ep'" using w1(5) by blast
    have "bind_cntrs (z # fs) e c flags w = Some w'" using True r(1) by (simp add: z Cons.prems(2) w1(1))
    then show ?thesis using r(2-5) w1(4) by metis
  next
    case False
    have "bind_cntrs (z # fs) e c flags w = bind_cntrs fs e c flags w" by (simp add: z False)
    moreover have "list_ex (\<lambda>z. has_flag flags (snd z)) (z # fs) = list_ex (\<lambda>z. has_flag flags (snd z)) fs" by (simp add: z False)
    ultimately show ?thesis using Cons.IH [OF Cons.prems(1-3) d room] by metis
  qed
qed simp

lemma inv_same_ep:
  assumes "obj_inv exact w" and "eps w e = Some ep" and "\<And>x i. ep_refs x i ep' = ep_refs x i ep"
    and "eo_domain ep' = eo_domain ep" "eo_ref ep' = eo_ref ep" "length (eo_cntrs ep') = length (eo_cntrs ep)"
  shows "obj_inv exact (w\<lparr>eps := (eps w)(e \<mapsto> ep')\<rparr>)"
proof (rule obj_invI)
  show "counts exact (\<lambda>_ _. 0) (w\<lparr>eps := (eps w)(e \<mapsto> ep')\<rparr>)"
    using counts_put_ep [OF inv_counts [OF assms(1)], of "Some ep'" e] assms(2,3) by simp
  show "linked (w\<lparr>eps := (eps w)(e \<mapsto> ep')\<rparr>)" by (rule linked_put_ep [OF inv_linked [OF assms(1)] assms(2)]) (simp_all add: assms)
qed simp

lemma some_cntr_flag:
  assumes "flags AND NOT (FI_SEND OR FI_RECV OR FI_READ OR FI_WRITE OR FI_REMOTE_READ OR FI_REMOTE_WRITE) = 0" and "flags \<noteq> 0"
  shows "list_ex (\<lambda>z. has_flag flags (snd z)) (enumerate 0 cntr_flags)"
proof (rule ccontr)
  assume "\<not> ?thesis"
  then have n: "flags AND FI_SEND = 0" "flags AND FI_RECV = 0" "flags AND FI_READ = 0" "flags AND FI_WRITE = 0"
    "flags AND FI_REMOTE_READ = 0" "flags AND FI_REMOTE_WRITE = 0" by (auto simp: cntr_flags_def has_flag_def enumerate_eq_zip)
  then have "flags AND (FI_SEND OR (FI_RECV OR (FI_READ OR (FI_WRITE OR (FI_REMOTE_READ OR FI_REMOTE_WRITE))))) = 0"
    unfolding bit.conj_disj_distrib or_eq_0_iff by blast
  with assms(1) have "flags AND 0x3f00 = 0" "flags AND NOT 0x3f00 = 0" by simp_all
  then have "flags AND (0x3f00 OR NOT 0x3f00) = 0" by (simp only: bit.conj_disj_distrib or_eq_0_iff)
  then show False using assms(2) by simp
qed

lemma safe_bind_cntr:
  assumes inv: "obj_inv exact w" and "eps w e \<noteq> None" and lv: "live w Cntr c" and "flags \<noteq> 0"
  shows "safe exact (ofi_ep_bind_cntr ok e c flags w)"
proof -
  obtain ep where ep: "eps w e = Some ep" using assms(2) by blast
  let ?fs = "enumerate 0 cntr_flags"
  show ?thesis
  proof (cases "flags AND NOT (FI_SEND OR FI_RECV OR FI_READ OR FI_WRITE OR FI_REMOTE_READ OR FI_REMOTE_WRITE) \<noteq> 0 \<or>
      list_ex (\<lambda>(i, f). has_flag flags f \<and> eo_cntrs ep ! i \<noteq> None) ?fs")
    case True
    then show ?thesis using inv by (auto simp: ofi_ep_bind_cntr_def ep)
  next
    case False
    have "distinct (map fst ?fs)" by (simp add: enumerate_eq_zip)
    moreover have "i < CNTR_CNT \<and> (has_flag flags f \<longrightarrow> eo_cntrs ep ! i = None)" if "(i, f) \<in> set ?fs" for i f
    proof -
      have "i < length cntr_flags" using that by (auto simp: in_set_enumerate_eq)
      then show ?thesis using False that by (fastforce simp: list_ex_iff cntr_flags_def CNTR_CNT_def)
    qed
    ultimately obtain w' ep' where w': "bind_cntrs ?fs e c flags w = Some w'" "obj_inv exact w'" "eps w' e = Some ep'" "live w' = live w"
      "0 < ep_refs Cntr c ep'" using bind_cntrs_inv [OF inv ep lv] some_cntr_flag [of flags] False assms(4) by blast
    let ?ep = "ep'\<lparr>eo_cntr_enabled := True\<rparr>"
    have same: "ep_refs x i ?ep = ep_refs x i ep'" for x i by (cases x) (simp_all add: ep_refs_def)
    have "obj_inv exact (w'\<lparr>eps := (eps w')(e \<mapsto> ?ep)\<rparr>)" by (rule inv_same_ep [OF w'(2,3) same]) simp_all
    then have "safe exact (fid_list_insert2 ok Cntr c e (w'\<lparr>eps := (eps w')(e \<mapsto> ?ep)\<rparr>))"
      by (rule safe_list_insert [of _ _ _ ?ep]) (use w'(4,5) lv same in auto)
    then show ?thesis using False w'(1,3) by (simp add: ofi_ep_bind_cntr_def ep)
  qed
qed

section \<open>Closing\<close>

text \<open>What a call that drops pointers has taken off the lists.\<close>

definition shrunk :: "oid \<Rightarrow> (kind \<Rightarrow> oid \<Rightarrow> bool) \<Rightarrow> objects \<Rightarrow> objects \<Rightarrow> bool" where
  "shrunk e T w w' \<longleftrightarrow>
     eps w' = eps w \<and> dview w' = dview w \<and> live w' = live w \<and>
     (\<forall>x i l'. list_of x i w' = Some l' \<longrightarrow>
        (\<exists>l. list_of x i w = Some l \<and> (distinct l \<longrightarrow> distinct l' \<and> set l' = set l - (if T x i then {e} else {}))))"

lemma shrunk_refl: "shrunk e (\<lambda>_ _. False) w w"
  by (simp add: shrunk_def)

lemma shrunk_trans:
  assumes "shrunk e T w1 w2" and "shrunk e T' w2 w3"
  shows "shrunk e (\<lambda>x i. T x i \<or> T' x i) w1 w3"
  unfolding shrunk_def
proof (intro conjI allI impI)
  fix x i l3
  assume "list_of x i w3 = Some l3"
  then obtain l2 where 2: "list_of x i w2 = Some l2" "distinct l2 \<longrightarrow> distinct l3 \<and> set l3 = set l2 - (if T' x i then {e} else {})"
    using assms(2) unfolding shrunk_def by blast
  then obtain l1 where "list_of x i w1 = Some l1" "distinct l1 \<longrightarrow> distinct l2 \<and> set l2 = set l1 - (if T x i then {e} else {})"
    using assms(1) unfolding shrunk_def by blast
  with 2(2) show "\<exists>l. list_of x i w1 = Some l \<and> (distinct l \<longrightarrow> distinct l3 \<and> set l3 = set l - (if T x i \<or> T' x i then {e} else {}))" by auto
qed (use assms in \<open>simp_all add: shrunk_def\<close>)

lemma shrunk_cong: "shrunk e T w w' \<Longrightarrow> (\<And>x i. T x i = T' x i) \<Longrightarrow> shrunk e T' w w'"
  by (simp add: shrunk_def)

lemma shrunk_add_ref: "add_ref x i n w = Some w' \<Longrightarrow> shrunk e (\<lambda>_ _. False) w w'"
  by (simp add: shrunk_def add_ref_view)

text \<open>\<open>E\<close> is the number of references given back.\<close>

definition drops :: "oid \<Rightarrow> (kind \<Rightarrow> oid \<Rightarrow> bool) \<Rightarrow> (kind \<Rightarrow> oid \<Rightarrow> int) \<Rightarrow> objects \<Rightarrow> objects \<Rightarrow> bool" where
  "drops e T E w w' \<longleftrightarrow> shrunk e T w w' \<and> (\<forall>exact D. counts exact D w \<longrightarrow> counts exact (\<lambda>y j. D y j - E y j) w')"

lemma drops_cong: "drops e T E w w' \<Longrightarrow> (\<And>x i. T x i = T' x i) \<Longrightarrow> (\<And>x i. E x i = E' x i) \<Longrightarrow> drops e T' E' w w'"
  by (simp add: drops_def shrunk_def)

lemma drops_trans: "drops e T E w1 w2 \<Longrightarrow> drops e T' E' w2 w3 \<Longrightarrow> drops e (\<lambda>x i. T x i \<or> T' x i) (\<lambda>x i. E x i + E' x i) w1 w3"
  unfolding drops_def by (metis (no_types, lifting) counts_cong diff_diff_eq shrunk_trans)

lemma drops_refl: "drops e (\<lambda>_ _. False) (\<lambda>_ _. 0) w w"
  by (simp add: drops_def shrunk_refl)

lemma drops_live: "drops e T E w w' \<Longrightarrow> live w' = live w"
  by (simp add: drops_def shrunk_def)

lemma drops_add_ref: "add_ref x i (- 1) w = Some w' \<Longrightarrow> drops e (\<lambda>_ _. False) (at x i 1) w w'"
  unfolding drops_def by (auto simp: at_def intro: shrunk_add_ref counts_cong [OF counts_add_ref])

lemma drops_unbind:
  assumes "\<And>i. p = Some i \<Longrightarrow> live w x i" and x: "x = Cq \<or> x = Cntr \<or> x = Av"
  shows "\<exists>w'. unbind x e p w = Some w' \<and> drops e (\<lambda>y j. y = x \<and> p = Some j) (\<lambda>y j. if y = x then pt j p else 0) w w'"
proof (cases p)
  case None
  have "drops e (\<lambda>y j. y = x \<and> p = Some j) (\<lambda>y j. if y = x then pt j p else 0) w w"
    by (rule drops_cong [OF drops_refl]) (simp_all add: None pt_def)
  then show ?thesis by (simp add: unbind_def None)
next
  case (Some i)
  have x': "x \<noteq> Eq" "x \<noteq> Domain" using x by auto
  obtain w1 where w1: "upd_list x i (remove1 e) w = Some w1" using upd_list_live [OF assms(1) [OF Some] x'] by blast
  note k = upd_list_view [OF w1]
  obtain w2 where w2: "add_ref x i (- 1) w1 = Some w2" using add_ref_live [of w1 x i] assms(1) [OF Some] k(4) by auto
  have "shrunk e (\<lambda>y j. y = x \<and> p = Some j) w w1"
    unfolding shrunk_def using k Some by (auto simp: set_remove1_eq split: if_splits)
  then have "drops e (\<lambda>y j. y = x \<and> p = Some j) (\<lambda>_ _. 0) w w1" using counts_upd_list [OF _ w1] by (simp add: drops_def)
  from drops_trans [OF this drops_add_ref [OF w2]]
  have "drops e (\<lambda>y j. y = x \<and> p = Some j) (\<lambda>y j. if y = x then pt j p else 0) w w2"
    by (rule drops_cong) (auto simp: Some at_def pt_def)
  then show ?thesis by (simp add: unbind_def Some fid_list_remove2_def w1 w2)
qed

lemma drops_unbind_cntrs:
  assumes "\<And>i. Some i \<in> set ps \<Longrightarrow> live w Cntr i"
  shows "\<exists>w'. unbind_cntrs e ps w = Some w' \<and>
    drops e (\<lambda>y j. y = Cntr \<and> Some j \<in> set ps) (\<lambda>y j. if y = Cntr then sum_list (map (pt j) ps) else 0) w w'"
  using assms
proof (induction ps arbitrary: w)
  case Nil
  have "drops e (\<lambda>y j. y = Cntr \<and> Some j \<in> set []) (\<lambda>y j. if y = Cntr then sum_list (map (pt j) []) else 0) w w"
    by (rule drops_cong [OF drops_refl]) simp_all
  then show ?case by simp
next
  case (Cons p ps)
  obtain w1 where w1: "unbind Cntr e p w = Some w1" "drops e (\<lambda>y j. y = Cntr \<and> p = Some j) (\<lambda>y j. if y = Cntr then pt j p else 0) w w1"
    using drops_unbind [of p w Cntr e] Cons.prems by auto
  obtain w' where w': "unbind_cntrs e ps w1 = Some w'"
    "drops e (\<lambda>y j. y = Cntr \<and> Some j \<in> set ps) (\<lambda>y j. if y = Cntr then sum_list (map (pt j) ps) else 0) w1 w'"
    using Cons.IH [of w1] Cons.prems drops_live [OF w1(2)] by auto
  have "drops e (\<lambda>y j. y = Cntr \<and> Some j \<in> set (p # ps)) (\<lambda>y j. if y = Cntr then sum_list (map (pt j) (p # ps)) else 0) w w'"
    by (rule drops_cong [OF drops_trans [OF w1(2) w'(2)]]) auto
  then show ?case by (simp add: w1(1) w'(1))
qed

text \<open>An endpoint that is on no list and is lent to no domain can be freed.\<close>

lemma free_ep_linked:
  assumes "linked w" and "\<And>x i l. x \<noteq> Fabric \<Longrightarrow> list_of x i w = Some l \<Longrightarrow> e \<notin> set l" and "\<And>d f q. dview w d \<noteq> Some (f, q, Some e)"
  shows "linked (free_ep e w)"
proof -
  note parts = assms(1) [unfolded linked_def]
  have "lists_ok (free_ep e w)"
    unfolding lists_ok_def
  proof (intro allI impI)
    fix x i l
    assume x: "x \<noteq> Fabric \<and> list_of x i (free_ep e w) = Some l"
    then have "distinct l \<and> (\<forall>k \<in> set l. \<exists>ep. eps w k = Some ep \<and> 0 < ep_refs x i ep)"
      using parts unfolding lists_ok_def free_ep_def list_of_put by blast
    moreover have "e \<notin> set l" using assms(2) [of x i l] x by (simp add: free_ep_def)
    ultimately show "distinct l \<and> (\<forall>k \<in> set l. \<exists>ep. eps (free_ep e w) k = Some ep \<and> 0 < ep_refs x i ep)"
      unfolding free_ep_def by auto
  qed
  moreover have "domains_ok (free_ep e w)" using parts by (simp add: domains_ok_def free_ep_def)
  moreover have "lent_ok (free_ep e w)" using parts assms(3) unfolding lent_ok_def free_ep_def by fastforce
  moreover have "eps_ok (free_ep e w)" using parts by (auto simp: eps_ok_def free_ep_def split: if_splits)
  ultimately show ?thesis by (simp add: linked_def)
qed

lemma slots_nonneg: "0 \<le> sum_list (map (pt j) cs)"
  by (intro sum_list_nonneg) (auto simp: pt_def)

lemma slots_pos: "0 < sum_list (map (pt j) cs) \<longleftrightarrow> Some j \<in> set cs"
proof (induction cs)
  case (Cons p cs)
  have "sum_list (map (pt j) (p # cs)) = of_bool (p = Some j) + sum_list (map (pt j) cs)" by (simp add: pt_def)
  then show ?case using Cons.IH slots_nonneg [of j cs] by (cases "p = Some j") simp_all
qed simp

definition held :: "ep_obj \<Rightarrow> kind \<Rightarrow> oid \<Rightarrow> bool" where
  "held ep x j \<longleftrightarrow>
     x = Cq \<and> (eo_tx_cq ep = Some j \<or> eo_rx_cq ep = Some j) \<or> x = Cntr \<and> Some j \<in> set (eo_cntrs ep) \<or> x = Av \<and> eo_av ep = Some j"

lemma held_refs: "x = Cq \<or> x = Cntr \<or> x = Av \<Longrightarrow> held ep x j \<longleftrightarrow> 0 < ep_refs x j ep"
  by (auto simp: held_def ep_refs_def slots_pos pt_def)

lemma list_kinds: "list_of x i w = Some l \<Longrightarrow> x \<noteq> Fabric \<Longrightarrow> x = Cq \<or> x = Cntr \<or> x = Av"
  by (cases x) (auto simp: list_of_def)

lemma linked_shrunk:
  assumes "linked w" and "eps w e = Some ep" and sh: "shrunk e (held ep) w w'" and "\<And>d f q. dview w d \<noteq> Some (f, q, Some e)"
  shows "linked (free_ep e w')"
proof (rule free_ep_linked)
  note parts = assms(1) [unfolded linked_def] and s = sh [unfolded shrunk_def]
  have lists: "distinct l' \<and> e \<notin> set l' \<and> (\<forall>k \<in> set l'. \<exists>ep. eps w k = Some ep \<and> 0 < ep_refs x i ep)"
    if x: "x \<noteq> Fabric" and l': "list_of x i w' = Some l'" for x i l'
  proof -
    obtain l where l: "list_of x i w = Some l" "distinct l \<longrightarrow> distinct l' \<and> set l' = set l - (if held ep x i then {e} else {})" using s l' by blast
    have ok: "distinct l \<and> (\<forall>k \<in> set l. \<exists>ep. eps w k = Some ep \<and> 0 < ep_refs x i ep)" using parts x l(1) unfolding lists_ok_def by blast
    then have "e \<in> set l \<Longrightarrow> held ep x i" using held_refs [OF list_kinds [OF l(1) x]] assms(2) by fastforce
    then show ?thesis using l(2) ok by (auto split: if_splits)
  qed
  have "eps w' = eps w" using s by blast
  then have "lists_ok w'" unfolding lists_ok_def using lists by metis
  moreover have "domains_ok w'"
    unfolding domains_ok_def
  proof (intro allI impI)
    fix i l'
    assume "list_of Fabric i w' = Some l'"
    then obtain l where l: "list_of Fabric i w = Some l" "distinct l \<longrightarrow> distinct l' \<and> set l' = set l - (if held ep Fabric i then {e} else {})"
      using s by blast
    then have "distinct l \<and> set l = {d. \<exists>r. dview w d = Some (i, r)}" using parts unfolding domains_ok_def by blast
    then show "distinct l' \<and> set l' = {d. \<exists>r. dview w' d = Some (i, r)}" using l(2) s by (simp add: held_def)
  qed
  moreover have "lent_ok w'" "eps_ok w'" using parts s by (simp_all add: lent_ok_def eps_ok_def)
  ultimately show "linked w'" by (simp add: linked_def)
  show "\<And>x i l. x \<noteq> Fabric \<Longrightarrow> list_of x i w' = Some l \<Longrightarrow> e \<notin> set l" using lists by blast
  show "\<And>d f q. dview w' d \<noteq> Some (f, q, Some e)" using assms(4) s by simp
qed

lemma drops_eq:
  assumes "\<And>q. p = Some q \<Longrightarrow> live w Eq q"
  shows "\<exists>w'. (case p of None \<Rightarrow> Some w | Some q \<Rightarrow> add_ref Eq q (- 1) w) = Some w' \<and>
    drops e (\<lambda>_ _. False) (\<lambda>y j. if y = Eq then pt j p else 0) w w'"
proof (cases p)
  case None
  have "drops e (\<lambda>_ _. False) (\<lambda>y j. if y = Eq then pt j p else 0) w w" by (rule drops_cong [OF drops_refl]) (simp_all add: None pt_def)
  then show ?thesis by (simp add: None)
next
  case (Some q)
  obtain w' where w': "add_ref Eq q (- 1) w = Some w'" using add_ref_live [OF assms [OF Some]] by blast
  have "drops e (\<lambda>_ _. False) (\<lambda>y j. if y = Eq then pt j p else 0) w w'"
    by (rule drops_cong [OF drops_add_ref [OF w']]) (auto simp: Some at_def pt_def)
  then show ?thesis by (simp add: Some w')
qed

lemma endpoint_close_drops:
  assumes inv: "obj_inv exact w" and ep: "eps w e = Some ep"
  shows "\<exists>w'. ofi_endpoint_close e w = Some w' \<and> drops e (held ep) (\<lambda>y j. ep_refs y j ep) w w'"
proof -
  note ptr = pointer_live(1) [OF inv ep]
  have lv: "\<And>i. eo_tx_cq ep = Some i \<Longrightarrow> live w Cq i" "\<And>i. eo_rx_cq ep = Some i \<Longrightarrow> live w Cq i"
    "\<And>i. Some i \<in> set (eo_cntrs ep) \<Longrightarrow> live w Cntr i" "\<And>i. eo_av ep = Some i \<Longrightarrow> live w Av i"
    by (rule ptr; simp add: held_refs [symmetric] held_def)+
  have lq: "\<And>i. eo_eq ep = Some i \<Longrightarrow> live w Eq i" and ld: "live w Domain (eo_domain ep)"
    by (rule ptr; simp add: ep_refs_def pt_def)+
  obtain w1 where w1: "unbind Cq e (eo_tx_cq ep) w = Some w1"
    and d1: "drops e (\<lambda>y j. y = Cq \<and> eo_tx_cq ep = Some j) (\<lambda>y j. if y = Cq then pt j (eo_tx_cq ep) else 0) w w1"
    using drops_unbind [of "eo_tx_cq ep" w Cq e] lv(1) by blast
  note e1 = drops_live [OF d1]
  obtain w2 where w2: "unbind Cq e (eo_rx_cq ep) w1 = Some w2"
    and d2: "drops e (\<lambda>y j. y = Cq \<and> eo_rx_cq ep = Some j) (\<lambda>y j. if y = Cq then pt j (eo_rx_cq ep) else 0) w1 w2"
    using drops_unbind [of "eo_rx_cq ep" w1 Cq e] lv(2) unfolding e1 by blast
  note e2 = drops_live [OF d2, unfolded e1]
  obtain w3 where w3: "unbind_cntrs e (eo_cntrs ep) w2 = Some w3"
    and d3: "drops e (\<lambda>y j. y = Cntr \<and> Some j \<in> set (eo_cntrs ep)) (\<lambda>y j. if y = Cntr then sum_list (map (pt j) (eo_cntrs ep)) else 0) w2 w3"
    using drops_unbind_cntrs [of "eo_cntrs ep" w2 e] lv(3) unfolding e2 by blast
  note e3 = drops_live [OF d3, unfolded e2]
  obtain w4 where w4: "unbind Av e (eo_av ep) w3 = Some w4"
    and d4: "drops e (\<lambda>y j. y = Av \<and> eo_av ep = Some j) (\<lambda>y j. if y = Av then pt j (eo_av ep) else 0) w3 w4"
    using drops_unbind [of "eo_av ep" w3 Av e] lv(4) unfolding e3 by blast
  note e4 = drops_live [OF d4, unfolded e3]
  obtain w5 where w5: "(case eo_eq ep of None \<Rightarrow> Some w4 | Some q \<Rightarrow> add_ref Eq q (- 1) w4) = Some w5"
    and d5: "drops e (\<lambda>_ _. False) (\<lambda>y j. if y = Eq then pt j (eo_eq ep) else 0) w4 w5" using drops_eq [of "eo_eq ep" w4 e] lq unfolding e4 by blast
  note e5 = drops_live [OF d5, unfolded e4]
  obtain w6 where w6: "add_ref Domain (eo_domain ep) (- 1) w5 = Some w6" using add_ref_live [of w5 Domain "eo_domain ep"] ld unfolding e5 by blast
  have "drops e (held ep) (\<lambda>y j. ep_refs y j ep) w w6"
  proof (rule drops_cong [OF drops_trans [OF d1 drops_trans [OF d2 drops_trans [OF d3 drops_trans [OF d4 drops_trans [OF d5 drops_add_ref [OF w6]]]]]]])
    fix x i
    show "(x = Cq \<and> eo_tx_cq ep = Some i \<or> x = Cq \<and> eo_rx_cq ep = Some i \<or> x = Cntr \<and> Some i \<in> set (eo_cntrs ep) \<or>
        x = Av \<and> eo_av ep = Some i \<or> False \<or> False) = held ep x i" by (auto simp: held_def)
    show "(if x = Cq then pt i (eo_tx_cq ep) else 0) + ((if x = Cq then pt i (eo_rx_cq ep) else 0) +
        ((if x = Cntr then sum_list (map (pt i) (eo_cntrs ep)) else 0) + ((if x = Av then pt i (eo_av ep) else 0) +
        ((if x = Eq then pt i (eo_eq ep) else 0) + at Domain (eo_domain ep) 1 x i)))) = ep_refs x i ep"
      by (cases x) (auto simp: ep_refs_def at_def)
  qed
  then show ?thesis by (simp add: ofi_endpoint_close_def ep w1 w2 w3 w4 w5 w6)
qed

lemma endpoint_close_effect:
  assumes inv: "obj_inv exact w" and ep: "eps w e = Some ep" and "\<And>d f q. dview w d \<noteq> Some (f, q, Some e)"
  shows "\<exists>w'. ofi_endpoint_close e w = Some w' \<and> obj_inv exact (free_ep e w')"
proof -
  obtain w' where w': "ofi_endpoint_close e w = Some w'" and dr: "drops e (held ep) (\<lambda>y j. ep_refs y j ep) w w'"
    using endpoint_close_drops [OF inv ep] by blast
  then have sh: "shrunk e (held ep) w w'" by (simp add: drops_def)
  have c: "counts exact (\<lambda>y j. 0 - ep_refs y j ep) w'" using dr inv_counts [OF inv] unfolding drops_def by blast
  have e': "eps w' e = Some ep" using sh ep by (simp add: shrunk_def)
  have "obj_inv exact (free_ep e w')"
  proof (rule obj_invI)
    show "counts exact (\<lambda>y j. 0 - ep_refs y j ep - 0 + ep_refs y j ep) (free_ep e w')"
      using counts_put_ep [OF c, of None e] e' by (simp add: free_ep_def)
    show "linked (free_ep e w')" by (rule linked_shrunk [OF inv_linked [OF inv] ep sh assms(3)])
  qed simp
  with w' show ?thesis by blast
qed

text \<open>A domain may borrow one of its own endpoints, or give it back.\<close>

lemma inv_lend:
  assumes inv: "obj_inv exact w" and d: "domains w i = Some d"
    and "dm_ref d' = dm_ref d" "dm_fabric d' = dm_fabric d" "dm_eq d' = dm_eq d"
    and lent: "\<And>e. dm_reg_ep d' = Some e \<Longrightarrow> \<exists>ep. eps w e = Some ep \<and> eo_domain ep = i"
  shows "obj_inv exact (w\<lparr>domains := (domains w)(i \<mapsto> d')\<rparr>)"
proof (rule obj_invI)
  let ?w = "w\<lparr>domains := (domains w)(i \<mapsto> d')\<rparr>"
  have "dom_refs x j d' = dom_refs x j d" for x j by (simp add: dom_refs_def assms split: kind.split)
  then show "counts exact (\<lambda>_ _. 0) ?w" using counts_put_domain [OF inv_counts [OF inv], of "Some d'" i] d assms(3) by simp
  note parts = inv_linked [OF inv, unfolded linked_def]
  have dv: "dview ?w = (dview w)(i \<mapsto> (dm_fabric d, dm_eq d, dm_reg_ep d'))" by (intro ext) (simp add: assms(4,5))
  have "dview w i = Some (dm_fabric d, dm_eq d, dm_reg_ep d)" using d by (simp add: dview_def)
  then have "(\<exists>r. dview ?w k = Some (j, r)) \<longleftrightarrow> (\<exists>r. dview w k = Some (j, r))" for j k by (auto simp: dv)
  then have "domains_ok ?w" using parts unfolding domains_ok_def by simp
  moreover have "lent_ok ?w" using parts lent unfolding lent_ok_def by (auto simp: dv split: if_splits)
  moreover have "lists_ok ?w" "eps_ok ?w" using parts unfolding lists_ok_def eps_ok_def by simp_all
  ultimately show "linked ?w" by (simp add: linked_def)
qed simp

lemma lent_own: "obj_inv exact w \<Longrightarrow> dview w d = Some (f, q, Some e) \<Longrightarrow> \<exists>ep. eps w e = Some ep \<and> eo_domain ep = d"
  using inv_linked unfolding linked_def lent_ok_def by blast

lemma ep_shape: "obj_inv exact w \<Longrightarrow> eps w e = Some ep \<Longrightarrow> eo_ref ep = 0"
  using inv_linked unfolding linked_def eps_ok_def by blast

lemma safe_ep_close:
  assumes inv: "obj_inv exact w" and "eps w e \<noteq> None"
  shows "safe exact (rds_ep_close_objects e w)"
proof -
  obtain ep where ep: "eps w e = Some ep" using assms(2) by blast
  have "live w Domain (eo_domain ep)" by (rule pointer_live(1) [OF inv ep]) (simp add: ep_refs_def)
  then obtain d where d: "domains w (eo_domain ep) = Some d" by (auto simp: live_def)
  define d' where "d' = (if dm_reg_ep d = Some e then d\<lparr>dm_reg_ep := None\<rparr> else d)"
  let ?w = "w\<lparr>domains := (domains w)(eo_domain ep \<mapsto> d')\<rparr>"
  have "\<exists>ep1. eps w k = Some ep1 \<and> eo_domain ep1 = eo_domain ep" if "dm_reg_ep d' = Some k" for k
    using lent_own [OF inv, of "eo_domain ep" "dm_fabric d" "dm_eq d" k] that d by (auto simp: d'_def dview_def split: if_splits)
  then have inv': "obj_inv exact ?w" by (intro inv_lend [OF inv d]) (simp_all add: d'_def)
  have e': "eps ?w e = Some ep" using ep by simp
  have "dview ?w k \<noteq> Some (f, q, Some e)" for k f q
  proof
    assume a: "dview ?w k = Some (f, q, Some e)"
    from lent_own [OF inv' a] e' have "k = eo_domain ep" by simp
    with a show False by (simp add: d'_def split: if_splits)
  qed
  from endpoint_close_effect [OF inv' e' this] obtain w' where "ofi_endpoint_close e ?w = Some w'" "obj_inv exact (free_ep e w')" by blast
  then show ?thesis by (simp add: rds_ep_close_objects_def ep ep_shape [OF inv ep] d Let_def d'_def [symmetric])
qed

section \<open>Opening, naming and enabling\<close>

lemma new_ep_refs: "ep_refs x j (new_ep caps txf rxf bound d) = at Domain d 1 x j"
  by (cases x) (auto simp: new_ep_def ep_refs_def at_def pt_def sum_list_replicate)

lemma inv_ep_opened:
  assumes inv: "obj_inv exact w" and "live w Domain d" and free: "eps w i = None"
  shows "\<exists>w1. add_ref Domain d 1 (w\<lparr>eps := (eps w)(i \<mapsto> new_ep caps txf rxf bound d)\<rparr>) = Some w1 \<and> obj_inv exact w1 \<and>
    eps w1 i = Some (new_ep caps txf rxf bound d) \<and> dview w1 = dview w \<and> (\<forall>y j. list_of y j w1 = list_of y j w) \<and> live w1 = live w"
proof -
  let ?ep = "new_ep caps txf rxf bound d"
  let ?w = "w\<lparr>eps := (eps w)(i \<mapsto> ?ep)\<rparr>"
  obtain w1 where w1: "add_ref Domain d 1 ?w = Some w1" using add_ref_live [of ?w Domain d] assms(2) by auto
  have c: "counts exact (\<lambda>x j. 0 - ep_refs x j ?ep + 0) ?w" using counts_put_ep [OF inv_counts [OF inv], of "Some ?ep" i] free by simp
  note parts = inv_linked [OF inv, unfolded linked_def]
  have old: "eps ?w k = Some ep" if "eps w k = Some ep" for k ep using that free by auto
  have "lists_ok ?w" using parts old unfolding lists_ok_def list_of_put by blast
  moreover have "domains_ok ?w" using parts by (simp add: domains_ok_def)
  moreover have "lent_ok ?w" using parts old unfolding lent_ok_def dview_put by blast
  moreover have "eps_ok ?w" using parts by (auto simp: eps_ok_def new_ep_def split: if_splits)
  ultimately have "linked w1" unfolding linked_add_ref [OF w1] by (simp add: linked_def)
  moreover have "counts exact (\<lambda>x j. 0 - ep_refs x j ?ep + 0 + at Domain d 1 x j) w1" by (rule counts_add_ref [OF c w1])
  ultimately have "obj_inv exact w1" by (intro obj_invI) (auto simp: new_ep_refs)
  then show ?thesis using w1 add_ref_view [OF w1] by simp
qed

lemma inv_ep_leaked:
  assumes inv: "obj_inv exact w" and ep: "eps w e = Some ep" and "\<And>x i. x = Cq \<or> x = Cntr \<or> x = Av \<Longrightarrow> ep_refs x i ep = 0"
    and lent: "\<And>d f q. dview w d \<noteq> Some (f, q, Some e)"
  shows "obj_inv False (free_ep e w)"
proof -
  have "counts exact (\<lambda>x j. 0 - 0 + ep_refs x j ep) (free_ep e w)"
    using counts_put_ep [OF inv_counts [OF inv], of None e] ep by (simp add: free_ep_def)
  then have "counts False (\<lambda>_ _. 0) (free_ep e w)" by (rule counts_weak) (simp add: ep_refs_nonneg)
  moreover have "linked (free_ep e w)"
  proof (rule free_ep_linked [OF inv_linked [OF inv] _ lent])
    fix x i l
    assume x: "x \<noteq> Fabric" and l: "list_of x i w = Some l"
    have "\<forall>k \<in> set l. \<exists>ep. eps w k = Some ep \<and> 0 < ep_refs x i ep"
      using inv_linked [OF inv] x l unfolding linked_def lists_ok_def by blast
    then show "e \<notin> set l" using ep assms(3) [OF list_kinds [OF l x]] by fastforce
  qed
  ultimately show ?thesis by (simp add: obj_inv_def)
qed

lemma safe_ep_open:
  assumes inv: "obj_inv exact w" and lv: "live w Domain d" and free: "eps w i = None"
  shows "safe (exact \<and> lock = 0 \<and> (has_flag caps FI_COLLECTIVE \<longrightarrow> cmask))
    (rds_endpoint_open ok chk lock cmask rest caps txf rxf bound d i w)"
proof -
  let ?ep = "new_ep caps txf rxf bound d"
  obtain w1 where w1: "add_ref Domain d 1 (w\<lparr>eps := (eps w)(i \<mapsto> ?ep)\<rparr>) = Some w1" "obj_inv exact w1" "eps w1 i = Some ?ep"
    "dview w1 = dview w" "live w1 = live w" using inv_ep_opened [OF inv lv free] by blast
  have not_lent: "dview w k \<noteq> Some (f, q, Some i)" for k f q using lent_own [OF inv, of k f q i] free by auto
  obtain dm where dm: "domains w1 d = Some dm" using lv unfolding w1(5) [symmetric] by (auto simp: live_def)
  have "\<exists>w2 ep. (case dm_eq dm of None \<Rightarrow> Some (0, w1) | Some q \<Rightarrow> ofi_ep_bind_eq i q w1) = Some (0, w2) \<and> obj_inv exact w2 \<and>
    eps w2 i = Some ep \<and> dview w2 = dview w \<and> (\<forall>x j. x = Cq \<or> x = Cntr \<or> x = Av \<longrightarrow> ep_refs x j ep = 0)"
  proof (cases "dm_eq dm")
    case None
    then show ?thesis using w1 by (auto simp: new_ep_refs at_def)
  next
    case (Some q)
    then have "live w1 Eq q" using pointer_live(2) [OF w1(2) dm, of Eq q] by (simp add: dom_refs_def pt_def)
    from safe_bind_eq [OF w1(2,3) this] obtain w2 where w2: "ofi_ep_bind_eq i q w1 = Some (0, w2)" "obj_inv exact w2"
      "eps w2 = (eps w1)(i \<mapsto> ?ep\<lparr>eo_eq := Some q\<rparr>)" "dview w2 = dview w1" by blast
    have "ep_refs x j (?ep\<lparr>eo_eq := Some q\<rparr>) = ep_refs x j ?ep" if "x = Cq \<or> x = Cntr \<or> x = Av" for x j using that by (auto simp: ep_refs_def)
    then have "\<forall>x j. x = Cq \<or> x = Cntr \<or> x = Av \<longrightarrow> ep_refs x j (?ep\<lparr>eo_eq := Some q\<rparr>) = 0" by (auto simp: new_ep_refs at_def)
    then show ?thesis using Some w2 w1(4) by (auto intro!: exI [of _ w2])
  qed
  then obtain w2 ep where w2: "(case dm_eq dm of None \<Rightarrow> Some (0, w1) | Some q \<Rightarrow> ofi_ep_bind_eq i q w1) = Some (0, w2)" "obj_inv exact w2"
    "eps w2 i = Some ep" "dview w2 = dview w" "\<And>x j. x = Cq \<or> x = Cntr \<or> x = Av \<Longrightarrow> ep_refs x j ep = 0" by blast
  have nl: "\<And>k f q. dview w2 k \<noteq> Some (f, q, Some i)" using not_lent w2(4) by simp
  from endpoint_close_effect [OF w2(2,3) nl] obtain w3 where w3: "ofi_endpoint_close i w2 = Some w3" "obj_inv exact (free_ep i w3)" by blast
  have leak: "obj_inv False (free_ep i w2)" by (rule inv_ep_leaked [OF w2(2,3,5) nl])
  show ?thesis
    using obj_inv_weak [OF inv] w2(2) w3(2) leak
    by (auto simp: rds_endpoint_open_def w1(1) dm w2(1) w3(1))
qed

lemma safe_setname:
  assumes "obj_inv exact w" and "eps w e \<noteq> None"
  shows "safe exact (ep_setname errno e w)"
proof -
  obtain ep where ep: "eps w e = Some ep" using assms(2) by blast
  have "ep_refs x i (ep\<lparr>eo_bound := True\<rparr>) = ep_refs x i ep" for x i by (cases x) (simp_all add: ep_refs_def)
  then have "obj_inv exact (w\<lparr>eps := (eps w)(e \<mapsto> ep\<lparr>eo_bound := True\<rparr>)\<rparr>)" by (rule inv_same_ep [OF assms(1) ep]) simp_all
  then show ?thesis using assms(1) by (simp add: ep_setname_def ep)
qed

lemma safe_enable:
  assumes inv: "obj_inv exact w" and "eps w e \<noteq> None"
  shows "safe exact (ep_enable e w)"
proof -
  obtain ep where ep: "eps w e = Some ep" using assms(2) by blast
  have "live w Domain (eo_domain ep)" by (rule pointer_live(1) [OF inv ep]) (simp add: ep_refs_def)
  then obtain d where d: "domains w (eo_domain ep) = Some d" by (auto simp: live_def)
  have "obj_inv exact (w\<lparr>domains := (domains w)(eo_domain ep \<mapsto> d\<lparr>dm_reg_ep := Some e\<rparr>)\<rparr>)"
    by (rule inv_lend [OF inv d]) (simp_all add: ep)
  then show ?thesis using inv by (simp add: ep_enable_def ep d)
qed

end
