(* ===== verification/Util_Objects_Run.thy ===== *)
theory Util_Objects_Run
  imports Util_Objects_Ep
begin

text \<open>
  Runs of calls on the objects.  A run starts with no object; each call is made on live objects and
  names a new object with an unused name.  Reference counts keep every pointer valid, except on
  three paths of the code, which are stated at the end.
\<close>

section \<open>Calls\<close>

datatype call =
    OpenFabric bool int bool oid
  | CloseFabric oid
  | OpenEq bool int int fi_eq_attr oid oid
  | CloseEq oid
  | OpenDomain int bool int bool int bool u64 oid oid
  | BindDomain oid "oid option" u64
  | CloseDomain oid
  | OpenAv bool int int int fi_av_type fi_av_attr oid oid
  | CloseAv oid
  | OpenCq cq_env fi_cq_attr oid oid
  | ReadCq oid
  | CloseCq oid
  | OpenCntr bool int int int int fi_cntr_attr oid oid
  | ReadCntr oid
  | CloseCntr oid
  | OpenEp bool int int bool int u64 u64 u64 bool oid oid
  | BindEp bool oid "bind_fid option" u64
  | NameEp nat oid
  | EnableEp oid
  | CloseEp oid
  | OpenMr nat bool oid oid
  | CloseMr oid

fun exec :: "call \<Rightarrow> objects \<Rightarrow> (int \<times> objects) option" where
  "exec (OpenFabric ok chk name i) w = Some (rds_fabric ok chk name i w)"
| "exec (CloseFabric i) w = rds_fabric_close i w"
| "exec (OpenEq ok wait poll attr f i) w = ofi_eq_create ok wait poll attr f i w"
| "exec (CloseEq i) w = util_eq_close i w"
| "exec (OpenDomain chk ok lock name rmap cache caps f i) w = rds_domain_open chk ok lock name rmap cache caps f i w"
| "exec (BindDomain i q flags) w = ofi_domain_bind i q flags w"
| "exec (CloseDomain i) w = rds_domain_close i w"
| "exec (OpenAv ok lock1 lock2 pool dtype attr d i) w = ofi_ip_av_create ok lock1 lock2 pool dtype attr d i w"
| "exec (CloseAv i) w = ip_av_close i w"
| "exec (OpenCq qe attr d i) w = rds_cq_open qe attr d i w"
| "exec (ReadCq i) w = map_option (\<lambda>(l, w). (0, w)) (ofi_cq_progress i w)"
| "exec (CloseCq i) w = rds_cq_close i w"
| "exec (OpenCntr ok wait peer lock poll attr d i) w = rds_cntr_open ok wait peer lock poll attr d i w"
| "exec (ReadCntr i) w = map_option (\<lambda>(l, w). (0, w)) (ofi_cntr_progress i w)"
| "exec (CloseCntr i) w = util_cntr_close i w"
| "exec (OpenEp ok chk lock cmask rest caps txf rxf bound d i) w = rds_endpoint_open ok chk lock cmask rest caps txf rxf bound d i w"
| "exec (BindEp ok e bfid flags) w = ofi_ep_bind ok e bfid flags w"
| "exec (NameEp errno e) w = ep_setname errno e w"
| "exec (EnableEp e) w = ep_enable e w"
| "exec (CloseEp e) w = rds_ep_close_objects e w"
| "exec (OpenMr n ok d i) w = mr_open n ok d i w"
| "exec (CloseMr m) w = mr_close m w"

text \<open>The caller's side: the objects it passes are open, and a new object's name is unused.\<close>

fun bind_live :: "bind_fid option \<Rightarrow> objects \<Rightarrow> bool" where
  "bind_live (Some (BindCq c)) w = live w Cq c"
| "bind_live (Some (BindEq q)) w = live w Eq q"
| "bind_live (Some (BindAv a)) w = live w Av a"
| "bind_live (Some (BindCntr c)) w = live w Cntr c"
| "bind_live _ w = True"

fun proper :: "call \<Rightarrow> objects \<Rightarrow> bool" where
  "proper (OpenFabric ok chk name i) w \<longleftrightarrow> fabrics w i = None"
| "proper (CloseFabric i) w \<longleftrightarrow> live w Fabric i"
| "proper (OpenEq ok wait poll attr f i) w \<longleftrightarrow> live w Fabric f \<and> eqs w i = None"
| "proper (CloseEq i) w \<longleftrightarrow> live w Eq i"
| "proper (OpenDomain chk ok lock name rmap cache caps f i) w \<longleftrightarrow> live w Fabric f \<and> domains w i = None"
| "proper (BindDomain i q flags) w \<longleftrightarrow> live w Domain i \<and> (case q of None \<Rightarrow> True | Some q \<Rightarrow> live w Eq q)"
| "proper (CloseDomain i) w \<longleftrightarrow> live w Domain i"
| "proper (OpenAv ok lock1 lock2 pool dtype attr d i) w \<longleftrightarrow> live w Domain d \<and> avs w i = None"
| "proper (CloseAv i) w \<longleftrightarrow> live w Av i"
| "proper (OpenCq qe attr d i) w \<longleftrightarrow> live w Domain d \<and> cqs w i = None"
| "proper (ReadCq i) w \<longleftrightarrow> live w Cq i"
| "proper (CloseCq i) w \<longleftrightarrow> live w Cq i"
| "proper (OpenCntr ok wait peer lock poll attr d i) w \<longleftrightarrow> live w Domain d \<and> cntrs w i = None"
| "proper (ReadCntr i) w \<longleftrightarrow> live w Cntr i"
| "proper (CloseCntr i) w \<longleftrightarrow> live w Cntr i"
| "proper (OpenEp ok chk lock cmask rest caps txf rxf bound d i) w \<longleftrightarrow> live w Domain d \<and> eps w i = None"
| "proper (BindEp ok e bfid flags) w \<longleftrightarrow> eps w e \<noteq> None \<and> bind_live bfid w"
| "proper (NameEp errno e) w \<longleftrightarrow> eps w e \<noteq> None"
| "proper (EnableEp e) w \<longleftrightarrow> eps w e \<noteq> None"
| "proper (CloseEp e) w \<longleftrightarrow> eps w e \<noteq> None"
| "proper (OpenMr n ok d i) w \<longleftrightarrow> live w Domain d \<and> mrs w i = None"
| "proper (CloseMr m) w \<longleftrightarrow> mrs w m \<noteq> None"

text \<open>
  The three faults: a domain whose map of regions cannot be made, a counter bound with no flag, and
  a region closed after the endpoint that registered it.
\<close>

fun faulty :: "call \<Rightarrow> objects \<Rightarrow> bool" where
  "faulty (OpenDomain chk ok lock name rmap cache caps f i) w \<longleftrightarrow> rmap \<noteq> 0"
| "faulty (BindEp ok e (Some (BindCntr c)) flags) w \<longleftrightarrow> flags = 0"
| "faulty (CloseMr m) w \<longleftrightarrow> (case mrs w m of None \<Rightarrow> False | Some e \<Rightarrow> eps w e = None)"
| "faulty _ w \<longleftrightarrow> False"

text \<open>The failures that keep a reference: of a vector's pool, and of an endpoint's lock or mask.\<close>

fun leaks :: "call \<Rightarrow> bool" where
  "leaks (OpenAv ok lock1 lock2 pool dtype attr d i) \<longleftrightarrow> pool \<noteq> 0"
| "leaks (OpenEp ok chk lock cmask rest caps txf rxf bound d i) \<longleftrightarrow> lock \<noteq> 0 \<or> has_flag caps FI_COLLECTIVE \<and> \<not> cmask"
| "leaks _ \<longleftrightarrow> False"

inductive obj_reach :: "bool \<Rightarrow> objects \<Rightarrow> bool" where
  obj_start: "obj_reach False no_objects"
| obj_call: "obj_reach leaked w \<Longrightarrow> proper c w \<Longrightarrow> \<not> faulty c w \<Longrightarrow> exec c w = Some (ret, w') \<Longrightarrow> obj_reach (leaked \<or> leaks c) w'"

section \<open>Every call is safe\<close>

lemma inv_start: "obj_inv True no_objects"
  by (simp add: obj_inv_def counts_def linked_def lists_ok_def domains_ok_def lent_ok_def eps_ok_def stores_finite_def
      refs_def cnt_def refcnt_def list_of_def dview_def no_objects_def split: kind.split)

lemma progress_lists:
  assumes "obj_inv exact w"
  shows "live w Cq i \<Longrightarrow> \<exists>l. ofi_cq_progress i w = Some (l, w)" "live w Cntr i \<Longrightarrow> \<exists>l. ofi_cntr_progress i w = Some (l, w)"
proof -
  have ok: "\<forall>e \<in> set l. eps w e \<noteq> None" if "x \<noteq> Fabric" "list_of x i w = Some l" for x l
    using inv_linked [OF assms] that unfolding linked_def lists_ok_def by blast
  show "\<exists>l. ofi_cq_progress i w = Some (l, w)" if "live w Cq i"
    using that ok [of Cq] by (auto simp: live_def ofi_cq_progress_def list_all_iff list_of_def)
  show "\<exists>l. ofi_cntr_progress i w = Some (l, w)" if "live w Cntr i"
    using that ok [of Cntr] by (auto simp: live_def ofi_cntr_progress_def list_all_iff list_of_def)
qed

lemma counts_mrs: "refs (w\<lparr>mrs := m\<rparr>) x i = refs w x i" "refcnt (w\<lparr>mrs := m\<rparr>) x i = refcnt w x i"
  by (simp add: refs_def) (cases x; simp add: refcnt_def)

lemma inv_mrs: "obj_inv exact (w\<lparr>mrs := m\<rparr>) \<longleftrightarrow> obj_inv exact w"
  by (simp add: obj_inv_def counts_def linked_def lists_ok_def domains_ok_def lent_ok_def eps_ok_def stores_finite_def counts_mrs)

lemma safe_mr:
  assumes inv: "obj_inv exact w"
  shows "live w Domain d \<Longrightarrow> safe exact (mr_open n ok d i w)"
    and "mrs w m = Some e \<Longrightarrow> eps w e \<noteq> None \<Longrightarrow> safe exact (mr_close m w)"
proof -
  show "safe exact (mr_open n ok d i w)" if lv: "live w Domain d"
  proof -
    obtain dm where dm: "domains w d = Some dm" using lv by (auto simp: live_def)
    then have "dm_reg_ep dm = Some e \<Longrightarrow> \<exists>ep. eps w e = Some ep" for e
      using lent_own [OF inv, of d "dm_fabric dm" "dm_eq dm" e] by (auto simp: dview_def)
    then show ?thesis using inv dm by (cases "dm_reg_ep dm") (auto simp: mr_open_def inv_mrs)
  qed
  show "safe exact (mr_close m w)" if "mrs w m = Some e" "eps w e \<noteq> None" using that inv by (auto simp: mr_close_def inv_mrs)
qed

lemma safe_bind:
  assumes inv: "obj_inv exact w" and "eps w e \<noteq> None" and "bind_live bfid w" and "\<And>c. bfid = Some (BindCntr c) \<Longrightarrow> flags \<noteq> 0"
  shows "safe exact (ofi_ep_bind ok e bfid flags w)"
proof (cases bfid)
  case None
  then show ?thesis using inv by (simp add: ofi_ep_bind_def ofi_ep_bind_valid_def)
next
  case (Some b)
  obtain ep where ep: "eps w e = Some ep" using assms(2) by blast
  show ?thesis
  proof (cases b)
    case (BindEq q)
    then have "safe exact (ofi_ep_bind_eq e q w)" using safe_bind_eq [OF inv ep, of q] assms(3) Some by (auto simp: safe_def)
    then show ?thesis using inv by (simp add: ofi_ep_bind_def Some BindEq Let_def)
  qed (use assms Some safe_bind_cq [OF inv assms(2)] safe_bind_av [OF inv assms(2)] safe_bind_cntr [OF inv assms(2)]
      in \<open>auto simp: ofi_ep_bind_def Let_def\<close>)
qed

lemma safe_exec:
  assumes inv: "obj_inv exact w" and "proper c w" and "\<not> faulty c w"
  shows "safe (exact \<and> \<not> leaks c) (exec c w)"
proof (cases c)
  case (OpenFabric ok chk name i)
  then show ?thesis using safe_fabric [OF inv, of i ok chk name] assms(2) by (cases "rds_fabric ok chk name i w") simp
next
  case (BindDomain i q flags)
  then have "\<And>q'. q = Some q' \<Longrightarrow> live w Eq q'" using assms(2) by simp
  then show ?thesis using safe_domain_bind [OF inv, of i q flags] assms(2) BindDomain by simp
next
  case (BindEp ok e bfid flags)
  have "\<And>c. bfid = Some (BindCntr c) \<Longrightarrow> flags \<noteq> 0" using assms(3) BindEp by auto
  then show ?thesis using safe_bind [OF inv] assms(2) BindEp by simp
next
  case (OpenEp ok chk lock cmask rest caps txf rxf bound d i)
  have "safe (exact \<and> lock = 0 \<and> (has_flag caps FI_COLLECTIVE \<longrightarrow> cmask)) (exec c w)"
    using safe_ep_open [OF inv, of d i] assms(2) OpenEp by simp
  then show ?thesis by (simp add: OpenEp)
next
  case (ReadCq i)
  then show ?thesis using progress_lists(1) [OF inv, of i] inv assms(2) by auto
next
  case (ReadCntr i)
  then show ?thesis using progress_lists(2) [OF inv, of i] inv assms(2) by auto
next
  case (OpenMr n ok d i)
  then show ?thesis using safe_mr(1) [OF inv] assms(2) by simp
next
  case (CloseMr m)
  then show ?thesis using safe_mr(2) [OF inv, of m] assms(2,3) by (auto split: option.splits)
qed (use assms in \<open>simp_all add: safe_fabric_close safe_eq_create safe_eq_close safe_domain_open safe_domain_close
    safe_av_create safe_av_close safe_cq_open safe_cq_close safe_cntr_open safe_cntr_close safe_ep_close safe_setname safe_enable\<close>)

lemma reach_inv: "obj_reach leaked w \<Longrightarrow> obj_inv (\<not> leaked) w"
proof (induction rule: obj_reach.induct)
  case (obj_call leaked w c ret w')
  then show ?case using safe_exec [of "\<not> leaked" w c] by (auto simp: safe_def)
qed (simp add: inv_start)


definition plain_cntr :: fi_cntr_attr where
  "plain_cntr = \<lparr>na_flags = 0, na_wait_obj = Some FI_WAIT_NONE, na_wait_set = False\<rparr>"

definition sample_calls :: "call list" where
  "sample_calls = [OpenFabric True 0 True 0, OpenDomain 0 True 0 True 0 True 0 0 0, OpenCntr True 0 0 0 0 plain_cntr 0 0,
     OpenEp True 0 0 True 0 0 0 0 True 0 0]"

definition plain_av :: fi_av_attr where
  "plain_av = \<lparr>va_type = Some FI_AV_MAP, va_named = False, va_flags = 0\<rparr>"

text \<open>An endpoint without capabilities needs no queue to be enabled.\<close>

definition region_calls :: "call list" where
  "region_calls = [OpenFabric True 0 True 0, OpenDomain 0 True 0 True 0 True 0 0 0, OpenAv True 0 0 0 FI_AV_UNSPEC plain_av 0 0,
     OpenEp True 0 0 True 0 0 0 0 True 0 0, BindEp True 0 (Some (BindAv 0)) 0, EnableEp 0, OpenMr 1 True 0 0]"

fun run_calls :: "call list \<Rightarrow> objects \<Rightarrow> objects option" where
  "run_calls [] w = Some w"
| "run_calls (c # cs) w = (case exec c w of None \<Rightarrow> None | Some (ret, w') \<Rightarrow> run_calls cs w')"

fun good_calls :: "call list \<Rightarrow> objects \<Rightarrow> bool" where
  "good_calls [] w \<longleftrightarrow> True"
| "good_calls (c # cs) w \<longleftrightarrow> proper c w \<and> \<not> faulty c w \<and> \<not> leaks c \<and>
     (case exec c w of None \<Rightarrow> False | Some (ret, w') \<Rightarrow> good_calls cs w')"

lemma run_reach: "obj_reach False w \<Longrightarrow> good_calls cs w \<Longrightarrow> \<exists>w'. run_calls cs w = Some w' \<and> obj_reach False w'"
proof (induction cs arbitrary: w)
  case (Cons c cs)
  then obtain ret w1 where w1: "exec c w = Some (ret, w1)" "good_calls cs w1" by (auto split: option.splits)
  have "obj_reach False w1" using obj_call [OF Cons.prems(1) _ _ w1(1)] Cons.prems(2) by auto
  then show ?case using Cons.IH w1 by simp
qed simp

lemmas object_eval = rds_fabric_def rds_domain_open_def rds_cntr_open_def rds_endpoint_open_def add_ref_def upd_list_def
  list_of_def ofi_check_cntr_attr_def plain_cntr_def opens_wait_def has_wait_def no_objects_def live_def new_ep_def Let_def

lemma replicate_cntrs: "replicate 6 x = [x, x, x, x, x, x]"
  by (simp add: numeral_eq_Suc)

lemmas fault_eval = object_eval replicate_cntrs
  ofi_ip_av_create_def util_verify_av_attr_def plain_av_def ofi_ep_bind_def
  ofi_ep_bind_valid_def ofi_ep_bind_av_def ofi_ep_bind_cntr_def
  cntr_flags_def CNTR_CNT_def has_flag_def fid_list_insert2_def ep_enable_def mr_open_def mr_close_def rds_ep_close_objects_def
  ofi_endpoint_close_def unbind_def fid_list_remove2_def free_ep_def ofi_cntr_progress_def rds_domain_close_def ofi_domain_close_def
  ofi_needs_rx_def ofi_needs_tx_def ofi_recv_allowed_def ofi_send_allowed_def ofi_rma_initiate_allowed_def enumerate_eq_zip

lemma domain_close_result:
  assumes inv: "obj_inv exact w" and "live w Domain i"
  shows "map_option fst (rds_domain_close i w) = Some (if refcnt w Domain i = 0 then 0 else - FI_EBUSY)"
proof -
  obtain d where d: "domains w i = Some d" using assms(2) by (auto simp: live_def)
  let ?w = "w\<lparr>domains := (domains w)(i \<mapsto> d\<lparr>dm_cache := False\<rparr>)\<rparr>"
  have "obj_inv exact ?w" by (rule inv_same_domain [OF inv d]) simp_all
  then have "\<exists>w'. ofi_domain_close i ?w = Some (0, w')" if "dm_ref d = 0"
    using ofi_domain_close_free [of exact ?w i "d\<lparr>dm_cache := False\<rparr>"] that by auto
  moreover have "ofi_domain_close i ?w = Some (- FI_EBUSY, ?w)" if "dm_ref d \<noteq> 0" using that by (simp add: ofi_domain_close_def)
  ultimately show ?thesis using d by (auto simp: rds_domain_close_def refcnt_def)
qed

lemma close_results:
  assumes inv: "obj_inv exact w"
  shows "live w Fabric i \<Longrightarrow> map_option fst (rds_fabric_close i w) = Some (if refcnt w Fabric i = 0 then 0 else - FI_EBUSY)"
    and "live w Eq i \<Longrightarrow> map_option fst (util_eq_close i w) = Some (if refcnt w Eq i = 0 then 0 else - FI_EBUSY)"
    and "live w Av i \<Longrightarrow> map_option fst (ip_av_close i w) = Some (if refcnt w Av i = 0 then 0 else - FI_EBUSY)"
    and "live w Cq i \<Longrightarrow> map_option fst (rds_cq_close i w) = Some (if refcnt w Cq i = 0 then 0 else - FI_EBUSY)"
    and "live w Cntr i \<Longrightarrow> map_option fst (util_cntr_close i w) = Some (if refcnt w Cntr i = 0 then 0 else - FI_EBUSY)"
proof -
  show "map_option fst (rds_fabric_close i w) = Some (if refcnt w Fabric i = 0 then 0 else - FI_EBUSY)" if "live w Fabric i"
  proof -
    obtain f where "fabrics w i = Some f" using \<open>live w Fabric i\<close> by (auto simp: live_def)
    then show ?thesis by (simp add: refcnt_def rds_fabric_close_def)
  qed
  show "map_option fst (util_eq_close i w) = Some (if refcnt w Eq i = 0 then 0 else - FI_EBUSY)" if "live w Eq i"
  proof -
    obtain q where q: "eqs w i = Some q" using \<open>live w Eq i\<close> by (auto simp: live_def)
    obtain w1 where "add_ref Fabric (eq_fabric q) (- 1) w = Some w1" using add_ref_live [OF pointer_live(3) [OF inv q]] by blast
    then show ?thesis using q by (simp add: refcnt_def util_eq_close_def ofi_eq_cleanup_def)
  qed
  show "map_option fst (ip_av_close i w) = Some (if refcnt w Av i = 0 then 0 else - FI_EBUSY)" if "live w Av i"
  proof -
    obtain a where a: "avs w i = Some a" using \<open>live w Av i\<close> by (auto simp: live_def)
    obtain w1 where "add_ref Domain (ao_domain a) (- 1) w = Some w1" using add_ref_live [OF pointer_live(4) [OF inv a]] by blast
    then show ?thesis using a by (simp add: refcnt_def ip_av_close_def)
  qed
  show "map_option fst (rds_cq_close i w) = Some (if refcnt w Cq i = 0 then 0 else - FI_EBUSY)" if "live w Cq i"
  proof -
    obtain q where q: "cqs w i = Some q" using \<open>live w Cq i\<close> by (auto simp: live_def)
    obtain w1 where "add_ref Domain (co_domain q) (- 1) w = Some w1" using add_ref_live [OF pointer_live(5) [OF inv q]] by blast
    then show ?thesis using q by (simp add: refcnt_def rds_cq_close_def)
  qed
  show "map_option fst (util_cntr_close i w) = Some (if refcnt w Cntr i = 0 then 0 else - FI_EBUSY)" if "live w Cntr i"
  proof -
    obtain c where c: "cntrs w i = Some c" using \<open>live w Cntr i\<close> by (auto simp: live_def)
    obtain w1 where "add_ref Domain (no_domain c) (- 1) w = Some w1" using add_ref_live [OF pointer_live(6) [OF inv c]] by blast
    then show ?thesis using c by (simp add: refcnt_def util_cntr_close_def ofi_cntr_cleanup_def)
  qed
qed

lemma sample_good: "good_calls sample_calls no_objects"
  by (simp add: sample_calls_def object_eval)





end
