(* ===== verification/Util_Attr.thy ===== *)
theory Util_Attr
  imports Util_Objects
begin

text \<open>
  The attributes an application asks for and the checks against what a provider offers
  (\<^verbatim>\<open>prov/util/src/util_attr.c\<close>).  An attribute the application leaves out is \<open>None\<close>; the table of a
  provider has every attribute.  Sizes are 64-bit words, as \<^verbatim>\<open>size_t\<close> is, versions are numbers.
  Attributes that no check and no rule of the negotiation looks at, pointers to open objects among
  them, are left out.  A value outside an enumeration is treated like one the rules do not list.
\<close>

section \<open>Attributes\<close>

abbreviation (input) FI_MULTICAST :: u64 where "FI_MULTICAST \<equiv> 0x20"
abbreviation (input) FI_MULTI_RECV :: u64 where "FI_MULTI_RECV \<equiv> 0x10000"
abbreviation (input) FI_TRIGGER :: u64 where "FI_TRIGGER \<equiv> 0x100000"
abbreviation (input) FI_FENCE :: u64 where "FI_FENCE \<equiv> 0x200000"
abbreviation (input) FI_INJECT :: u64 where "FI_INJECT \<equiv> 0x2000000"
abbreviation (input) FI_INJECT_COMPLETE :: u64 where "FI_INJECT_COMPLETE \<equiv> 0x4000000"
abbreviation (input) FI_DELIVERY_COMPLETE :: u64 where "FI_DELIVERY_COMPLETE \<equiv> 0x10000000"
abbreviation (input) FI_AV_USER_ID :: u64 where "FI_AV_USER_ID \<equiv> 0x20000000000"
abbreviation (input) FI_HMEM :: u64 where "FI_HMEM \<equiv> 0x800000000000"
abbreviation (input) FI_RMA_PMEM :: u64 where "FI_RMA_PMEM \<equiv> 0x2000000000000"
abbreviation (input) FI_SOURCE_ERR :: u64 where "FI_SOURCE_ERR \<equiv> 0x4000000000000"
abbreviation (input) FI_LOCAL_COMM :: u64 where "FI_LOCAL_COMM \<equiv> 0x8000000000000"
abbreviation (input) FI_REMOTE_COMM :: u64 where "FI_REMOTE_COMM \<equiv> 0x10000000000000"
abbreviation (input) FI_SHARED_AV :: u64 where "FI_SHARED_AV \<equiv> 0x20000000000000"
abbreviation (input) FI_RMA_EVENT :: u64 where "FI_RMA_EVENT \<equiv> 0x100000000000000"
abbreviation (input) FI_NAMED_RX_CTX :: u64 where "FI_NAMED_RX_CTX \<equiv> 0x400000000000000"
abbreviation (input) FI_DIRECTED_RECV :: u64 where "FI_DIRECTED_RECV \<equiv> 0x800000000000000"

definition OFI_PRIMARY_CAPS :: u64 where
  "OFI_PRIMARY_CAPS =
     FI_MSG OR FI_RMA OR FI_TAGGED OR FI_ATOMICS OR FI_MULTICAST OR FI_READ OR FI_WRITE OR FI_SEND OR FI_COLLECTIVE OR
     FI_NAMED_RX_CTX OR FI_HMEM OR FI_REMOTE_READ OR FI_REMOTE_WRITE OR FI_RECV OR FI_DIRECTED_RECV OR FI_AV_USER_ID OR FI_PEER"

definition OFI_SECONDARY_CAPS :: u64 where
  "OFI_SECONDARY_CAPS =
     FI_TRIGGER OR FI_FENCE OR FI_RMA_PMEM OR FI_MULTI_RECV OR FI_SOURCE OR FI_RMA_EVENT OR FI_SOURCE_ERR OR
     FI_SHARED_AV OR FI_REMOTE_COMM OR FI_LOCAL_COMM"

definition OFI_IGNORED_TX_CAPS :: u64 where
  "OFI_IGNORED_TX_CAPS =
     FI_REMOTE_READ OR FI_REMOTE_WRITE OR FI_RECV OR FI_DIRECTED_RECV OR FI_MULTI_RECV OR FI_SOURCE OR FI_RMA_EVENT OR FI_SOURCE_ERR"

definition OFI_IGNORED_RX_CAPS :: u64 where
  "OFI_IGNORED_RX_CAPS = FI_READ OR FI_WRITE OR FI_SEND OR FI_FENCE OR FI_MULTICAST OR FI_NAMED_RX_CTX"

abbreviation (input) OFI_MSG_DIRECTION_CAPS :: u64 where "OFI_MSG_DIRECTION_CAPS \<equiv> FI_SEND OR FI_RECV"
abbreviation (input) OFI_RMA_DIRECTION_CAPS :: u64 where
  "OFI_RMA_DIRECTION_CAPS \<equiv> FI_READ OR FI_WRITE OR FI_REMOTE_READ OR FI_REMOTE_WRITE"

text \<open>The bits of \<^verbatim>\<open>mr_mode\<close>, an \<^verbatim>\<open>int\<close> used as a set of bits.\<close>

abbreviation (input) OFI_MR_BASIC :: u32 where "OFI_MR_BASIC \<equiv> 0x1"
abbreviation (input) OFI_MR_SCALABLE :: u32 where "OFI_MR_SCALABLE \<equiv> 0x2"
abbreviation (input) FI_MR_LOCAL :: u32 where "FI_MR_LOCAL \<equiv> 0x4"
abbreviation (input) FI_MR_RAW :: u32 where "FI_MR_RAW \<equiv> 0x8"
abbreviation (input) FI_MR_VIRT_ADDR :: u32 where "FI_MR_VIRT_ADDR \<equiv> 0x10"
abbreviation (input) FI_MR_PROV_KEY :: u32 where "FI_MR_PROV_KEY \<equiv> 0x40"
abbreviation (input) FI_MR_RMA_EVENT :: u32 where "FI_MR_RMA_EVENT \<equiv> 0x100"
abbreviation (input) FI_MR_HMEM :: u32 where "FI_MR_HMEM \<equiv> 0x400"
abbreviation (input) OFI_MR_MODE_RMA_TARGET :: u32 where
  "OFI_MR_MODE_RMA_TARGET \<equiv> FI_MR_RAW OR FI_MR_VIRT_ADDR OR FI_MR_PROV_KEY OR FI_MR_RMA_EVENT"
abbreviation (input) OFI_LOCAL_MR :: u64 where "OFI_LOCAL_MR \<equiv> 0x80000000000000"

abbreviation (input) SIZE_MAX :: u64 where "SIZE_MAX \<equiv> - 1"
abbreviation (input) FI_SHARED_CONTEXT :: u64 where "FI_SHARED_CONTEXT \<equiv> SIZE_MAX"
abbreviation (input) FI_AV_AUTH_KEY :: u64 where "FI_AV_AUTH_KEY \<equiv> SIZE_MAX"

datatype fi_threading = FI_THREAD_UNSPEC | FI_THREAD_SAFE | FI_THREAD_FID | FI_THREAD_DOMAIN | FI_THREAD_COMPLETION | FI_THREAD_ENDPOINT

datatype fi_progress = FI_PROGRESS_UNSPEC | FI_PROGRESS_AUTO | FI_PROGRESS_MANUAL | FI_PROGRESS_CONTROL_UNIFIED

datatype fi_resource_mgmt = FI_RM_UNSPEC | FI_RM_DISABLED | FI_RM_ENABLED

datatype fi_ep_type = FI_EP_UNSPEC | FI_EP_MSG | FI_EP_DGRAM | FI_EP_RDM

text \<open>The address formats that the checks tell apart; the others are numbered.\<close>

datatype fi_addr_format = FI_FORMAT_UNSPEC | FI_SOCKADDR | FI_SOCKADDR_IN | FI_SOCKADDR_IN6 | FI_SOCKADDR_IB | FI_SOCKADDR_IP | FI_ADDR_STR | FI_ADDR_OTHER nat

record fi_tx_attr =
  ta_caps :: u64
  ta_mode :: u64
  ta_op_flags :: u64
  ta_msg_order :: u64
  ta_comp_order :: u64
  ta_inject_size :: u64
  ta_size :: u64
  ta_iov_limit :: u64
  ta_rma_iov_limit :: u64

record fi_rx_attr =
  xa_caps :: u64
  xa_mode :: u64
  xa_op_flags :: u64
  xa_msg_order :: u64
  xa_comp_order :: u64
  xa_total_buffered_recv :: u64
  xa_size :: u64
  xa_iov_limit :: u64

record fi_ep_attr =
  ea_type :: fi_ep_type
  ea_protocol :: nat
  ea_protocol_version :: nat
  ea_max_msg_size :: u64
  ea_max_order_raw_size :: u64
  ea_max_order_war_size :: u64
  ea_max_order_waw_size :: u64
  ea_mem_tag_format :: u64
  ea_tx_ctx_cnt :: u64
  ea_rx_ctx_cnt :: u64
  ea_auth_key_size :: u64
  ea_auth_key :: "byte list option"

record fi_domain_attr =
  da_name :: "string option"
  da_threading :: fi_threading
  da_control_progress :: fi_progress
  da_progress :: fi_progress
  da_resource_mgmt :: fi_resource_mgmt
  da_av_type :: fi_av_type
  da_mr_mode :: u32
  da_cq_data_size :: u64
  da_max_ep_tx_ctx :: u64
  da_max_ep_rx_ctx :: u64
  da_max_ep_stx_ctx :: u64
  da_max_ep_srx_ctx :: u64
  da_cntr_cnt :: u64
  da_mr_iov_limit :: u64
  da_caps :: u64
  da_mode :: u64
  da_auth_key :: "byte list option"
  da_auth_key_size :: u64
  da_max_err_data :: u64
  da_mr_cnt :: u64
  da_max_ep_auth_key :: u64
  da_max_cntr_value :: u64
  da_max_err_cntr_value :: u64

record fi_fabric_attr =
  ba_name :: "string option"
  ba_prov_name :: "string option"
  ba_prov_version :: nat
  ba_api_version :: nat

text \<open>What an application passes, and what a provider has.\<close>

record fi_info =
  in_caps :: u64
  in_mode :: u64
  in_addr_format :: fi_addr_format
  in_src_addr :: "byte list option"
  in_dest_addr :: "byte list option"
  in_handle :: nat
  in_tx :: "fi_tx_attr option"
  in_rx :: "fi_rx_attr option"
  in_ep :: "fi_ep_attr option"
  in_domain :: "fi_domain_attr option"
  in_fabric :: "fi_fabric_attr option"

record prov_info =
  pi_caps :: u64
  pi_mode :: u64
  pi_addr_format :: fi_addr_format
  pi_src_addr :: "byte list option"
  pi_dest_addr :: "byte list option"
  pi_handle :: nat
  pi_tx :: fi_tx_attr
  pi_rx :: fi_rx_attr
  pi_ep :: fi_ep_attr
  pi_domain :: fi_domain_attr
  pi_fabric :: fi_fabric_attr

definition info_of :: "prov_info \<Rightarrow> fi_info" where
  "info_of p = \<lparr>in_caps = pi_caps p, in_mode = pi_mode p, in_addr_format = pi_addr_format p, in_src_addr = pi_src_addr p,
     in_dest_addr = pi_dest_addr p, in_handle = pi_handle p, in_tx = Some (pi_tx p), in_rx = Some (pi_rx p), in_ep = Some (pi_ep p),
     in_domain = Some (pi_domain p), in_fabric = Some (pi_fabric p)\<rparr>"

section \<open>Checks\<close>

definition is_sockaddr :: "fi_addr_format \<Rightarrow> bool" where
  "is_sockaddr f \<longleftrightarrow> f \<in> {FI_SOCKADDR, FI_SOCKADDR_IP, FI_SOCKADDR_IN, FI_SOCKADDR_IN6, FI_SOCKADDR_IB}"

definition is_ipaddr :: "fi_addr_format \<Rightarrow> bool" where
  "is_ipaddr f \<longleftrightarrow> f \<in> {FI_SOCKADDR, FI_SOCKADDR_IP, FI_SOCKADDR_IN, FI_SOCKADDR_IN6}"

definition is_ipv4addr :: "fi_addr_format \<Rightarrow> bool" where
  "is_ipv4addr f \<longleftrightarrow> f \<in> {FI_SOCKADDR, FI_SOCKADDR_IP, FI_SOCKADDR_IN}"

definition is_ipv6addr :: "fi_addr_format \<Rightarrow> bool" where
  "is_ipv6addr f \<longleftrightarrow> f \<in> {FI_SOCKADDR, FI_SOCKADDR_IP, FI_SOCKADDR_IN6}"

definition is_ibaddr :: "fi_addr_format \<Rightarrow> bool" where
  "is_ibaddr f \<longleftrightarrow> f \<in> {FI_SOCKADDR, FI_SOCKADDR_IB}"

definition ofi_match_addr_format :: "fi_addr_format \<Rightarrow> fi_addr_format \<Rightarrow> bool" where
  "ofi_match_addr_format if_format user_format \<longleftrightarrow>
     (if user_format = FI_FORMAT_UNSPEC \<or> if_format = FI_FORMAT_UNSPEC then True
      else (case user_format of
              FI_SOCKADDR \<Rightarrow> is_sockaddr if_format
            | FI_SOCKADDR_IP \<Rightarrow> is_ipaddr if_format
            | _ \<Rightarrow> if_format = user_format))"

definition ofi_valid_addr_format :: "fi_addr_format \<Rightarrow> fi_addr_format \<Rightarrow> bool" where
  "ofi_valid_addr_format prov_format user_format \<longleftrightarrow>
     (if user_format = FI_FORMAT_UNSPEC \<or> prov_format = FI_FORMAT_UNSPEC then True
      else (case prov_format of
              FI_SOCKADDR \<Rightarrow> is_sockaddr user_format
            | FI_SOCKADDR_IP \<Rightarrow> is_ipaddr user_format
            | FI_SOCKADDR_IN \<Rightarrow> is_ipv4addr user_format
            | FI_SOCKADDR_IN6 \<Rightarrow> is_ipv6addr user_format
            | FI_SOCKADDR_IB \<Rightarrow> is_ibaddr user_format
            | _ \<Rightarrow> prov_format = user_format))"

text \<open>\<^verbatim>\<open>strcasestr\<close>: whether the second string occurs in the first, ignoring the case of letters.\<close>

definition to_lower :: "char \<Rightarrow> nat" where
  "to_lower c = (let n = of_char c in if 65 \<le> n \<and> n \<le> 90 then n + 32 else n)"

fun strcasestr :: "string \<Rightarrow> string \<Rightarrow> bool" where
  "strcasestr [] n \<longleftrightarrow> n = []"
| "strcasestr (c # h) n \<longleftrightarrow> map to_lower n = map to_lower (take (length n) (c # h)) \<or> strcasestr h n"

definition ofi_check_fabric_attr :: "fi_fabric_attr \<Rightarrow> fi_fabric_attr \<Rightarrow> int" where
  "ofi_check_fabric_attr prov user =
     (if (case (ba_prov_name prov, ba_prov_name user) of (Some p, Some u) \<Rightarrow> \<not> strcasestr u p | _ \<Rightarrow> False) then - FI_ENODATA
      else if ba_prov_version user > ba_prov_version prov then - FI_ENODATA
      else if ba_api_version user < ba_api_version prov then - FI_ENODATA
      else 0)"

fun ofi_thread_level :: "fi_threading \<Rightarrow> int" where
  "ofi_thread_level FI_THREAD_SAFE = 1"
| "ofi_thread_level FI_THREAD_COMPLETION = 2"
| "ofi_thread_level FI_THREAD_DOMAIN = 3"
| "ofi_thread_level FI_THREAD_UNSPEC = 4"
| "ofi_thread_level _ = - 1"

fun fi_progress_level :: "fi_progress \<Rightarrow> int" where
  "fi_progress_level FI_PROGRESS_AUTO = 1"
| "fi_progress_level FI_PROGRESS_MANUAL = 2"
| "fi_progress_level FI_PROGRESS_CONTROL_UNIFIED = 3"
| "fi_progress_level FI_PROGRESS_UNSPEC = 4"

fun fi_resource_mgmt_level :: "fi_resource_mgmt \<Rightarrow> int" where
  "fi_resource_mgmt_level FI_RM_ENABLED = 1"
| "fi_resource_mgmt_level FI_RM_DISABLED = 2"
| "fi_resource_mgmt_level FI_RM_UNSPEC = 3"

definition ofi_rma_target_allowed :: "u64 \<Rightarrow> bool" where
  "ofi_rma_target_allowed caps \<longleftrightarrow>
     (if has_flag caps FI_RMA \<or> has_flag caps FI_ATOMICS
      then if has_flag caps FI_REMOTE_WRITE \<or> has_flag caps FI_REMOTE_READ then True
           else \<not> (has_flag caps FI_WRITE \<or> has_flag caps FI_READ)
      else False)"

definition ofi_cap_mr_mode :: "u64 \<Rightarrow> u32 \<Rightarrow> u32" where
  "ofi_cap_mr_mode info_caps mr_mode =
     (let m = (if \<not> has_flag info_caps FI_HMEM then mr_mode AND NOT FI_MR_HMEM else mr_mode)
      in if \<not> ofi_rma_target_allowed info_caps
         then if m AND (FI_MR_LOCAL OR FI_MR_HMEM) = 0 then 0
              else m AND NOT OFI_MR_MODE_RMA_TARGET AND NOT (OFI_MR_BASIC OR OFI_MR_SCALABLE)
         else m AND NOT (OFI_MR_BASIC OR OFI_MR_SCALABLE))"

definition ofi_check_mr_mode :: "nat \<Rightarrow> u32 \<Rightarrow> fi_info \<Rightarrow> u32 \<Rightarrow> int" where
  "ofi_check_mr_mode api_version prov_mode user user_mode =
     (if prov_mode AND FI_MR_LOCAL \<noteq> 0 \<and> \<not> (has_flag (in_mode user) OFI_LOCAL_MR \<or> user_mode AND FI_MR_LOCAL \<noteq> 0)
      then - FI_ENODATA
      else if api_version < FI_VERSION 1 5
      then if user_mode = 0 then if prov_mode AND (OFI_MR_SCALABLE OR OFI_MR_BASIC) = 0 then - FI_ENODATA else 0
           else if user_mode = OFI_MR_BASIC then if prov_mode AND OFI_MR_BASIC = 0 then - FI_ENODATA else 0
           else if user_mode = OFI_MR_SCALABLE then if prov_mode AND OFI_MR_SCALABLE = 0 then - FI_ENODATA else 0
           else - FI_ENODATA
      else if user_mode AND OFI_MR_BASIC \<noteq> 0
      then if user_mode AND NOT OFI_MR_BASIC \<noteq> 0 \<or> prov_mode AND OFI_MR_BASIC = 0 then - FI_ENODATA else 0
      else if user_mode AND OFI_MR_SCALABLE \<noteq> 0
      then if user_mode AND NOT OFI_MR_SCALABLE \<noteq> 0 \<or> prov_mode AND OFI_MR_SCALABLE = 0 then - FI_ENODATA else 0
      else let pm = ofi_cap_mr_mode (in_caps user) prov_mode
           in if user_mode \<noteq> 0 \<and> user_mode AND pm \<noteq> pm then - FI_ENODATA else 0)"

definition ofi_check_domain_attr :: "nat \<Rightarrow> fi_domain_attr \<Rightarrow> fi_info \<Rightarrow> fi_domain_attr \<Rightarrow> int" where
  "ofi_check_domain_attr api_version prov info user =
     (if ofi_thread_level (da_threading user) < ofi_thread_level (da_threading prov) then - FI_ENODATA
      else if fi_progress_level (da_progress user) < fi_progress_level (da_progress prov) then - FI_ENODATA
      else if fi_resource_mgmt_level (da_resource_mgmt user) < fi_resource_mgmt_level (da_resource_mgmt prov) then - FI_ENODATA
      else if da_av_type prov \<noteq> FI_AV_UNSPEC \<and> da_av_type user \<noteq> FI_AV_UNSPEC \<and> da_av_type prov \<noteq> da_av_type user then - FI_ENODATA
      else if da_cq_data_size user > da_cq_data_size prov then - FI_ENODATA
      else if ofi_check_mr_mode api_version (da_mr_mode prov) info (da_mr_mode user) \<noteq> 0 then - FI_ENODATA
      else if api_version < FI_VERSION 1 5 then 0
      else if da_cntr_cnt user > da_cntr_cnt prov then - FI_ENODATA
      else if da_mr_iov_limit user > da_mr_iov_limit prov then - FI_ENODATA
      else if da_caps user AND NOT (da_caps prov) \<noteq> 0 then - FI_ENODATA
      else if da_mode user AND da_mode prov \<noteq> da_mode prov then - FI_ENODATA
      else if da_max_err_data user > da_max_err_data prov then - FI_ENODATA
      else if da_mr_cnt user > da_mr_cnt prov then - FI_ENODATA
      else if (if da_auth_key_size user = FI_AV_AUTH_KEY \<and> api_version \<ge> FI_VERSION 1 20 then da_auth_key user \<noteq> None
               else da_auth_key_size user \<noteq> 0 \<and> da_auth_key_size user \<noteq> da_auth_key_size prov) then - FI_ENODATA
      else if api_version \<ge> FI_VERSION 1 20 \<and> da_max_ep_auth_key user > da_max_ep_auth_key prov then - FI_ENODATA
      else if api_version \<ge> FI_VERSION 2 5 \<and> da_max_cntr_value prov \<noteq> 0 \<and> da_max_cntr_value user > da_max_cntr_value prov
      then - FI_ENODATA
      else if api_version \<ge> FI_VERSION 2 5 \<and> da_max_err_cntr_value prov \<noteq> 0 \<and> da_max_err_cntr_value user > da_max_err_cntr_value prov
      then - FI_ENODATA
      else 0)"

definition ofi_check_ep_type :: "fi_ep_attr \<Rightarrow> fi_ep_attr \<Rightarrow> int" where
  "ofi_check_ep_type prov user =
     (if ea_type user \<noteq> FI_EP_UNSPEC \<and> ea_type prov \<noteq> FI_EP_UNSPEC \<and> ea_type user \<noteq> ea_type prov then - FI_ENODATA else 0)"

fun ofi_msb :: "nat \<Rightarrow> nat" where
  "ofi_msb n = (if n = 0 then 0 else Suc (ofi_msb (n div 2)))"

declare ofi_msb.simps [simp del]

definition ofi_max_tag :: "u64 \<Rightarrow> u64" where
  "ofi_max_tag f = (if f \<noteq> 0 then drop_bit (64 - ofi_msb (unat f)) (- 1) else 0)"

text \<open>The check of one of the two numbers of contexts; \<open>mx\<close> and \<open>shared\<close> are the limits of the domain.\<close>

definition check_ctx_cnt :: "u64 \<Rightarrow> u64 \<Rightarrow> u64 \<Rightarrow> u64 \<Rightarrow> int" where
  "check_ctx_cnt mx shared prov user =
     (if user > mx
      then if user = FI_SHARED_CONTEXT then if shared = 0 then - FI_ENODATA else 0 else - FI_ENODATA
      else if user = 0 \<and> prov = FI_SHARED_CONTEXT then - FI_ENODATA
      else 0)"

definition ofi_check_ep_attr :: "nat \<Rightarrow> prov_info \<Rightarrow> fi_info \<Rightarrow> fi_ep_attr \<Rightarrow> int" where
  "ofi_check_ep_attr api_version prov info user =
     (let pa = pi_ep prov; pd = pi_domain prov;
          av_auth_key = (api_version \<ge> FI_VERSION 1 20 \<and>
            (case in_domain info of None \<Rightarrow> False | Some d \<Rightarrow> da_auth_key_size d = FI_AV_AUTH_KEY))
      in if ofi_check_ep_type pa user \<noteq> 0 then ofi_check_ep_type pa user
         else if ea_protocol user \<noteq> 0 \<and> ea_protocol user \<noteq> ea_protocol pa then - FI_ENODATA
         else if ea_protocol_version user \<noteq> 0 \<and> ea_protocol_version user > ea_protocol_version pa then - FI_ENODATA
         else if ea_max_msg_size user > ea_max_msg_size pa then - FI_ENODATA
         else if check_ctx_cnt (da_max_ep_tx_ctx pd) (da_max_ep_stx_ctx pd) (ea_tx_ctx_cnt pa) (ea_tx_ctx_cnt user) \<noteq> 0 then - FI_ENODATA
         else if check_ctx_cnt (da_max_ep_rx_ctx pd) (da_max_ep_srx_ctx pd) (ea_rx_ctx_cnt pa) (ea_rx_ctx_cnt user) \<noteq> 0 then - FI_ENODATA
         else if has_flag (in_caps info) (FI_RMA OR FI_ATOMICS) \<and>
             (ea_max_order_raw_size user > ea_max_order_raw_size pa \<or> ea_max_order_war_size user > ea_max_order_war_size pa \<or>
              ea_max_order_waw_size user > ea_max_order_waw_size pa) then - FI_ENODATA
         else if (if av_auth_key then ea_auth_key user \<noteq> None \<or> ea_auth_key_size user \<noteq> 0
                  else ea_auth_key_size user \<noteq> 0 \<and> ea_auth_key_size user \<noteq> ea_auth_key_size pa) then - FI_ENODATA
         else if has_flag (in_caps info) FI_TAGGED \<and> ea_mem_tag_format user \<noteq> 0 \<and>
             ofi_max_tag (ea_mem_tag_format user) > ofi_max_tag (ea_mem_tag_format pa) then - FI_ENODATA
         else 0)"

definition ofi_check_rx_attr :: "fi_rx_attr \<Rightarrow> fi_rx_attr \<Rightarrow> u64 \<Rightarrow> int" where
  "ofi_check_rx_attr prov user info_mode =
     (let mode = (if xa_mode user \<noteq> 0 then xa_mode user else info_mode)
      in if xa_caps user AND NOT OFI_IGNORED_RX_CAPS AND NOT (xa_caps prov) \<noteq> 0 then - FI_ENODATA
         else if mode AND xa_mode prov \<noteq> xa_mode prov then - FI_ENODATA
         else if xa_op_flags user AND NOT (xa_op_flags prov) \<noteq> 0 then - FI_ENODATA
         else if xa_msg_order user AND NOT (xa_msg_order prov) \<noteq> 0 then - FI_ENODATA
         else if xa_comp_order user \<noteq> 0 then - FI_ENODATA
         else if xa_total_buffered_recv user \<noteq> 0 then - FI_ENODATA
         else if xa_size user > xa_size prov then - FI_ENODATA
         else if xa_iov_limit user > xa_iov_limit prov then - FI_ENODATA
         else 0)"

definition ofi_check_tx_attr :: "fi_tx_attr \<Rightarrow> fi_tx_attr \<Rightarrow> u64 \<Rightarrow> int" where
  "ofi_check_tx_attr prov user info_mode =
     (let mode = (if ta_mode user \<noteq> 0 then ta_mode user else info_mode)
      in if ta_caps user AND NOT OFI_IGNORED_TX_CAPS AND NOT (ta_caps prov) \<noteq> 0 then - FI_ENODATA
         else if mode AND ta_mode prov \<noteq> ta_mode prov then - FI_ENODATA
         else if ta_op_flags user AND NOT (ta_op_flags prov) \<noteq> 0 then - FI_ENODATA
         else if ta_msg_order user AND NOT (ta_msg_order prov) \<noteq> 0 then - FI_ENODATA
         else if ta_comp_order user \<noteq> 0 then - FI_ENODATA
         else if ta_inject_size user > ta_inject_size prov then - FI_ENODATA
         else if ta_size user > ta_size prov then - FI_ENODATA
         else if ta_iov_limit user > ta_iov_limit prov then - FI_ENODATA
         else if ta_rma_iov_limit user > ta_rma_iov_limit prov then - FI_ENODATA
         else 0)"

definition ofi_mr_get_prov_mode :: "nat \<Rightarrow> fi_info \<Rightarrow> prov_info \<Rightarrow> u64" where
  "ofi_mr_get_prov_mode version user prov =
     (if version < FI_VERSION 1 5 \<or> (case in_domain user of None \<Rightarrow> False | Some d \<Rightarrow> da_mr_mode d AND FI_MR_LOCAL = 0)
      then if da_mr_mode (pi_domain prov) AND FI_MR_LOCAL \<noteq> 0 then pi_mode prov OR OFI_LOCAL_MR else pi_mode prov
      else pi_mode prov)"

text \<open>A check of an attribute the application may have left out.\<close>

definition check_opt :: "('a \<Rightarrow> int) \<Rightarrow> 'a option \<Rightarrow> int" where
  "check_opt f x = (case x of None \<Rightarrow> 0 | Some a \<Rightarrow> f a)"

definition ofi_check_info :: "prov_info \<Rightarrow> nat \<Rightarrow> fi_info option \<Rightarrow> int" where
  "ofi_check_info prov api_version info =
     (case info of
        None \<Rightarrow> 0
      | Some user \<Rightarrow>
          let prov_mode = ofi_mr_get_prov_mode api_version user prov;
              c1 = check_opt (ofi_check_ep_type (pi_ep prov)) (in_ep user);
              c2 = check_opt (ofi_check_fabric_attr (pi_fabric prov)) (in_fabric user);
              c3 = check_opt (ofi_check_domain_attr api_version (pi_domain prov) user) (in_domain user);
              c4 = check_opt (ofi_check_ep_attr api_version prov user) (in_ep user);
              c5 = check_opt (\<lambda>r. ofi_check_rx_attr (pi_rx prov) r (in_mode user)) (in_rx user);
              c6 = check_opt (\<lambda>t. ofi_check_tx_attr (pi_tx prov) t (in_mode user)) (in_tx user)
          in if c1 \<noteq> 0 then c1
             else if in_caps user AND NOT (pi_caps prov) \<noteq> 0 then - FI_ENODATA
             else if in_mode user AND prov_mode \<noteq> prov_mode then - FI_ENODATA
             else if \<not> ofi_valid_addr_format (pi_addr_format prov) (in_addr_format user) then - FI_ENODATA
             else if c2 \<noteq> 0 then c2
             else if c3 \<noteq> 0 then c3
             else if c4 \<noteq> 0 then c4
             else if c5 \<noteq> 0 then c5
             else if c6 \<noteq> 0 then c6
             else 0)"

text \<open>The provider's list of tables; a missing \<open>fi_info\<close> of the application is accepted.\<close>

definition ofi_prov_check_info :: "prov_info list \<Rightarrow> nat \<Rightarrow> fi_info option \<Rightarrow> int" where
  "ofi_prov_check_info provs api_version user =
     (if user = None then 0
      else if list_ex (\<lambda>p. ofi_check_info p api_version user = 0) provs then 0 else - FI_ENODATA)"

section \<open>Adjusting the attributes\<close>

definition ofi_get_caps :: "u64 \<Rightarrow> u64 \<Rightarrow> u64 \<Rightarrow> u64" where
  "ofi_get_caps info_caps hint_caps attr_caps =
     (let c0 = (if hint_caps = 0 then info_caps AND attr_caps AND OFI_PRIMARY_CAPS OR attr_caps AND OFI_SECONDARY_CAPS
                else (hint_caps AND OFI_PRIMARY_CAPS OR attr_caps AND OFI_SECONDARY_CAPS) AND NOT FI_SOURCE OR hint_caps AND FI_SOURCE);
          c1 = (if has_flag c0 (FI_MSG OR FI_TAGGED) \<and> \<not> has_flag c0 OFI_MSG_DIRECTION_CAPS
                then c0 OR attr_caps AND OFI_MSG_DIRECTION_CAPS else c0)
      in if has_flag c1 (FI_RMA OR FI_ATOMICS) \<and> \<not> has_flag c1 OFI_RMA_DIRECTION_CAPS
         then c1 OR attr_caps AND OFI_RMA_DIRECTION_CAPS else c1)"

definition alter_mr_mode :: "u32 \<Rightarrow> bool \<Rightarrow> u32 \<Rightarrow> u64 \<Rightarrow> nat \<Rightarrow> u32" where
  "alter_mr_mode mode hinted hints_mode info_caps api_version =
     (if hints_mode AND (OFI_MR_BASIC OR OFI_MR_SCALABLE) \<noteq> 0 then hints_mode
      else if api_version < FI_VERSION 1 5 then if mode \<noteq> 0 \<and> mode \<noteq> OFI_MR_SCALABLE then OFI_MR_BASIC else OFI_MR_SCALABLE
      else let m = mode AND NOT (OFI_MR_BASIC OR OFI_MR_SCALABLE)
           in if hinted \<and> hints_mode AND m \<noteq> m then ofi_cap_mr_mode info_caps (m AND hints_mode) else m)"

definition fi_alter_domain_attr :: "fi_domain_attr \<Rightarrow> fi_domain_attr option \<Rightarrow> u64 \<Rightarrow> nat \<Rightarrow> fi_domain_attr" where
  "fi_alter_domain_attr attr hints info_caps api_version =
     (let hint_mode = (case hints of None \<Rightarrow> 0 | Some h \<Rightarrow> da_mr_mode h);
          a1 = attr\<lparr>da_mr_mode := alter_mr_mode (da_mr_mode attr) (hints \<noteq> None) hint_mode info_caps api_version,
                 da_caps := ofi_get_caps info_caps (case hints of None \<Rightarrow> 0 | Some h \<Rightarrow> da_caps h) (da_caps attr),
                 da_max_cntr_value := (if da_max_cntr_value attr = 0 then - 1 else da_max_cntr_value attr),
                 da_max_err_cntr_value := (if da_max_err_cntr_value attr = 0 then - 1 else da_max_err_cntr_value attr)\<rparr>
      in case hints of
           None \<Rightarrow> a1
         | Some h \<Rightarrow>
             a1\<lparr>da_threading := (if da_threading h \<noteq> FI_THREAD_UNSPEC then da_threading h else da_threading a1),
               da_progress := (if da_progress h \<noteq> FI_PROGRESS_UNSPEC then da_progress h else da_progress a1),
               da_control_progress := (if da_progress h \<noteq> FI_PROGRESS_UNSPEC then da_progress h else da_control_progress a1),
               da_av_type := (if da_av_type h \<noteq> FI_AV_UNSPEC then da_av_type h else da_av_type a1),
               da_max_ep_auth_key := (if da_max_ep_auth_key h \<noteq> 0 then da_max_ep_auth_key h else da_max_ep_auth_key a1),
               da_auth_key_size := (if da_auth_key_size h = FI_AV_AUTH_KEY then FI_AV_AUTH_KEY else da_auth_key_size a1)\<rparr>)"

text \<open>A hint that is set replaces the provider's value.\<close>

abbreviation (input) hint_or :: "u64 \<Rightarrow> u64 \<Rightarrow> u64" where "hint_or h a \<equiv> if h \<noteq> 0 then h else a"

definition fi_alter_ep_attr :: "fi_ep_attr \<Rightarrow> fi_ep_attr option \<Rightarrow> u64 \<Rightarrow> fi_ep_attr" where
  "fi_alter_ep_attr attr hints info_caps =
     (case hints of
        None \<Rightarrow> attr
      | Some h \<Rightarrow>
          let a1 = (if has_flag info_caps (FI_RMA OR FI_ATOMICS)
                    then attr\<lparr>ea_max_order_raw_size := hint_or (ea_max_order_raw_size h) (ea_max_order_raw_size attr),
                           ea_max_order_war_size := hint_or (ea_max_order_war_size h) (ea_max_order_war_size attr),
                           ea_max_order_waw_size := hint_or (ea_max_order_waw_size h) (ea_max_order_waw_size attr)\<rparr>
                    else attr)
          in a1\<lparr>ea_tx_ctx_cnt := hint_or (ea_tx_ctx_cnt h) (ea_tx_ctx_cnt attr), ea_rx_ctx_cnt := hint_or (ea_rx_ctx_cnt h) (ea_rx_ctx_cnt attr)\<rparr>)"

definition fi_alter_rx_attr :: "fi_rx_attr \<Rightarrow> fi_rx_attr option \<Rightarrow> u64 \<Rightarrow> fi_rx_attr" where
  "fi_alter_rx_attr attr hints info_caps =
     (case hints of
        None \<Rightarrow> attr\<lparr>xa_caps := ofi_get_caps info_caps 0 (xa_caps attr)\<rparr>
      | Some h \<Rightarrow>
          attr\<lparr>xa_caps := ofi_get_caps info_caps (xa_caps h) (xa_caps attr), xa_op_flags := xa_op_flags h,
            xa_size := hint_or (xa_size h) (xa_size attr), xa_iov_limit := hint_or (xa_iov_limit h) (xa_iov_limit attr)\<rparr>)"

definition fi_alter_tx_attr :: "fi_tx_attr \<Rightarrow> fi_tx_attr option \<Rightarrow> u64 \<Rightarrow> fi_tx_attr" where
  "fi_alter_tx_attr attr hints info_caps =
     (case hints of
        None \<Rightarrow> attr\<lparr>ta_caps := ofi_get_caps info_caps 0 (ta_caps attr)\<rparr>
      | Some h \<Rightarrow>
          attr\<lparr>ta_caps := ofi_get_caps info_caps (ta_caps h) (ta_caps attr), ta_op_flags := ta_op_flags h,
            ta_inject_size := hint_or (ta_inject_size h) (ta_inject_size attr), ta_size := hint_or (ta_size h) (ta_size attr),
            ta_iov_limit := hint_or (ta_iov_limit h) (ta_iov_limit attr), ta_rma_iov_limit := hint_or (ta_rma_iov_limit h) (ta_rma_iov_limit attr)\<rparr>)"

definition ofi_get_info_caps :: "prov_info \<Rightarrow> fi_info option \<Rightarrow> nat \<Rightarrow> u64" where
  "ofi_get_info_caps prov hints api_version =
     (case hints of
        None \<Rightarrow> pi_caps prov
      | Some user \<Rightarrow>
          let caps = ofi_get_caps (pi_caps prov) (in_caps user) (pi_caps prov);
              prov_mode = da_mr_mode (pi_domain prov);
              trimmed = caps AND NOT (FI_REMOTE_WRITE OR FI_REMOTE_READ)
          in if \<not> ofi_rma_target_allowed caps \<or> prov_mode AND OFI_MR_MODE_RMA_TARGET = 0 then caps
             else (case in_domain user of
                     None \<Rightarrow> trimmed
                   | Some d \<Rightarrow>
                       if api_version < FI_VERSION 1 5 \<and> da_mr_mode d = 0 \<or> da_mr_mode d = OFI_MR_BASIC \<or>
                          da_mr_mode d AND prov_mode AND OFI_MR_MODE_RMA_TARGET = prov_mode AND OFI_MR_MODE_RMA_TARGET
                       then caps else trimmed))"

definition ofi_alter_info :: "prov_info \<Rightarrow> fi_info option \<Rightarrow> nat \<Rightarrow> prov_info" where
  "ofi_alter_info prov hints api_version =
     (let caps = ofi_get_info_caps prov hints api_version;
          hdom = Option.bind hints in_domain;
          local = (da_mr_mode (pi_domain prov) AND FI_MR_LOCAL \<noteq> 0 \<and>
            (api_version < FI_VERSION 1 5 \<or>
             (case hdom of None \<Rightarrow> False | Some d \<Rightarrow> da_mr_mode d AND (OFI_MR_BASIC OR OFI_MR_SCALABLE) \<noteq> 0)))
      in prov\<lparr>pi_caps := caps,
           pi_mode := (if local then pi_mode prov OR OFI_LOCAL_MR else pi_mode prov),
           pi_handle := (case hints of None \<Rightarrow> pi_handle prov | Some h \<Rightarrow> in_handle h),
           pi_domain := fi_alter_domain_attr (pi_domain prov) hdom caps api_version,
           pi_ep := fi_alter_ep_attr (pi_ep prov) (Option.bind hints in_ep) caps,
           pi_rx := fi_alter_rx_attr (pi_rx prov) (Option.bind hints in_rx) caps,
           pi_tx := fi_alter_tx_attr (pi_tx prov) (Option.bind hints in_tx) caps\<rparr>)"

end
