(* ===== verification/Util_Getinfo.thy ===== *)
theory Util_Getinfo
  imports Util_Attr
begin

text \<open>
  Discovery for providers over IP (\<^verbatim>\<open>util_getinfo\<close> and \<^verbatim>\<open>ofi_ip_getinfo\<close> of \<^verbatim>\<open>prov/util/src/util_main.c\<close>, the address
  helpers of \<^verbatim>\<open>prov/util/src/util_av.c\<close>): the provider's tables that satisfy the hints are copied, adjusted
  to the hints and given addresses.  Name resolution, the source address the system would use and the
  list of interfaces are arguments; \<^verbatim>\<open>getsockname\<close> on a connected socket does not fail.  The lookup of
  objects that are already open only sets pointers that are not modelled.
\<close>

section \<open>Addresses\<close>

abbreviation (input) AF_INET :: nat where "AF_INET \<equiv> 2"
abbreviation (input) AF_INET6 :: nat where "AF_INET6 \<equiv> 10"

text \<open>An interface address: its family, its bytes, whom it can reach, and the names of its network and device.\<close>

record if_addr =
  ia_family :: nat
  ia_addr :: "byte list"
  ia_comm_caps :: u64
  ia_net_name :: string
  ia_ifa_name :: string

text \<open>
  \<open>ge_resolve\<close> is \<^verbatim>\<open>getaddrinfo\<close> for a family, a passive flag, a node and a service; \<open>ge_src\<close> the name of a
  socket connected to an address, or an error; \<open>ge_dup\<close>, \<open>ge_dupinfo\<close> and \<open>ge_strdup\<close> say whether a copy can be made.
\<close>

record addr_env =
  ge_resolve :: "nat \<Rightarrow> bool \<Rightarrow> string option \<Rightarrow> string option \<Rightarrow> (nat \<times> byte list) option"
  ge_src :: "byte list \<Rightarrow> int + nat \<times> byte list"
  ge_dup :: "byte list \<Rightarrow> bool"
  ge_dupinfo :: "prov_info \<Rightarrow> bool"
  ge_strdup :: "string \<Rightarrow> bool"
  ge_ifs :: "if_addr list"

definition fi_get_sockaddr :: "addr_env \<Rightarrow> nat \<Rightarrow> u64 \<Rightarrow> string option \<Rightarrow> string option \<Rightarrow> int + nat \<times> byte list" where
  "fi_get_sockaddr env family flags node service =
     (case ge_resolve env family (has_flag flags FI_SOURCE) node service of
        None \<Rightarrow> Inl (- FI_ENODATA)
      | Some (f, bs) \<Rightarrow> if \<not> ge_dup env bs then Inl (- FI_ENOMEM) else Inr (f, bs))"

definition ofi_get_str_addr :: "string option \<Rightarrow> byte list option" where
  "ofi_get_str_addr node =
     (case node of
        None \<Rightarrow> None
      | Some n \<Rightarrow> if list_ex (\<lambda>i. take 3 (drop i n) = ''://'') [0..<length n] then Some (map of_char n @ [0]) else None)"

text \<open>The format and the address, which is missing if a string is not one.\<close>

definition ofi_get_addr ::
  "addr_env \<Rightarrow> fi_addr_format \<Rightarrow> u64 \<Rightarrow> string option \<Rightarrow> string option \<Rightarrow> int + fi_addr_format \<times> byte list option" where
  "ofi_get_addr env fmt flags node service =
     (let sock = (\<lambda>family. fi_get_sockaddr env family flags node service)
      in if fmt = FI_SOCKADDR \<or> fmt = FI_SOCKADDR_IP
         then (case sock 0 of
                 Inl e \<Rightarrow> Inl e
               | Inr (f, bs) \<Rightarrow> Inr (if f = AF_INET then FI_SOCKADDR_IN else FI_SOCKADDR_IN6, Some bs))
         else if fmt = FI_SOCKADDR_IN then (case sock AF_INET of Inl e \<Rightarrow> Inl e | Inr (f, bs) \<Rightarrow> Inr (fmt, Some bs))
         else if fmt = FI_SOCKADDR_IN6 then (case sock AF_INET6 of Inl e \<Rightarrow> Inl e | Inr (f, bs) \<Rightarrow> Inr (fmt, Some bs))
         else if fmt = FI_ADDR_STR then Inr (fmt, ofi_get_str_addr node)
         else Inl (- FI_ENOSYS))"

text \<open>The port is the third and fourth byte of both kinds of socket addresses.\<close>

definition fi_get_src_sockaddr :: "addr_env \<Rightarrow> fi_addr_format \<Rightarrow> byte list \<Rightarrow> fi_addr_format \<times> byte list option" where
  "fi_get_src_sockaddr env fmt dest =
     (case ge_src env dest of
        Inl e \<Rightarrow> (fmt, None)
      | Inr (f, bs) \<Rightarrow>
          if f = AF_INET then (FI_SOCKADDR_IN, Some (bs[2 := 0, 3 := 0]))
          else if f = AF_INET6 then (FI_SOCKADDR_IN6, Some (bs[2 := 0, 3 := 0]))
          else (fmt, Some bs))"

definition ofi_get_src_addr :: "addr_env \<Rightarrow> fi_addr_format \<Rightarrow> byte list \<Rightarrow> fi_addr_format \<times> byte list option" where
  "ofi_get_src_addr env fmt dest =
     (if fmt \<in> {FI_SOCKADDR, FI_SOCKADDR_IP, FI_SOCKADDR_IN, FI_SOCKADDR_IN6} then fi_get_src_sockaddr env fmt dest else (fmt, None))"

section \<open>Discovery\<close>

text \<open>The tables that satisfy the hints, up to the first that cannot be copied.\<close>

fun check_dup_loop :: "addr_env \<Rightarrow> nat \<Rightarrow> fi_info option \<Rightarrow> prov_info list \<Rightarrow> int + prov_info list" where
  "check_dup_loop env v hints [] = Inr []"
| "check_dup_loop env v hints (p # ps) =
     (if ofi_check_info p v hints \<noteq> 0 then check_dup_loop env v hints ps
      else if \<not> ge_dupinfo env p then Inl (- FI_ENOMEM)
      else (case check_dup_loop env v hints ps of Inl e \<Rightarrow> Inl e | Inr is \<Rightarrow> Inr (p # is)))"

definition ofi_prov_check_dup_info :: "addr_env \<Rightarrow> prov_info list \<Rightarrow> nat \<Rightarrow> fi_info option \<Rightarrow> int + prov_info list" where
  "ofi_prov_check_dup_info env provs v hints =
     (case check_dup_loop env v hints provs of
        Inl e \<Rightarrow> Inl e
      | Inr is \<Rightarrow> if is = [] then Inl (- FI_ENODATA) else Inr is)"

definition ofi_dup_auth_keys :: "addr_env \<Rightarrow> fi_info option \<Rightarrow> prov_info \<Rightarrow> int + prov_info" where
  "ofi_dup_auth_keys env hints info =
     (let dk = Option.bind (Option.bind hints in_domain) da_auth_key;
          ek = Option.bind (Option.bind hints in_ep) ea_auth_key;
          i1 = (case (Option.bind hints in_domain, dk) of
                  (Some d, Some k) \<Rightarrow> info\<lparr>pi_domain := (pi_domain info)\<lparr>da_auth_key := Some k, da_auth_key_size := da_auth_key_size d\<rparr>\<rparr>
                | _ \<Rightarrow> info);
          i2 = (case (Option.bind hints in_ep, ek) of
                  (Some e, Some k) \<Rightarrow> i1\<lparr>pi_ep := (pi_ep i1)\<lparr>ea_auth_key := Some k, ea_auth_key_size := ea_auth_key_size e\<rparr>\<rparr>
                | _ \<Rightarrow> i1)
      in if (case dk of None \<Rightarrow> False | Some k \<Rightarrow> \<not> ge_dup env k) then Inl (- FI_ENOMEM)
         else if (case ek of None \<Rightarrow> False | Some k \<Rightarrow> \<not> ge_dup env k) then Inl (- FI_ENOMEM)
         else Inr i2)"

text \<open>Copying the hints' source or destination address into an information, with its format.\<close>

definition copy_src :: "addr_env \<Rightarrow> fi_info option \<Rightarrow> prov_info \<Rightarrow> int + prov_info" where
  "copy_src env hints info =
     (case hints of
        None \<Rightarrow> Inr info
      | Some h \<Rightarrow>
          (case in_src_addr h of
             None \<Rightarrow> Inr info
           | Some a \<Rightarrow> if \<not> ge_dup env a then Inl (- FI_ENOMEM) else Inr (info\<lparr>pi_src_addr := Some a, pi_addr_format := in_addr_format h\<rparr>)))"

definition copy_dest :: "addr_env \<Rightarrow> fi_info option \<Rightarrow> prov_info \<Rightarrow> int + prov_info" where
  "copy_dest env hints info =
     (case hints of
        None \<Rightarrow> Inr info
      | Some h \<Rightarrow>
          (case in_dest_addr h of
             None \<Rightarrow> Inr info
           | Some a \<Rightarrow> if \<not> ge_dup env a then Inl (- FI_ENOMEM) else Inr (info\<lparr>pi_dest_addr := Some a, pi_addr_format := in_addr_format h\<rparr>)))"

text \<open>One turn of the loop of \<^verbatim>\<open>util_getinfo\<close>, in three parts: the named address, the hinted ones, the rest.\<close>

definition getinfo_addr ::
  "addr_env \<Rightarrow> string option \<Rightarrow> string option \<Rightarrow> u64 \<Rightarrow> fi_info option \<Rightarrow> prov_info \<Rightarrow> int + prov_info" where
  "getinfo_addr env node service flags hints info =
     (if has_flag flags FI_SOURCE
      then (case ofi_get_addr env (pi_addr_format info) flags node service of
              Inl e \<Rightarrow> Inl e
            | Inr (f, a) \<Rightarrow> copy_dest env hints (info\<lparr>pi_addr_format := f, pi_src_addr := a\<rparr>))
      else if node \<noteq> None \<or> service \<noteq> None
      then (case ofi_get_addr env (pi_addr_format info) flags node service of
              Inl e \<Rightarrow> Inl e
            | Inr (f, a) \<Rightarrow> copy_src env hints (info\<lparr>pi_addr_format := f, pi_dest_addr := a\<rparr>))
      else (case copy_src env hints info of Inl e \<Rightarrow> Inl e | Inr i1 \<Rightarrow> copy_dest env hints i1))"

definition getinfo_one ::
  "addr_env \<Rightarrow> string option \<Rightarrow> string option \<Rightarrow> u64 \<Rightarrow> fi_info option \<Rightarrow> prov_info \<Rightarrow> int + prov_info" where
  "getinfo_one env node service flags hints info =
     (case getinfo_addr env node service flags hints info of
        Inl e \<Rightarrow> Inl e
      | Inr i1 \<Rightarrow>
          let i2 = (case (pi_dest_addr i1, pi_src_addr i1) of
                      (Some d, None) \<Rightarrow> (case ofi_get_src_addr env (pi_addr_format i1) d of
                                            (f, a) \<Rightarrow> i1\<lparr>pi_addr_format := f, pi_src_addr := a\<rparr>)
                    | _ \<Rightarrow> i1)
          in ofi_dup_auth_keys env hints i2)"

fun getinfo_loop ::
  "addr_env \<Rightarrow> string option \<Rightarrow> string option \<Rightarrow> u64 \<Rightarrow> fi_info option \<Rightarrow> prov_info list \<Rightarrow> int + prov_info list" where
  "getinfo_loop env node service flags hints [] = Inr []"
| "getinfo_loop env node service flags hints (i # is) =
     (case getinfo_one env node service flags hints i of
        Inl e \<Rightarrow> Inl e
      | Inr i1 \<Rightarrow> (case getinfo_loop env node service flags hints is of Inl e \<Rightarrow> Inl e | Inr is1 \<Rightarrow> Inr (i1 # is1)))"

definition util_getinfo ::
  "addr_env \<Rightarrow> prov_info list \<Rightarrow> nat \<Rightarrow> string option \<Rightarrow> string option \<Rightarrow> u64 \<Rightarrow> fi_info option \<Rightarrow> int + prov_info list" where
  "util_getinfo env provs version node service flags hints =
     (if has_flag flags FI_SOURCE \<and> node = None \<and> service = None then Inl (- FI_EINVAL)
      else (case ofi_prov_check_dup_info env provs version hints of
              Inl e \<Rightarrow> Inl e
            | Inr is \<Rightarrow> getinfo_loop env node service flags hints (map (\<lambda>i. ofi_alter_info i hints version) is)))"

definition util_set_netif_names :: "addr_env \<Rightarrow> if_addr \<Rightarrow> prov_info \<Rightarrow> prov_info" where
  "util_set_netif_names env a info =
     (let i1 = (if ge_strdup env (ia_net_name a) then info\<lparr>pi_fabric := (pi_fabric info)\<lparr>ba_name := Some (ia_net_name a)\<rparr>\<rparr> else info)
      in if ge_strdup env (ia_ifa_name a) then i1\<lparr>pi_domain := (pi_domain i1)\<lparr>da_name := Some (ia_ifa_name a)\<rparr>\<rparr> else i1)"

text \<open>One copy for each interface address that suits the hints; the loop ends when a copy cannot be made.\<close>

definition if_format :: "if_addr \<Rightarrow> fi_addr_format option" where
  "if_format a = (if ia_family a = AF_INET then Some FI_SOCKADDR_IN else if ia_family a = AF_INET6 then Some FI_SOCKADDR_IN6 else None)"

definition if_suits :: "fi_info option \<Rightarrow> fi_addr_format \<Rightarrow> if_addr \<Rightarrow> bool" where
  "if_suits hints f a \<longleftrightarrow>
     (case hints of
        None \<Rightarrow> True
      | Some h \<Rightarrow> in_caps h AND ia_comm_caps a = in_caps h AND (FI_LOCAL_COMM OR FI_REMOTE_COMM) \<and>
                  ofi_match_addr_format f (in_addr_format h))"

definition if_info :: "addr_env \<Rightarrow> fi_addr_format \<Rightarrow> if_addr \<Rightarrow> prov_info \<Rightarrow> prov_info" where
  "if_info env f a info =
     (let i1 = info\<lparr>pi_caps := pi_caps info AND NOT (FI_LOCAL_COMM OR FI_REMOTE_COMM) OR ia_comm_caps a\<rparr>;
          i2 = (if ge_dup env (ia_addr a) then i1\<lparr>pi_src_addr := Some (ia_addr a), pi_addr_format := f\<rparr> else i1)
      in util_set_netif_names env a i2)"

fun ifs_loop :: "addr_env \<Rightarrow> fi_info option \<Rightarrow> prov_info \<Rightarrow> if_addr list \<Rightarrow> prov_info list" where
  "ifs_loop env hints info [] = []"
| "ifs_loop env hints info (a # as) =
     (case if_format a of
        None \<Rightarrow> ifs_loop env hints info as
      | Some f \<Rightarrow>
          if \<not> if_suits hints f a then ifs_loop env hints info as
          else if \<not> ge_dupinfo env info then []
          else if_info env f a info # ifs_loop env hints info as)"

definition util_getinfo_ifs :: "addr_env \<Rightarrow> fi_info option \<Rightarrow> prov_info \<Rightarrow> prov_info list" where
  "util_getinfo_ifs env hints info =
     (let is = ifs_loop env hints info (ge_ifs env) in if is = [] then [info] else is)"

text \<open>Two addresses are equal if their families and their network addresses are.\<close>

definition ofi_equals_ipaddr :: "byte list \<Rightarrow> byte list \<Rightarrow> bool" where
  "ofi_equals_ipaddr a b \<longleftrightarrow>
     (let fa = le_dec (take 2 a); fb = le_dec (take 2 b)
      in fa = fb \<and>
         (if fa = AF_INET then take 4 (drop 4 a) = take 4 (drop 4 b)
          else if fa = AF_INET6 then take 16 (drop 8 a) = take 16 (drop 8 b)
          else False))"

text \<open>
  The walk over the list; \<open>done\<close> are the entries before the current one, the first of which provides the
  address that is looked up.
\<close>

definition name_by_addr :: "addr_env \<Rightarrow> byte list \<Rightarrow> prov_info \<Rightarrow> prov_info" where
  "name_by_addr env addr info =
     (case find (\<lambda>a. ofi_equals_ipaddr (ia_addr a) addr) (ge_ifs env) of
        None \<Rightarrow> info | Some a \<Rightarrow> util_set_netif_names env a info)"

fun ip_loop :: "addr_env \<Rightarrow> fi_info option \<Rightarrow> prov_info list \<Rightarrow> prov_info list \<Rightarrow> prov_info list" where
  "ip_loop env hints done [] = done"
| "ip_loop env hints done (i # is) =
     ip_loop env hints
       (if pi_src_addr i = None \<and> pi_dest_addr i = None then done @ util_getinfo_ifs env hints i
        else (case pi_src_addr i of
                None \<Rightarrow> done @ [i]
              | Some a \<Rightarrow>
                  done @ [case pi_src_addr (hd (done @ [i])) of None \<Rightarrow> i | Some a1 \<Rightarrow> name_by_addr env a1 i])) is"

definition ofi_ip_getinfo ::
  "addr_env \<Rightarrow> prov_info list \<Rightarrow> nat \<Rightarrow> string option \<Rightarrow> string option \<Rightarrow> u64 \<Rightarrow> fi_info option \<Rightarrow> int + prov_info list" where
  "ofi_ip_getinfo env provs version node service flags hints =
     (case util_getinfo env provs version node service flags hints of
        Inl e \<Rightarrow> Inl e
      | Inr is \<Rightarrow> Inr (ip_loop env hints [] is))"

end
