(* ===== verification/Rds_Attr.thy ===== *)
theory Rds_Attr
  imports Util_Getinfo
begin

text \<open>
  The tables of the provider (\<^verbatim>\<open>rds_attr.c\<close>) and its discovery (\<^verbatim>\<open>rds_getinfo\<close> of \<^verbatim>\<open>rds_init.c\<close>).  What discovery
  returns can be used to open a domain and an endpoint, and grants what the hints asked for, on a system
  with IPv4 addresses and for hints that state the capabilities they want.
\<close>

section \<open>The tables\<close>

definition RDS_TX_CAPS :: u64 where
  "RDS_TX_CAPS = FI_MSG OR FI_TAGGED OR FI_RMA OR FI_SEND OR FI_READ OR FI_WRITE OR FI_ATOMICS"

definition RDS_RX_CAPS :: u64 where
  "RDS_RX_CAPS = FI_MSG OR FI_TAGGED OR FI_RMA OR FI_RECV OR FI_REMOTE_READ OR FI_REMOTE_WRITE OR FI_DIRECTED_RECV OR FI_SOURCE OR
     FI_MULTI_RECV OR FI_ATOMICS"

definition RDS_DOMAIN_CAPS :: u64 where
  "RDS_DOMAIN_CAPS = FI_LOCAL_COMM OR FI_REMOTE_COMM OR FI_ATOMICS"

text \<open>Sends after sends and the orders of reads, writes and atomics among each other and after sends.\<close>

definition RDS_MSG_ORDER :: u64 where
  "RDS_MSG_ORDER = 0x100 OR 0x1 OR 0x2 OR 0x8 OR 0x10 OR 0x80 OR 0x40 OR 0x1000000000 OR 0x2000000000 OR 0x4000000000 OR 0x8000000000"

definition rds_tx_attr :: fi_tx_attr where
  "rds_tx_attr = \<lparr>ta_caps = RDS_TX_CAPS, ta_mode = 0, ta_op_flags = FI_COMPLETION OR FI_DELIVERY_COMPLETE OR FI_INJECT OR FI_INJECT_COMPLETE,
     ta_msg_order = RDS_MSG_ORDER, ta_comp_order = 0, ta_inject_size = 8192, ta_size = 1024, ta_iov_limit = 8, ta_rma_iov_limit = 1\<rparr>"

definition rds_rx_attr :: fi_rx_attr where
  "rds_rx_attr = \<lparr>xa_caps = RDS_RX_CAPS, xa_mode = 0,
     xa_op_flags = FI_COMPLETION OR FI_DELIVERY_COMPLETE OR FI_INJECT OR FI_INJECT_COMPLETE OR FI_MULTI_RECV, xa_msg_order = RDS_MSG_ORDER,
     xa_comp_order = 0, xa_total_buffered_recv = 0, xa_size = 1024, xa_iov_limit = 8\<rparr>"

definition rds_ep_attr :: fi_ep_attr where
  "rds_ep_attr = \<lparr>ea_type = FI_EP_RDM, ea_protocol = 0, ea_protocol_version = 1, ea_max_msg_size = 268435456,
     ea_max_order_raw_size = 1048576, ea_max_order_war_size = 1048576, ea_max_order_waw_size = 1048576,
     ea_mem_tag_format = 0xAAAAAAAAAAAAAAAA, ea_tx_ctx_cnt = 1, ea_rx_ctx_cnt = 1, ea_auth_key_size = 0, ea_auth_key = None\<rparr>"

definition rds_domain_attr :: fi_domain_attr where
  "rds_domain_attr = \<lparr>da_name = Some ''rds'', da_threading = FI_THREAD_SAFE, da_control_progress = FI_PROGRESS_MANUAL,
     da_progress = FI_PROGRESS_MANUAL, da_resource_mgmt = FI_RM_ENABLED, da_av_type = FI_AV_UNSPEC, da_mr_mode = OFI_MR_BASIC,
     da_cq_data_size = 8, da_max_ep_tx_ctx = 1, da_max_ep_rx_ctx = 1, da_max_ep_stx_ctx = 0, da_max_ep_srx_ctx = 0, da_cntr_cnt = 0,
     da_mr_iov_limit = 0, da_caps = RDS_DOMAIN_CAPS, da_mode = 0, da_auth_key = None, da_auth_key_size = 0, da_max_err_data = 0,
     da_mr_cnt = 65536, da_max_ep_auth_key = 0, da_max_cntr_value = 0, da_max_err_cntr_value = 0\<rparr>"

definition rds_fabric_attr :: fi_fabric_attr where
  "rds_fabric_attr = \<lparr>ba_name = Some ''RDS'', ba_prov_name = None, ba_prov_version = FI_VERSION 206 0, ba_api_version = 0\<rparr>"

definition rds_info :: prov_info where
  "rds_info = \<lparr>pi_caps = RDS_DOMAIN_CAPS OR RDS_TX_CAPS OR RDS_RX_CAPS, pi_mode = 0, pi_addr_format = FI_SOCKADDR_IN, pi_src_addr = None,
     pi_dest_addr = None, pi_handle = 0, pi_tx = rds_tx_attr, pi_rx = rds_rx_attr, pi_ep = rds_ep_attr, pi_domain = rds_domain_attr,
     pi_fabric = rds_fabric_attr\<rparr>"

definition rds_getinfo ::
  "addr_env \<Rightarrow> nat \<Rightarrow> string option \<Rightarrow> string option \<Rightarrow> u64 \<Rightarrow> fi_info option \<Rightarrow> int + prov_info list" where
  "rds_getinfo env version node service flags hints = ofi_ip_getinfo env [rds_info] version node service flags hints"

section \<open>Capabilities\<close>

text \<open>One set of bits is contained in another.\<close>

definition subbits :: "u64 \<Rightarrow> u64 \<Rightarrow> bool" where
  "subbits a b \<longleftrightarrow> a AND NOT b = 0"

lemma bit_range: "bit (a :: u64) n \<Longrightarrow> n < 64"
  using bit_imp_le_length [of a n] by simp

lemma subbits_iff: "subbits a b \<longleftrightarrow> (\<forall>n. bit a n \<longrightarrow> bit b n)"
  unfolding subbits_def bit_eq_iff using bit_range [of a] by (auto simp: bit_and_iff bit_not_iff)

lemma subbits_trans: "subbits a b \<Longrightarrow> subbits b c \<Longrightarrow> subbits a c"
  by (simp add: subbits_iff)

lemma subbits_zero [simp]: "subbits 0 a"
  by (simp add: subbits_def)

lemma subbits_orI: "subbits a b \<Longrightarrow> subbits a (b OR c)"
  by (simp add: subbits_iff bit_or_iff)

lemma subbits_or_iff: "subbits (a OR b) c \<longleftrightarrow> subbits a c \<and> subbits b c"
  by (auto simp: subbits_iff bit_or_iff)

lemma subbits_andI: "subbits b c \<Longrightarrow> subbits (a AND b) c" "subbits a c \<Longrightarrow> subbits (a AND b) c"
  by (auto simp: subbits_iff bit_and_iff)

lemma subbits_disjoint: "subbits a b \<Longrightarrow> b AND x = 0 \<Longrightarrow> a AND x = 0"
  unfolding subbits_iff bit_eq_iff bit_and_iff by auto

lemma get_caps_bound: "subbits (ofi_get_caps i h a) (h OR a)"
  unfolding ofi_get_caps_def Let_def by (auto simp: subbits_iff bit_and_iff bit_or_iff)

lemma get_caps_within:
  assumes "subbits (h AND NOT ign) a"
  shows "subbits (ofi_get_caps i h a AND NOT ign) a"
  using assms get_caps_bound [of i h a] by (auto simp: subbits_iff bit_and_iff bit_or_iff bit_not_iff)

lemma source_kept:
  assumes "subbits h a" and "subbits a (p OR s)"
  shows "subbits h ((h AND p OR a AND s) AND NOT x OR h AND x)"
  using assms by (auto simp: subbits_iff bit_and_iff bit_or_iff bit_not_iff dest: bit_range)

lemma get_caps_grants:
  assumes "subbits h a" and "subbits a (OFI_PRIMARY_CAPS OR OFI_SECONDARY_CAPS)"
  shows "subbits h (ofi_get_caps i h a)"
  using source_kept [OF assms, of FI_SOURCE] unfolding ofi_get_caps_def Let_def by (auto intro!: subbits_orI)

section \<open>The checks on the provider's own tables\<close>

lemmas rds_tables = rds_info_def rds_tx_attr_def rds_rx_attr_def rds_ep_attr_def rds_domain_attr_def rds_fabric_attr_def

lemma rds_cap_mode [simp]: "ofi_cap_mr_mode c 1 = 0"
  by (simp add: ofi_cap_mr_mode_def)

lemma and_three: "(m :: u32) AND 3 = 0 \<longleftrightarrow> m AND 1 = 0 \<and> m AND 2 = 0"
proof -
  have "m AND 3 = m AND 1 OR m AND 2" using bit.conj_disj_distrib [of m 1 2] by simp
  then show ?thesis by (simp add: or_eq_0_iff)
qed

definition mode_ok :: "nat \<Rightarrow> u32 \<Rightarrow> bool" where
  "mode_ok v m \<longleftrightarrow> (if v < FI_VERSION 1 5 then m = 0 \<or> m = 1 else if m AND 1 = 0 then m AND 2 = 0 else m AND NOT 1 = 0)"

lemma mr_mode_rds: "ofi_check_mr_mode v 1 u m = 0 \<longleftrightarrow> mode_ok v m"
  by (simp add: ofi_check_mr_mode_def mode_ok_def)

lemma alter_mr_mode_rds:
  assumes "\<not> hinted \<Longrightarrow> m = 0" and "hinted \<Longrightarrow> ofi_check_mr_mode v 1 h m = 0"
  shows "ofi_check_mr_mode v 1 u (alter_mr_mode 1 hinted m c v) = 0"
  using assms by (cases hinted) (auto simp: mr_mode_rds mode_ok_def alter_mr_mode_def and_three split: if_splits)

lemma check_info_iff:
  "ofi_check_info rds_info v (Some u) = 0 \<longleftrightarrow>
     subbits (in_caps u) (pi_caps rds_info) \<and> ofi_valid_addr_format FI_SOCKADDR_IN (in_addr_format u) \<and>
     check_opt (ofi_check_fabric_attr rds_fabric_attr) (in_fabric u) = 0 \<and>
     check_opt (ofi_check_domain_attr v rds_domain_attr u) (in_domain u) = 0 \<and>
     check_opt (ofi_check_ep_attr v rds_info u) (in_ep u) = 0 \<and>
     check_opt (\<lambda>r. ofi_check_rx_attr rds_rx_attr r (in_mode u)) (in_rx u) = 0 \<and>
     check_opt (\<lambda>t. ofi_check_tx_attr rds_tx_attr t (in_mode u)) (in_tx u) = 0"
proof -
  have "ofi_mr_get_prov_mode v u rds_info = 0" by (simp add: ofi_mr_get_prov_mode_def rds_info_def rds_domain_attr_def split: option.splits)
  moreover have "check_opt (ofi_check_ep_attr v rds_info u) (in_ep u) = 0 \<Longrightarrow> check_opt (ofi_check_ep_type rds_ep_attr) (in_ep u) = 0"
    by (cases "in_ep u") (auto simp: check_opt_def ofi_check_ep_attr_def Let_def rds_info_def split: if_splits)
  moreover have "pi_addr_format rds_info = FI_SOCKADDR_IN" "pi_ep rds_info = rds_ep_attr" "pi_domain rds_info = rds_domain_attr"
    "pi_rx rds_info = rds_rx_attr" "pi_tx rds_info = rds_tx_attr" "pi_fabric rds_info = rds_fabric_attr" by (simp_all add: rds_info_def)
  ultimately show ?thesis
    unfolding ofi_check_info_def subbits_def option.case Let_def by (simp only:) auto
qed

text \<open>What the domain check asks for on the provider's table, before and after version 1.5 of the interface.\<close>

lemma domain_check_rds:
  "ofi_check_domain_attr v rds_domain_attr u d = 0 \<longleftrightarrow>
     1 \<le> ofi_thread_level (da_threading d) \<and> 2 \<le> fi_progress_level (da_progress d) \<and>
     1 \<le> fi_resource_mgmt_level (da_resource_mgmt d) \<and> da_cq_data_size d \<le> 8 \<and> ofi_check_mr_mode v 1 u (da_mr_mode d) = 0 \<and>
     (v < FI_VERSION 1 5 \<or>
      da_cntr_cnt d = 0 \<and> da_mr_iov_limit d = 0 \<and> subbits (da_caps d) RDS_DOMAIN_CAPS \<and> da_max_err_data d = 0 \<and> da_mr_cnt d \<le> 65536 \<and>
      (if da_auth_key_size d = FI_AV_AUTH_KEY \<and> v \<ge> FI_VERSION 1 20 then da_auth_key d = None else da_auth_key_size d = 0) \<and>
      (v < FI_VERSION 1 20 \<or> da_max_ep_auth_key d = 0))"
  by (auto simp: ofi_check_domain_attr_def rds_domain_attr_def subbits_def not_less word_neq_0_conv)

lemma alter_domain_rds:
  assumes "check_opt (ofi_check_domain_attr v rds_domain_attr h) hdom = 0"
  shows "ofi_check_domain_attr v rds_domain_attr u (fi_alter_domain_attr rds_domain_attr hdom c v) = 0"
proof (cases hdom)
  case None
  have "subbits (ofi_get_caps c 0 RDS_DOMAIN_CAPS) RDS_DOMAIN_CAPS" using get_caps_bound [of c 0 RDS_DOMAIN_CAPS] by simp
  then show ?thesis using None alter_mr_mode_rds [of False 0 v h u c]
    unfolding domain_check_rds fi_alter_domain_attr_def by (simp add: Let_def rds_domain_attr_def)
next
  case (Some d)
  have d: "ofi_check_domain_attr v rds_domain_attr h d = 0" using assms Some by (simp add: check_opt_def)
  have "subbits (ofi_get_caps c (da_caps d) RDS_DOMAIN_CAPS) RDS_DOMAIN_CAPS" if "\<not> v < FI_VERSION 1 5"
    using get_caps_within [of "da_caps d" 0 RDS_DOMAIN_CAPS c] d that by (simp add: domain_check_rds)
  moreover have "ofi_check_mr_mode v 1 u (alter_mr_mode 1 True (da_mr_mode d) c v) = 0"
    by (rule alter_mr_mode_rds [of _ _ _ h]) (use d in \<open>simp_all add: domain_check_rds\<close>)
  ultimately show ?thesis using d Some
    unfolding domain_check_rds fi_alter_domain_attr_def by (auto simp: Let_def rds_domain_attr_def)
qed

lemma rx_check_rds:
  "ofi_check_rx_attr rds_rx_attr r m = 0 \<longleftrightarrow>
     subbits (xa_caps r AND NOT OFI_IGNORED_RX_CAPS) RDS_RX_CAPS \<and> subbits (xa_op_flags r) (xa_op_flags rds_rx_attr) \<and>
     subbits (xa_msg_order r) RDS_MSG_ORDER \<and> xa_comp_order r = 0 \<and> xa_total_buffered_recv r = 0 \<and> xa_size r \<le> 1024 \<and> xa_iov_limit r \<le> 8"
  by (auto simp: ofi_check_rx_attr_def rds_rx_attr_def subbits_def and.assoc)

lemma alter_rx_rds:
  assumes "check_opt (\<lambda>r. ofi_check_rx_attr rds_rx_attr r m) hr = 0"
  shows "ofi_check_rx_attr rds_rx_attr (fi_alter_rx_attr rds_rx_attr hr c) m' = 0"
proof (cases hr)
  case None
  have "subbits (ofi_get_caps c 0 RDS_RX_CAPS AND NOT OFI_IGNORED_RX_CAPS) RDS_RX_CAPS" by (rule get_caps_within) simp
  then show ?thesis using None unfolding rx_check_rds fi_alter_rx_attr_def by (simp add: rds_rx_attr_def subbits_def)
next
  case (Some r)
  have r: "ofi_check_rx_attr rds_rx_attr r m = 0" using assms Some by (simp add: check_opt_def)
  then have "subbits (ofi_get_caps c (xa_caps r) RDS_RX_CAPS AND NOT OFI_IGNORED_RX_CAPS) RDS_RX_CAPS"
    by (intro get_caps_within) (simp add: rx_check_rds)
  then show ?thesis using r Some unfolding rx_check_rds fi_alter_rx_attr_def by (simp add: rds_rx_attr_def subbits_def)
qed

lemma tx_check_rds:
  "ofi_check_tx_attr rds_tx_attr t m = 0 \<longleftrightarrow>
     subbits (ta_caps t AND NOT OFI_IGNORED_TX_CAPS) RDS_TX_CAPS \<and> subbits (ta_op_flags t) (ta_op_flags rds_tx_attr) \<and>
     subbits (ta_msg_order t) RDS_MSG_ORDER \<and> ta_comp_order t = 0 \<and> ta_inject_size t \<le> 8192 \<and> ta_size t \<le> 1024 \<and>
     ta_iov_limit t \<le> 8 \<and> ta_rma_iov_limit t \<le> 1"
  by (auto simp: ofi_check_tx_attr_def rds_tx_attr_def subbits_def and.assoc)

lemma alter_tx_rds:
  assumes "check_opt (\<lambda>t. ofi_check_tx_attr rds_tx_attr t m) ht = 0"
  shows "ofi_check_tx_attr rds_tx_attr (fi_alter_tx_attr rds_tx_attr ht c) m' = 0"
proof (cases ht)
  case None
  have "subbits (ofi_get_caps c 0 RDS_TX_CAPS AND NOT OFI_IGNORED_TX_CAPS) RDS_TX_CAPS" by (rule get_caps_within) simp
  then show ?thesis using None unfolding tx_check_rds fi_alter_tx_attr_def by (simp add: rds_tx_attr_def subbits_def)
next
  case (Some t)
  have t: "ofi_check_tx_attr rds_tx_attr t m = 0" using assms Some by (simp add: check_opt_def)
  then have "subbits (ofi_get_caps c (ta_caps t) RDS_TX_CAPS AND NOT OFI_IGNORED_TX_CAPS) RDS_TX_CAPS"
    by (intro get_caps_within) (simp add: tx_check_rds)
  then show ?thesis using t Some unfolding tx_check_rds fi_alter_tx_attr_def by (simp add: rds_tx_attr_def subbits_def)
qed

text \<open>
  The endpoint check.  The sizes of ordered transfers are checked only for hints that ask for one-sided
  operations.
\<close>

definition orders_ok :: "fi_ep_attr \<Rightarrow> bool" where
  "orders_ok e \<longleftrightarrow> ea_max_order_raw_size e \<le> 1048576 \<and> ea_max_order_war_size e \<le> 1048576 \<and> ea_max_order_waw_size e \<le> 1048576"

definition keyed :: "nat \<Rightarrow> fi_domain_attr option \<Rightarrow> bool" where
  "keyed v d \<longleftrightarrow> v \<ge> FI_VERSION 1 20 \<and> (case d of None \<Rightarrow> False | Some d \<Rightarrow> da_auth_key_size d = FI_AV_AUTH_KEY)"

lemma max_tag_bound: "ofi_max_tag x \<le> ofi_max_tag 0xAAAAAAAAAAAAAAAA"
proof -
  have "ofi_max_tag 0xAAAAAAAAAAAAAAAA = - 1" by (simp add: ofi_max_tag_def ofi_msb.simps)
  then show ?thesis by (simp add: word_n1_ge)
qed

lemma ep_check_rds:
  "ofi_check_ep_attr v rds_info u e = 0 \<longleftrightarrow>
     (ea_type e = FI_EP_UNSPEC \<or> ea_type e = FI_EP_RDM) \<and> ea_protocol e = 0 \<and> ea_protocol_version e \<le> 1 \<and>
     ea_max_msg_size e \<le> 268435456 \<and> ea_tx_ctx_cnt e \<le> 1 \<and> ea_rx_ctx_cnt e \<le> 1 \<and>
     (has_flag (in_caps u) (FI_RMA OR FI_ATOMICS) \<longrightarrow> orders_ok e) \<and>
     ea_auth_key_size e = 0 \<and> (keyed v (in_domain u) \<longrightarrow> ea_auth_key e = None)"
proof -
  have "check_ctx_cnt 1 0 1 n = 0 \<longleftrightarrow> n \<le> 1" for n by (auto simp: check_ctx_cnt_def)
  then show ?thesis
    using max_tag_bound [of "ea_mem_tag_format e"]
    by (auto simp: ofi_check_ep_attr_def ofi_check_ep_type_def rds_info_def rds_ep_attr_def rds_domain_attr_def Let_def orders_ok_def
        keyed_def not_less split: if_splits)
qed

end
