(* ===== verification/Rds_Getinfo.thy ===== *)
theory Rds_Getinfo
  imports Rds_Attr
begin

text \<open>
  Discovery and opening agree.  An entry of the list that discovery returns passes the check that opening a
  domain and an endpoint repeats, and grants what the hints asked for.  The hypotheses mark what the code
  does not check: hints that leave the capabilities open may exceed the sizes of ordered transfers, and
  IPv6 addresses are returned although the provider's table says IPv4.
\<close>

section \<open>Adjusting the provider's table\<close>

definition opens :: "nat \<Rightarrow> prov_info \<Rightarrow> bool" where
  "opens v i \<longleftrightarrow> ofi_check_info rds_info v (Some (info_of i)) = 0"

lemma opens_iff:
  "opens v i \<longleftrightarrow>
     subbits (pi_caps i) (pi_caps rds_info) \<and> ofi_valid_addr_format FI_SOCKADDR_IN (pi_addr_format i) \<and>
     ofi_check_fabric_attr rds_fabric_attr (pi_fabric i) = 0 \<and>
     ofi_check_domain_attr v rds_domain_attr (info_of i) (pi_domain i) = 0 \<and>
     ofi_check_ep_attr v rds_info (info_of i) (pi_ep i) = 0 \<and>
     ofi_check_rx_attr rds_rx_attr (pi_rx i) (pi_mode i) = 0 \<and> ofi_check_tx_attr rds_tx_attr (pi_tx i) (pi_mode i) = 0"
  unfolding opens_def check_info_iff by (simp add: info_of_def check_opt_def)

definition orders_asked :: "fi_info option \<Rightarrow> bool" where
  "orders_asked hints \<longleftrightarrow> (\<forall>h e. hints = Some h \<and> in_ep h = Some e \<longrightarrow> in_caps h \<noteq> 0 \<or> orders_ok e)"

lemma get_caps_onesided:
  "h \<noteq> 0 \<Longrightarrow> has_flag (ofi_get_caps i h a) (FI_RMA OR FI_ATOMICS) = has_flag h (FI_RMA OR FI_ATOMICS)"
  by (simp add: ofi_get_caps_def Let_def has_flag_def bit.conj_disj_distrib2 and.assoc OFI_PRIMARY_CAPS_def OFI_SECONDARY_CAPS_def)

lemma info_caps_rds:
  "ofi_get_info_caps rds_info hints v =
     (case hints of None \<Rightarrow> pi_caps rds_info | Some h \<Rightarrow> ofi_get_caps (pi_caps rds_info) (in_caps h) (pi_caps rds_info))"
  by (simp add: ofi_get_info_caps_def Let_def rds_info_def rds_domain_attr_def split: option.splits)

lemma alter_ep_rds:
  assumes "ofi_check_info rds_info v hints = 0" and "orders_asked hints"
  shows "ofi_check_ep_attr v rds_info u (fi_alter_ep_attr rds_ep_attr (Option.bind hints in_ep) (ofi_get_info_caps rds_info hints v)) = 0"
proof (cases "Option.bind hints in_ep")
  case None
  then show ?thesis unfolding ep_check_rds fi_alter_ep_attr_def by (simp add: rds_ep_attr_def orders_ok_def)
next
  case (Some e)
  then obtain h where h: "hints = Some h" "in_ep h = Some e" by (cases hints) auto
  have e: "ofi_check_ep_attr v rds_info h e = 0" using assms(1) h by (simp add: check_info_iff check_opt_def)
  have "orders_ok e" if "has_flag (ofi_get_info_caps rds_info hints v) (FI_RMA OR FI_ATOMICS)"
  proof (cases "in_caps h = 0")
    case True
    then show ?thesis using assms(2) h by (auto simp: orders_asked_def)
  next
    case False
    then have "has_flag (in_caps h) (FI_RMA OR FI_ATOMICS)" 
      using that h(1) get_caps_onesided [of "in_caps h" "pi_caps rds_info" "pi_caps rds_info"] by (simp add: info_caps_rds)
    then show ?thesis using e by (simp add: ep_check_rds)
  qed
  then show ?thesis using e Some unfolding ep_check_rds fi_alter_ep_attr_def by (auto simp: rds_ep_attr_def orders_ok_def Let_def)
qed

lemma alter_opens:
  assumes "ofi_check_info rds_info v hints = 0" and "orders_asked hints"
  shows "opens v (ofi_alter_info rds_info hints v)"
proof -
  define c where "c = ofi_get_info_caps rds_info hints v"
  let ?i = "ofi_alter_info rds_info hints v"
  have f: "pi_caps ?i = c" "pi_addr_format ?i = FI_SOCKADDR_IN" "pi_fabric ?i = rds_fabric_attr"
    "pi_domain ?i = fi_alter_domain_attr rds_domain_attr (Option.bind hints in_domain) c v"
    "pi_ep ?i = fi_alter_ep_attr rds_ep_attr (Option.bind hints in_ep) c" "pi_rx ?i = fi_alter_rx_attr rds_rx_attr (Option.bind hints in_rx) c"
    "pi_tx ?i = fi_alter_tx_attr rds_tx_attr (Option.bind hints in_tx) c"
    by (simp_all add: ofi_alter_info_def Let_def c_def rds_info_def)
  have caps: "subbits c (pi_caps rds_info)"
  proof (cases hints)
    case (Some h)
    then have "subbits (in_caps h) (pi_caps rds_info)" using assms(1) by (simp add: check_info_iff)
    then show ?thesis using get_caps_within [of "in_caps h" 0 "pi_caps rds_info" "pi_caps rds_info"] Some by (simp add: c_def info_caps_rds)
  qed (simp add: c_def info_caps_rds subbits_def)
  have d: "check_opt (ofi_check_domain_attr v rds_domain_attr h) (Option.bind hints in_domain) = 0" if "hints = Some h" for h
    using assms(1) that by (simp add: check_info_iff)
  have dom: "ofi_check_domain_attr v rds_domain_attr u (fi_alter_domain_attr rds_domain_attr (Option.bind hints in_domain) c v) = 0" for u
  proof (cases hints)
    case None
    then show ?thesis using alter_domain_rds [of v u None u c] by (simp add: check_opt_def)
  qed (use d alter_domain_rds in blast)
  have rx: "ofi_check_rx_attr rds_rx_attr (fi_alter_rx_attr rds_rx_attr (Option.bind hints in_rx) c) m = 0" for m
    by (rule alter_rx_rds [of "case hints of None \<Rightarrow> 0 | Some h \<Rightarrow> in_mode h"])
      (use assms(1) in \<open>cases hints; simp add: check_info_iff check_opt_def\<close>)
  have tx: "ofi_check_tx_attr rds_tx_attr (fi_alter_tx_attr rds_tx_attr (Option.bind hints in_tx) c) m = 0" for m
    by (rule alter_tx_rds [of "case hints of None \<Rightarrow> 0 | Some h \<Rightarrow> in_mode h"])
      (use assms(1) in \<open>cases hints; simp add: check_info_iff check_opt_def\<close>)
  have fab: "ofi_check_fabric_attr rds_fabric_attr rds_fabric_attr = 0" by (simp add: ofi_check_fabric_attr_def rds_fabric_attr_def)
  show ?thesis
    unfolding opens_iff f using caps dom rx tx fab alter_ep_rds [OF assms] by (simp add: c_def ofi_valid_addr_format_def is_ipv4addr_def)
qed

section \<open>What is granted\<close>

text \<open>The information grants the hints: capabilities and orders are included, limits are not below what was asked for.\<close>

definition grants_tx :: "fi_tx_attr \<Rightarrow> fi_tx_attr \<Rightarrow> bool" where
  "grants_tx h a \<longleftrightarrow> ta_op_flags a = ta_op_flags h \<and> subbits (ta_msg_order h) (ta_msg_order a) \<and> ta_inject_size h \<le> ta_inject_size a \<and>
     ta_size h \<le> ta_size a \<and> ta_iov_limit h \<le> ta_iov_limit a \<and> ta_rma_iov_limit h \<le> ta_rma_iov_limit a"

definition grants_rx :: "fi_rx_attr \<Rightarrow> fi_rx_attr \<Rightarrow> bool" where
  "grants_rx h a \<longleftrightarrow> xa_op_flags a = xa_op_flags h \<and> subbits (xa_msg_order h) (xa_msg_order a) \<and> xa_size h \<le> xa_size a \<and>
     xa_iov_limit h \<le> xa_iov_limit a"

definition grants_ep :: "fi_ep_attr \<Rightarrow> fi_ep_attr \<Rightarrow> bool" where
  "grants_ep h a \<longleftrightarrow> (ea_type h = FI_EP_UNSPEC \<or> ea_type a = ea_type h) \<and> ea_max_msg_size h \<le> ea_max_msg_size a \<and>
     ea_tx_ctx_cnt h \<le> ea_tx_ctx_cnt a \<and> ea_rx_ctx_cnt h \<le> ea_rx_ctx_cnt a"

definition grants_domain :: "fi_domain_attr \<Rightarrow> fi_domain_attr \<Rightarrow> bool" where
  "grants_domain h a \<longleftrightarrow> (da_threading h = FI_THREAD_UNSPEC \<or> da_threading a = da_threading h) \<and>
     (da_progress h = FI_PROGRESS_UNSPEC \<or> da_progress a = da_progress h) \<and> (da_av_type h = FI_AV_UNSPEC \<or> da_av_type a = da_av_type h) \<and>
     da_cq_data_size h \<le> da_cq_data_size a"

definition grants :: "fi_info option \<Rightarrow> prov_info \<Rightarrow> bool" where
  "grants hints i \<longleftrightarrow>
     (case hints of
        None \<Rightarrow> True
      | Some h \<Rightarrow> subbits (in_caps h) (pi_caps i) \<and> pred_option (\<lambda>t. grants_tx t (pi_tx i)) (in_tx h) \<and>
          pred_option (\<lambda>r. grants_rx r (pi_rx i)) (in_rx h) \<and> pred_option (\<lambda>e. grants_ep e (pi_ep i)) (in_ep h) \<and>
          pred_option (\<lambda>d. grants_domain d (pi_domain i)) (in_domain h))"

lemma rds_caps_covered: "subbits (pi_caps rds_info) (OFI_PRIMARY_CAPS OR OFI_SECONDARY_CAPS)"
  by (simp add: subbits_def rds_info_def RDS_DOMAIN_CAPS_def RDS_TX_CAPS_def RDS_RX_CAPS_def OFI_PRIMARY_CAPS_def OFI_SECONDARY_CAPS_def)

lemma alter_grants:
  assumes "ofi_check_info rds_info v hints = 0"
  shows "grants hints (ofi_alter_info rds_info hints v)"
proof (cases hints)
  case (Some h)
  have h: "subbits (in_caps h) (pi_caps rds_info)" "check_opt (ofi_check_domain_attr v rds_domain_attr h) (in_domain h) = 0"
    "check_opt (ofi_check_ep_attr v rds_info h) (in_ep h) = 0" "check_opt (\<lambda>r. ofi_check_rx_attr rds_rx_attr r (in_mode h)) (in_rx h) = 0"
    "check_opt (\<lambda>t. ofi_check_tx_attr rds_tx_attr t (in_mode h)) (in_tx h) = 0"
    using assms Some by (simp_all add: check_info_iff)
  let ?i = "ofi_alter_info rds_info hints v"
  have c: "subbits (in_caps h) (pi_caps ?i)"
    using get_caps_grants [OF h(1) rds_caps_covered, of "pi_caps rds_info"] Some by (simp add: ofi_alter_info_def Let_def info_caps_rds)
  have t: "grants_tx t (pi_tx ?i)" if "in_tx h = Some t" for t
    using h(5) that Some unfolding check_opt_def
    by (simp add: tx_check_rds) (simp add: ofi_alter_info_def Let_def fi_alter_tx_attr_def grants_tx_def rds_info_def rds_tx_attr_def)
  have r: "grants_rx r (pi_rx ?i)" if "in_rx h = Some r" for r
    using h(4) that Some unfolding check_opt_def
    by (simp add: rx_check_rds) (simp add: ofi_alter_info_def Let_def fi_alter_rx_attr_def grants_rx_def rds_info_def rds_rx_attr_def)
  have e: "grants_ep e (pi_ep ?i)" if "in_ep h = Some e" for e
    using h(3) that Some unfolding check_opt_def
    by (simp add: ep_check_rds) (auto simp: ofi_alter_info_def Let_def fi_alter_ep_attr_def grants_ep_def rds_info_def rds_ep_attr_def)
  have d: "grants_domain d (pi_domain ?i)" if "in_domain h = Some d" for d
    using h(2) that Some unfolding check_opt_def
    by (simp add: domain_check_rds) (simp add: ofi_alter_info_def Let_def fi_alter_domain_attr_def grants_domain_def rds_info_def rds_domain_attr_def)
  show ?thesis using c t r e d unfolding grants_def Some by (auto simp: pred_option_def elim!: option.set_cases)
qed (simp add: grants_def)

section \<open>Addresses and names\<close>

text \<open>
  The addresses of the system are IPv4 addresses: those of its interfaces, which reach the own node or
  others, and those it uses to reach another.
\<close>

definition ipv4_env :: "addr_env \<Rightarrow> bool" where
  "ipv4_env env \<longleftrightarrow>
     (\<forall>a \<in> set (ge_ifs env). ia_family a \<noteq> AF_INET6 \<and> subbits (ia_comm_caps a) (FI_LOCAL_COMM OR FI_REMOTE_COMM)) \<and>
     (\<forall>d f bs. ge_src env d = Inr (f, bs) \<longrightarrow> f \<noteq> AF_INET6)"

text \<open>The last part relates the keys of the domain to those asked for.\<close>

definition usable :: "nat \<Rightarrow> fi_info option \<Rightarrow> prov_info \<Rightarrow> bool" where
  "usable v hints i \<longleftrightarrow> opens v i \<and> grants hints i \<and> (keyed v (Some (pi_domain i)) \<longrightarrow> keyed v (Option.bind hints in_domain))"

text \<open>Addresses, formats that suit the provider, and names change nothing.\<close>

lemma grants_addr [simp]:
  "grants hints (i\<lparr>pi_src_addr := a\<rparr>) = grants hints i" "grants hints (i\<lparr>pi_dest_addr := a\<rparr>) = grants hints i"
  "grants hints (i\<lparr>pi_addr_format := f\<rparr>) = grants hints i" "grants hints (i\<lparr>pi_fabric := b\<rparr>) = grants hints i"
  "grants hints (i\<lparr>pi_domain := (pi_domain i)\<lparr>da_name := n\<rparr>\<rparr>) = grants hints i"
  by (cases hints; simp add: grants_def grants_domain_def)+

lemmas opens_checks = opens_iff domain_check_rds ep_check_rds mr_mode_rds

lemma usable_addr [simp]:
  "usable v hints (i\<lparr>pi_src_addr := a\<rparr>) = usable v hints i" "usable v hints (i\<lparr>pi_dest_addr := a\<rparr>) = usable v hints i"
  "usable v hints (i\<lparr>pi_fabric := (pi_fabric i)\<lparr>ba_name := n\<rparr>\<rparr>) = usable v hints i"
  "usable v hints (i\<lparr>pi_domain := (pi_domain i)\<lparr>da_name := n\<rparr>\<rparr>) = usable v hints i"
  by (simp_all add: usable_def opens_checks keyed_def info_of_def ofi_check_fabric_attr_def)

lemma usable_format:
  "usable v hints i \<Longrightarrow> ofi_valid_addr_format FI_SOCKADDR_IN f \<Longrightarrow> usable v hints (i\<lparr>pi_addr_format := f\<rparr>)"
  by (simp add: usable_def opens_checks keyed_def info_of_def)

lemma usable_names [simp]: "usable v hints (util_set_netif_names env a i) = usable v hints i"
  by (simp add: util_set_netif_names_def Let_def)

definition format_ok :: "fi_info option \<Rightarrow> bool" where
  "format_ok hints \<longleftrightarrow> (\<forall>h. hints = Some h \<longrightarrow> ofi_valid_addr_format FI_SOCKADDR_IN (in_addr_format h))"

lemma copy_usable:
  assumes "format_ok hints" and "usable v hints i"
  shows "copy_src env hints i = Inr j \<Longrightarrow> usable v hints j" and "copy_dest env hints i = Inr j \<Longrightarrow> usable v hints j"
  using assms by (auto simp: copy_src_def copy_dest_def format_ok_def intro!: usable_format split: option.splits if_splits)

lemma getinfo_addr_usable:
  assumes "format_ok hints" and "usable v hints i" and "pi_addr_format i = FI_SOCKADDR_IN" and "getinfo_addr env node service flags hints i = Inr j"
  shows "usable v hints j"
proof -
  have same: "f = FI_SOCKADDR_IN" if "ofi_get_addr env FI_SOCKADDR_IN flags node service = Inr (f, a)" for f a
    using that by (auto simp: ofi_get_addr_def Let_def split: sum.splits)
  have u: "usable v hints (i\<lparr>pi_addr_format := FI_SOCKADDR_IN\<rparr>)"
    using usable_format [OF assms(2), of FI_SOCKADDR_IN] by (simp add: ofi_valid_addr_format_def is_ipv4addr_def)
  then have us: "usable v hints (i\<lparr>pi_addr_format := FI_SOCKADDR_IN, pi_src_addr := a\<rparr>)"
    "usable v hints (i\<lparr>pi_addr_format := FI_SOCKADDR_IN, pi_dest_addr := a\<rparr>)" for a by simp_all
  consider (source) f a where "ofi_get_addr env FI_SOCKADDR_IN flags node service = Inr (f, a)"
      "copy_dest env hints (i\<lparr>pi_addr_format := f, pi_src_addr := a\<rparr>) = Inr j"
    | (named) f a where "ofi_get_addr env FI_SOCKADDR_IN flags node service = Inr (f, a)"
      "copy_src env hints (i\<lparr>pi_addr_format := f, pi_dest_addr := a\<rparr>) = Inr j"
    | (hinted) i1 where "copy_src env hints i = Inr i1" "copy_dest env hints i1 = Inr j"
    using assms(4) unfolding getinfo_addr_def assms(3) by (simp split: if_splits sum.splits prod.splits)
  then show ?thesis
  proof cases
    case source
    then show ?thesis using same copy_usable(2) [OF assms(1) us(1)] by blast
  next
    case named
    then show ?thesis using same copy_usable(1) [OF assms(1) us(2)] by blast
  next
    case hinted
    then show ?thesis using copy_usable [OF assms(1)] assms(2) by blast
  qed
qed

lemma src_addr_usable:
  assumes "ipv4_env env" and "usable v hints i" and "ofi_get_src_addr env (pi_addr_format i) d = (f, a)"
  shows "usable v hints (i\<lparr>pi_addr_format := f, pi_src_addr := a\<rparr>)"
proof -
  have "ofi_valid_addr_format FI_SOCKADDR_IN FI_SOCKADDR_IN" by (simp add: ofi_valid_addr_format_def is_ipv4addr_def)
  moreover have "ofi_valid_addr_format FI_SOCKADDR_IN (pi_addr_format i)" using assms(2) by (simp add: usable_def opens_iff)
  ultimately have "ofi_valid_addr_format FI_SOCKADDR_IN f"
    using assms(1,3) unfolding ofi_get_src_addr_def fi_get_src_sockaddr_def ipv4_env_def
    by (auto split: if_splits sum.splits prod.splits)
  then show ?thesis using usable_format [OF assms(2)] by simp
qed

lemma usable_domain_key:
  assumes "usable v hints i" and "v < FI_VERSION 1 5 \<or> n = 0"
  shows "usable v hints (i\<lparr>pi_domain := (pi_domain i)\<lparr>da_auth_key := k, da_auth_key_size := n\<rparr>\<rparr>)" (is "usable v hints ?j")
proof -
  have k: "\<not> keyed v (Some (pi_domain ?j))" using assms(2) by (auto simp: keyed_def)
  have "ofi_check_domain_attr v rds_domain_attr (info_of ?j) (pi_domain ?j) = 0"
    using assms unfolding usable_def opens_iff domain_check_rds mr_mode_rds by auto
  moreover have "ofi_check_ep_attr v rds_info (info_of ?j) (pi_ep ?j) = 0"
    using assms(1) k unfolding usable_def opens_iff ep_check_rds by (simp add: info_of_def)
  moreover have "grants hints ?j" using assms(1) by (cases hints) (simp_all add: usable_def grants_def grants_domain_def)
  ultimately show ?thesis using assms(1) k unfolding usable_def opens_iff by simp
qed

lemma usable_ep_key:
  assumes "usable v hints i" and "\<not> keyed v (Option.bind hints in_domain)"
  shows "usable v hints (i\<lparr>pi_ep := (pi_ep i)\<lparr>ea_auth_key := k, ea_auth_key_size := 0\<rparr>\<rparr>)" (is "usable v hints ?j")
proof -
  have k: "\<not> keyed v (Some (pi_domain i))" using assms by (auto simp: usable_def)
  have "ofi_check_domain_attr v rds_domain_attr (info_of ?j) (pi_domain i) = 0"
    using assms(1) unfolding usable_def opens_iff domain_check_rds mr_mode_rds by simp
  moreover have "ofi_check_ep_attr v rds_info (info_of ?j) (pi_ep ?j) = 0"
    using assms(1) k unfolding usable_def opens_iff ep_check_rds by (simp add: info_of_def orders_ok_def)
  moreover have "grants hints ?j" using assms(1) by (cases hints) (simp_all add: usable_def grants_def grants_ep_def)
  ultimately show ?thesis using assms(1) k unfolding usable_def opens_iff by simp
qed

lemma keys_usable:
  assumes "ofi_check_info rds_info v hints = 0" and "usable v hints i" and "ofi_dup_auth_keys env hints i = Inr j"
  shows "usable v hints j"
proof (cases hints)
  case (Some h)
  define i1 where "i1 = (case (in_domain h, Option.bind (in_domain h) da_auth_key) of
      (Some d, Some k) \<Rightarrow> i\<lparr>pi_domain := (pi_domain i)\<lparr>da_auth_key := Some k, da_auth_key_size := da_auth_key_size d\<rparr>\<rparr> | _ \<Rightarrow> i)"
  have u1: "usable v hints i1"
  proof (cases "Option.bind (in_domain h) da_auth_key")
    case (Some k)
    then obtain d where d: "in_domain h = Some d" "da_auth_key d = Some k" by (cases "in_domain h") auto
    have "ofi_check_domain_attr v rds_domain_attr h d = 0" using assms(1) \<open>hints = Some h\<close> d(1) by (simp add: check_info_iff check_opt_def)
    then have "v < FI_VERSION 1 5 \<or> da_auth_key_size d = 0" using d(2) unfolding domain_check_rds by (auto split: if_splits)
    then show ?thesis using d usable_domain_key [OF assms(2)] by (simp add: i1_def)
  qed (use assms(2) in \<open>simp add: i1_def split: option.splits\<close>)
  have j: "j = (case (in_ep h, Option.bind (in_ep h) ea_auth_key) of
      (Some e, Some k) \<Rightarrow> i1\<lparr>pi_ep := (pi_ep i1)\<lparr>ea_auth_key := Some k, ea_auth_key_size := ea_auth_key_size e\<rparr>\<rparr> | _ \<Rightarrow> i1)"
    using assms(3) unfolding ofi_dup_auth_keys_def Let_def Some bind.simps i1_def [symmetric] by (simp split: if_splits)
  show ?thesis
  proof (cases "Option.bind (in_ep h) ea_auth_key")
    case None
    then have "j = i1" using j by (simp split: option.splits)
    then show ?thesis using u1 by simp
  next
    case (Some k)
    then obtain e where e: "in_ep h = Some e" "ea_auth_key e = Some k" by (cases "in_ep h") auto
    have "ofi_check_ep_attr v rds_info h e = 0" using assms(1) \<open>hints = Some h\<close> e(1) by (simp add: check_info_iff check_opt_def)
    then have k: "ea_auth_key_size e = 0" "\<not> keyed v (Option.bind hints in_domain)" using e(2) \<open>hints = Some h\<close> unfolding ep_check_rds by auto
    have "j = i1\<lparr>pi_ep := (pi_ep i1)\<lparr>ea_auth_key := Some k, ea_auth_key_size := 0\<rparr>\<rparr>" using j e k(1) by simp
    then show ?thesis using usable_ep_key [OF u1 k(2)] by simp
  qed
qed (use assms in \<open>simp add: ofi_dup_auth_keys_def Let_def\<close>)

lemma usable_caps:
  assumes "usable v hints i" and "subbits c (pi_caps rds_info)" and "\<And>h. hints = Some h \<Longrightarrow> subbits (in_caps h) c"
    and "has_flag c (FI_RMA OR FI_ATOMICS) \<Longrightarrow> has_flag (pi_caps i) (FI_RMA OR FI_ATOMICS)"
  shows "usable v hints (i\<lparr>pi_caps := c\<rparr>)" (is "usable v hints ?j")
proof -
  have "ofi_check_domain_attr v rds_domain_attr (info_of ?j) (pi_domain i) = 0"
    using assms(1) unfolding usable_def opens_iff domain_check_rds mr_mode_rds by simp
  moreover have "ofi_check_ep_attr v rds_info (info_of ?j) (pi_ep i) = 0"
    using assms(1,4) unfolding usable_def opens_iff ep_check_rds by (auto simp: info_of_def)
  moreover have "grants hints ?j" using assms(1,3) by (cases hints) (simp_all add: usable_def grants_def)
  ultimately show ?thesis using assms(1,2) unfolding usable_def opens_iff by simp
qed

lemma if_info_usable:
  assumes "ipv4_env env" and "a \<in> set (ge_ifs env)" and "if_format a = Some f" and "if_suits hints f a" and "usable v hints i"
  shows "usable v hints (if_info env f a i)"
proof -
  let ?lr = "FI_LOCAL_COMM OR FI_REMOTE_COMM" and ?c = "pi_caps i AND NOT (FI_LOCAL_COMM OR FI_REMOTE_COMM) OR ia_comm_caps a"
  have a: "subbits (ia_comm_caps a) ?lr" "f = FI_SOCKADDR_IN"
    using assms(1-3) by (auto simp: ipv4_env_def if_format_def split: if_splits)
  have lr: "subbits ?lr (pi_caps rds_info)"
    by (simp add: subbits_def rds_info_def RDS_DOMAIN_CAPS_def RDS_TX_CAPS_def RDS_RX_CAPS_def)
  have c: "subbits (pi_caps i) (pi_caps rds_info)" using assms(5) by (simp add: usable_def opens_iff)
  have sub: "subbits ?c (pi_caps rds_info)" using subbits_trans [OF a(1) lr] subbits_andI(2) [OF c] unfolding subbits_or_iff by blast
  have keep: "subbits (in_caps h) ?c" if "hints = Some h" for h
  proof -
    have g: "subbits (in_caps h) (pi_caps i)" using assms(5) that by (simp add: usable_def grants_def)
    have e: "in_caps h AND ia_comm_caps a = in_caps h AND ?lr" using assms(4) that by (simp add: if_suits_def)
    have "bit ?c n" if n: "bit (in_caps h) n" for n
    proof (cases "bit ?lr n")
      case True
      then have "bit (in_caps h AND ia_comm_caps a) n" using n unfolding e by (simp only: bit_and_iff)
      then show ?thesis unfolding bit_or_iff bit_and_iff by blast
    next
      case False
      then show ?thesis using n g bit_range [OF n] unfolding subbits_iff by (simp only: bit_and_iff bit_or_iff bit_not_iff possible_bit_word) simp
    qed
    then show ?thesis unfolding subbits_iff by blast
  qed
  have ones: "has_flag ?c (FI_RMA OR FI_ATOMICS) \<Longrightarrow> has_flag (pi_caps i) (FI_RMA OR FI_ATOMICS)"
  proof -
    have "ia_comm_caps a AND 20 = 0" by (rule subbits_disjoint [OF a(1)]) simp
    then show "has_flag ?c (FI_RMA OR FI_ATOMICS) \<Longrightarrow> has_flag (pi_caps i) (FI_RMA OR FI_ATOMICS)"
      by (simp add: has_flag_def bit.conj_disj_distrib2 and.assoc)
  qed
  have "usable v hints (i\<lparr>pi_caps := ?c\<rparr>)" by (rule usable_caps [OF assms(5) sub keep ones])
  then show ?thesis using a(2) usable_format [of v hints _ FI_SOCKADDR_IN]
    by (simp add: if_info_def Let_def ofi_valid_addr_format_def is_ipv4addr_def)
qed

section \<open>Discovery\<close>

lemma ifs_usable:
  assumes "ipv4_env env" and "usable v hints i"
  shows "list_all (usable v hints) (util_getinfo_ifs env hints i)"
proof -
  have "list_all (usable v hints) (ifs_loop env hints i as)" if "set as \<subseteq> set (ge_ifs env)" for as
    using that by (induction as) (auto simp: if_info_usable [OF assms(1) _ _ _ assms(2)] split: option.splits)
  then show ?thesis using assms(2) by (simp add: util_getinfo_ifs_def Let_def)
qed

lemma ip_loop_usable:
  "ipv4_env env \<Longrightarrow> list_all (usable v hints) seen \<Longrightarrow> list_all (usable v hints) is \<Longrightarrow> list_all (usable v hints) (ip_loop env hints seen is)"
  by (induction "is" arbitrary: seen) (auto simp: ifs_usable name_by_addr_def split: option.splits)

lemma ip_loop_nonempty: "seen \<noteq> [] \<or> is \<noteq> [] \<Longrightarrow> ip_loop env hints seen is \<noteq> []"
  by (induction "is" arbitrary: seen) (auto simp: util_getinfo_ifs_def Let_def split: option.splits)

lemma getinfo_one_usable:
  assumes "ofi_check_info rds_info v hints = 0" and "ipv4_env env" and "orders_asked hints"
    and "getinfo_one env node service flags hints (ofi_alter_info rds_info hints v) = Inr j"
  shows "usable v hints j"
proof -
  let ?i = "ofi_alter_info rds_info hints v"
  have "keyed v (Some (pi_domain ?i)) \<longrightarrow> keyed v (Option.bind hints in_domain)"
    by (cases "Option.bind hints in_domain") (auto simp: keyed_def ofi_alter_info_def Let_def fi_alter_domain_attr_def rds_info_def rds_domain_attr_def)
  then have u: "usable v hints ?i" using alter_opens [OF assms(1,3)] alter_grants [OF assms(1)] by (simp add: usable_def)
  have f: "format_ok hints" using assms(1) by (auto simp: format_ok_def check_info_iff)
  obtain i1 where i1: "getinfo_addr env node service flags hints ?i = Inr i1" using assms(4) by (auto simp: getinfo_one_def split: sum.splits)
  have "pi_addr_format ?i = FI_SOCKADDR_IN" by (simp add: ofi_alter_info_def Let_def rds_info_def)
  then have u1: "usable v hints i1" using getinfo_addr_usable [OF f u _ i1] by simp
  define i2 where "i2 = (case (pi_dest_addr i1, pi_src_addr i1) of
      (Some d, None) \<Rightarrow> (case ofi_get_src_addr env (pi_addr_format i1) d of (f, a) \<Rightarrow> i1\<lparr>pi_addr_format := f, pi_src_addr := a\<rparr>) | _ \<Rightarrow> i1)"
  have "usable v hints i2" using u1 src_addr_usable [OF assms(2) u1] by (simp add: i2_def split: option.splits prod.splits)
  moreover have "ofi_dup_auth_keys env hints i2 = Inr j" using assms(4) i1 by (simp add: getinfo_one_def i2_def)
  ultimately show ?thesis using keys_usable [OF assms(1)] by blast
qed

lemma getinfo_usable:
  assumes "ipv4_env env" and "orders_asked hints" and "rds_getinfo env v node service flags hints = Inr infos"
  shows "infos \<noteq> [] \<and> list_all (usable v hints) infos"
proof -
  obtain js where js: "util_getinfo env [rds_info] v node service flags hints = Inr js" "infos = ip_loop env hints [] js"
    using assms(3) by (auto simp: rds_getinfo_def ofi_ip_getinfo_def split: sum.splits)
  then have c: "ofi_check_info rds_info v hints = 0" and "\<exists>j. getinfo_one env node service flags hints (ofi_alter_info rds_info hints v) = Inr j \<and> js = [j]"
    by (auto simp: util_getinfo_def ofi_prov_check_dup_info_def split: if_splits sum.splits)
  then obtain j where j: "getinfo_one env node service flags hints (ofi_alter_info rds_info hints v) = Inr j" "js = [j]" by blast
  have "usable v hints j" by (rule getinfo_one_usable [OF c assms(1,2) j(1)])
  then show ?thesis using ip_loop_usable [OF assms(1), of v hints "[]" "[j]"] ip_loop_nonempty [of "[]" "[j]"] j(2) js(2) by simp
qed

text \<open>Copies can be made.\<close>

definition plenty :: "addr_env \<Rightarrow> bool" where
  "plenty env \<longleftrightarrow> (\<forall>b. ge_dup env b) \<and> (\<forall>p. ge_dupinfo env p)"

lemma getinfo_finds:
  assumes "ofi_check_info rds_info v hints = 0" and "plenty env"
  shows "\<exists>infos. rds_getinfo env v None None 0 hints = Inr infos"
proof -
  have s: "\<exists>j. copy_src env hints i = Inr j" "\<exists>j. copy_dest env hints i = Inr j" for i
    using assms(2) by (auto simp: copy_src_def copy_dest_def plenty_def split: option.splits)
  have k: "\<exists>j. ofi_dup_auth_keys env hints i = Inr j" for i
    using assms(2) unfolding ofi_dup_auth_keys_def Let_def plenty_def by (simp split: option.splits)
  have "\<exists>j. getinfo_addr env None None 0 hints i = Inr j" for i
    using s(1) [of i] s(2) by (auto simp: getinfo_addr_def has_flag_def)
  then obtain i1 where "getinfo_addr env None None 0 hints (ofi_alter_info rds_info hints v) = Inr i1" by blast
  then obtain j where "getinfo_one env None None 0 hints (ofi_alter_info rds_info hints v) = Inr j"
    using k unfolding getinfo_one_def Let_def by auto
  then show ?thesis using assms
    by (simp add: rds_getinfo_def ofi_ip_getinfo_def util_getinfo_def ofi_prov_check_dup_info_def plenty_def has_flag_def)
qed


lemmas rds_caps = RDS_MSG_ORDER_def RDS_DOMAIN_CAPS_def RDS_TX_CAPS_def RDS_RX_CAPS_def OFI_PRIMARY_CAPS_def OFI_SECONDARY_CAPS_def
  OFI_IGNORED_TX_CAPS_def OFI_IGNORED_RX_CAPS_def

definition sample_if :: "nat \<Rightarrow> if_addr" where
  "sample_if f = \<lparr>ia_family = f, ia_addr = [2, 0, 0, 0, 10, 0, 0, 1], ia_comm_caps = FI_LOCAL_COMM OR FI_REMOTE_COMM,
     ia_net_name = ''10.0.0.0/8'', ia_ifa_name = ''eth0''\<rparr>"

definition sample_net :: "nat \<Rightarrow> addr_env" where
  "sample_net f = \<lparr>ge_resolve = (\<lambda>_ _ _ _. None), ge_src = (\<lambda>_. Inl (- 101)), ge_dup = (\<lambda>_. True), ge_dupinfo = (\<lambda>_. True),
     ge_strdup = (\<lambda>_. True), ge_ifs = [sample_if f]\<rparr>"

text \<open>Hints of an application that sends tagged messages with injects of 64 bytes.\<close>

definition sample_hints :: fi_info where
  "sample_hints = \<lparr>in_caps = FI_MSG OR FI_TAGGED, in_mode = 0, in_addr_format = FI_SOCKADDR_IN, in_src_addr = None, in_dest_addr = None,
     in_handle = 0, in_tx = Some \<lparr>ta_caps = 0, ta_mode = 0, ta_op_flags = 0, ta_msg_order = 0x100, ta_comp_order = 0, ta_inject_size = 64,
       ta_size = 0, ta_iov_limit = 2, ta_rma_iov_limit = 0\<rparr>, in_rx = None, in_ep = None, in_domain = None, in_fabric = None\<rparr>"

lemma sample_net_ipv4: "ipv4_env (sample_net AF_INET)"
  by (simp add: ipv4_env_def sample_net_def sample_if_def subbits_def)


section \<open>Where discovery and opening disagree\<close>

text \<open>Hints that leave the capabilities open and ask for ordered transfers of 2 MiB.\<close>

definition order_hints :: fi_info where
  "order_hints = \<lparr>in_caps = 0, in_mode = 0, in_addr_format = FI_SOCKADDR_IN, in_src_addr = None, in_dest_addr = None, in_handle = 0,
     in_tx = None, in_rx = None, in_ep = Some (rds_ep_attr\<lparr>ea_max_order_raw_size := 2097152\<rparr>), in_domain = None, in_fabric = None\<rparr>"

definition returned :: "int + prov_info list \<Rightarrow> prov_info list" where
  "returned r = (case r of Inl e \<Rightarrow> [] | Inr infos \<Rightarrow> infos)"

lemma rds_returns:
  assumes "ofi_check_info rds_info v hints = 0" and "\<And>h. hints = Some h \<Longrightarrow> in_src_addr h = None \<and> in_dest_addr h = None"
    and "Option.bind (Option.bind hints in_domain) da_auth_key = None" and "Option.bind (Option.bind hints in_ep) ea_auth_key = None"
    and "if_format (sample_if f) = Some g" and "if_suits hints g (sample_if f)"
  shows "returned (rds_getinfo (sample_net f) v None None 0 hints) = [if_info (sample_net f) g (sample_if f) (ofi_alter_info rds_info hints v)]"
proof -
  let ?i = "ofi_alter_info rds_info hints v" and ?env = "sample_net f"
  have env: "ge_dupinfo ?env p" "ge_ifs ?env = [sample_if f]" for p by (simp_all add: sample_net_def)
  have n: "pi_src_addr ?i = None" "pi_dest_addr ?i = None" by (simp_all add: ofi_alter_info_def Let_def rds_info_def)
  have "copy_src ?env hints ?i = Inr ?i" "copy_dest ?env hints ?i = Inr ?i"
    using assms(2) by (auto simp: copy_src_def copy_dest_def split: option.splits)
  then have "getinfo_addr ?env None None 0 hints ?i = Inr ?i" by (simp add: getinfo_addr_def has_flag_def)
  moreover have "ofi_dup_auth_keys ?env hints ?i = Inr ?i" using assms(3,4) by (simp add: ofi_dup_auth_keys_def Let_def split: option.splits)
  ultimately have "getinfo_one ?env None None 0 hints ?i = Inr ?i" by (simp add: getinfo_one_def n)
  then have "rds_getinfo ?env v None None 0 hints = Inr (util_getinfo_ifs ?env hints ?i)"
    using assms(1) by (simp add: rds_getinfo_def ofi_ip_getinfo_def util_getinfo_def ofi_prov_check_dup_info_def has_flag_def env n)
  then show ?thesis using assms(5,6) by (simp add: returned_def util_getinfo_ifs_def env)
qed


end
