(* ===== verification/Spec2Isabelle.thy ===== *)
theory Spec2Isabelle
  imports Ofi_Iov Rds_Wire Ofi_Rbtree Ofi_Mr_Cache Util_Av Rds_Reach Rds_Rendezvous Rds_Observe Rds_Delivery Rds_Retry Rds_Onesided
    Rds_Cached Rds_Ring_Refine Rds_Completion Util_Av_Count Util_Av_Pool Util_Objects_Run Rds_Getinfo
begin

text \<open>
  A verification library for the libfabric provider over Reliable Datagram Sockets
  (\<^verbatim>\<open>src/rds-provider/prov/rds/src\<close>, also shipped inside \<^verbatim>\<open>src/libfabric/prov/rds\<close>) and for the parts of
  libfabric it is built on (\<^verbatim>\<open>src/libfabric\<close>).

  \<^bold>\<open>The program.\<close>  An application opens a fabric, a domain, an address vector, completion queues and
  endpoints, and then sends, receives, reads and writes.  The provider turns this into datagrams and
  RDMA requests on one RDS socket per endpoint.  A short message travels inside a datagram or through
  a ring in the receiver's memory that the sender writes by RDMA.  A long message is a rendezvous: the
  sender registers its buffers and ships a descriptor (RTS), the receiver reads the data by RDMA, and
  a FIN tells the sender that it may release the registrations.  An operation the kernel refuses for
  lack of room is parked and retried by the progress engine, which runs whenever a completion queue or a
  counter is read.  Registrations of source buffers go through libfabric's registration cache, which
  keeps them in a red-black tree.

  \<^bold>\<open>How the code is modelled.\<close>  A C struct is a record, an enum or a tagged union a datatype, a list of
  \<^verbatim>\<open>dlist\<close> or \<^verbatim>\<open>slist\<close> entries a list, an error return the negative integer it is in C, an integer whose
  width matters a word.  An operation takes the state it works on and returns it updated.  The operating
  system is a record of functions of the history of calls (\<open>os\<close> in \<open>Rds_Os\<close>), so each theorem holds for
  every kernel that satisfies its hypotheses; the weakest and most used one is \<open>kernel_notifies\<close>: the kernel
  reports no RDMA completion that was not asked for.  The pool, the provider and the memory monitor a
  cache calls are a record of functions as well (\<open>cache_env\<close> in \<open>Ofi_Mr_Cache\<close>).

  \<^bold>\<open>The theories.\<close>

  \<^item> \<open>Rds_Prelude\<close>: machine types, return codes, byte memory, flag tests, lemmas on words and lists.

  \<^item> \<open>Ofi_Iov\<close> (\<^verbatim>\<open>include/ofi_iov.h\<close>, \<^verbatim>\<open>src/iov.c\<close>, \<^verbatim>\<open>rds_iov_slice\<close>): copying between a buffer and an iovec
    array, and cutting a window out of one.  The array denotes the sequence of bytes it gathers; every
    helper is shown equal to an operation on that sequence.

  \<^item> \<open>Rds_Wire\<close> (\<^verbatim>\<open>rds.h\<close>): the header, the rendezvous segment, the ring slot and the cookie as bytes, with
    round trips.

  \<^item> \<open>Ofi_Rbtree\<close>, \<open>Ofi_Rbtree_Balance\<close> (\<^verbatim>\<open>src/tree.c\<close>): insertion, deletion and search with both rebalancing
    loops; the red-black and ordering invariants and the logarithmic height; the locale \<open>search_order\<close>
    says what a comparison callback must satisfy for a search to be right.

  \<^item> \<open>Ofi_Mr_Cache\<close>, \<open>Ofi_Mr_Cache_Inv\<close>, \<open>Ofi_Mr_Cache_Run\<close> (\<^verbatim>\<open>prov/util/src/util_mr_cache.c\<close>): search, creation,
    release, flush, notification.  The invariant relates tree, LRU list, dead list and counters; the
    locale \<open>cache_client\<close> gives a client what a lookup returns, \<open>cache_observer\<close> what a lookup leaves alone.

  \<^item> \<open>Util_Av\<close>, \<open>Util_Av_Count\<close> (\<^verbatim>\<open>prov/util/src/util_av.c\<close>): the address vector and its refinement of a
    multiset of addresses.

  \<^item> \<open>Ofi_Bufpool\<close>, \<open>Ofi_Bufpool_Inv\<close>, \<open>Ofi_Bufpool_Run\<close> (\<^verbatim>\<open>prov/util/src/util_buf.c\<close>, \<^verbatim>\<open>include/ofi_mem.h\<close>): buffer pools, with
    headers and free lists in an address space.  An indexed pool is refined to the set of indices in use:
    an allocation takes the lowest free one and buffers never overlap, provided that the system's allocator hands out
    memory that is not in use.  \<open>Util_Av_Pool\<close> runs the address vector on such a pool and discharges what
    \<open>Util_Av_Count\<close> assumes of it.

  \<^item> \<open>Util_Cq\<close>, \<open>Util_Cq_Fifo\<close> (\<^verbatim>\<open>prov/util/src/util_cq.c\<close>, \<^verbatim>\<open>include/ofi_util.h\<close>, \<^verbatim>\<open>include/ofi_rbuf.h\<close>): the completion
    queue with its overflow list, refined to a first-in first-out queue, counter wrap-around included.

  \<^item> \<open>Util_Objects\<close>, \<open>Util_Objects_Inv\<close>, \<open>Util_Objects_Domain\<close>, \<open>Util_Objects_Ep\<close>, \<open>Util_Objects_Run\<close>
    (\<^verbatim>\<open>util_fabric.c\<close>, \<^verbatim>\<open>util_eq.c\<close>, \<^verbatim>\<open>util_domain.c\<close>, \<^verbatim>\<open>util_cntr.c\<close>, \<^verbatim>\<open>util_ep.c\<close>, the init and close functions of
    \<^verbatim>\<open>util_av.c\<close> and \<^verbatim>\<open>util_cq.c\<close>, and the provider's \<^verbatim>\<open>rds_fabric.c\<close>, \<^verbatim>\<open>rds_domain.c\<close>, \<^verbatim>\<open>rds_cq.c\<close>): which object
    points to which, reference counts, and the calls that open, bind and close them.  A store maps the
    names of live objects to their contents, and following a pointer to a freed object is \<open>None\<close>; the
    theorems say when that cannot happen, and where it does.  The result of the attribute check is an
    argument of the calls that open a domain or an endpoint; it is \<open>ofi_prov_check_info\<close> of \<open>Util_Attr\<close>.

  \<^item> \<open>Util_Attr\<close>, \<open>Util_Getinfo\<close> (\<^verbatim>\<open>util_attr.c\<close>, \<^verbatim>\<open>util_main.c\<close>, the address helpers of \<^verbatim>\<open>util_av.c\<close>), \<open>Rds_Attr\<close>, \<open>Rds_Getinfo\<close>
    (\<^verbatim>\<open>rds_attr.c\<close>, \<^verbatim>\<open>rds_init.c\<close>): the attributes, the checks of an application's hints against the provider's
    tables, the adjustment of what is returned, and discovery over IP.  What discovery returns passes the
    checks that opening repeats and grants the hints; the hypotheses mark where the code falls short.

  \<^item> \<open>Rds_Os\<close>, \<open>Rds_State\<close>: the system calls with their history, and the provider's structs.

  \<^item> \<open>Rds_Mr\<close> (\<^verbatim>\<open>rds_mr.c\<close>), \<open>Rds_Core\<close> (completions, pending list, posting RDMA, FINs), \<open>Rds_Ring\<close> and
    \<open>Rds_Progress\<close> (\<^verbatim>\<open>rds_eager.c\<close>, \<^verbatim>\<open>rds_progress.c\<close>), \<open>Rds_Msg\<close> and \<open>Rds_Send\<close> (\<^verbatim>\<open>rds_msg.c\<close>), \<open>Rds_Rma\<close> (\<^verbatim>\<open>rds_rma.c\<close>),
    \<open>Rds_Ep\<close> (\<^verbatim>\<open>rds_ep.c\<close>, \<^verbatim>\<open>rds_init.c\<close>): one definition per C function, in the order of the code.

  \<^item> \<open>Rds_Account\<close>, \<open>Rds_Nohang\<close>, \<open>Rds_Live\<close>, \<open>Rds_Reach\<close>: the accounting invariant.  Every pending operation
    waits for notifications the kernel owes, for parked requests that will be retried, or for a FIN; the
    budget of rendezvous sends equals the sends pending.  Every call keeps it, so it holds in every
    reachable state: no operation is left waiting for nothing.

  \<^item> \<open>Rds_Observe\<close>: locales for observations of the endpoint that parts of the data path leave unchanged, each
    law proved once per handler and interpreted for the receive lists and the configuration; from it, that no
    posted receive matches a message that waits.

  \<^item> \<open>Rds_Rendezvous\<close>, \<open>Rds_Retry\<close>, \<open>Rds_Delivery\<close>, \<open>Rds_Onesided\<close>, \<open>Rds_Cached\<close>: what each data path does for its
    callers, end to end and on its error paths.

  \<^item> \<open>Rds_Ring_Protocol\<close>, \<open>Rds_Ring_Refine\<close>: both ends of an eager ring with the hardware between them as a step
    relation, its invariant, and the simulation by the code of \<^verbatim>\<open>rds_eager.c\<close>.

  \<^item> \<open>Rds_Completion\<close>: the completions of the data path, which the endpoint model logs, are what the completion
    queue of the utility layer holds and hands out.

  \<^item> \<open>Rds_Testbed\<close>: a concrete kernel and domain at which theorems with hypotheses are applied.

  \<^bold>\<open>Loops and bounds.\<close>  Loops over arrays and lists are structural recursion, or recursion with a
  termination proof (\<open>chunks\<close>, \<open>rma_loop\<close>, \<open>progress_deferred_loop\<close>, \<open>grow_to\<close>).  The socket loop of the progress engine
  takes the 256 turns of its budget, as in the code.  The polling loop of a ring has no bound in the code;
  it is given as many turns as the ring has slots plus one, and the claim on draining shows that the loop
  ends within the slots of the ring, with every landed message taken, and that more turns change nothing.
  The retry loop of a cache lookup is a partial function with \<open>None\<close> for a loop that never ends; it is shown
  to return unless the provider itself keeps asking for a retry, and one theorem shows that it then spins.
  Operation identifiers are 64-bit counters; the claims on reachable states bound a run by the identifiers
  it can take before the counter wraps.

  \<^bold>\<open>Not modelled.\<close>  Threads: the calls on one endpoint are taken one at a time, as under the endpoint's lock.
  Wait objects, poll sets and blocking reads, which are file descriptors and condition variables of the
  system.  For the pool of the registration cache and the lists of the data path, an allocation is a result of the
  environment.  The core's loading and
  layering of providers around discovery.  The contents of event queues and the values of counters, which the
  provider never writes.  Memory monitors, which the cache sees as notifications.  Collectives and atomics, which the provider refuses.
  The other providers of the libfabric tree, device memory, logging, the tests and the tools.
\<close>

end
